(* ===== verification/Dfw_Prelude.thy ===== *)
theory Dfw_Prelude
  imports Main "HOL-Library.Word" "HOL-Library.Sublist" "HOL-Library.Char_ord"
begin

text \<open>
  Shared vocabulary of the development: bytes and C characters, the functions of the C
  standard library that the sources call on strings (\<open>strlen\<close>, \<open>strstr\<close>,
  \<open>strrchr\<close>, \<open>strcasecmp\<close>, \<open>strtol\<close>, \<open>atoi\<close>, \<open>isxdigit\<close>, \<dots>), and
  generic list lemmas.  A C string is the list of its characters before the terminating NUL;
  \<open>cstr\<close> cuts a byte list at its first NUL, which is what a C function sees of a buffer.
\<close>

named_theorems cstring_simps \<open>equations of the C string functions on concrete shapes\<close>

type_synonym byte = "8 word"

subsection \<open>Characters\<close>

abbreviation NUL :: char where "NUL \<equiv> CHR 0x00"
abbreviation CR :: char where "CR \<equiv> CHR 0x0D"
abbreviation LF :: char where "LF \<equiv> CHR 0x0A"
abbreviation TAB :: char where "TAB \<equiv> CHR 0x09"
abbreviation SPC :: char where "SPC \<equiv> CHR 0x20"
abbreviation DQUOTE :: char where "DQUOTE \<equiv> CHR 0x22"
abbreviation BACKSLASH :: char where "BACKSLASH \<equiv> CHR 0x5C"
abbreviation CRLF :: string where "CRLF \<equiv> [CR, LF]"

text \<open>The unsigned and the signed value of a \<open>char\<close> (the ABI's plain \<open>char\<close> is signed).\<close>

definition uchar :: "char \<Rightarrow> nat" where
  "uchar c = of_char c"

definition schar :: "char \<Rightarrow> int" where
  "schar c = (let n = int (of_char c :: nat) in if n < 128 then n else n - 256)"

lemma uchar_lt: "uchar c < 256"
  by (simp add: uchar_def)

lemma schar_eq_iff [simp]: "schar a = schar b \<longleftrightarrow> a = b"
proof
  assume "schar a = schar b"
  moreover have "uchar a < 256" "uchar b < 256" by (rule uchar_lt)+
  ultimately have "uchar a = uchar b"
    unfolding schar_def Let_def uchar_def[symmetric] by (simp split: if_splits)
  then show "a = b" by (simp add: uchar_def)
qed simp

text \<open>ASCII classes and case mapping in the C locale.\<close>

definition c_isupper :: "char \<Rightarrow> bool" where
  "c_isupper c \<longleftrightarrow> 65 \<le> uchar c \<and> uchar c \<le> 90"
definition c_islower :: "char \<Rightarrow> bool" where
  "c_islower c \<longleftrightarrow> 97 \<le> uchar c \<and> uchar c \<le> 122"
definition c_isdigit :: "char \<Rightarrow> bool" where
  "c_isdigit c \<longleftrightarrow> 48 \<le> uchar c \<and> uchar c \<le> 57"
definition c_isxdigit :: "char \<Rightarrow> bool" where
  "c_isxdigit c \<longleftrightarrow> c_isdigit c \<or> (65 \<le> uchar c \<and> uchar c \<le> 70) \<or> (97 \<le> uchar c \<and> uchar c \<le> 102)"
definition c_isspace :: "char \<Rightarrow> bool" where
  "c_isspace c \<longleftrightarrow> uchar c = 32 \<or> (9 \<le> uchar c \<and> uchar c \<le> 13)"
definition c_tolower :: "char \<Rightarrow> char" where
  "c_tolower c = (if c_isupper c then char_of (uchar c + 32) else c)"

definition digit_val :: "char \<Rightarrow> int" where
  "digit_val c = int (uchar c) - 48"

subsection \<open>C strings\<close>

definition cstr :: "string \<Rightarrow> string" where
  "cstr b = takeWhile (\<lambda>c. c \<noteq> NUL) b"

lemma cstr_id [simp]: "NUL \<notin> set b \<Longrightarrow> cstr b = b"
  by (simp add: cstr_def takeWhile_eq_all_conv) metis

lemma cstr_Nil [simp]: "cstr [] = []"
  by (simp add: cstr_def)

lemma cstr_no_nul [simp]: "NUL \<notin> set (cstr b)"
  by (auto simp: cstr_def dest: set_takeWhileD)

lemma cstr_append_nul [simp]: "NUL \<notin> set a \<Longrightarrow> cstr (a @ NUL # b) = a"
  by (induction a) (auto simp: cstr_def)

lemma length_cstr_le: "length (cstr b) \<le> length b"
  by (simp add: cstr_def length_takeWhile_le)

lemma cstr_take: "cstr b = take (length (cstr b)) b"
  unfolding cstr_def by (rule takeWhile_eq_take)

text \<open>\<open>strstr\<close>: the offset of the first occurrence.\<close>

fun strstr :: "'a list \<Rightarrow> 'a list \<Rightarrow> nat option" where
  "strstr [] needle = (if needle = [] then Some 0 else None)"
| "strstr (c # hay) needle =
     (if prefix needle (c # hay) then Some 0 else map_option Suc (strstr hay needle))"

lemma strstr_SomeD:
  "strstr hay needle = Some i \<Longrightarrow>
     i \<le> length hay \<and> prefix needle (drop i hay) \<and> (\<forall>j<i. \<not> prefix needle (drop j hay))"
proof (induction hay arbitrary: i)
  case (Cons c hay)
  show ?case
  proof (cases "prefix needle (c # hay)")
    case True
    with Cons.prems show ?thesis by auto
  next
    case False
    with Cons.prems obtain k where k: "strstr hay needle = Some k" "i = Suc k" by auto
    from Cons.IH[OF k(1)] k(2) False show ?thesis
      by (auto simp: less_Suc_eq_0_disj)
  qed
qed (auto split: if_splits)

lemma strstr_None_iff:
  "strstr hay needle = None \<longleftrightarrow> (\<forall>j\<le>length hay. \<not> prefix needle (drop j hay))"
proof (induction hay)
  case (Cons c hay)
  have "(\<forall>j\<le>length (c # hay). \<not> prefix needle (drop j (c # hay))) \<longleftrightarrow>
    \<not> prefix needle (c # hay) \<and> (\<forall>j\<le>length hay. \<not> prefix needle (drop j hay))"
    by (metis Suc_le_mono drop0 drop_Suc_Cons le0 length_Cons not0_implies_Suc)
  with Cons.IH show ?case by auto
qed auto

lemma strstr_Some_split:
  assumes "strstr hay needle = Some i"
  shows "hay = take i hay @ needle @ drop (i + length needle) hay"
proof -
  from strstr_SomeD[OF assms] obtain t where t: "drop i hay = needle @ t"
    by (auto simp: prefix_def)
  then have "t = drop (i + length needle) hay"
    by (metis add.commute append_eq_conv_conj drop_drop)
  with t show ?thesis by (metis append_take_drop_id)
qed

lemma strstr_Some_length:
  "strstr hay needle = Some i \<Longrightarrow> i + length needle \<le> length hay"
  by (drule strstr_SomeD) (auto dest!: prefix_length_le)

lemma strstr_eqI:
  assumes "prefix needle (drop i hay)" "i \<le> length hay"
    "\<And>j. j < i \<Longrightarrow> \<not> prefix needle (drop j hay)"
  shows "strstr hay needle = Some i"
proof (cases "strstr hay needle")
  case None
  with assms show ?thesis by (auto simp: strstr_None_iff)
next
  case (Some k)
  from strstr_SomeD[OF this] assms have "\<not> k < i" "\<not> i < k" by blast+
  with Some show ?thesis by simp
qed

lemma strstr_append_notin:
  "c \<notin> set a \<Longrightarrow> strstr (a @ c # b) (c # n) = map_option (\<lambda>k. length a + k) (strstr (c # b) (c # n))"
  by (induction a) (auto simp: option.map_comp o_def)

lemma strstr_single: "strstr hay [c] = (if c \<in> set hay then Some (length (takeWhile (\<lambda>x. x \<noteq> c) hay)) else None)"
  by (induction hay) auto

text \<open>The last offset at which the needle occurs (\<open>strrchr\<close>, \<open>lastIndexOf\<close>).\<close>

definition strrstr_spec :: "'a list \<Rightarrow> 'a list \<Rightarrow> nat option" where
  "strrstr_spec hay needle =
     (case filter (\<lambda>i. prefix needle (drop i hay)) [0..<Suc (length hay)] of
        [] \<Rightarrow> None | is \<Rightarrow> Some (last is))"

fun strrchr :: "'a list \<Rightarrow> 'a \<Rightarrow> nat option" where
  "strrchr [] c = None"
| "strrchr (x # xs) c =
     (case strrchr xs c of Some i \<Rightarrow> Some (Suc i) | None \<Rightarrow> if x = c then Some 0 else None)"

lemma strrchr_None_iff: "strrchr xs c = None \<longleftrightarrow> c \<notin> set xs"
  by (induction xs) (auto split: option.splits)

lemma strrchr_SomeD:
  "strrchr xs c = Some i \<Longrightarrow> i < length xs \<and> xs ! i = c \<and> c \<notin> set (drop (Suc i) xs)"
proof (induction xs arbitrary: i)
  case (Cons x xs)
  then show ?case
    by (cases "strrchr xs c") (auto simp: strrchr_None_iff split: if_splits)
qed simp

subsection \<open>Case-insensitive comparison\<close>

definition strcaseeq :: "string \<Rightarrow> string \<Rightarrow> bool" where
  "strcaseeq a b \<longleftrightarrow> map c_tolower a = map c_tolower b"

definition strncaseeq :: "string \<Rightarrow> string \<Rightarrow> nat \<Rightarrow> bool" where
  "strncaseeq a b n \<longleftrightarrow> strcaseeq (take n a) (take n b)"

definition strcasestr :: "string \<Rightarrow> string \<Rightarrow> nat option" where
  "strcasestr hay needle = strstr (map c_tolower hay) (map c_tolower needle)"

lemma strcaseeq_refl [simp]: "strcaseeq a a"
  by (simp add: strcaseeq_def)

lemma strcaseeq_sym: "strcaseeq a b \<longleftrightarrow> strcaseeq b a"
  by (auto simp: strcaseeq_def)

lemma strcaseeq_trans: "strcaseeq a b \<Longrightarrow> strcaseeq b c \<Longrightarrow> strcaseeq a c"
  by (simp add: strcaseeq_def)

lemma strcaseeq_length: "strcaseeq a b \<Longrightarrow> length a = length b"
  unfolding strcaseeq_def by (metis length_map)

subsection \<open>Numbers\<close>

text \<open>
  \<open>strtol\<close>/\<open>atoi\<close>/\<open>atol\<close>: skip white space, an optional sign, then the longest run
  of digits.  The result is the mathematical value; conversion to the width of the C type is
  written at each call.
\<close>

definition hex_val :: "char \<Rightarrow> nat" where
  "hex_val c = (if c_isdigit c then uchar c - 48
                else if 97 \<le> uchar c then uchar c - 87 else uchar c - 55)"

fun dec_run :: "nat \<Rightarrow> string \<Rightarrow> nat" where
  "dec_run acc [] = acc"
| "dec_run acc (c # cs) = (if c_isdigit c then dec_run (10 * acc + (uchar c - 48)) cs else acc)"

fun hex_run :: "nat \<Rightarrow> string \<Rightarrow> nat" where
  "hex_run acc [] = acc"
| "hex_run acc (c # cs) = (if c_isxdigit c then hex_run (16 * acc + hex_val c) cs else acc)"

definition split_sign :: "string \<Rightarrow> bool \<times> string" where
  "split_sign s = (case dropWhile c_isspace s of
      [] \<Rightarrow> (False, [])
    | c # cs \<Rightarrow> if c = CHR ''-'' then (True, cs) else if c = CHR ''+'' then (False, cs) else (False, c # cs))"

definition c_atoi :: "string \<Rightarrow> int" where
  "c_atoi s = (case split_sign s of (neg, ds) \<Rightarrow>
     if neg then - int (dec_run 0 ds) else int (dec_run 0 ds))"

definition strip_0x :: "string \<Rightarrow> string" where
  "strip_0x s = (case s of
      z # x # d # r \<Rightarrow> if z = CHR ''0'' \<and> (x = CHR ''x'' \<or> x = CHR ''X'') \<and> c_isxdigit d then d # r else s
    | _ \<Rightarrow> s)"

definition c_strtol16 :: "string \<Rightarrow> int" where
  "c_strtol16 s = (case split_sign s of (neg, ds) \<Rightarrow>
     (let v = int (hex_run 0 (strip_0x ds)) in if neg then - v else v))"

text \<open>The conversion to \<open>int\<close> (two's complement, 32 bits), and the lengths it keeps.\<close>

definition to_int32 :: "int \<Rightarrow> int" where
  "to_int32 z = (z + 2 ^ 31) mod 2 ^ 32 - 2 ^ 31"

lemma to_int32_id: "- (2 ^ 31) \<le> z \<Longrightarrow> z < 2 ^ 31 \<Longrightarrow> to_int32 z = z"
  by (simp add: to_int32_def)

lemma to_int32_of_nat: "n < 2 ^ 31 \<Longrightarrow> to_int32 (int n) = int n"
  by (simp add: to_int32_def)

lemma to_int32_minus1 [simp]: "to_int32 (-1) = -1"
  by (simp add: to_int32_def)

lemma to_int32_wraps: "2 ^ 31 \<le> z \<Longrightarrow> to_int32 z \<le> z - 2 ^ 32"
proof -
  assume "2 ^ 31 \<le> z"
  then have "2147483648 \<le> z" by simp
  then have "4294967296 \<le> z + 2147483648" by linarith
  then have "1 \<le> (z + 2147483648) div 4294967296" using zdiv_mono1[of 4294967296 "z + 2147483648" 4294967296] by simp
  moreover have "(z + 2147483648) mod 4294967296 = z + 2147483648 - 4294967296 * ((z + 2147483648) div 4294967296)"
    by (simp add: minus_mult_div_eq_mod)
  ultimately have "(z + 2147483648) mod 4294967296 - 2147483648 \<le> z - 4294967296" by linarith
  then show ?thesis by (simp add: to_int32_def)
qed

lemma to_int32_bounds: "- (2 ^ 31) \<le> to_int32 z \<and> to_int32 z < 2 ^ 31"
proof -
  have "0 \<le> (z + 2 ^ 31) mod 2 ^ 32 \<and> (z + 2 ^ 31) mod 2 ^ 32 < (2 ^ 32 :: int)" by simp
  then show ?thesis unfolding to_int32_def by simp
qed

text \<open>C's division truncates.\<close>

definition cdiv :: "int \<Rightarrow> int \<Rightarrow> int" where
  "cdiv a b = (if a < 0 then - ((- a) div b) else a div b)"

definition crem :: "int \<Rightarrow> int \<Rightarrow> int" where
  "crem a b = a - b * cdiv a b"

lemma cdiv_pos [simp]: "0 \<le> a \<Longrightarrow> cdiv a b = a div b"
  by (simp add: cdiv_def)

lemma crem_pos: "0 \<le> a \<Longrightarrow> crem a b = a mod b"
  by (simp add: crem_def minus_mult_div_eq_mod)

subsection \<open>Decimal printing (the \<open>%d\<close> and \<open>%llu\<close> conversions)\<close>

fun show_nat :: "nat \<Rightarrow> string" where
  "show_nat n = (if n < 10 then [char_of (n + 48)] else show_nat (n div 10) @ [char_of (n mod 10 + 48)])"

declare show_nat.simps [simp del]

definition show_int :: "int \<Rightarrow> string" where
  "show_int i = (if i < 0 then CHR ''-'' # show_nat (nat (- i)) else show_nat (nat i))"

fun show_hex :: "nat \<Rightarrow> string" where
  "show_hex n = (if n < 16 then [''0123456789abcdef'' ! n]
                 else show_hex (n div 16) @ [''0123456789abcdef'' ! (n mod 16)])"

declare show_hex.simps [simp del]

lemma digit_char_facts:
  assumes "d < 10"
  shows "uchar (char_of (d + 48)) = d + 48" "c_isdigit (char_of (d + 48))"
  using assms by (simp_all add: uchar_def c_isdigit_def)

lemma dec_run_append_digits:
  "\<forall>c\<in>set a. c_isdigit c \<Longrightarrow> dec_run acc (a @ b) = dec_run (dec_run acc a) b"
  by (induction a arbitrary: acc) auto

lemma show_nat_digits: "\<forall>c\<in>set (show_nat n). c_isdigit c"
proof (induction n rule: show_nat.induct)
  case (1 n)
  then show ?case
    by (subst show_nat.simps) (auto simp: digit_char_facts)
qed

lemma dec_run_show_nat: "dec_run 0 (show_nat n) = n"
proof (induction n rule: show_nat.induct)
  case (1 n)
  show ?case
  proof (cases "n < 10")
    case True
    then show ?thesis by (subst show_nat.simps) (simp add: digit_char_facts)
  next
    case False
    with 1 have "dec_run 0 (show_nat (n div 10)) = n div 10" by simp
    with False show ?thesis
      by (subst show_nat.simps)
        (simp add: dec_run_append_digits[OF show_nat_digits] digit_char_facts)
  qed
qed

lemma show_nat_not_Nil [simp]: "show_nat n \<noteq> []"
  by (subst show_nat.simps) simp

subsection \<open>Lists\<close>

lemma nth_append_length_eq [simp]: "length a = n \<Longrightarrow> (a @ x # b) ! n = x"
  by (auto simp: nth_append)

lemma take_drop_cancel: "i \<le> j \<Longrightarrow> take i xs @ take (j - i) (drop i xs) = take j xs"
  by (metis add_diff_cancel_right' append.right_neutral le_add_diff_inverse take_add)

text \<open>The list with position \<open>i\<close> cut out, and with \<open>x\<close> put before position \<open>i\<close>.\<close>

definition remove_nth :: "nat \<Rightarrow> 'a list \<Rightarrow> 'a list" where
  "remove_nth i xs = take i xs @ drop (Suc i) xs"

definition insert_nth :: "nat \<Rightarrow> 'a \<Rightarrow> 'a list \<Rightarrow> 'a list" where
  "insert_nth i x xs = take i xs @ x # drop i xs"

lemma nth_list_update_if: "xs[i := x] ! j = (if i = j \<and> j < length xs then x else xs ! j)"
  by (cases "i < length xs") (auto simp: nth_list_update list_update_beyond)

lemma set_insert_nth [simp]: "set (insert_nth i x xs) = insert x (set xs)"
  by (metis Un_insert_right append_take_drop_id insert_nth_def list.simps(15) set_append)

lemma distinct_insert_nth [simp]: "distinct (insert_nth i x xs) \<longleftrightarrow> x \<notin> set xs \<and> distinct xs"
proof -
  have "distinct (insert_nth i x xs) \<longleftrightarrow> distinct (x # take i xs @ drop i xs)"
    unfolding insert_nth_def by (auto simp del: append_take_drop_id)
  then show ?thesis by simp
qed

lemma length_insert_nth [simp]: "length (insert_nth i x xs) = Suc (length xs)"
  by (simp add: insert_nth_def)

lemma length_remove_nth [simp]: "i < length xs \<Longrightarrow> length (remove_nth i xs) = length xs - 1"
  by (simp add: remove_nth_def)

end
