(* ===== verification/Dfw_Retval.thy ===== *)
theory Dfw_Retval
  imports Dfw_Prelude
begin

text \<open>
  \<open>include/dframework/base/Retval.h\<close> and \<open>lib/base/Retval.cpp\<close>: the result object every
  operation of the library returns.  A NULL \<open>sp<Retval>\<close> is success; otherwise the object
  carries a code of the enumeration \<open>dfw_retno_t\<close>, an errno, a message and the frames it was
  handed through.  The other theories use the view \<open>rv\<close> (code and errno, \<open>None\<close> for NULL);
  frames and messages are diagnostics.
\<close>

section \<open>Codes\<close>

abbreviation (input) DFW_OK :: int where "DFW_OK \<equiv> 0"
abbreviation (input) DFW_T_COMPLETE :: int where "DFW_T_COMPLETE \<equiv> 1"
abbreviation (input) DFW_T_CHUNKED_END :: int where "DFW_T_CHUNKED_END \<equiv> 2"
abbreviation (input) DFW_T_RECONNECT :: int where "DFW_T_RECONNECT \<equiv> 3"
abbreviation (input) DFW_T_READY :: int where "DFW_T_READY \<equiv> 4"
abbreviation (input) DFW_T_RUN :: int where "DFW_T_RUN \<equiv> 5"
abbreviation (input) DFW_T_STOP :: int where "DFW_T_STOP \<equiv> 6"
abbreviation (input) DFW_T_CANCLE :: int where "DFW_T_CANCLE \<equiv> 7"
abbreviation (input) DFW_T_ETC :: int where "DFW_T_ETC \<equiv> 8"
abbreviation (input) DFW_T_CONTINUE :: int where "DFW_T_CONTINUE \<equiv> 9"
abbreviation (input) DFW_CODE :: int where "DFW_CODE \<equiv> 10"
abbreviation (input) DFW_ERROR :: int where "DFW_ERROR \<equiv> 2001"
abbreviation (input) DFW_E_INTR :: int where "DFW_E_INTR \<equiv> 2002"
abbreviation (input) DFW_E_AGAIN :: int where "DFW_E_AGAIN \<equiv> 2003"
abbreviation (input) DFW_E_TIMEOUT :: int where "DFW_E_TIMEOUT \<equiv> 2004"
abbreviation (input) DFW_E_INVAL :: int where "DFW_E_INVAL \<equiv> 2005"
abbreviation (input) DFW_E_NOMEM :: int where "DFW_E_NOMEM \<equiv> 2006"
abbreviation (input) DFW_E_DEADLK :: int where "DFW_E_DEADLK \<equiv> 2007"
abbreviation (input) DFW_E_BUSY :: int where "DFW_E_BUSY \<equiv> 2008"
abbreviation (input) DFW_E_PERM :: int where "DFW_E_PERM \<equiv> 2009"
abbreviation (input) DFW_E_ACCES :: int where "DFW_E_ACCES \<equiv> 2010"
abbreviation (input) DFW_E_BADF :: int where "DFW_E_BADF \<equiv> 2011"
abbreviation (input) DFW_E_FAULT :: int where "DFW_E_FAULT \<equiv> 2012"
abbreviation (input) DFW_E_LOOP :: int where "DFW_E_LOOP \<equiv> 2013"
abbreviation (input) DFW_E_NAMETOOLONG :: int where "DFW_E_NAMETOOLONG \<equiv> 2014"
abbreviation (input) DFW_E_NOENT :: int where "DFW_E_NOENT \<equiv> 2015"
abbreviation (input) DFW_E_NOTDIR :: int where "DFW_E_NOTDIR \<equiv> 2016"
abbreviation (input) DFW_E_OVERFLOW :: int where "DFW_E_OVERFLOW \<equiv> 2017"
abbreviation (input) DFW_E_MFILE :: int where "DFW_E_MFILE \<equiv> 2018"
abbreviation (input) DFW_E_NFILE :: int where "DFW_E_NFILE \<equiv> 2019"
abbreviation (input) DFW_E_NOSPC :: int where "DFW_E_NOSPC \<equiv> 2020"
abbreviation (input) DFW_E_AFNOSUPPORT :: int where "DFW_E_AFNOSUPPORT \<equiv> 2021"
abbreviation (input) DFW_E_PROTONOSUPPORT :: int where "DFW_E_PROTONOSUPPORT \<equiv> 2022"
abbreviation (input) DFW_E_NOPROTOOPT :: int where "DFW_E_NOPROTOOPT \<equiv> 2023"
abbreviation (input) DFW_E_NOTSOCK :: int where "DFW_E_NOTSOCK \<equiv> 2024"
abbreviation (input) DFW_E_NOLCK :: int where "DFW_E_NOLCK \<equiv> 2025"
abbreviation (input) DFW_E_ADDRINUSE :: int where "DFW_E_ADDRINUSE \<equiv> 2026"
abbreviation (input) DFW_E_ALREADY :: int where "DFW_E_ALREADY \<equiv> 2027"
abbreviation (input) DFW_E_CONNREFUSED :: int where "DFW_E_CONNREFUSED \<equiv> 2028"
abbreviation (input) DFW_E_ISCONN :: int where "DFW_E_ISCONN \<equiv> 2029"
abbreviation (input) DFW_E_NETUNREACH :: int where "DFW_E_NETUNREACH \<equiv> 2030"
abbreviation (input) DFW_E_DESTADDRREQ :: int where "DFW_E_DESTADDRREQ \<equiv> 2031"
abbreviation (input) DFW_E_FBIG :: int where "DFW_E_FBIG \<equiv> 2032"
abbreviation (input) DFW_E_PIPE :: int where "DFW_E_PIPE \<equiv> 2033"
abbreviation (input) DFW_E_IO :: int where "DFW_E_IO \<equiv> 2034"
abbreviation (input) DFW_E_ISDIR :: int where "DFW_E_ISDIR \<equiv> 2035"
abbreviation (input) DFW_E_ILSEQ :: int where "DFW_E_ILSEQ \<equiv> 2036"
abbreviation (input) DFW_E_RANGE :: int where "DFW_E_RANGE \<equiv> 2037"
abbreviation (input) DFW_E_EXIST :: int where "DFW_E_EXIST \<equiv> 2038"
abbreviation (input) DFW_E_NODEV :: int where "DFW_E_NODEV \<equiv> 2039"
abbreviation (input) DFW_E_NXIO :: int where "DFW_E_NXIO \<equiv> 2040"
abbreviation (input) DFW_E_ROFS :: int where "DFW_E_ROFS \<equiv> 2041"
abbreviation (input) DFW_E_TXTBSY :: int where "DFW_E_TXTBSY \<equiv> 2042"
abbreviation (input) DFW_E_NOTBLK :: int where "DFW_E_NOTBLK \<equiv> 2044"
abbreviation (input) DFW_E_NOTCONN :: int where "DFW_E_NOTCONN \<equiv> 2046"
abbreviation (input) DFW_E_PROTO :: int where "DFW_E_PROTO \<equiv> 2047"
abbreviation (input) DFW_E_NOSYS :: int where "DFW_E_NOSYS \<equiv> 2048"
abbreviation (input) DFW_E_SRCH :: int where "DFW_E_SRCH \<equiv> 2049"
abbreviation (input) DFW_E_NOTTY :: int where "DFW_E_NOTTY \<equiv> 2050"
abbreviation (input) DFW_E_NOSUPPORT :: int where "DFW_E_NOSUPPORT \<equiv> 2201"
abbreviation (input) DFW_E_ADDRFAMILY :: int where "DFW_E_ADDRFAMILY \<equiv> 2202"
abbreviation (input) DFW_E_BADFLAGS :: int where "DFW_E_BADFLAGS \<equiv> 2203"
abbreviation (input) DFW_E_FAIL :: int where "DFW_E_FAIL \<equiv> 2204"
abbreviation (input) DFW_E_FAMILY :: int where "DFW_E_FAMILY \<equiv> 2205"
abbreviation (input) DFW_E_NODATA :: int where "DFW_E_NODATA \<equiv> 2206"
abbreviation (input) DFW_E_NONAME :: int where "DFW_E_NONAME \<equiv> 2207"
abbreviation (input) DFW_E_SERVICE :: int where "DFW_E_SERVICE \<equiv> 2208"
abbreviation (input) DFW_E_SOCKTYPE :: int where "DFW_E_SOCKTYPE \<equiv> 2209"
abbreviation (input) DFW_E_SYSTEM :: int where "DFW_E_SYSTEM \<equiv> 2210"
abbreviation (input) DFW_E_ADDRTYPE :: int where "DFW_E_ADDRTYPE \<equiv> 2211"
abbreviation (input) DFW_E_OPNOTSUPP :: int where "DFW_E_OPNOTSUPP \<equiv> 2212"
abbreviation (input) DFW_E_HANDLE :: int where "DFW_E_HANDLE \<equiv> 2213"
abbreviation (input) DFW_E_INPROGRESS :: int where "DFW_E_INPROGRESS \<equiv> 2214"
abbreviation (input) DFW_E_EALREADY :: int where "DFW_E_EALREADY \<equiv> 2215"
abbreviation (input) DFW_E_MSGSIZE :: int where "DFW_E_MSGSIZE \<equiv> 2216"
abbreviation (input) DFW_E_THREAD_STATUS :: int where "DFW_E_THREAD_STATUS \<equiv> 3101"
abbreviation (input) DFW_E_STAT :: int where "DFW_E_STAT \<equiv> 3110"
abbreviation (input) DFW_E_OPEN :: int where "DFW_E_OPEN \<equiv> 3120"
abbreviation (input) DFW_E_OPENDIR :: int where "DFW_E_OPENDIR \<equiv> 3121"
abbreviation (input) DFW_E_NOT_CACHE_HOST :: int where "DFW_E_NOT_CACHE_HOST \<equiv> 3130"
abbreviation (input) DFW_E_GETADDRINFO :: int where "DFW_E_GETADDRINFO \<equiv> 3131"
abbreviation (input) DFW_E_HOST_NOT_FOUND :: int where "DFW_E_HOST_NOT_FOUND \<equiv> 3132"
abbreviation (input) DFW_E_NO_RECOVERY :: int where "DFW_E_NO_RECOVERY \<equiv> 3133"
abbreviation (input) DFW_E_GETHOSTBYNAME :: int where "DFW_E_GETHOSTBYNAME \<equiv> 3134"
abbreviation (input) DFW_E_REGEXP_NOT_PATTERN :: int where "DFW_E_REGEXP_NOT_PATTERN \<equiv> 3140"
abbreviation (input) DFW_E_REGEXP_NOT_MATCH :: int where "DFW_E_REGEXP_NOT_MATCH \<equiv> 3141"
abbreviation (input) DFW_E_NO_HTTP_AUTH_TYPE :: int where "DFW_E_NO_HTTP_AUTH_TYPE \<equiv> 3150"
abbreviation (input) DFW_E_NO_WWW_AUTHENTICATE :: int where "DFW_E_NO_WWW_AUTHENTICATE \<equiv> 3151"
abbreviation (input) DFW_E_HTTP_CHUNKED :: int where "DFW_E_HTTP_CHUNKED \<equiv> 3152"
abbreviation (input) DFW_E_CONNECT :: int where "DFW_E_CONNECT \<equiv> 3153"
abbreviation (input) DFW_E_DISCONNECT :: int where "DFW_E_DISCONNECT \<equiv> 3154"
abbreviation (input) DFW_E_MAX_REQUESTCOUNT :: int where "DFW_E_MAX_REQUESTCOUNT \<equiv> 3155"
abbreviation (input) DFW_E_HTTPAUTH :: int where "DFW_E_HTTPAUTH \<equiv> 3156"
abbreviation (input) DFW_E_HTTP_REQUEST :: int where "DFW_E_HTTP_REQUEST \<equiv> 3157"
abbreviation (input) DFW_E_NOTFINDLOCATION :: int where "DFW_E_NOTFINDLOCATION \<equiv> 3158"
abbreviation (input) DFW_E_HOSTNAME :: int where "DFW_E_HOSTNAME \<equiv> 3159"
abbreviation (input) DFW_E_SOCKET :: int where "DFW_E_SOCKET \<equiv> 3160"
abbreviation (input) DFW_E_SETSOCKOPT :: int where "DFW_E_SETSOCKOPT \<equiv> 3161"
abbreviation (input) DFW_E_GETSOCKOPT :: int where "DFW_E_GETSOCKOPT \<equiv> 3162"
abbreviation (input) DFW_E_FCNTL :: int where "DFW_E_FCNTL \<equiv> 3163"
abbreviation (input) DFW_E_POLL :: int where "DFW_E_POLL \<equiv> 3164"
abbreviation (input) DFW_E_POLLERR :: int where "DFW_E_POLLERR \<equiv> 3165"
abbreviation (input) DFW_E_POLLHUP :: int where "DFW_E_POLLHUP \<equiv> 3166"
abbreviation (input) DFW_E_POLLNVAL :: int where "DFW_E_POLLNVAL \<equiv> 3167"
abbreviation (input) DFW_E_SELECT :: int where "DFW_E_SELECT \<equiv> 3168"
abbreviation (input) DFW_E_WRITE :: int where "DFW_E_WRITE \<equiv> 3169"
abbreviation (input) DFW_E_RECV :: int where "DFW_E_RECV \<equiv> 3170"
abbreviation (input) DFW_E_SSCANF :: int where "DFW_E_SSCANF \<equiv> 3171"
abbreviation (input) DFW_E_MOUNT :: int where "DFW_E_MOUNT \<equiv> 3172"
abbreviation (input) DFW_E_UMOUNT :: int where "DFW_E_UMOUNT \<equiv> 3173"
abbreviation (input) DFW_E_UMOUNT2 :: int where "DFW_E_UMOUNT2 \<equiv> 3174"
abbreviation (input) DFW_E_WRITEV :: int where "DFW_E_WRITEV \<equiv> 3175"
abbreviation (input) DFW_E_READ :: int where "DFW_E_READ \<equiv> 3176"
abbreviation (input) DFW_E_LISTEN :: int where "DFW_E_LISTEN \<equiv> 3177"
abbreviation (input) DFW_E_BIND :: int where "DFW_E_BIND \<equiv> 3178"
abbreviation (input) DFW_E_ACCEPT :: int where "DFW_E_ACCEPT \<equiv> 3179"
abbreviation (input) DFW_E_CONNRESET :: int where "DFW_E_CONNRESET \<equiv> 3180"
abbreviation (input) DFW_E_NOLOGGER :: int where "DFW_E_NOLOGGER \<equiv> 3200"

text \<open>The enumeration \<open>dfw_retno_t\<close> as a table.\<close>

definition dfw_retno_t :: "(string \<times> int) list" where
  "dfw_retno_t =
    [(''DFW_OK'', DFW_OK),
     (''DFW_T_COMPLETE'', DFW_T_COMPLETE),
     (''DFW_T_CHUNKED_END'', DFW_T_CHUNKED_END),
     (''DFW_T_RECONNECT'', DFW_T_RECONNECT),
     (''DFW_T_READY'', DFW_T_READY),
     (''DFW_T_RUN'', DFW_T_RUN),
     (''DFW_T_STOP'', DFW_T_STOP),
     (''DFW_T_CANCLE'', DFW_T_CANCLE),
     (''DFW_T_ETC'', DFW_T_ETC),
     (''DFW_T_CONTINUE'', DFW_T_CONTINUE),
     (''DFW_CODE'', DFW_CODE),
     (''DFW_ERROR'', DFW_ERROR),
     (''DFW_E_INTR'', DFW_E_INTR),
     (''DFW_E_AGAIN'', DFW_E_AGAIN),
     (''DFW_E_TIMEOUT'', DFW_E_TIMEOUT),
     (''DFW_E_INVAL'', DFW_E_INVAL),
     (''DFW_E_NOMEM'', DFW_E_NOMEM),
     (''DFW_E_DEADLK'', DFW_E_DEADLK),
     (''DFW_E_BUSY'', DFW_E_BUSY),
     (''DFW_E_PERM'', DFW_E_PERM),
     (''DFW_E_ACCES'', DFW_E_ACCES),
     (''DFW_E_BADF'', DFW_E_BADF),
     (''DFW_E_FAULT'', DFW_E_FAULT),
     (''DFW_E_LOOP'', DFW_E_LOOP),
     (''DFW_E_NAMETOOLONG'', DFW_E_NAMETOOLONG),
     (''DFW_E_NOENT'', DFW_E_NOENT),
     (''DFW_E_NOTDIR'', DFW_E_NOTDIR),
     (''DFW_E_OVERFLOW'', DFW_E_OVERFLOW),
     (''DFW_E_MFILE'', DFW_E_MFILE),
     (''DFW_E_NFILE'', DFW_E_NFILE),
     (''DFW_E_NOSPC'', DFW_E_NOSPC),
     (''DFW_E_AFNOSUPPORT'', DFW_E_AFNOSUPPORT),
     (''DFW_E_PROTONOSUPPORT'', DFW_E_PROTONOSUPPORT),
     (''DFW_E_NOPROTOOPT'', DFW_E_NOPROTOOPT),
     (''DFW_E_NOTSOCK'', DFW_E_NOTSOCK),
     (''DFW_E_NOLCK'', DFW_E_NOLCK),
     (''DFW_E_ADDRINUSE'', DFW_E_ADDRINUSE),
     (''DFW_E_ALREADY'', DFW_E_ALREADY),
     (''DFW_E_CONNREFUSED'', DFW_E_CONNREFUSED),
     (''DFW_E_ISCONN'', DFW_E_ISCONN),
     (''DFW_E_NETUNREACH'', DFW_E_NETUNREACH),
     (''DFW_E_DESTADDRREQ'', DFW_E_DESTADDRREQ),
     (''DFW_E_FBIG'', DFW_E_FBIG),
     (''DFW_E_PIPE'', DFW_E_PIPE),
     (''DFW_E_IO'', DFW_E_IO),
     (''DFW_E_ISDIR'', DFW_E_ISDIR),
     (''DFW_E_ILSEQ'', DFW_E_ILSEQ),
     (''DFW_E_RANGE'', DFW_E_RANGE),
     (''DFW_E_EXIST'', DFW_E_EXIST),
     (''DFW_E_NODEV'', DFW_E_NODEV),
     (''DFW_E_NXIO'', DFW_E_NXIO),
     (''DFW_E_ROFS'', DFW_E_ROFS),
     (''DFW_E_TXTBSY'', DFW_E_TXTBSY),
     (''DFW_E_NOTBLK'', DFW_E_NOTBLK),
     (''DFW_E_NOTCONN'', DFW_E_NOTCONN),
     (''DFW_E_PROTO'', DFW_E_PROTO),
     (''DFW_E_NOSYS'', DFW_E_NOSYS),
     (''DFW_E_SRCH'', DFW_E_SRCH),
     (''DFW_E_NOTTY'', DFW_E_NOTTY),
     (''DFW_E_NOSUPPORT'', DFW_E_NOSUPPORT),
     (''DFW_E_ADDRFAMILY'', DFW_E_ADDRFAMILY),
     (''DFW_E_BADFLAGS'', DFW_E_BADFLAGS),
     (''DFW_E_FAIL'', DFW_E_FAIL),
     (''DFW_E_FAMILY'', DFW_E_FAMILY),
     (''DFW_E_NODATA'', DFW_E_NODATA),
     (''DFW_E_NONAME'', DFW_E_NONAME),
     (''DFW_E_SERVICE'', DFW_E_SERVICE),
     (''DFW_E_SOCKTYPE'', DFW_E_SOCKTYPE),
     (''DFW_E_SYSTEM'', DFW_E_SYSTEM),
     (''DFW_E_ADDRTYPE'', DFW_E_ADDRTYPE),
     (''DFW_E_OPNOTSUPP'', DFW_E_OPNOTSUPP),
     (''DFW_E_HANDLE'', DFW_E_HANDLE),
     (''DFW_E_INPROGRESS'', DFW_E_INPROGRESS),
     (''DFW_E_EALREADY'', DFW_E_EALREADY),
     (''DFW_E_MSGSIZE'', DFW_E_MSGSIZE),
     (''DFW_E_THREAD_STATUS'', DFW_E_THREAD_STATUS),
     (''DFW_E_STAT'', DFW_E_STAT),
     (''DFW_E_OPEN'', DFW_E_OPEN),
     (''DFW_E_OPENDIR'', DFW_E_OPENDIR),
     (''DFW_E_NOT_CACHE_HOST'', DFW_E_NOT_CACHE_HOST),
     (''DFW_E_GETADDRINFO'', DFW_E_GETADDRINFO),
     (''DFW_E_HOST_NOT_FOUND'', DFW_E_HOST_NOT_FOUND),
     (''DFW_E_NO_RECOVERY'', DFW_E_NO_RECOVERY),
     (''DFW_E_GETHOSTBYNAME'', DFW_E_GETHOSTBYNAME),
     (''DFW_E_REGEXP_NOT_PATTERN'', DFW_E_REGEXP_NOT_PATTERN),
     (''DFW_E_REGEXP_NOT_MATCH'', DFW_E_REGEXP_NOT_MATCH),
     (''DFW_E_NO_HTTP_AUTH_TYPE'', DFW_E_NO_HTTP_AUTH_TYPE),
     (''DFW_E_NO_WWW_AUTHENTICATE'', DFW_E_NO_WWW_AUTHENTICATE),
     (''DFW_E_HTTP_CHUNKED'', DFW_E_HTTP_CHUNKED),
     (''DFW_E_CONNECT'', DFW_E_CONNECT),
     (''DFW_E_DISCONNECT'', DFW_E_DISCONNECT),
     (''DFW_E_MAX_REQUESTCOUNT'', DFW_E_MAX_REQUESTCOUNT),
     (''DFW_E_HTTPAUTH'', DFW_E_HTTPAUTH),
     (''DFW_E_HTTP_REQUEST'', DFW_E_HTTP_REQUEST),
     (''DFW_E_NOTFINDLOCATION'', DFW_E_NOTFINDLOCATION),
     (''DFW_E_HOSTNAME'', DFW_E_HOSTNAME),
     (''DFW_E_SOCKET'', DFW_E_SOCKET),
     (''DFW_E_SETSOCKOPT'', DFW_E_SETSOCKOPT),
     (''DFW_E_GETSOCKOPT'', DFW_E_GETSOCKOPT),
     (''DFW_E_FCNTL'', DFW_E_FCNTL),
     (''DFW_E_POLL'', DFW_E_POLL),
     (''DFW_E_POLLERR'', DFW_E_POLLERR),
     (''DFW_E_POLLHUP'', DFW_E_POLLHUP),
     (''DFW_E_POLLNVAL'', DFW_E_POLLNVAL),
     (''DFW_E_SELECT'', DFW_E_SELECT),
     (''DFW_E_WRITE'', DFW_E_WRITE),
     (''DFW_E_RECV'', DFW_E_RECV),
     (''DFW_E_SSCANF'', DFW_E_SSCANF),
     (''DFW_E_MOUNT'', DFW_E_MOUNT),
     (''DFW_E_UMOUNT'', DFW_E_UMOUNT),
     (''DFW_E_UMOUNT2'', DFW_E_UMOUNT2),
     (''DFW_E_WRITEV'', DFW_E_WRITEV),
     (''DFW_E_READ'', DFW_E_READ),
     (''DFW_E_LISTEN'', DFW_E_LISTEN),
     (''DFW_E_BIND'', DFW_E_BIND),
     (''DFW_E_ACCEPT'', DFW_E_ACCEPT),
     (''DFW_E_CONNRESET'', DFW_E_CONNRESET),
     (''DFW_E_NOLOGGER'', DFW_E_NOLOGGER)]"

section \<open>The result object\<close>

record stack_frame =
  sf_file :: "string option"
  sf_func :: "string option"
  sf_line :: int

text \<open>\<open>m_pStack\<close> to \<open>m_pLastStack\<close> is the list of frames, the first one from the constructor.\<close>

record retval =
  m_iValue :: int
  m_iErrno :: int
  m_sMessage :: string
  m_pStack :: "stack_frame list"

type_synonym rv = "(int \<times> int) option"

definition stack_new :: "string option \<Rightarrow> int \<Rightarrow> string option \<Rightarrow> stack_frame" where
  "stack_new file line func = \<lparr>sf_file = file, sf_func = func, sf_line = line\<rparr>"

definition retval_new :: "int \<Rightarrow> int \<Rightarrow> string option \<Rightarrow> int \<Rightarrow> string option \<Rightarrow> retval" where
  "retval_new retno errnum file line func =
     \<lparr>m_iValue = retno, m_iErrno = errnum, m_sMessage = [], m_pStack = [stack_new file line func]\<rparr>"

definition retval_get_msg :: "int \<Rightarrow> int \<Rightarrow> string option \<Rightarrow> int \<Rightarrow> string option \<Rightarrow> string \<Rightarrow> retval" where
  "retval_get_msg retno errnum file line func msg =
     (retval_new retno errnum file line func)\<lparr>m_sMessage := msg\<rparr>"

definition retval_set :: "int \<Rightarrow> int \<Rightarrow> retval \<Rightarrow> retval" where
  "retval_set retno errnum r = r\<lparr>m_iValue := retno, m_iErrno := errnum\<rparr>"

definition retval_setValue :: "int \<Rightarrow> retval \<Rightarrow> retval" where
  "retval_setValue retno r = r\<lparr>m_iValue := retno\<rparr>"

definition retval_setError :: "int \<Rightarrow> retval \<Rightarrow> retval" where
  "retval_setError errnum r = r\<lparr>m_iErrno := errnum\<rparr>"

definition retval_addStack :: "string option \<Rightarrow> int \<Rightarrow> string option \<Rightarrow> retval \<Rightarrow> retval" where
  "retval_addStack file line func r = r\<lparr>m_pStack := m_pStack r @ [stack_new file line func]\<rparr>"

text \<open>\<open>%s\<close> of a NULL pointer prints \<open>(null)\<close> in the C library the code targets.\<close>

definition fmt_s :: "string option \<Rightarrow> string" where
  "fmt_s p = (case p of None \<Rightarrow> ''(null)'' | Some s \<Rightarrow> s)"

definition dump_frame :: "stack_frame \<Rightarrow> string" where
  "dump_frame f = LF # ''    `-- in '' @ fmt_s (sf_func f) @ ''(..) at '' @ fmt_s (sf_file f) @ '':'' @ show_int (sf_line f)"

definition retval_dump :: "retval \<Rightarrow> string" where
  "retval_dump r =
     ''  @ Retval:: errcode='' @ show_int (m_iValue r) @ '', errno='' @ show_int (m_iErrno r) @
     (if m_sMessage r = [] then [] else '', '' @ m_sMessage r) @
     concat (map dump_frame (m_pStack r))"

definition retval_iserror :: "retval \<Rightarrow> bool" where
  "retval_iserror r \<longleftrightarrow> 0 \<le> m_iValue r \<and> m_iValue r < 1000"

section \<open>System error codes\<close>

text \<open>
  The two switches, with the errno or WSA macro by its name (its number is the platform's).
  The \<open>ETXTBSY\<close> case is the one compiled outside Windows.
\<close>

definition errno_cases :: "(string \<times> int \<times> string) list" where
  "errno_cases =
    [(''EINVAL'', DFW_E_INVAL, ''Invalid parametor''),
     (''EIO'', DFW_E_IO, ''EIO''),
     (''EAGAIN'', DFW_E_AGAIN, ''EAGAIN''),
     (''EDEADLK'', DFW_E_DEADLK, ''EDEADLK''),
     (''EBADF'', DFW_E_BADF, ''Bad file number''),
     (''EACCES'', DFW_E_ACCES, ''Permission denied''),
     (''EEXIST'', DFW_E_EXIST, ''File exists''),
     (''EFAULT'', DFW_E_FAULT, ''Bad address''),
     (''EFBIG'', DFW_E_FBIG, ''File too large''),
     (''EINTR'', DFW_E_INTR, ''Interrupted''),
     (''EISDIR'', DFW_E_ISDIR, ''Is a directory''),
     (''ELOOP'', DFW_E_LOOP, ''Too many links''),
     (''ENOLCK'', DFW_E_NOLCK, ''ENOLCK''),
     (''EMFILE'', DFW_E_MFILE, ''Too many open files''),
     (''ENAMETOOLONG'', DFW_E_NAMETOOLONG, ''File name too long''),
     (''ENFILE'', DFW_E_NFILE, ''Too many open files in system''),
     (''ENODEV'', DFW_E_NODEV, ''Operation not supported by device''),
     (''ENOENT'', DFW_E_NOENT, ''No such file or directory''),
     (''ENOMEM'', DFW_E_NOMEM, ''Cannot allocate memory''),
     (''ENOSPC'', DFW_E_NOSPC, ''No space left on device''),
     (''ENOTDIR'', DFW_E_NOTDIR, ''Not a directory''),
     (''ENXIO'', DFW_E_NXIO, ''Device not configured''),
     (''EOVERFLOW'', DFW_E_OVERFLOW, ''Value too large to be stored in data type''),
     (''EPERM'', DFW_E_PERM, ''Operation not permitted''),
     (''EROFS'', DFW_E_ROFS, ''Read-only file system''),
     (''ENOTTY'', DFW_E_NOTTY, ''No TTY''),
     (''EPIPE'', DFW_E_PIPE, ''Broken pipe''),
     (''ENOPROTOOPT'', DFW_E_NOPROTOOPT, ''No proto OPT''),
     (''ENOTSOCK'', DFW_E_NOTSOCK, ''Not Sock''),
     (''ETXTBSY'', DFW_E_TXTBSY, ''Text file busy''),
     (''EAFNOSUPPORT'', DFW_E_AFNOSUPPORT, ''EAFNOSUPPORT''),
     (''EPROTONOSUPPORT'', DFW_E_PROTONOSUPPORT, ''proto no support''),
     (''EADDRINUSE'', DFW_E_ADDRINUSE, ''Address in use''),
     (''EOPNOTSUPP'', DFW_E_OPNOTSUPP, ''OP NOT SUPP''),
     (''ECONNRESET'', DFW_E_CONNRESET, ''Connection reset by peer'')]"

definition wsa_cases :: "(string \<times> int \<times> string) list" where
  "wsa_cases =
    [(''WSA_INVALID_HANDLE'', DFW_E_HANDLE, ''Invalid handle (WSA)''),
     (''WSA_NOT_ENOUGH_MEMORY'', DFW_E_NOMEM, ''Cannot allocate memory (WSA)''),
     (''WSA_INVALID_PARAMETER'', DFW_E_INVAL, ''Invalid argument (WSA)''),
     (''WSA_OPERATION_ABORTED'', DFW_ERROR, ''Operation aborted (WSA)''),
     (''WSA_IO_INCOMPLETE'', DFW_ERROR, ''Io complete (WSA)''),
     (''WSA_IO_PENDING'', DFW_ERROR, ''Io Pending (WSA)''),
     (''WSAEINTR'', DFW_E_INTR, ''Interrupted (WSA)''),
     (''WSAEBADF'', DFW_E_BADF, ''Bad file number (WSA)''),
     (''WSAEACCES'', DFW_E_ACCES, ''Permission denied (WSA)''),
     (''WSAEFAULT'', DFW_E_FAULT, ''Bad address (WSA)''),
     (''WSAEINVAL'', DFW_E_BIND, ''Wrong bind or address (WSA)''),
     (''WSAEMFILE'', DFW_E_MFILE, ''Too many open files (WSA)''),
     (''WSAEWOULDBLOCK'', DFW_E_AGAIN, ''Would block (WSA)''),
     (''WSAEINPROGRESS'', DFW_E_INPROGRESS, ''In progress (WSA)''),
     (''WSAEALREADY'', DFW_E_EALREADY, ''Eal ready (WSA)''),
     (''WSAENOTSOCK'', DFW_E_NOTSOCK, ''Not Sock (WSA)''),
     (''WSAEDESTADDRREQ'', DFW_E_DESTADDRREQ, ''No dest address req (WSA)''),
     (''WSAEMSGSIZE'', DFW_E_MSGSIZE, ''Clip message size (WSA)''),
     (''WSAEPROTOTYPE'', DFW_ERROR, ''No Proto type (WSA)''),
     (''WSAENOPROTOOPT'', DFW_E_NOPROTOOPT, ''No proto OPT (WSA)''),
     (''WSAEPROTONOSUPPORT'', DFW_E_PROTONOSUPPORT, ''proto no support (WSA)''),
     (''WSAESOCKTNOSUPPORT'', DFW_ERROR, ''No supported address in socket (WSA)''),
     (''WSAEOPNOTSUPP'', DFW_E_OPNOTSUPP, ''OP NOT SUPP (WSA)''),
     (''WSAEPFNOSUPPORT'', DFW_ERROR, ''WSAEPFNOSUPPORT (WSA)''),
     (''WSAEAFNOSUPPORT'', DFW_E_AFNOSUPPORT, ''WSAEAFNOSUPPORT (WSA)''),
     (''WSAEADDRINUSE'', DFW_E_ADDRINUSE, ''Address in use (WSA)''),
     (''WSAEADDRNOTAVAIL'', DFW_ERROR, ''Address not available (WSA)''),
     (''WSAENETDOWN'', DFW_ERROR, ''Down network (WSA)''),
     (''WSAENETUNREACH'', DFW_ERROR, ''WSAENETUNREACH (WSA)''),
     (''WSAENETRESET'', DFW_ERROR, ''WSAENETRESET (WSA)''),
     (''WSAECONNABORTED'', DFW_ERROR, ''WSAECONNABORTED (WSA)''),
     (''WSAECONNRESET'', DFW_E_CONNRESET, ''Connection reset by peer (WSA)''),
     (''WSAENOBUFS'', DFW_ERROR, ''WSAENOBUFS (WSA)''),
     (''WSAEISCONN'', DFW_E_ISCONN, ''WSAEISCONN (WSA)''),
     (''WSAENOTCONN'', DFW_E_NOTCONN, ''WSAENOTCONN (WSA)''),
     (''WSAESHUTDOWN'', DFW_ERROR, ''WSAESHUTDOWN (WSA)''),
     (''WSAETOOMANYREFS'', DFW_ERROR, ''WSAETOOMANYREFS (WSA)''),
     (''WSAETIMEDOUT'', DFW_E_TIMEOUT, ''Timeout (WSA)''),
     (''WSAECONNREFUSED'', DFW_E_CONNREFUSED, ''WSAECONNREFUSED (WSA)''),
     (''WSAELOOP'', DFW_E_LOOP, ''Too many symbolic link (WSA)''),
     (''WSAENAMETOOLONG'', DFW_E_NAMETOOLONG, ''Name too long (WSA)''),
     (''WSAEHOSTDOWN'', DFW_ERROR, ''Host down (WSA)''),
     (''WSAEHOSTUNREACH'', DFW_ERROR, ''WSAEHOSTUNREACH (WSA)''),
     (''WSAENOTEMPTY'', DFW_ERROR, ''Not ready network by WSAStartup (WSA)''),
     (''WSAEPROCLIM'', DFW_ERROR, ''Too many process (WSA)''),
     (''WSAEUSERS'', DFW_ERROR, ''Too many users (WSA)''),
     (''WSAEDQUOT'', DFW_ERROR, ''WSAEDQUOT (WSA)''),
     (''WSAESTALE'', DFW_ERROR, ''Stale NFS file handle (WSA)''),
     (''WSAEREMOTE'', DFW_ERROR, ''Too many levels of remote in path (WSA)''),
     (''WSAEDISCON'', DFW_ERROR, ''Network is exiting (WSA)''),
     (''WSASYSNOTREADY'', DFW_ERROR, ''Not ready network (WSA)''),
     (''WSAVERNOTSUPPORTED'', DFW_ERROR, ''Not supported version (WSA)''),
     (''WSANOTINITIALISED'', DFW_ERROR, ''Not initialised (WSAStartup) (WSA)''),
     (''WSAHOST_NOT_FOUND'', DFW_E_HOST_NOT_FOUND, ''Not found host (WSA)''),
     (''WSATRY_AGAIN'', DFW_ERROR, ''Not found request host (WSA)''),
     (''WSANO_RECOVERY'', DFW_E_NO_RECOVERY, ''No recovery (WSA)''),
     (''WSANO_DATA'', DFW_E_NODATA, ''No data request name (WSA)'')]"

definition errno_short :: "string \<Rightarrow> string option \<Rightarrow> int \<times> string option" where
  "errno_short eno default_msg =
     (case map_of errno_cases eno of
        Some (rno, msg) \<Rightarrow> (rno, Some msg)
      | None \<Rightarrow> (DFW_ERROR, default_msg))"

definition wsa2value :: "bool \<Rightarrow> string \<Rightarrow> string option \<Rightarrow> int \<times> string" where
  "wsa2value win32 wsa default_msg =
     (let other = (DFW_ERROR, case default_msg of Some m \<Rightarrow> m | None \<Rightarrow> ''WSA Error'') in
      if \<not> win32 then other
      else case map_of wsa_cases wsa of Some (rno, msg) \<Rightarrow> (rno, msg) | None \<Rightarrow> other)"

section \<open>Properties\<close>

lemma map_of_all:
  "list_all (\<lambda>(k, v). P v) xs \<Longrightarrow> map_of xs k = Some v \<Longrightarrow> P v"
  by (auto simp: list_all_iff dest: map_of_SomeD)

lemma errno_cases_codes: "list_all (\<lambda>(k, rno, msg). 2001 \<le> rno \<and> rno < 3300) errno_cases"
  by (simp add: errno_cases_def)

lemma wsa_cases_codes: "list_all (\<lambda>(k, rno, msg). 2001 \<le> rno \<and> rno < 3300) wsa_cases"
  by (simp add: wsa_cases_def)

text \<open>Translating a system error never yields success or a status: whatever errno or WSA code
  comes in, the result code is an error of the enumeration, and an unknown code is \<open>DFW_ERROR\<close>
  with the caller's message.
\<close>

theorem system_errors_are_errors:
  "2001 \<le> fst (errno_short eno d) \<and> 2001 \<le> fst (wsa2value w wsa d) \<and>
   (map_of errno_cases eno = None \<longrightarrow> errno_short eno d = (DFW_ERROR, d))"
proof -
  have "2001 \<le> fst (errno_short eno d)"
    using map_of_all[of "\<lambda>(rno, msg). 2001 \<le> rno \<and> rno < 3300", OF errno_cases_codes]
    by (fastforce simp: errno_short_def split: option.splits)
  moreover have "2001 \<le> fst (wsa2value w wsa d)"
    using map_of_all[of "\<lambda>(rno, msg). 2001 \<le> rno \<and> rno < 3300", OF wsa_cases_codes]
    by (fastforce simp: wsa2value_def Let_def split: option.splits)
  ultimately show ?thesis by (simp add: errno_short_def)
qed

theorem system_errors_are_errors_witness:
  "map_of errno_cases ''EDOM'' = None \<and> errno_short ''EDOM'' (Some ''x'') = (2001, Some ''x'')"
proof -
  have "map_of errno_cases ''EDOM'' = None" by (simp add: errno_cases_def)
  with system_errors_are_errors[of "''EDOM''" "Some ''x''" False "[]"] show ?thesis by simp
qed

end
