(* ===== verification/Dfw_Order.thy ===== *)
theory Dfw_Order
  imports Dfw_Prelude
begin

text \<open>
  The comparison interface of \<open>include/dframework/util/D_Sorted.h\<close>.  Every class kept in a
  sorted container declares the six operators \<open>==\<close>, \<open>!=\<close>, \<open>>\<close>, \<open><\<close>, \<open>>=\<close>,
  \<open><=\<close> against a pointer (\<open>NULL\<close> allowed) and against a reference.  The record
  \<open>cmp_ops\<close> is what a container sees of them; the locale \<open>dfw_order\<close> is the contract
  the containers rely on (a total preorder whose six operators agree).
\<close>

record 'a cmp_ops =
  op_eq :: "'a \<Rightarrow> 'a \<Rightarrow> bool"
  op_ne :: "'a \<Rightarrow> 'a \<Rightarrow> bool"
  op_gt :: "'a \<Rightarrow> 'a \<Rightarrow> bool"
  op_lt :: "'a \<Rightarrow> 'a \<Rightarrow> bool"
  op_ge :: "'a \<Rightarrow> 'a \<Rightarrow> bool"
  op_le :: "'a \<Rightarrow> 'a \<Rightarrow> bool"

text \<open>\<open>DFW_OPERATOR_EX_POINT_DECLARATION\<close>: a comparison with a pointer that may be NULL.\<close>

definition ptr_ops :: "'a cmp_ops \<Rightarrow> 'a \<Rightarrow> 'a option \<Rightarrow> bool \<times> bool \<times> bool \<times> bool \<times> bool \<times> bool" where
  "ptr_ops c this p =
     (case p of
        None \<Rightarrow> (False, True, True, False, True, False)
      | Some q \<Rightarrow> (op_eq c this q, op_ne c this q, op_gt c this q,
                   op_lt c this q, op_ge c this q, op_le c this q))"

text \<open>\<open>DFW_OPERATOR_EX_REF_DECLARATION(c, m)\<close>: the comparison of one member.\<close>

definition member_ops :: "'b cmp_ops \<Rightarrow> ('a \<Rightarrow> 'b) \<Rightarrow> 'a cmp_ops" where
  "member_ops c m =
     \<lparr>op_eq = \<lambda>a p. op_eq c (m a) (m p), op_ne = \<lambda>a p. op_ne c (m a) (m p),
      op_gt = \<lambda>a p. op_gt c (m a) (m p), op_lt = \<lambda>a p. op_lt c (m a) (m p),
      op_ge = \<lambda>a p. op_ge c (m a) (m p), op_le = \<lambda>a p. op_le c (m a) (m p)\<rparr>"

text \<open>Members of type \<open>int\<close> are compared by the language's operators.\<close>

definition int_ops :: "int cmp_ops" where
  "int_ops = \<lparr>op_eq = (=), op_ne = (\<noteq>), op_gt = (>), op_lt = (<), op_ge = (\<ge>), op_le = (\<le>)\<rparr>"

locale dfw_order =
  fixes ops :: "'a cmp_ops"
  assumes le_total: "op_le ops a b \<or> op_le ops b a"
    and le_trans: "op_le ops a b \<Longrightarrow> op_le ops b c \<Longrightarrow> op_le ops a c"
    and ge_le: "op_ge ops a b \<longleftrightarrow> op_le ops b a"
    and lt_ge: "op_lt ops a b \<longleftrightarrow> \<not> op_ge ops a b"
    and gt_le: "op_gt ops a b \<longleftrightarrow> \<not> op_le ops a b"
    and eq_le_ge: "op_eq ops a b \<longleftrightarrow> op_le ops a b \<and> op_ge ops a b"
    and ne_eq: "op_ne ops a b \<longleftrightarrow> \<not> op_eq ops a b"
begin

lemma le_refl [simp]: "op_le ops a a"
  using le_total by blast

lemma eq_sym: "op_eq ops a b \<longleftrightarrow> op_eq ops b a"
  by (auto simp: eq_le_ge ge_le)

lemma eq_trans: "op_eq ops a b \<Longrightarrow> op_eq ops b c \<Longrightarrow> op_eq ops a c"
  by (meson eq_le_ge ge_le le_trans)

lemma lt_iff: "op_lt ops a b \<longleftrightarrow> op_le ops a b \<and> \<not> op_eq ops a b"
  using le_total by (auto simp: lt_ge ge_le eq_le_ge)

lemma lt_le_trans: "op_lt ops a b \<Longrightarrow> op_le ops b c \<Longrightarrow> op_lt ops a c"
  by (meson ge_le le_trans lt_ge)

lemma le_lt_trans: "op_le ops a b \<Longrightarrow> op_lt ops b c \<Longrightarrow> op_lt ops a c"
  by (meson ge_le le_trans lt_ge)

lemma not_lt: "\<not> op_lt ops a b \<longleftrightarrow> op_le ops b a"
  by (simp add: lt_ge ge_le)

end

text \<open>Comparing one member keeps the contract.\<close>

lemma member_ops_order:
  assumes "dfw_order c"
  shows "dfw_order (member_ops c m)"
proof -
  from assms show ?thesis
    unfolding dfw_order_def member_ops_def by (simp; blast)
qed

text \<open>
  \<open>DFW_OPERATOR_TL_EX_DECLARATION(sp<T>, m_ptr)\<close>: smart pointers compare their targets, NULL
  below every object; \<open>==\<close>, \<open>>\<close> and \<open><\<close> are the negations of \<open>!=\<close>, \<open><=\<close> and
  \<open>>=\<close>.
\<close>

definition sp_ne :: "'a cmp_ops \<Rightarrow> 'a option \<Rightarrow> 'a option \<Rightarrow> bool" where
  "sp_ne c m p =
     (case (m, p) of (None, None) \<Rightarrow> False | (Some a, Some b) \<Rightarrow> op_ne c a b | _ \<Rightarrow> True)"

definition sp_ge :: "'a cmp_ops \<Rightarrow> 'a option \<Rightarrow> 'a option \<Rightarrow> bool" where
  "sp_ge c m p =
     (case (m, p) of (None, None) \<Rightarrow> True | (None, Some b) \<Rightarrow> False | (Some a, None) \<Rightarrow> True
      | (Some a, Some b) \<Rightarrow> op_ge c a b)"

definition sp_le :: "'a cmp_ops \<Rightarrow> 'a option \<Rightarrow> 'a option \<Rightarrow> bool" where
  "sp_le c m p =
     (case (m, p) of (None, None) \<Rightarrow> True | (None, Some b) \<Rightarrow> True | (Some a, None) \<Rightarrow> False
      | (Some a, Some b) \<Rightarrow> op_le c a b)"

definition sp_ops :: "'a cmp_ops \<Rightarrow> 'a option cmp_ops" where
  "sp_ops c = \<lparr>op_eq = \<lambda>m p. \<not> sp_ne c m p, op_ne = sp_ne c, op_gt = \<lambda>m p. \<not> sp_le c m p,
     op_lt = \<lambda>m p. \<not> sp_ge c m p, op_ge = sp_ge c, op_le = sp_le c\<rparr>"

lemma sp_ops_order:
  assumes "dfw_order c"
  shows "dfw_order (sp_ops c)"
proof -
  note law = dfw_order.le_total[OF assms] dfw_order.ge_le[OF assms]
    dfw_order.ne_eq[OF assms] dfw_order.eq_le_ge[OF assms]
  have le: "op_le c a b \<or> op_le c b a" "op_ge c a b \<longleftrightarrow> op_le c b a"
    "op_ne c a b \<longleftrightarrow> \<not> (op_le c a b \<and> op_ge c a b)" for a b
    by (rule law(1), rule law(2)) (simp only: law(3,4))
  note tr = dfw_order.le_trans[OF assms]
  have sp: "sp_le c m p \<or> sp_le c p m" "sp_ge c m p \<longleftrightarrow> sp_le c p m"
    "sp_ne c m p \<longleftrightarrow> \<not> (sp_le c m p \<and> sp_le c p m)" for m p
    using le by (cases m; cases p; simp only: sp_le_def sp_ge_def sp_ne_def prod.case option.case; blast)+
  have trs: "sp_le c m p \<Longrightarrow> sp_le c p r \<Longrightarrow> sp_le c m r" for m p r
    by (cases m; cases p; cases r; auto simp: sp_le_def intro: tr)
  have f: "op_le (sp_ops c) = sp_le c" "op_ge (sp_ops c) = sp_ge c" "op_ne (sp_ops c) = sp_ne c"
    "op_eq (sp_ops c) m p \<longleftrightarrow> \<not> sp_ne c m p" "op_lt (sp_ops c) m p \<longleftrightarrow> \<not> sp_ge c m p"
    "op_gt (sp_ops c) m p \<longleftrightarrow> \<not> sp_le c m p" for m p
    by (simp_all add: sp_ops_def)
  show ?thesis
    by (unfold_locales; unfold f) (use sp trs in \<open>blast+\<close>)
qed

interpretation intcmp: dfw_order int_ops
  by unfold_locales (auto simp: int_ops_def)

lemma int_ops_order [simp]: "dfw_order int_ops"
  by unfold_locales

lemma int_ops_simps [simp]:
  "op_eq int_ops = (=)" "op_ne int_ops = (\<noteq>)" "op_gt int_ops = (>)"
  "op_lt int_ops = (<)" "op_ge int_ops = (\<ge>)" "op_le int_ops = (\<le>)"
  by (simp_all add: int_ops_def)

end
