(* ===== verification/Dfw_String.thy ===== *)
theory Dfw_String
  imports Dfw_Order "HOL-Library.Monad_Syntax"
begin

text \<open>
  \<open>lib/lang/String.cpp\<close>: the owning string class, with its memory.  A \<open>dstring\<close> has the
  three fields of the class; the buffer is \<open>None\<close> for the NULL pointer and otherwise the
  bytes of the allocation.  An operation returns \<open>None\<close> when the code dereferences NULL or
  touches memory outside an allocation (undefined behaviour).  The allocator is a parameter:
  its outcome and the byte that fresh memory holds.
\<close>

section \<open>Memory\<close>

datatype alloc_outcome = AllocOk | ReallocFails | AllocFails

record allocator =
  al_out :: alloc_outcome
  al_fill :: char

record dstring =
  m_pBuffer :: "string option"
  m_iLength :: nat
  m_iCapacity :: nat

definition ptr_write :: "string option \<Rightarrow> nat \<Rightarrow> string \<Rightarrow> string option option" where
  "ptr_write p i xs =
     (if xs = [] then Some p
      else do { b \<leftarrow> p;
                if i + length xs \<le> length b
                then Some (Some (take i b @ xs @ drop (i + length xs) b)) else None })"

definition ptr_read :: "string option \<Rightarrow> nat \<Rightarrow> nat \<Rightarrow> string option" where
  "ptr_read p i n =
     (if n = 0 then Some []
      else do { b \<leftarrow> p; if i + n \<le> length b then Some (take n (drop i b)) else None })"

text \<open>The characters a \<open>const char*\<close> argument points to, up to its NUL.\<close>

definition c_arg :: "string option \<Rightarrow> string" where
  "c_arg p = (case p of None \<Rightarrow> [] | Some t \<Rightarrow> cstr t)"

definition string_strlen :: "string option \<Rightarrow> nat" where
  "string_strlen p = (case p of None \<Rightarrow> 0 | Some t \<Rightarrow> length (cstr t))"

section \<open>Construction, assignment, appending\<close>

definition string_init :: dstring where
  "string_init = \<lparr>m_pBuffer = None, m_iLength = 0, m_iCapacity = 0\<rparr>"

text \<open>The last lines of \<open>___alloc\<close>: copy behind \<open>curlen\<close>, terminate, store.\<close>

definition string_finish :: "string option \<Rightarrow> string \<Rightarrow> nat \<Rightarrow> nat \<Rightarrow> dstring \<Rightarrow> (bool \<times> dstring) option" where
  "string_finish p str curlen nlen s =
     do { p1 \<leftarrow> ptr_write p curlen str;
          p2 \<leftarrow> ptr_write p1 nlen [NUL];
          Some (True, s\<lparr>m_pBuffer := p2, m_iLength := nlen\<rparr>) }"

text \<open>\<open>memset(m_pBuffer, 0, m_iLength); m_iLength = 0\<close>.\<close>

definition string_wipe :: "bool \<Rightarrow> dstring \<Rightarrow> (bool \<times> dstring) option" where
  "string_wipe r s =
     do { p \<leftarrow> ptr_write (m_pBuffer s) 0 (replicate (m_iLength s) NUL);
          Some (r, s\<lparr>m_pBuffer := p, m_iLength := 0\<rparr>) }"

definition string_alloc :: "allocator \<Rightarrow> string \<Rightarrow> nat \<Rightarrow> dstring \<Rightarrow> (bool \<times> dstring) option" where
  "string_alloc al str curlen s =
     (let nlen = curlen + length str in
      if nlen = 0 then
        (if 0 < m_iLength s then string_wipe True s else Some (True, s))
      else if m_iCapacity s = 0 then
        (if al_out al = AllocFails then Some (False, s)
         else string_finish (Some (replicate (nlen + 1) (al_fill al))) str curlen nlen
                (s\<lparr>m_iCapacity := nlen\<rparr>))
      else if m_iCapacity s < nlen then
        (case al_out al of
           AllocFails \<Rightarrow> string_wipe False s
         | ReallocFails \<Rightarrow>
             do { old \<leftarrow> ptr_read (m_pBuffer s) 0 curlen;
                  string_finish (Some (old @ replicate (nlen + 1 - curlen) (al_fill al)))
                    str curlen nlen (s\<lparr>m_iCapacity := nlen\<rparr>) }
         | AllocOk \<Rightarrow>
             (let old = take (nlen + 1) (case m_pBuffer s of None \<Rightarrow> [] | Some b \<Rightarrow> b) in
              string_finish (Some (old @ replicate (nlen + 1 - length old) (al_fill al)))
                str curlen nlen (s\<lparr>m_iCapacity := nlen\<rparr>)))
      else
        do { p \<leftarrow> ptr_write (m_pBuffer s) nlen (replicate (m_iCapacity s - nlen) NUL);
             string_finish p str curlen nlen s })"

definition string_set :: "allocator \<Rightarrow> string option \<Rightarrow> dstring \<Rightarrow> (bool \<times> dstring) option" where
  "string_set al p s = string_alloc al (c_arg p) 0 s"

definition string_set_n :: "allocator \<Rightarrow> string option \<Rightarrow> nat \<Rightarrow> dstring \<Rightarrow> (bool \<times> dstring) option" where
  "string_set_n al p n s = do { str \<leftarrow> ptr_read p 0 n; string_alloc al str 0 s }"

definition string_append :: "allocator \<Rightarrow> string option \<Rightarrow> dstring \<Rightarrow> (bool \<times> dstring) option" where
  "string_append al p s = string_alloc al (c_arg p) (m_iLength s) s"

definition string_append_n :: "allocator \<Rightarrow> string option \<Rightarrow> nat \<Rightarrow> dstring \<Rightarrow> (bool \<times> dstring) option" where
  "string_append_n al p n s = do { str \<leftarrow> ptr_read p 0 n; string_alloc al str (m_iLength s) s }"

definition string_toChars :: "dstring \<Rightarrow> string option" where
  "string_toChars s = (if m_iLength s = 0 then None else m_pBuffer s)"

definition string_append_str :: "allocator \<Rightarrow> dstring \<Rightarrow> dstring \<Rightarrow> (bool \<times> dstring) option" where
  "string_append_str al t s = string_append_n al (string_toChars t) (m_iLength t) s"

definition string_append_str_n :: "allocator \<Rightarrow> dstring \<Rightarrow> nat \<Rightarrow> dstring \<Rightarrow> (bool \<times> dstring) option" where
  "string_append_str_n al t n s =
     string_append_n al (string_toChars t) (if m_iLength t < n then m_iLength t else n) s"

definition string_assign :: "allocator \<Rightarrow> dstring \<Rightarrow> dstring \<Rightarrow> (bool \<times> dstring) option" where
  "string_assign al t s = string_set_n al (string_toChars t) (m_iLength t) s"

section \<open>Editing in place\<close>

definition string_isspace :: "char \<Rightarrow> bool" where
  "string_isspace ch \<longleftrightarrow> ch = SPC \<or> ch = TAB \<or> ch = CR \<or> ch = LF"

fun trim_front :: "string \<Rightarrow> nat \<Rightarrow> nat \<Rightarrow> nat" where
  "trim_front b i 0 = i"
| "trim_front b i (Suc k) = (if string_isspace (b ! i) then trim_front b (Suc i) k else i)"

fun trim_back :: "string \<Rightarrow> nat \<Rightarrow> nat \<Rightarrow> nat" where
  "trim_back b i j = (if i < j \<and> string_isspace (b ! (j - 1)) then trim_back b i (j - 1) else j)"

declare trim_back.simps [simp del]

text \<open>\<open>trim_front b i k\<close> scans \<open>k\<close> characters from \<open>i\<close>.\<close>

definition string_trim :: "dstring \<Rightarrow> dstring option" where
  "string_trim s =
     (if m_iLength s = 0 then Some s
      else do { b \<leftarrow> m_pBuffer s;
                let i = trim_front b 0 (m_iLength s);
                let j = trim_back b i (m_iLength s);
                mid \<leftarrow> ptr_read (Some b) i (j - i);
                p1 \<leftarrow> ptr_write (Some b) 0 mid;
                p2 \<leftarrow> ptr_write p1 (j - i) [NUL];
                Some (s\<lparr>m_pBuffer := p2, m_iLength := j - i\<rparr>) })"

definition string_replace_char :: "char \<Rightarrow> char \<Rightarrow> dstring \<Rightarrow> dstring option" where
  "string_replace_char from to s =
     do { old \<leftarrow> ptr_read (m_pBuffer s) 0 (m_iLength s);
          p \<leftarrow> ptr_write (m_pBuffer s) 0 (map (\<lambda>c. if from = c then to else c) old);
          Some (s\<lparr>m_pBuffer := p\<rparr>) }"

definition string_shift :: "nat \<Rightarrow> dstring \<Rightarrow> dstring option" where
  "string_shift offset0 s =
     (if offset0 = 0 then Some s
      else let offset = (if m_iLength s < offset0 then m_iLength s else offset0) in
      if m_iLength s = offset then
        do { p \<leftarrow> (if m_iLength s \<noteq> 0 then ptr_write (m_pBuffer s) 0 [NUL] else Some (m_pBuffer s));
             Some (s\<lparr>m_pBuffer := p, m_iLength := 0\<rparr>) }
      else
        do { mid \<leftarrow> ptr_read (m_pBuffer s) offset (m_iLength s - offset + 1);
             p1 \<leftarrow> ptr_write (m_pBuffer s) 0 mid;
             p2 \<leftarrow> ptr_write p1 (m_iLength s - offset) [NUL];
             Some (s\<lparr>m_pBuffer := p2, m_iLength := m_iLength s - offset\<rparr>) })"

definition string_chuck :: "nat \<Rightarrow> dstring \<Rightarrow> dstring option" where
  "string_chuck offset s =
     (if m_iLength s < offset then Some s
      else do { p \<leftarrow> ptr_write (m_pBuffer s) offset [NUL];
                Some (s\<lparr>m_pBuffer := p, m_iLength := offset\<rparr>) })"

text \<open>\<open>length + start\<close> is a sum of 64-bit sizes and wraps.\<close>

definition string_substring :: "nat \<Rightarrow> nat \<Rightarrow> dstring \<Rightarrow> dstring option" where
  "string_substring start n s =
     (if m_iLength s \<le> start then Some (s\<lparr>m_pBuffer := None, m_iLength := 0\<rparr>)
      else let n' = (if m_iLength s < (n + start) mod 2 ^ 64 then m_iLength s - start else n) in
      do { mid \<leftarrow> ptr_read (m_pBuffer s) start n';
           p1 \<leftarrow> ptr_write (m_pBuffer s) 0 mid;
           p2 \<leftarrow> ptr_write p1 n' [NUL];
           Some (s\<lparr>m_pBuffer := p2, m_iLength := n'\<rparr>) })"

section \<open>Searching and comparing\<close>

text \<open>The offset is returned as an \<open>int\<close>: the pointer difference is cut to 32 bits.\<close>

definition string_indexOf :: "string option \<Rightarrow> string option \<Rightarrow> int" where
  "string_indexOf hay needle =
     (case (hay, needle) of
        (Some h, Some n) \<Rightarrow>
          (case strstr (cstr h) (cstr n) of Some i \<Rightarrow> to_int32 (int i) | None \<Rightarrow> -1)
      | _ \<Rightarrow> -1)"

fun last_index_loop :: "string \<Rightarrow> string \<Rightarrow> nat \<Rightarrow> int" where
  "last_index_loop hay needle 0 = (if prefix needle hay then 0 else -1)"
| "last_index_loop hay needle (Suc k) =
     (if prefix needle (drop (Suc k) hay) then int (Suc k) else last_index_loop hay needle k)"

definition string_lastIndexOf :: "string option \<Rightarrow> string option \<Rightarrow> int" where
  "string_lastIndexOf hay needle =
     (case (hay, needle) of
        (Some h, Some n) \<Rightarrow>
          (let findlen = length (cstr n); stringlen = length (cstr h) in
           if stringlen < findlen then -1
           else to_int32 (last_index_loop (cstr h) (cstr n) (stringlen - findlen)))
      | _ \<Rightarrow> -1)"

fun strncmp_s :: "string \<Rightarrow> string \<Rightarrow> int" where
  "strncmp_s [] [] = 0"
| "strncmp_s [] (d # ds) = 1"
| "strncmp_s (s # ss) [] = -1"
| "strncmp_s (s # ss) (d # ds) =
     (if schar s < schar d then 1 else if schar d < schar s then -1 else strncmp_s ss ds)"

definition content :: "dstring \<Rightarrow> string" where
  "content s = (case m_pBuffer s of None \<Rightarrow> [] | Some b \<Rightarrow> take (m_iLength s) b)"

definition str_ne :: "string \<Rightarrow> string \<Rightarrow> bool" where
  "str_ne a b =
     (if a \<noteq> [] \<and> b \<noteq> [] then strncmp_s a b \<noteq> 0
      else if a = [] \<and> b = [] then False else True)"

definition str_ge :: "string \<Rightarrow> string \<Rightarrow> bool" where
  "str_ge a b =
     (if a \<noteq> [] \<and> b \<noteq> [] then \<not> 0 < strncmp_s a b
      else if a = [] \<and> b = [] then True else if a = [] then False else True)"

definition str_le :: "string \<Rightarrow> string \<Rightarrow> bool" where
  "str_le a b =
     (if a \<noteq> [] \<and> b \<noteq> [] then \<not> strncmp_s a b < 0
      else if a = [] \<and> b = [] then True else if a = [] then True else False)"

text \<open>The six operators of the class, on contents.\<close>

definition str_ops :: "string cmp_ops" where
  "str_ops = \<lparr>op_eq = \<lambda>a b. \<not> str_ne a b, op_ne = str_ne, op_gt = \<lambda>a b. \<not> str_le a b,
              op_lt = \<lambda>a b. \<not> str_ge a b, op_ge = str_ge, op_le = str_le\<rparr>"

definition string_equals_n :: "string option \<Rightarrow> nat \<Rightarrow> dstring \<Rightarrow> bool option" where
  "string_equals_n str n s =
     (if str = None \<and> m_pBuffer s = None then Some True
      else if m_iLength s = 0 then Some (n = 0 \<or> str = None)
      else do { t \<leftarrow> str; b \<leftarrow> m_pBuffer s; Some (strcaseeq (cstr t) (cstr b)) })"

definition string_equals :: "string option \<Rightarrow> dstring \<Rightarrow> bool option" where
  "string_equals str s = string_equals_n str (string_strlen str) s"

definition string_equals_str :: "dstring \<Rightarrow> dstring \<Rightarrow> bool option" where
  "string_equals_str from s =
     (if m_pBuffer s = None \<and> string_toChars from = None then Some True
      else if m_iLength s \<noteq> m_iLength from then Some False
      else string_equals_n (string_toChars from) (m_iLength from) s)"

section \<open>Replacing substrings\<close>

text \<open>\<open>set(const char*, dfw_size_t)\<close> with an \<open>int\<close>: a negative one becomes a size close to
  \<open>2 ^ 64\<close>, whose allocation fails.\<close>

definition string_set_int :: "allocator \<Rightarrow> string option \<Rightarrow> int \<Rightarrow> dstring \<Rightarrow> (bool \<times> dstring) option" where
  "string_set_int al p n s =
     (if 0 \<le> n then string_set_n al p (nat n) s
      else if m_iCapacity s = 0 then Some (False, s) else string_wipe False s)"

text \<open>
  The loop of \<open>replace(const char*, const char*)\<close>.  Its state is \<open>base\<close>, the temporary
  \<open>sTest\<close> and the result \<open>sVal\<close>.  \<open>base\<close> and \<open>pos\<close> are \<open>int\<close>s; with a negative
  \<open>base\<close> the search starts before the buffer.  \<open>None\<close>: the loop faults or never ends.
\<close>

partial_function (option) replace_loop ::
  "allocator \<Rightarrow> string \<Rightarrow> string option \<Rightarrow> string \<Rightarrow> int \<Rightarrow> dstring \<Rightarrow> dstring \<Rightarrow> (int \<times> dstring) option" where
  "replace_loop al from to b base sTest sVal =
     (if base < 0 then None
      else let p = drop (nat base) b; pos = string_indexOf (Some p) (Some from) in
      if pos = -1 then Some (base, sVal)
      else do { tv \<leftarrow> (if pos \<noteq> 0
                      then do { rt \<leftarrow> string_set_int al (Some p) pos sTest;
                                rv \<leftarrow> string_append_str al (snd rt) sVal;
                                Some (snd rt, snd rv) }
                      else Some (sTest, sVal));
               rv2 \<leftarrow> string_append al to (snd tv);
               replace_loop al from to b (to_int32 (base + pos + int (length from))) (fst tv) (snd rv2) })"

text \<open>\<open>strlen(from)\<close> at the head of \<open>replace\<close> is the class's own \<open>String::strlen\<close>
  (\<open>string_strlen\<close>), which returns 0 for NULL; its result is not used.\<close>

definition string_replace :: "allocator \<Rightarrow> string option \<Rightarrow> string option \<Rightarrow> dstring \<Rightarrow> dstring option" where
  "string_replace al from to s =
     (case from of
        None \<Rightarrow> Some s
      | Some f \<Rightarrow>
          (case m_pBuffer s of
             None \<Rightarrow> map_option snd (string_assign al string_init s)
           | Some b \<Rightarrow>
               do { r \<leftarrow> replace_loop al (cstr f) to b 0 string_init string_init;
                    v \<leftarrow> string_append al (Some (drop (nat (fst r)) b)) (snd r);
                    a \<leftarrow> string_assign al (snd v) s;
                    Some (snd a) }))"

section \<open>The representation invariant\<close>

definition string_ok :: "dstring \<Rightarrow> bool" where
  "string_ok s \<longleftrightarrow>
     (case m_pBuffer s of
        None \<Rightarrow> m_iLength s = 0 \<and> m_iCapacity s = 0
      | Some b \<Rightarrow> 0 < m_iCapacity s \<and> length b = m_iCapacity s + 1 \<and>
                  m_iLength s \<le> m_iCapacity s \<and> b ! m_iLength s = NUL)"

lemma string_okE:
  assumes "string_ok s"
  obtains (null) "m_pBuffer s = None" "m_iLength s = 0" "m_iCapacity s = 0"
  | (alloc) b where "m_pBuffer s = Some b" "0 < m_iCapacity s" "length b = m_iCapacity s + 1"
      "m_iLength s \<le> m_iCapacity s" "b ! m_iLength s = NUL"
  using assms by (auto simp: string_ok_def split: option.splits)

lemma string_ok_init [simp]: "string_ok string_init" "content string_init = []"
    "m_iLength string_init = 0"
  by (simp_all add: string_ok_def string_init_def content_def)

lemma length_content [simp]: "string_ok s \<Longrightarrow> length (content s) = m_iLength s"
  by (auto simp: string_ok_def content_def split: option.splits)

lemma content_Nil_iff: "string_ok s \<Longrightarrow> content s = [] \<longleftrightarrow> m_iLength s = 0"
  by (metis length_0_conv length_content)

lemma ptr_write_Some:
  "i + length xs \<le> length b \<Longrightarrow>
     ptr_write (Some b) i xs = Some (Some (take i b @ xs @ drop (i + length xs) b))"
  by (auto simp: ptr_write_def)

lemma ptr_read_Some: "i + n \<le> length b \<Longrightarrow> ptr_read (Some b) i n = Some (take n (drop i b))"
  by (auto simp: ptr_read_def)

lemma string_finish_Some:
  assumes "length b = nlen + 1 + k" "curlen + length str = nlen"
  shows "string_finish (Some b) str curlen nlen s =
    Some (True, s\<lparr>m_pBuffer := Some (take curlen b @ str @ NUL # drop (nlen + 1) b), m_iLength := nlen\<rparr>)"
  using assms by (auto simp: string_finish_def ptr_write_Some)

text \<open>The common result: after the write the string is well formed and holds the new content.\<close>

lemma string_finish_ok:
  assumes "length b = m_iCapacity s + 1" "0 < m_iCapacity s" "nlen \<le> m_iCapacity s"
    "curlen + length str = nlen"
  shows "\<exists>s'. string_finish (Some b) str curlen nlen s = Some (True, s') \<and> string_ok s' \<and>
    content s' = take curlen b @ str"
proof -
  from assms have "length b = nlen + 1 + (m_iCapacity s - nlen)" by simp
  from string_finish_Some[OF this assms(4)] assms show ?thesis
    by (auto simp: string_ok_def content_def nth_append)
qed

lemma string_wipe_ok:
  assumes "string_ok s"
  shows "\<exists>s'. string_wipe r s = Some (r, s') \<and> string_ok s' \<and> content s' = []"
  using assms
  by (cases rule: string_okE)
    (auto simp: string_wipe_def ptr_write_def string_ok_def content_def nth_append)

lemma string_alloc_ok:
  assumes ok: "string_ok s" and cur: "curlen \<le> m_iLength s" and al: "al_out al \<noteq> AllocFails"
  shows "\<exists>s'. string_alloc al str curlen s = Some (True, s') \<and> string_ok s' \<and>
    content s' = take curlen (content s) @ str"
proof (cases "curlen + length str = 0")
  case True
  with string_wipe_ok[OF ok, of True] ok show ?thesis
    by (auto simp: string_alloc_def content_Nil_iff)
next
  case nz: False
  from ok show ?thesis
  proof (cases rule: string_okE)
    case null
    with nz cur al string_finish_ok[of _ "s\<lparr>m_iCapacity := length str\<rparr>" "length str" 0 str]
    show ?thesis by (auto simp: string_alloc_def Let_def)
  next
    case (alloc b)
    let ?n = "curlen + length str"
    have tk: "take curlen (content s) = take curlen b"
      using alloc cur by (simp add: content_def min_def)
    consider (grow) "m_iCapacity s < ?n" | (fits) "?n \<le> m_iCapacity s" by linarith
    then show ?thesis
    proof cases
      case grow
      show ?thesis
      proof (cases "al_out al")
        case AllocOk
        let ?o = "take (?n + 1) b"
        have len: "length (?o @ replicate (?n + 1 - length ?o) (al_fill al)) = ?n + 1" by simp
        have eq: "take curlen (?o @ replicate (?n + 1 - length ?o) (al_fill al)) = take curlen b"
          using cur alloc by (simp add: min_def)
        from string_finish_ok[of "?o @ replicate (?n + 1 - length ?o) (al_fill al)"
            "s\<lparr>m_iCapacity := ?n\<rparr>" ?n curlen str]
        show ?thesis using nz grow alloc AllocOk len eq tk
          by (auto simp: string_alloc_def Let_def)
      next
        case ReallocFails
        have rd: "ptr_read (Some b) 0 curlen = Some (take curlen b)"
          using cur alloc by (simp add: ptr_read_Some)
        from string_finish_ok[of "take curlen b @ replicate (?n + 1 - curlen) (al_fill al)"
            "s\<lparr>m_iCapacity := ?n\<rparr>" ?n curlen str]
        show ?thesis using nz grow alloc ReallocFails rd tk cur
          by (auto simp: string_alloc_def Let_def)
      next
        case AllocFails
        with al show ?thesis by simp
      qed
    next
      case fits
      let ?b = "take ?n b @ replicate (m_iCapacity s - ?n) NUL @ drop (m_iCapacity s) b"
      have wr: "ptr_write (Some b) ?n (replicate (m_iCapacity s - ?n) NUL) = Some (Some ?b)"
      proof (cases "m_iCapacity s = ?n")
        case True
        then show ?thesis by (simp add: ptr_write_def)
      next
        case False
        with fits alloc show ?thesis by (subst ptr_write_Some) auto
      qed
      have eq: "string_alloc al str curlen s = string_finish (Some ?b) str curlen ?n s"
      proof -
        have "m_iCapacity s \<noteq> 0" "\<not> m_iCapacity s < ?n" using fits alloc by auto
        then show ?thesis
          by (simp only: string_alloc_def Let_def nz alloc(1) wr if_False bind.bind_lunit)
      qed
      have "take curlen ?b = take curlen b" "length ?b = m_iCapacity s + 1"
        using fits alloc by (simp_all add: min_def)
      with string_finish_ok[of ?b s ?n curlen str] fits alloc tk
      show ?thesis unfolding eq by simp
    qed
  qed
qed

text \<open>An exhausted allocator: the call returns \<open>false\<close> and the string stays well formed.\<close>

lemma string_alloc_fail:
  assumes ok: "string_ok s" and cur: "curlen \<le> m_iLength s" and al: "al_out al = AllocFails"
    and grow: "m_iCapacity s < curlen + length str"
  shows "\<exists>s'. string_alloc al str curlen s = Some (False, s') \<and> string_ok s' \<and> content s' = []"
  using ok
proof (cases rule: string_okE)
  case null
  with ok grow al show ?thesis by (auto simp: string_alloc_def content_def Let_def)
next
  case (alloc b)
  with string_wipe_ok[OF ok, of False] grow al show ?thesis
    by (auto simp: string_alloc_def Let_def)
qed

end
