(* ===== verification/Dfw_Array.thy ===== *)
theory Dfw_Array
  imports Dfw_Retval Dfw_Order Dfw_String
begin

text \<open>
  The containers of \<open>include/dframework/util\<close>: \<open>ArrayBase\<close> (growing storage), \<open>Array\<close>
  (unordered), \<open>ArraySorted\<close> and \<open>ArraySelfSorted\<close> (ordered by the element's operators or by
  address) and \<open>ArrayLinked\<close>.  The storage is a list of slots as long as the capacity; a slot
  is \<open>None\<close> when no object was stored there.  A result \<open>None\<close> is a fault: an access outside
  the allocation or through an empty slot.  Reference counts are kept by \<open>sp\<close> and are not
  part of this model.
\<close>

section \<open>ArrayBase\<close>

record 'a arr =
  a_capacity :: nat
  a_size :: nat
  a_data :: "'a option list"

definition arr_init :: "'a arr" where
  "arr_init = \<lparr>a_capacity = 0, a_size = 0, a_data = []\<rparr>"

definition getNewCapacity :: "nat \<Rightarrow> nat" where
  "getNewCapacity current =
     (let capa = current div 10 in if capa < 100 then 100 else if capa < 500 then 500 else 1000)"

definition isCapacity :: "'a arr \<Rightarrow> bool" where
  "isCapacity a \<longleftrightarrow> a_size a < a_capacity a"

text \<open>Size and capacity, \<open>int\<close>s in the code, are natural numbers: an array of \<open>2 ^ 31\<close> pointers to objects is not
  reached.  \<open>realloc\<close>ed slots are cleared; those of the first block are not, and stand here as \<open>None\<close>, which no
  property looks at behind the size.\<close>

definition arr_grow :: "allocator \<Rightarrow> 'a arr \<Rightarrow> rv \<times> 'a arr" where
  "arr_grow al a =
     (if isCapacity a then (None, a)
      else let newcapa = a_capacity a + getNewCapacity (a_capacity a) in
      if al_out al = AllocFails then (Some (DFW_E_NOMEM, 0), a)
      else (None, a\<lparr>a_data := a_data a @ replicate (newcapa - a_capacity a) None, a_capacity := newcapa\<rparr>))"

definition arr_clear :: "'a arr \<Rightarrow> 'a arr" where
  "arr_clear a = a\<lparr>a_data := replicate (a_capacity a) None, a_size := 0\<rparr>"

definition slot_write :: "nat \<Rightarrow> 'a option \<Rightarrow> 'a option list \<Rightarrow> 'a option list option" where
  "slot_write i x d = (if i < length d then Some (d[i := x]) else None)"

definition slot_read :: "nat \<Rightarrow> 'a option list \<Rightarrow> 'a option option" where
  "slot_read i d = (if i < length d then Some (d ! i) else None)"

definition arr_get :: "int \<Rightarrow> 'a arr \<Rightarrow> 'a option" where
  "arr_get position a =
     (if position < int (a_size a) \<and> 0 \<le> position then a_data a ! nat position else None)"

section \<open>Array\<close>

text \<open>Searching compares the argument with every slot below \<open>m_iSize\<close>, NULL slots included.\<close>

fun arr_index_loop :: "'a cmp_ops \<Rightarrow> 'a \<Rightarrow> 'a option list \<Rightarrow> nat \<Rightarrow> int" where
  "arr_index_loop c x [] k = -1"
| "arr_index_loop c x (d # ds) k =
     (if fst (ptr_ops c x d) then int k else arr_index_loop c x ds (Suc k))"

definition array_index :: "'a cmp_ops \<Rightarrow> 'a option \<Rightarrow> 'a arr \<Rightarrow> int" where
  "array_index c data a =
     (case data of None \<Rightarrow> -1 | Some x \<Rightarrow> arr_index_loop c x (take (a_size a) (a_data a)) 0)"

definition array_insert :: "allocator \<Rightarrow> 'a option \<Rightarrow> 'a arr \<Rightarrow> (rv \<times> 'a arr) option" where
  "array_insert al data a =
     (if data = None then Some (Some (DFW_E_INVAL, 22), a)
      else case arr_grow al a of
        (Some e, a') \<Rightarrow> Some (Some e, a')
      | (None, a') \<Rightarrow>
          do { d \<leftarrow> slot_write (a_size a') data (a_data a');
               Some (None, a'\<lparr>a_data := d, a_size := a_size a' + 1\<rparr>) })"

definition array_get :: "'a cmp_ops \<Rightarrow> 'a option \<Rightarrow> 'a arr \<Rightarrow> 'a option" where
  "array_get c data a = (let idx = array_index c data a in if idx = -1 then None else a_data a ! nat idx)"

text \<open>Removal moves the last element into the hole.\<close>

definition array_remove_at :: "int \<Rightarrow> 'a arr \<Rightarrow> ('a option \<times> 'a arr) option" where
  "array_remove_at position a =
     (case arr_get position a of
        None \<Rightarrow> Some (None, a)
      | Some val \<Rightarrow>
          do { l \<leftarrow> slot_read (a_size a - 1) (a_data a);
               d1 \<leftarrow> slot_write (nat position) l (a_data a);
               d2 \<leftarrow> slot_write (a_size a - 1) None d1;
               Some (Some val, a\<lparr>a_data := d2, a_size := a_size a - 1\<rparr>) })"

definition array_remove :: "'a cmp_ops \<Rightarrow> 'a option \<Rightarrow> 'a arr \<Rightarrow> ('a option \<times> 'a arr) option" where
  "array_remove c data a =
     (let idx = array_index c data a in
      if idx = -1 then Some (None, a) else array_remove_at idx a)"

section \<open>ArraySorted\<close>

text \<open>The comparison of the argument with slot \<open>k\<close>; reading a slot that does not exist faults.\<close>

definition cmp_slot :: "('a cmp_ops \<Rightarrow> 'a \<Rightarrow> 'a \<Rightarrow> bool) \<Rightarrow> 'a cmp_ops \<Rightarrow> 'a \<Rightarrow> nat \<Rightarrow> 'a option list \<Rightarrow> bool option" where
  "cmp_slot f c x k d = do { s \<leftarrow> slot_read k d; y \<leftarrow> s; Some (f c x y) }"

text \<open>
  The bisection of \<open>insertId\<close>.  \<open>fuel\<close> bounds the number of rounds; the interval shrinks in
  every round, so \<open>ep - sp\<close> rounds are enough.
\<close>

fun insertId_loop :: "'a cmp_ops \<Rightarrow> 'a \<Rightarrow> 'a option list \<Rightarrow> nat \<Rightarrow> nat \<Rightarrow> nat \<Rightarrow> nat option" where
  "insertId_loop c x d sp ep 0 = None"
| "insertId_loop c x d sp ep (Suc fuel) =
     (let cp = (ep - sp) div 2 + sp in
      if sp = cp \<or> ep = cp
      then do { le \<leftarrow> cmp_slot op_le c x sp d; Some (if le then sp else ep) }
      else do { eq \<leftarrow> cmp_slot op_eq c x cp d;
                lt \<leftarrow> cmp_slot op_lt c x cp d;
                if eq then Some cp
                else if lt then insertId_loop c x d sp cp fuel
                else insertId_loop c x d cp ep fuel })"

definition insertId :: "'a cmp_ops \<Rightarrow> 'a \<Rightarrow> 'a arr \<Rightarrow> nat option" where
  "insertId c x a =
     (if a_size a = 0 then Some 0
      else do { le0 \<leftarrow> cmp_slot op_le c x 0 (a_data a);
                if le0 then Some 0
                else do { geN \<leftarrow> cmp_slot op_ge c x (a_size a - 1) (a_data a);
                          if geN then Some (a_size a)
                          else insertId_loop c x (a_data a) 0 (a_size a) (a_size a) } })"

fun index_loop :: "'a cmp_ops \<Rightarrow> 'a \<Rightarrow> 'a option list \<Rightarrow> nat \<Rightarrow> nat \<Rightarrow> nat \<Rightarrow> int option" where
  "index_loop c x d sp ep 0 = None"
| "index_loop c x d sp ep (Suc fuel) =
     (let cp = (ep - sp) div 2 + sp in
      if sp = cp \<or> ep = cp
      then do { e1 \<leftarrow> cmp_slot op_eq c x sp d;
                if e1 then Some (int sp)
                else do { e2 \<leftarrow> cmp_slot op_eq c x (ep - 1) d;
                          Some (if e2 then int (ep - 1) else -1) } }
      else do { eq \<leftarrow> cmp_slot op_eq c x cp d;
                lt \<leftarrow> cmp_slot op_lt c x cp d;
                if eq then Some (int cp)
                else if lt then index_loop c x d sp cp fuel
                else index_loop c x d cp ep fuel })"

definition sorted_index :: "'a cmp_ops \<Rightarrow> 'a option \<Rightarrow> 'a arr \<Rightarrow> int option" where
  "sorted_index c data a =
     (case data of
        None \<Rightarrow> Some (-1)
      | Some x \<Rightarrow>
          if a_size a = 0 then Some (-1)
          else do { lt0 \<leftarrow> cmp_slot op_lt c x 0 (a_data a);
                    if lt0 then Some (-1)
                    else do { gtN \<leftarrow> cmp_slot op_gt c x (a_size a - 1) (a_data a);
                              if gtN then Some (-1)
                              else index_loop c x (a_data a) 0 (a_size a) (a_size a) } })"

text \<open>\<open>memmove\<close> of \<open>n\<close> slots; both ranges must lie inside the allocation.\<close>

definition slots_move :: "nat \<Rightarrow> nat \<Rightarrow> nat \<Rightarrow> 'a option list \<Rightarrow> 'a option list option" where
  "slots_move dst src n d =
     (if src + n \<le> length d \<and> dst + n \<le> length d
      then Some (take dst d @ take n (drop src d) @ drop (dst + n) d) else None)"

text \<open>
  \<open>insert(int*, sp<T>)\<close> returns the position as well.  The shift is the same whether the
  temporary buffer could be allocated or not.
\<close>

definition sorted_insert :: "'a cmp_ops \<Rightarrow> allocator \<Rightarrow> 'a option \<Rightarrow> 'a arr \<Rightarrow> (rv \<times> nat \<times> 'a arr) option" where
  "sorted_insert c al data a =
     (case data of
        None \<Rightarrow> Some (Some (DFW_E_INVAL, 0), 0, a)
      | Some x \<Rightarrow>
          (case arr_grow al a of
             (Some e, a') \<Rightarrow> Some (Some e, 0, a')
           | (None, a') \<Rightarrow>
               do { iid \<leftarrow> insertId c x a';
                    d1 \<leftarrow> (if arr_get (int iid) a' \<noteq> None
                           then slots_move (iid + 1) iid (a_size a' - iid) (a_data a')
                           else Some (a_data a'));
                    d2 \<leftarrow> slot_write iid (Some x) d1;
                    Some (None, iid, a'\<lparr>a_data := d2, a_size := a_size a' + 1\<rparr>) }))"

text \<open>\<open>remove(int)\<close> moves \<open>m_iSize - position\<close> slots, one more than there are elements behind.\<close>

definition sorted_remove_at :: "int \<Rightarrow> 'a arr \<Rightarrow> ('a option \<times> 'a arr) option" where
  "sorted_remove_at position a =
     (case arr_get position a of
        None \<Rightarrow> Some (None, a)
      | Some val \<Rightarrow>
          do { d \<leftarrow> (if position = int (a_size a) - 1
                     then slot_write (nat position) None (a_data a)
                     else slots_move (nat position) (nat position + 1) (a_size a - nat position) (a_data a));
               Some (Some val, a\<lparr>a_data := d, a_size := a_size a - 1\<rparr>) })"

definition sorted_get :: "'a cmp_ops \<Rightarrow> 'a option \<Rightarrow> 'a arr \<Rightarrow> 'a option option" where
  "sorted_get c data a = do { i \<leftarrow> sorted_index c data a; Some (arr_get i a) }"

definition sorted_remove :: "'a cmp_ops \<Rightarrow> 'a option \<Rightarrow> 'a arr \<Rightarrow> ('a option \<times> 'a arr) option" where
  "sorted_remove c data a = do { i \<leftarrow> sorted_index c data a; sorted_remove_at i a }"

text \<open>
  \<open>ArraySelfSorted\<close> repeats the two bisections with the raw pointers compared: an element is
  its address.
\<close>

definition address_ops :: "nat cmp_ops" where
  "address_ops = \<lparr>op_eq = (=), op_ne = (\<noteq>), op_gt = (>), op_lt = (<), op_ge = (\<ge>), op_le = (\<le>)\<rparr>"

definition selfsorted_insertId :: "nat \<Rightarrow> nat arr \<Rightarrow> nat option" where
  "selfsorted_insertId x a = insertId address_ops x a"

definition selfsorted_index :: "nat option \<Rightarrow> nat arr \<Rightarrow> int option" where
  "selfsorted_index x a = sorted_index address_ops x a"

section \<open>The invariant and the elements\<close>

definition arr_ok :: "'a arr \<Rightarrow> bool" where
  "arr_ok a \<longleftrightarrow> length (a_data a) = a_capacity a \<and> a_size a \<le> a_capacity a \<and>
     (\<forall>i<a_size a. a_data a ! i \<noteq> None)"

definition elems :: "'a arr \<Rightarrow> 'a list" where
  "elems a = map the (take (a_size a) (a_data a))"

lemma arr_ok_init [simp]: "arr_ok arr_init" "elems arr_init = []"
  by (simp_all add: arr_ok_def arr_init_def elems_def)

lemma length_elems [simp]: "arr_ok a \<Longrightarrow> length (elems a) = a_size a"
  by (simp add: arr_ok_def elems_def)

lemma nth_elems: "arr_ok a \<Longrightarrow> i < a_size a \<Longrightarrow> a_data a ! i = Some (elems a ! i)"
  by (auto simp: arr_ok_def elems_def)

lemma data_split: "arr_ok a \<Longrightarrow> a_data a = map Some (elems a) @ drop (a_size a) (a_data a)"
  by (intro nth_equalityI) (auto simp: nth_append nth_elems arr_ok_def)

text \<open>The way back: any slot list that starts with the elements.\<close>

lemma arr_okI:
  assumes "a_data a = map Some xs @ r" "a_size a = length xs" "a_capacity a = length xs + length r"
  shows "arr_ok a \<and> elems a = xs"
  using assms by (auto simp: arr_ok_def elems_def nth_append o_def)

lemma arr_grow_ok:
  assumes "arr_ok a" "al_out al \<noteq> AllocFails"
  shows "\<exists>a'. arr_grow al a = (None, a') \<and> arr_ok a' \<and> elems a' = elems a \<and>
     a_size a' = a_size a \<and> a_size a' < a_capacity a'"
proof (cases "isCapacity a")
  case True
  with assms show ?thesis by (simp add: arr_grow_def isCapacity_def)
next
  case False
  then show ?thesis using assms
    by (auto simp: arr_grow_def Let_def isCapacity_def arr_ok_def elems_def nth_append getNewCapacity_def)
qed

lemma arr_get_elems:
  "arr_ok a \<Longrightarrow> arr_get i a = (if 0 \<le> i \<and> i < int (a_size a) then Some (elems a ! nat i) else None)"
  by (auto simp: arr_get_def nth_elems)

lemma arr_clear_ok: "arr_ok (arr_clear a) \<and> elems (arr_clear a) = []"
  by (simp add: arr_ok_def arr_clear_def elems_def)

lemma cmp_slot_elems:
  "arr_ok a \<Longrightarrow> k < a_size a \<Longrightarrow> cmp_slot f c x k (a_data a) = Some (f c x (elems a ! k))"
  using nth_elems[of a k] by (simp add: cmp_slot_def slot_read_def arr_ok_def)

end
