(* ===== verification/Dfw_String_Spec.thy ===== *)
theory Dfw_String_Spec
  imports Dfw_String
begin

text \<open>
  The contract of \<open>lib/lang/String.cpp\<close>: on well-formed strings every editing operation
  is the list operation a reader expects, never faults and keeps the representation; the
  searches return the first and the last occurrence; the six operators are the lexicographic
  order of signed characters.  Two calls break the representation (see \<open>substring_then_set_faults\<close>
  and \<open>chuck_unallocated_faults\<close>).
\<close>

section \<open>Editing operations\<close>

definition trim_spec :: "string \<Rightarrow> string" where
  "trim_spec xs = rev (dropWhile string_isspace (rev (dropWhile string_isspace xs)))"

lemma trim_front_eq:
  "i + k \<le> length b \<Longrightarrow> trim_front b i k = i + length (takeWhile string_isspace (take k (drop i b)))"
proof (induction k arbitrary: i)
  case (Suc k)
  then have "take (Suc k) (drop i b) = b ! i # take k (drop (Suc i) b)"
    by (metis Cons_nth_drop_Suc Suc_le_lessD add_Suc_right le_add1 order_less_le_trans take_Suc_Cons
        le_trans less_eq_Suc_le not_less_eq_eq)
  with Suc show ?case by simp
qed simp

lemma take_diff_snoc:
  assumes "i < j" "j \<le> length b"
  shows "take (j - i) (drop i b) = take (j - 1 - i) (drop i b) @ [b ! (j - 1)]"
proof -
  from assms obtain k where k: "j = i + Suc k"
    by (metis add_Suc_right less_iff_Suc_add)
  with assms have "take (Suc k) (drop i b) = take k (drop i b) @ [drop i b ! k]"
    by (intro take_Suc_conv_app_nth) simp
  with k assms show ?thesis by simp
qed

lemma trim_back_eq:
  "i \<le> j \<Longrightarrow> j \<le> length b \<Longrightarrow>
     i \<le> trim_back b i j \<and> trim_back b i j \<le> j \<and>
     take (trim_back b i j - i) (drop i b) =
       rev (dropWhile string_isspace (rev (take (j - i) (drop i b))))"
proof (induction b i j rule: trim_back.induct)
  case (1 b i j)
  show ?case
  proof (cases "i < j \<and> string_isspace (b ! (j - 1))")
    case True
    then have "take (j - i) (drop i b) = take (j - 1 - i) (drop i b) @ [b ! (j - 1)]"
      using 1(3) by (intro take_diff_snoc) auto
    moreover have "i \<le> j - 1" "j - 1 \<le> length b" using True 1(3) by auto
    ultimately show ?thesis
      using 1(1)[OF True] True by (subst (1 2 3) trim_back.simps) auto
  next
    case False
    have "rev (dropWhile string_isspace (rev (take (j - i) (drop i b)))) = take (j - i) (drop i b)"
    proof (cases "i = j")
      case ne: False
      with 1 False have "take (j - i) (drop i b) \<noteq> []" "last (take (j - i) (drop i b)) = b ! (j - 1)"
        by (auto simp: last_conv_nth)
      then have "hd (rev (take (j - i) (drop i b))) = b ! (j - 1)"
        by (simp add: hd_rev)
      moreover have "\<not> string_isspace (b ! (j - 1))" using False ne 1(2) by auto
      ultimately show ?thesis
        by (metis dropWhile_eq_self_iff rev_rev_ident)
    qed simp
    then show ?thesis using False 1(2)
      by (subst (1 2 3) trim_back.simps) auto
  qed
qed

lemma string_trim_ok:
  assumes ok: "string_ok s"
  shows "\<exists>s'. string_trim s = Some s' \<and> string_ok s' \<and> content s' = trim_spec (content s)"
  using ok
proof (cases rule: string_okE)
  case null
  with ok show ?thesis by (auto simp: string_trim_def content_def trim_spec_def)
next
  case (alloc b)
  show ?thesis
  proof (cases "m_iLength s = 0")
    case True
    with ok alloc show ?thesis by (auto simp: string_trim_def content_def trim_spec_def)
  next
    case False
    let ?l = "m_iLength s" and ?i = "trim_front b 0 (m_iLength s)"
    let ?j = "trim_back b ?i ?l"
    have i: "?i = length (takeWhile string_isspace (take ?l b))"
      using trim_front_eq[of 0 ?l b] alloc by simp
    then have il: "?i \<le> ?l" by (metis length_takeWhile_le length_take min.bounded_iff)
    have dr: "take (?l - ?i) (drop ?i b) = dropWhile string_isspace (take ?l b)"
      unfolding i by (simp add: dropWhile_eq_drop drop_take)
    from trim_back_eq[OF il, of b] alloc
    have j: "?i \<le> ?j" "?j \<le> ?l" "take (?j - ?i) (drop ?i b) = trim_spec (take ?l b)"
      by (simp_all add: dr trim_spec_def)
    let ?m = "trim_spec (take ?l b)"
    have lm: "length ?m = ?j - ?i" using j alloc by (metis (no_types, lifting) add.commute
          add_diff_inverse_nat diff_le_mono leD le_add_diff_inverse length_drop length_take
          less_diff_conv min.absorb2 nat_le_linear order_trans trans_le_add2 diff_le_mono le_SucI Suc_eq_plus1)
    have "string_trim s = Some (s\<lparr>m_pBuffer := Some (?m @ NUL # drop (?j - ?i + 1) b), m_iLength := ?j - ?i\<rparr>)"
    proof -
      have "ptr_read (Some b) ?i (?j - ?i) = Some ?m"
        using j alloc by (subst ptr_read_Some) auto
      moreover have "ptr_write (Some b) 0 ?m = Some (Some (?m @ drop (?j - ?i) b))"
        using lm j alloc by (subst ptr_write_Some) auto
      moreover have "ptr_write (Some (?m @ drop (?j - ?i) b)) (?j - ?i) [NUL] =
          Some (Some (?m @ NUL # drop (?j - ?i + 1) b))"
        using lm j alloc by (subst ptr_write_Some) auto
      ultimately show ?thesis
        using False alloc(1) by (simp add: string_trim_def Let_def)
    qed
    then show ?thesis using alloc lm j
      by (auto simp: string_ok_def content_def nth_append)
  qed
qed

lemma string_replace_char_ok:
  assumes ok: "string_ok s"
  shows "\<exists>s'. string_replace_char from to s = Some s' \<and> string_ok s' \<and>
    content s' = map (\<lambda>c. if from = c then to else c) (content s)"
  using ok
proof (cases rule: string_okE)
  case null
  then show ?thesis
    by (auto simp: string_replace_char_def ptr_read_def ptr_write_def string_ok_def content_def)
next
  case (alloc b)
  then show ?thesis
    by (auto simp: string_replace_char_def ptr_read_Some ptr_write_Some string_ok_def content_def nth_append)
qed

lemma string_shift_ok:
  assumes ok: "string_ok s"
  shows "\<exists>s'. string_shift n s = Some s' \<and> string_ok s' \<and> content s' = drop n (content s)"
  using ok
proof (cases rule: string_okE)
  case null
  with ok show ?thesis by (auto simp: string_shift_def content_def string_ok_def)
next
  case (alloc b)
  consider "n = 0" | "0 < n" "m_iLength s \<le> n" | "0 < n" "n < m_iLength s" by linarith
  then show ?thesis
  proof cases
    case 1
    with ok show ?thesis by (simp add: string_shift_def)
  next
    case 2
    with alloc ok show ?thesis
      by (auto simp: string_shift_def Let_def ptr_write_Some string_ok_def content_def)
  next
    case 3
    let ?m = "take (m_iLength s - n + 1) (drop n b)"
    have "ptr_read (m_pBuffer s) n (m_iLength s - n + 1) = Some ?m"
      using alloc 3 by (simp only: alloc(1)) (subst ptr_read_Some, auto)
    moreover have "length ?m = m_iLength s - n + 1" using alloc 3 by simp
    moreover have "take (m_iLength s - n) ?m = drop n (take (m_iLength s) b)"
      using alloc 3 by (simp add: drop_take)
    ultimately show ?thesis using alloc 3
      by (auto simp: string_shift_def Let_def ptr_write_Some string_ok_def content_def nth_append)
  qed
qed

lemma string_chuck_ok:
  assumes ok: "string_ok s" and "0 < n \<or> content s \<noteq> []"
  shows "\<exists>s'. string_chuck n s = Some s' \<and> string_ok s' \<and> content s' = take n (content s)"
  using ok
proof (cases rule: string_okE)
  case null
  with assms show ?thesis by (auto simp: string_chuck_def content_def)
next
  case (alloc b)
  with ok show ?thesis
    by (cases "m_iLength s < n")
      (auto simp: string_chuck_def ptr_write_Some string_ok_def content_def nth_append min_def)
qed

lemma string_substring_ok:
  assumes ok: "string_ok s" and st: "start < length (content s)" and w: "n + start < 2 ^ 64"
  shows "\<exists>s'. string_substring start n s = Some s' \<and> string_ok s' \<and>
    content s' = take n (drop start (content s))"
  using ok
proof (cases rule: string_okE)
  case null
  with st show ?thesis by (simp add: content_def)
next
  case (alloc b)
  let ?n = "if m_iLength s < n + start then m_iLength s - start else n"
  from st ok have lt: "start < m_iLength s" by simp
  then have fit: "start + ?n \<le> m_iLength s" by auto
  then have "ptr_read (Some b) start ?n = Some (take ?n (drop start b))"
    using alloc by (subst ptr_read_Some) auto
  moreover have "take ?n (drop start b) = take n (drop start (take (m_iLength s) b))"
    using lt alloc by (auto simp: drop_take min_def)
  moreover have "length (take ?n (drop start b)) = ?n" using alloc fit by auto
  ultimately show ?thesis using alloc lt w fit
    by (auto simp: string_substring_def Let_def ptr_write_Some string_ok_def content_def nth_append
        simp del: take_drop)
qed


section \<open>Assignment and appending between strings\<close>

lemma ptr_read_content:
  assumes "string_ok s"
  shows "ptr_read (string_toChars s) 0 (m_iLength s) = Some (content s)"
  using assms by (cases rule: string_okE)
    (auto simp: string_toChars_def content_def ptr_read_def)

lemma string_append_str_ok:
  assumes "string_ok t" "string_ok s" "al_out al \<noteq> AllocFails"
  shows "\<exists>s'. string_append_str al t s = Some (True, s') \<and> string_ok s' \<and>
    content s' = content s @ content t"
  using string_alloc_ok[OF assms(2) order_refl assms(3), of "content t"] assms
  by (simp add: string_append_str_def string_append_n_def ptr_read_content)

lemma string_append_ok:
  assumes "string_ok s" "al_out al \<noteq> AllocFails"
  shows "\<exists>s'. string_append al p s = Some (True, s') \<and> string_ok s' \<and>
    content s' = content s @ c_arg p"
  using string_alloc_ok[OF assms(1) order_refl assms(2), of "c_arg p"] assms
  by (simp add: string_append_def)

lemma string_assign_ok:
  assumes "string_ok t" "string_ok s" "al_out al \<noteq> AllocFails"
  shows "\<exists>s'. string_assign al t s = Some (True, s') \<and> string_ok s' \<and> content s' = content t"
  using string_alloc_ok[OF assms(2) le0 assms(3), of "content t"] assms
  by (simp add: string_assign_def string_set_n_def ptr_read_content)

lemma string_set_ok:
  assumes "string_ok s" "al_out al \<noteq> AllocFails"
  shows "\<exists>s'. string_set al p s = Some (True, s') \<and> string_ok s' \<and> content s' = c_arg p"
  using string_alloc_ok[OF assms(1) le0 assms(2), of "c_arg p"]
  by (simp add: string_set_def)

lemma string_set_n_ok:
  assumes "string_ok s" "al_out al \<noteq> AllocFails" "n \<le> length t"
  shows "\<exists>s'. string_set_n al (Some t) n s = Some (True, s') \<and> string_ok s' \<and> content s' = take n t"
  using string_alloc_ok[OF assms(1) le0 assms(2), of "take n t"] assms(3)
  by (simp add: string_set_n_def ptr_read_Some)

lemmas string_write_oks = string_set_ok string_set_n_ok string_append_ok string_append_str_ok string_assign_ok

section \<open>Searching\<close>

lemma last_index_loop_spec:
  "(\<exists>i\<le>k. last_index_loop hay nd k = int i \<and> prefix nd (drop i hay) \<and>
      (\<forall>j\<le>k. prefix nd (drop j hay) \<longrightarrow> j \<le> i)) \<or>
   (last_index_loop hay nd k = -1 \<and> (\<forall>j\<le>k. \<not> prefix nd (drop j hay)))"
proof (induction k)
  case (Suc k)
  show ?case
  proof (cases "prefix nd (drop (Suc k) hay)")
    case True
    then show ?thesis by (intro disjI1 exI[of _ "Suc k"]) auto
  next
    case False
    with Suc show ?thesis by (auto simp: le_Suc_eq)
  qed
qed auto

lemma prefix_drop_bound: "prefix nd (drop j hay) \<Longrightarrow> j \<le> length hay \<Longrightarrow> j + length nd \<le> length hay"
  by (drule prefix_length_le) simp

lemma string_lastIndexOf_spec:
  assumes "length (cstr h) < 2 ^ 31"
  shows "(\<exists>i\<le>length (cstr h). string_lastIndexOf (Some h) (Some nd) = int i \<and> prefix (cstr nd) (drop i (cstr h)) \<and>
      (\<forall>j\<le>length (cstr h). prefix (cstr nd) (drop j (cstr h)) \<longrightarrow> j \<le> i)) \<or>
   (string_lastIndexOf (Some h) (Some nd) = -1 \<and> (\<forall>j\<le>length (cstr h). \<not> prefix (cstr nd) (drop j (cstr h))))"
proof (cases "length (cstr h) < length (cstr nd)")
  case True
  then have "\<not> prefix (cstr nd) (drop j (cstr h))" for j
    by (auto dest!: prefix_length_le)
  with True show ?thesis by (simp add: string_lastIndexOf_def)
next
  case False
  let ?k = "length (cstr h) - length (cstr nd)"
  have in_range: "j \<le> ?k" if "prefix (cstr nd) (drop j (cstr h))" "j \<le> length (cstr h)" for j
    using prefix_drop_bound[OF that] by simp
  have "last_index_loop (cstr h) (cstr nd) ?k = -1 \<or> (\<exists>i\<le>?k. last_index_loop (cstr h) (cstr nd) ?k = int i)"
    using last_index_loop_spec[of ?k "cstr h" "cstr nd"] by blast
  then have "to_int32 (last_index_loop (cstr h) (cstr nd) ?k) = last_index_loop (cstr h) (cstr nd) ?k"
    using assms by (intro to_int32_id) auto
  then have eq: "string_lastIndexOf (Some h) (Some nd) = last_index_loop (cstr h) (cstr nd) ?k"
    using False by (simp add: string_lastIndexOf_def Let_def)
  from last_index_loop_spec[of ?k "cstr h" "cstr nd"] show ?thesis
  proof
    assume "\<exists>i\<le>?k. last_index_loop (cstr h) (cstr nd) ?k = int i \<and> prefix (cstr nd) (drop i (cstr h)) \<and>
      (\<forall>j\<le>?k. prefix (cstr nd) (drop j (cstr h)) \<longrightarrow> j \<le> i)"
    then obtain i where "i \<le> ?k" "last_index_loop (cstr h) (cstr nd) ?k = int i"
      "prefix (cstr nd) (drop i (cstr h))" "\<forall>j\<le>?k. prefix (cstr nd) (drop j (cstr h)) \<longrightarrow> j \<le> i"
      by blast
    with in_range eq show ?thesis by (intro disjI1 exI[of _ i]) auto
  next
    assume "last_index_loop (cstr h) (cstr nd) ?k = -1 \<and> (\<forall>j\<le>?k. \<not> prefix (cstr nd) (drop j (cstr h)))"
    with in_range eq show ?thesis by auto
  qed
qed

lemma string_indexOf_spec:
  assumes "length (cstr h) < 2 ^ 31"
  shows "(\<exists>i\<le>length (cstr h). string_indexOf (Some h) (Some nd) = int i \<and> prefix (cstr nd) (drop i (cstr h)) \<and>
      (\<forall>j\<le>length (cstr h). prefix (cstr nd) (drop j (cstr h)) \<longrightarrow> i \<le> j)) \<or>
   (string_indexOf (Some h) (Some nd) = -1 \<and> (\<forall>j\<le>length (cstr h). \<not> prefix (cstr nd) (drop j (cstr h))))"
proof (cases "strstr (cstr h) (cstr nd)")
  case None
  then have "\<forall>j\<le>length (cstr h). \<not> prefix (cstr nd) (drop j (cstr h))"
    by (simp only: strstr_None_iff)
  with None show ?thesis by (simp add: string_indexOf_def)
next
  case (Some i)
  from strstr_SomeD[OF Some] have "j < i \<Longrightarrow> \<not> prefix (cstr nd) (drop j (cstr h))" for j by blast
  moreover have "to_int32 (int i) = int i" using strstr_SomeD[OF Some] assms by (intro to_int32_of_nat) simp
  ultimately show ?thesis using strstr_SomeD[OF Some] Some
    by (intro disjI1 exI[of _ i]) (auto simp: string_indexOf_def not_less[symmetric])
qed

lemma first_match_iff:
  assumes "(\<exists>i\<le>n. r = int i \<and> P i \<and> (\<forall>j\<le>n. P j \<longrightarrow> i \<le> j)) \<or> (r = -1 \<and> (\<forall>j\<le>n. \<not> P j))"
  shows "(\<forall>i\<le>n. r = int i \<longleftrightarrow> P i \<and> (\<forall>j<i. \<not> P j)) \<and> (r = -1 \<longleftrightarrow> (\<forall>j\<le>n. \<not> P j))"
  using assms
proof
  assume "\<exists>i\<le>n. r = int i \<and> P i \<and> (\<forall>j\<le>n. P j \<longrightarrow> i \<le> j)"
  then obtain k where k: "k \<le> n" "r = int k" "P k" "\<forall>j\<le>n. P j \<longrightarrow> k \<le> j" by blast
  have "r = int i \<longleftrightarrow> P i \<and> (\<forall>j<i. \<not> P j)" if "i \<le> n" for i
  proof
    assume "r = int i"
    with k(2) have "i = k" by simp
    with k that show "P i \<and> (\<forall>j<i. \<not> P j)" by (meson leD le_trans less_imp_le_nat)
  next
    assume "P i \<and> (\<forall>j<i. \<not> P j)"
    with k that have "k \<le> i" "\<not> k < i" by blast+
    with k(2) show "r = int i" by simp
  qed
  moreover have "r \<noteq> -1" using k(2) by simp
  ultimately show ?thesis using k(1,3) by blast
qed auto

lemma last_match_iff:
  assumes "(\<exists>i\<le>n. r = int i \<and> P i \<and> (\<forall>j\<le>n. P j \<longrightarrow> j \<le> i)) \<or> (r = -1 \<and> (\<forall>j\<le>n. \<not> P j))"
  shows "(\<forall>i\<le>n. r = int i \<longleftrightarrow> P i \<and> (\<forall>j. i < j \<and> j \<le> n \<longrightarrow> \<not> P j)) \<and> (r = -1 \<longleftrightarrow> (\<forall>j\<le>n. \<not> P j))"
  using assms
proof
  assume "\<exists>i\<le>n. r = int i \<and> P i \<and> (\<forall>j\<le>n. P j \<longrightarrow> j \<le> i)"
  then obtain k where k: "k \<le> n" "r = int k" "P k" "\<forall>j\<le>n. P j \<longrightarrow> j \<le> k" by blast
  have "r = int i \<longleftrightarrow> P i \<and> (\<forall>j. i < j \<and> j \<le> n \<longrightarrow> \<not> P j)" if "i \<le> n" for i
  proof
    assume "r = int i"
    with k(2) have "i = k" by simp
    with k that show "P i \<and> (\<forall>j. i < j \<and> j \<le> n \<longrightarrow> \<not> P j)" by (meson leD)
  next
    assume "P i \<and> (\<forall>j. i < j \<and> j \<le> n \<longrightarrow> \<not> P j)"
    with k that have "i \<le> k" "\<not> i < k" by blast+
    with k(2) show "r = int i" by simp
  qed
  moreover have "r \<noteq> -1" using k(2) by simp
  ultimately show ?thesis using k(1,3) by blast
qed auto

section \<open>The order of strings\<close>

lemma strncmp_s_0_iff: "strncmp_s a b = 0 \<longleftrightarrow> a = b"
proof (induction a b rule: strncmp_s.induct)
  case (4 s ss d ds)
  have "s = d" if "\<not> schar s < schar d" "\<not> schar d < schar s"
    using that by (metis linorder_less_linear schar_eq_iff)
  with 4 show ?case by auto
qed auto

lemma strncmp_s_swap: "strncmp_s b a = - strncmp_s a b"
  by (induction a b rule: strncmp_s.induct) auto

lemma strncmp_s_pos_lexord:
  "0 < strncmp_s a b \<longleftrightarrow> (a, b) \<in> lexord {(x, y). schar x < schar y}"
proof (induction a b rule: strncmp_s.induct)
  case (4 s ss d ds)
  have "s = d" if "\<not> schar s < schar d" "\<not> schar d < schar s"
    using that by (metis linorder_less_linear schar_eq_iff)
  with 4 show ?case by auto
qed auto

lemma str_le_iff: "str_le a b \<longleftrightarrow> a = b \<or> (a, b) \<in> lexord {(x, y). schar x < schar y}"
proof (cases "a = [] \<or> b = []")
  case True
  then show ?thesis by (cases b) (auto simp: str_le_def)
next
  case False
  then have "str_le a b \<longleftrightarrow> \<not> strncmp_s a b < 0" by (simp add: str_le_def)
  then show ?thesis
    unfolding strncmp_s_pos_lexord[symmetric] strncmp_s_0_iff[symmetric] by linarith
qed

lemma str_ge_iff: "str_ge a b \<longleftrightarrow> str_le b a"
  using strncmp_s_swap[of a b] by (auto simp: str_ge_def str_le_def)

lemma str_ne_iff: "str_ne a b \<longleftrightarrow> a \<noteq> b"
  by (auto simp: str_ne_def strncmp_s_0_iff)

lemma lexord_schar_trans:
  "(a, b) \<in> lexord {(x, y). schar x < schar y} \<Longrightarrow> (b, c) \<in> lexord {(x, y). schar x < schar y} \<Longrightarrow>
   (a, c) \<in> lexord {(x, y). schar x < schar y}"
  by (rule lexord_trans) (auto intro: transI)

lemma lexord_schar_linear:
  "(a, b) \<in> lexord {(x, y). schar x < schar y} \<or> a = b \<or> (b, a) \<in> lexord {(x, y). schar x < schar y}"
  by (rule lexord_linear) (auto simp: linorder_less_linear dest: schar_eq_iff[THEN iffD1])

lemma str_le_antisym: "str_le a b \<Longrightarrow> str_le b a \<Longrightarrow> a = b"
proof -
  assume "str_le a b" "str_le b a"
  moreover have "(a, a) \<notin> lexord {(x, y). schar x < schar y}"
    by (rule lexord_irreflexive) simp
  ultimately show "a = b" by (auto simp: str_le_iff dest: lexord_schar_trans)
qed

lemma str_lt_lexord: "\<not> str_le b a \<longleftrightarrow> (a, b) \<in> lexord {(x, y). schar x < schar y}"
proof
  assume "\<not> str_le b a"
  then show "(a, b) \<in> lexord {(x, y). schar x < schar y}"
    using lexord_schar_linear[of a b] by (auto simp: str_le_iff)
next
  assume lt: "(a, b) \<in> lexord {(x, y). schar x < schar y}"
  then have "str_le a b" by (simp add: str_le_iff)
  moreover have "a \<noteq> b" using lt lexord_irreflexive[of "{(x, y). schar x < schar y}" a] by auto
  ultimately show "\<not> str_le b a" using str_le_antisym by blast
qed

interpretation strcmp: dfw_order str_ops
proof unfold_locales
  show "op_le str_ops a b \<or> op_le str_ops b a" for a b
    using lexord_schar_linear[of a b] by (auto simp: str_ops_def str_le_iff)
  show "op_le str_ops a b \<Longrightarrow> op_le str_ops b c \<Longrightarrow> op_le str_ops a c" for a b c
    by (auto simp: str_ops_def str_le_iff dest: lexord_schar_trans)
  show "op_eq str_ops a b \<longleftrightarrow> op_le str_ops a b \<and> op_ge str_ops a b" for a b
    by (auto simp: str_ops_def str_ne_iff str_ge_iff str_le_antisym) (simp_all add: str_le_iff)
qed (auto simp: str_ops_def str_ge_iff)

lemma str_ops_eq [simp]: "op_eq str_ops a b \<longleftrightarrow> a = b"
  by (simp add: str_ops_def str_ne_iff)


section \<open>Replacing substrings\<close>

text \<open>The reference: replace every occurrence from the left, without overlap.\<close>

function replace_spec :: "string \<Rightarrow> string \<Rightarrow> string \<Rightarrow> string" where
  "replace_spec pat rep xs =
     (if pat = [] then xs
      else case strstr xs pat of
             None \<Rightarrow> xs
           | Some i \<Rightarrow> take i xs @ rep @ replace_spec pat rep (drop (i + length pat) xs))"
  by pat_completeness auto
termination
proof (relation "measure (\<lambda>(pat, rep, xs). length xs)", goal_cases)
  case (2 pat rep xs i)
  with strstr_Some_length[OF 2(2)] have "0 < length pat" "i + length pat \<le> length xs" by auto
  then show ?case unfolding in_measure prod.case length_drop by linarith
qed simp

declare replace_spec.simps [simp del]

lemma cstr_drop: "n \<le> length (cstr xs) \<Longrightarrow> cstr (drop n xs) = drop n (cstr xs)"
proof (induction n arbitrary: xs)
  case (Suc n)
  then obtain c cs where "xs = c # cs" "c \<noteq> NUL" "n \<le> length (cstr cs)"
    by (cases xs) (auto simp: cstr_def split: if_splits)
  with Suc.IH show ?case by (simp add: cstr_def)
qed simp

lemma take_cstr: "n \<le> length (cstr xs) \<Longrightarrow> take n xs = take n (cstr xs)"
  by (metis cstr_take min.absorb2 min.commute take_take)

lemma string_indexOf_strstr:
  assumes "length (cstr p) < 2 ^ 31" "NUL \<notin> set pat"
  shows "string_indexOf (Some p) (Some pat) = (case strstr (cstr p) pat of None \<Rightarrow> -1 | Some i \<Rightarrow> int i)"
proof (cases "strstr (cstr p) pat")
  case (Some i)
  from strstr_Some_length[OF this] assms(1) have "i < 2 ^ 31" by linarith
  then show ?thesis using Some assms(2) by (simp add: string_indexOf_def to_int32_of_nat)
qed (use assms(2) in \<open>simp add: string_indexOf_def\<close>)

lemma string_set_int_of_nat [simp]: "string_set_int al p (int n) s = string_set_n al p n s"
  by (simp add: string_set_int_def)

text \<open>One round: what stands before the occurrence is copied through \<open>sTest\<close>, then the replacement.\<close>

lemma replace_round_ok:
  assumes "al_out al \<noteq> AllocFails" "string_ok sTest" "string_ok sVal" "pos \<le> length (cstr p)"
  shows "\<exists>t v w. (if int pos \<noteq> 0
      then do { rt \<leftarrow> string_set_int al (Some p) (int pos) sTest;
                rv \<leftarrow> string_append_str al (snd rt) sVal; Some (snd rt, snd rv) }
      else Some (sTest, sVal)) = Some (t, v) \<and> string_ok t \<and>
    string_append al rep v = Some (True, w) \<and> string_ok w \<and>
    content w = content sVal @ take pos (cstr p) @ c_arg rep"
proof -
  have "pos \<le> length p" using assms(4) length_cstr_le[of p] by linarith
  from string_set_n_ok[OF assms(2,1) this] obtain t where
    t: "string_set_n al (Some p) pos sTest = Some (True, t)" "string_ok t" "content t = take pos (cstr p)"
    using take_cstr[OF assms(4)] by auto
  from string_append_str_ok[OF t(2) assms(3,1)] obtain v where
    v: "string_append_str al t sVal = Some (True, v)" "string_ok v" "content v = content sVal @ take pos (cstr p)"
    using t(3) by auto
  let ?tv = "if int pos \<noteq> 0 then (t, v) else (sTest, sVal)"
  have tv: "string_ok (fst ?tv)" "string_ok (snd ?tv)" "content (snd ?tv) = content sVal @ take pos (cstr p)"
    using t v assms(2,3) by auto
  from string_append_ok[OF tv(2) assms(1)] obtain w where
    "string_append al rep (snd ?tv) = Some (True, w)" "string_ok w"
    "content w = content sVal @ take pos (cstr p) @ c_arg rep" using tv(3) by auto
  with t(1) v(1) tv(1) show ?thesis by (intro exI[of _ "fst ?tv"] exI[of _ "snd ?tv"] exI[of _ w]) auto
qed

lemma replace_loop_ok:
  assumes "pat \<noteq> []" "NUL \<notin> set pat" "al_out al \<noteq> AllocFails" "string_ok sTest" "string_ok sVal"
    "base + length (cstr (drop base b)) < 2 ^ 31"
  shows "\<exists>base' v. replace_loop al pat rep b (int base) sTest sVal = Some (int base', v) \<and> string_ok v \<and>
    content v @ cstr (drop base' b) = content sVal @ replace_spec pat (c_arg rep) (cstr (drop base b))"
  using assms(4-6)
proof (induction "length (cstr (drop base b))" arbitrary: base sTest sVal rule: less_induct)
  case less
  let ?p = "drop base b"
  let ?h = "cstr ?p"
  have ix: "string_indexOf (Some ?p) (Some pat) = (case strstr ?h pat of None \<Rightarrow> -1 | Some i \<Rightarrow> int i)"
    using less.prems(3) assms(2) by (intro string_indexOf_strstr) simp_all
  show ?case
  proof (cases "strstr ?h pat")
    case None
    with less.prems ix show ?thesis
      by (subst replace_loop.simps) (simp add: replace_spec.simps[of pat _ ?h])
  next
    case (Some pos)
    note pl = strstr_Some_length[OF Some]
    then have "pos \<le> length ?h" by simp
    from replace_round_ok[OF assms(3) less.prems(1,2) this, of rep] obtain t v w where
      r: "(if int pos \<noteq> 0
        then do { rt \<leftarrow> string_set_int al (Some ?p) (int pos) sTest;
                  rv \<leftarrow> string_append_str al (snd rt) sVal; Some (snd rt, snd rv) }
        else Some (sTest, sVal)) = Some (t, v)" "string_ok t"
      "string_append al rep v = Some (True, w)" "string_ok w" "content w = content sVal @ take pos ?h @ c_arg rep"
      by blast
    let ?next = "base + pos + length pat"
    have nxt: "cstr (drop ?next b) = drop (pos + length pat) ?h"
      using cstr_drop[of "pos + length pat" "drop base b"] pl by (simp add: ac_simps)
    have lt: "length (cstr (drop ?next b)) < length ?h"
      using nxt pl assms(1) by (simp add: length_greater_0_conv[symmetric] del: length_greater_0_conv)
    have le: "?next + length (cstr (drop ?next b)) < 2 ^ 31" using less.prems(3) pl by (simp add: nxt)
    from less.hyps[OF lt r(2,4) le] obtain base' u where
      u: "replace_loop al pat rep b (int ?next) t w = Some (int base', u)" "string_ok u"
      "content u @ cstr (drop base' b) = content w @ replace_spec pat (c_arg rep) (drop (pos + length pat) ?h)"
      unfolding nxt by blast
    have b32: "to_int32 (int base + int pos + int (length pat)) = int ?next"
      using to_int32_of_nat[of ?next] le by simp
    have "replace_loop al pat rep b (int base) sTest sVal = replace_loop al pat rep b (int ?next) t w"
      by (subst replace_loop.simps)
        (simp only: nat_int ix Some option.case Let_def b32 r(1,3) bind.bind_lunit fst_conv snd_conv, simp)
    moreover have "replace_spec pat (c_arg rep) ?h =
        take pos ?h @ c_arg rep @ replace_spec pat (c_arg rep) (drop (pos + length pat) ?h)"
      using assms(1) Some by (subst replace_spec.simps) simp
    ultimately show ?thesis using u r(5) by auto
  qed
qed

lemma replace_loop_diverges:
  assumes "replace_loop al pat rep b base t v = Some r"
  shows "pat \<noteq> []"
proof (rule replace_loop.raw_induct[where P = "\<lambda>al pat rep b base t v r. pat \<noteq> []", OF _ assms])
  fix f :: "allocator \<Rightarrow> string \<Rightarrow> string option \<Rightarrow> string \<Rightarrow> int \<Rightarrow> dstring \<Rightarrow> dstring \<Rightarrow> (int \<times> dstring) option"
  fix al pat rep b base t v r
  assume IH: "\<And>al pat rep b base t v r. f al pat rep b base t v = Some r \<Longrightarrow> pat \<noteq> []"
  assume eq: "(if base < 0 then None
      else let p = drop (nat base) b; pos = string_indexOf (Some p) (Some pat) in
      if pos = -1 then Some (base, v)
      else do { tv \<leftarrow> (if pos \<noteq> 0
                      then do { rt \<leftarrow> string_set_int al (Some p) pos t;
                                rv \<leftarrow> string_append_str al (snd rt) v;
                                Some (snd rt, snd rv) }
                      else Some (t, v));
               rv2 \<leftarrow> string_append al rep (snd tv);
               f al pat rep b (to_int32 (base + pos + int (length pat))) (fst tv) (snd rv2) }) = Some r"
  show "pat \<noteq> []"
  proof
    assume e: "pat = []"
    have "strstr xs ([] :: string) = Some 0" for xs by (cases xs) auto
    then have "string_indexOf (Some p) (Some []) = 0" for p by (simp add: string_indexOf_def to_int32_def)
    with eq e have "\<exists>tv rv2 base'. f al [] rep b base' (fst tv) (snd rv2) = Some r"
      by (auto simp: bind_eq_Some_conv Let_def split: if_splits)
    with IH show False by blast
  qed
qed

lemma string_replace_ok:
  assumes "string_ok s" "al_out al \<noteq> AllocFails" "cstr f \<noteq> []" "length (cstr (content s)) < 2 ^ 31"
  shows "\<exists>s'. string_replace al (Some f) rep s = Some s' \<and> string_ok s' \<and>
    content s' = replace_spec (cstr f) (c_arg rep) (cstr (content s))"
  using assms(1)
proof (cases rule: string_okE)
  case null
  from string_assign_ok[OF string_ok_init(1) assms(1,2)] obtain s' where
    "string_assign al string_init s = Some (True, s')" "string_ok s'" "content s' = []" by auto
  moreover have "replace_spec (cstr f) (c_arg rep) [] = []"
    using assms(3) by (subst replace_spec.simps) simp
  ultimately show ?thesis using null by (simp add: string_replace_def content_def[of s])
next
  case (alloc b)
  have cb: "cstr b = cstr (content s)"
  proof -
    have "b = content s @ NUL # drop (Suc (m_iLength s)) b"
      using alloc by (simp add: content_def) (metis alloc(4) alloc(5) append_take_drop_id
          Cons_nth_drop_Suc Suc_eq_plus1 le_imp_less_Suc)
    moreover have "cstr (a @ NUL # c) = cstr a" for a c by (induction a) (auto simp: cstr_def)
    ultimately show ?thesis by metis
  qed
  have "0 + length (cstr (drop 0 b)) < 2 ^ 31" using assms(4) cb by simp
  from replace_loop_ok[OF assms(3) cstr_no_nul assms(2) string_ok_init(1) string_ok_init(1) this, of rep]
  obtain base' v where v: "replace_loop al (cstr f) rep b 0 string_init string_init = Some (int base', v)"
    "string_ok v" "content v @ cstr (drop base' b) = replace_spec (cstr f) (c_arg rep) (cstr b)" by auto
  from string_append_ok[OF v(2) assms(2), of "Some (drop base' b)"] obtain w where
    w: "string_append al (Some (drop base' b)) v = Some (True, w)" "string_ok w"
      "content w = replace_spec (cstr f) (c_arg rep) (cstr b)" using v(3) by (auto simp: c_arg_def)
  from string_assign_ok[OF w(2) assms(1,2)] w(3) show ?thesis
    by (auto simp: string_replace_def alloc(1) v(1) w(1) cb)
qed

section \<open>Sequences of calls refine a list of characters\<close>

datatype string_call =
    CallSet "string option"
  | CallSetN string nat
  | CallAppend "string option"
  | CallTrim
  | CallReplaceChar char char
  | CallReplace string "string option"
  | CallShift nat
  | CallChuck nat
  | CallSubstring nat nat

fun do_call :: "allocator \<Rightarrow> string_call \<Rightarrow> dstring \<Rightarrow> dstring option" where
  "do_call al (CallSet p) s = map_option snd (string_set al p s)"
| "do_call al (CallSetN t n) s = map_option snd (string_set_n al (Some t) n s)"
| "do_call al (CallAppend p) s = map_option snd (string_append al p s)"
| "do_call al CallTrim s = string_trim s"
| "do_call al (CallReplaceChar a b) s = string_replace_char a b s"
| "do_call al (CallReplace f t) s = string_replace al (Some f) t s"
| "do_call al (CallShift n) s = string_shift n s"
| "do_call al (CallChuck n) s = string_chuck n s"
| "do_call al (CallSubstring i n) s = string_substring i n s"

text \<open>What each call does to the characters, and when its arguments are in range.\<close>

fun spec_call :: "string_call \<Rightarrow> string \<Rightarrow> string" where
  "spec_call (CallSet p) xs = c_arg p"
| "spec_call (CallSetN t n) xs = take n t"
| "spec_call (CallAppend p) xs = xs @ c_arg p"
| "spec_call CallTrim xs = trim_spec xs"
| "spec_call (CallReplaceChar a b) xs = map (\<lambda>c. if a = c then b else c) xs"
| "spec_call (CallReplace f t) xs = replace_spec (cstr f) (c_arg t) (cstr xs)"
| "spec_call (CallShift n) xs = drop n xs"
| "spec_call (CallChuck n) xs = take n xs"
| "spec_call (CallSubstring i n) xs = take n (drop i xs)"

fun call_in_range :: "string_call \<Rightarrow> string \<Rightarrow> bool" where
  "call_in_range (CallSetN t n) xs = (n \<le> length t)"
| "call_in_range (CallReplace f t) xs = (cstr f \<noteq> [] \<and> length (cstr xs) < 2 ^ 31)"
| "call_in_range (CallChuck n) xs = (0 < n \<or> xs \<noteq> [])"
| "call_in_range (CallSubstring i n) xs = (i < length xs \<and> n + i < 2 ^ 64)"
| "call_in_range _ xs = True"

lemma do_call_refines:
  assumes "string_ok s" "al_out al \<noteq> AllocFails" "call_in_range c (content s)"
  shows "\<exists>s'. do_call al c s = Some s' \<and> string_ok s' \<and> content s' = spec_call c (content s)"
proof (cases c)
  case (CallSet p)
  with string_set_ok[OF assms(1,2), of p] show ?thesis by auto
next
  case (CallSetN t n)
  with string_set_n_ok[OF assms(1,2), of n t] assms(3) show ?thesis by auto
next
  case (CallAppend p)
  with string_append_ok[OF assms(1,2), of p] show ?thesis by auto
next
  case (CallReplace f t)
  with string_replace_ok[OF assms(1,2), of f t] assms(3) show ?thesis by auto
qed (use assms string_trim_ok string_replace_char_ok string_shift_ok string_chuck_ok string_substring_ok in auto)

fun do_calls :: "allocator \<Rightarrow> string_call list \<Rightarrow> dstring \<Rightarrow> dstring option" where
  "do_calls al [] s = Some s"
| "do_calls al (c # cs) s = do { s' \<leftarrow> do_call al c s; do_calls al cs s' }"

fun calls_in_range :: "string_call list \<Rightarrow> string \<Rightarrow> bool" where
  "calls_in_range [] xs = True"
| "calls_in_range (c # cs) xs = (call_in_range c xs \<and> calls_in_range cs (spec_call c xs))"

lemma do_calls_refine:
  assumes "string_ok s" "al_out al \<noteq> AllocFails" "calls_in_range cs (content s)"
  shows "\<exists>s'. do_calls al cs s = Some s' \<and> string_ok s' \<and>
    content s' = fold spec_call cs (content s)"
  using assms
proof (induction cs arbitrary: s)
  case (Cons c cs)
  then obtain s1 where "do_call al c s = Some s1" "string_ok s1" "content s1 = spec_call c (content s)"
    using do_call_refines[of s al c] by auto
  with Cons.IH[of s1] Cons.prems show ?case by simp
qed simp

section \<open>Properties\<close>

text \<open>C1. Any sequence of editing calls on a fresh string, with arguments in range (for \<open>replace\<close>: a
  pattern, and a text below \<open>2 ^ 31\<close> characters, its offsets being \<open>int\<close>s) and memory available, never touches memory outside the buffer, keeps the buffer terminated and within
  its capacity, and leaves exactly the characters of the corresponding list operations.
\<close>

theorem string_calls_refine_lists:
  assumes "al_out al \<noteq> AllocFails" and "calls_in_range cs []"
  shows "\<exists>s'. do_calls al cs string_init = Some s' \<and> string_ok s' \<and> content s' = fold spec_call cs []"
  using do_calls_refine[OF string_ok_init(1) assms(1)] assms(2) by simp

theorem string_calls_refine_lists_witness:
  "\<exists>s'. do_calls \<lparr>al_out = ReallocFails, al_fill = CHR ''z''\<rparr>
       [CallSet (Some '' ab ''), CallAppend (Some ''cd''), CallTrim, CallShift 1, CallSubstring 0 3] string_init = Some s' \<and>
     content s' = ''b c''"
proof -
  let ?cs = "[CallSet (Some '' ab ''), CallAppend (Some ''cd''), CallTrim, CallShift 1, CallSubstring 0 3]"
  have "calls_in_range ?cs []"
    by (simp add: c_arg_def cstr_def trim_spec_def string_isspace_def)
  moreover have "fold spec_call ?cs [] = ''b c''"
    by (simp add: c_arg_def cstr_def trim_spec_def string_isspace_def)
  ultimately show ?thesis
    using string_calls_refine_lists[of "\<lparr>al_out = ReallocFails, al_fill = CHR ''z''\<rparr>" ?cs] by auto
qed

text \<open>C36. \<open>String::replace(from, to)\<close> with a non-empty pattern, on a text shorter than
  \<open>2 ^ 31\<close> characters (its offsets are \<open>int\<close>s), always returns and leaves the
  text up to its first NUL with every occurrence of the pattern replaced from the left.
\<close>

theorem string_replace_correct:
  assumes "string_ok s" "al_out al \<noteq> AllocFails" "cstr f \<noteq> []" "length (cstr (content s)) < 2 ^ 31"
  shows "\<exists>s'. string_replace al (Some f) to s = Some s' \<and> string_ok s' \<and>
    content s' = replace_spec (cstr f) (c_arg to) (cstr (content s))"
  using assms by (rule string_replace_ok)

theorem string_replace_correct_witness:
  "\<exists>s'. string_replace \<lparr>al_out = AllocOk, al_fill = NUL\<rparr> (Some ''ab'') (Some ''x'')
      \<lparr>m_pBuffer = Some (''cabab'' @ [NUL]), m_iLength = 5, m_iCapacity = 5\<rparr> = Some s' \<and>
    content s' = replace_spec ''ab'' ''x'' ''cabab''"
proof -
  let ?s = "\<lparr>m_pBuffer = Some (''cabab'' @ [NUL]), m_iLength = 5, m_iCapacity = 5\<rparr>"
  have ok: "string_ok ?s" by (simp add: string_ok_def)
  have al: "al_out \<lparr>al_out = AllocOk, al_fill = NUL\<rparr> \<noteq> AllocFails" by simp
  have ne: "cstr ''ab'' \<noteq> []" by (simp add: cstr_def)
  have len: "length (cstr (content ?s)) < 2 ^ 31" by (simp add: content_def)
  from string_replace_correct[OF ok al ne len, of "Some ''x''"] show ?thesis
    by (auto simp: content_def c_arg_def cstr_def)
qed

text \<open>With the empty pattern the loop of \<open>String::replace\<close> never advances: on a string that
  has a buffer the call does not return.
\<close>

theorem string_replace_empty_diverges:
  "string_replace al (Some []) to (s\<lparr>m_pBuffer := Some b\<rparr>) = None"
proof -
  have "replace_loop al [] to b 0 string_init string_init = None"
    using replace_loop_diverges[of al "[]" to b 0 string_init string_init]
    by (cases "replace_loop al [] to b 0 string_init string_init") auto
  then show ?thesis by (simp add: string_replace_def cstr_def)
qed

text \<open>\<open>substring\<close> with a start at or past the end frees the buffer but keeps the capacity:
  the string is no longer well formed, and storing any shorter text afterwards writes through
  the NULL pointer.
\<close>

theorem substring_then_set_faults:
  assumes "string_ok s" "m_iLength s \<le> start" "t \<noteq> []" "length t \<le> m_iCapacity s" "NUL \<notin> set t"
  shows "\<exists>s'. string_substring start n s = Some s' \<and> \<not> string_ok s' \<and> string_set al (Some t) s' = None"
proof -
  have "string_substring start n s = Some (s\<lparr>m_pBuffer := None, m_iLength := 0\<rparr>)"
    using assms by (simp add: string_substring_def)
  then show ?thesis using assms
    by (auto simp: string_ok_def string_set_def c_arg_def string_alloc_def Let_def ptr_write_def
        string_finish_def not_less)
qed

theorem substring_then_set_faults_witness:
  "\<exists>s'. string_substring 3 1 \<lparr>m_pBuffer = Some (''abc'' @ [NUL]), m_iLength = 3, m_iCapacity = 3\<rparr> = Some s' \<and>
    string_set \<lparr>al_out = AllocOk, al_fill = NUL\<rparr> (Some ''xy'') s' = None"
proof -
  let ?s = "\<lparr>m_pBuffer = Some (''abc'' @ [NUL]), m_iLength = 3, m_iCapacity = 3\<rparr>"
  have "string_ok ?s" by (simp add: string_ok_def)
  from substring_then_set_faults[OF this, of 3 "''xy''" 1 "\<lparr>al_out = AllocOk, al_fill = NUL\<rparr>"]
  show ?thesis by auto
qed

text \<open>\<open>indexOf\<close> returns the first and \<open>lastIndexOf\<close> the last offset at which the needle
  occurs in a text shorter than \<open>2 ^ 31\<close>, and -1 exactly when it occurs nowhere.
\<close>

theorem string_search_first_last:
  assumes "length (cstr h) < 2 ^ 31"
  shows "(\<forall>i\<le>length (cstr h). string_indexOf (Some h) (Some nd) = int i \<longleftrightarrow>
      prefix (cstr nd) (drop i (cstr h)) \<and> (\<forall>j<i. \<not> prefix (cstr nd) (drop j (cstr h)))) \<and>
   (\<forall>i\<le>length (cstr h). string_lastIndexOf (Some h) (Some nd) = int i \<longleftrightarrow>
      prefix (cstr nd) (drop i (cstr h)) \<and>
      (\<forall>j. i < j \<and> j \<le> length (cstr h) \<longrightarrow> \<not> prefix (cstr nd) (drop j (cstr h)))) \<and>
   (string_indexOf (Some h) (Some nd) = -1 \<longleftrightarrow> (\<forall>j\<le>length (cstr h). \<not> prefix (cstr nd) (drop j (cstr h)))) \<and>
   (string_lastIndexOf (Some h) (Some nd) = -1 \<longleftrightarrow> (\<forall>j\<le>length (cstr h). \<not> prefix (cstr nd) (drop j (cstr h))))"
  using first_match_iff[OF string_indexOf_spec[OF assms, of nd]] last_match_iff[OF string_lastIndexOf_spec[OF assms, of nd]]
  by blast

theorem string_search_first_last_witness:
  "string_indexOf (Some ''xaba'') (Some ''a'') = 1 \<and> string_lastIndexOf (Some ''xaba'') (Some ''a'') = 3"
proof -
  have c: "cstr ''xaba'' = ''xaba''" "cstr ''a'' = ''a''" by (rule cstr_id, simp)+
  have 1: "prefix ''a'' (drop 1 ''xaba'') \<and> (\<forall>j<1. \<not> prefix ''a'' (drop j ''xaba''))" by simp
  have 3: "prefix ''a'' (drop 3 ''xaba'') \<and> (\<forall>j. 3 < j \<and> j \<le> 4 \<longrightarrow> \<not> prefix ''a'' (drop j ''xaba''))"
  proof -
    have "j = 4" if "3 < j" "j \<le> 4" for j :: nat using that by simp
    then show ?thesis by auto
  qed
  have b: "length (cstr ''xaba'') < 2 ^ 31" unfolding c by simp
  note p = string_search_first_last[OF b, of "''a''", unfolded c]
  have l: "(1 :: nat) \<le> length ''xaba''" "(3 :: nat) \<le> length ''xaba''" "length ''xaba'' = 4" by simp_all
  have "string_indexOf (Some ''xaba'') (Some ''a'') = int 1"
    using conjunct1[OF p, rule_format, OF l(1)] 1 by blast
  moreover have "string_lastIndexOf (Some ''xaba'') (Some ''a'') = int 3"
    using conjunct1[OF conjunct2[OF p], rule_format, OF l(2), unfolded l(3)] 3 by blast
  ultimately show ?thesis by simp
qed

text \<open>The comparison operators of the class are the lexicographic order of the signed
  characters: \<open><=\<close> is a total order, \<open>==\<close> is equality of the contents and \<open><\<close> is the strict part.
\<close>

theorem string_operators_lexicographic:
  "(op_lt str_ops a b \<longleftrightarrow> (a, b) \<in> lexord {(x, y). schar x < schar y}) \<and>
   (op_eq str_ops a b \<longleftrightarrow> a = b) \<and>
   (op_le str_ops a b \<longleftrightarrow> op_lt str_ops a b \<or> op_eq str_ops a b) \<and>
   (op_ge str_ops a b \<longleftrightarrow> op_le str_ops b a) \<and> (op_gt str_ops a b \<longleftrightarrow> op_lt str_ops b a) \<and>
   (op_ne str_ops a b \<longleftrightarrow> \<not> op_eq str_ops a b)"
  by (simp add: str_ops_def str_ge_iff str_lt_lexord str_ne_iff)
    (auto simp: str_le_iff)

end
