(* ===== verification/Dfw_Array_Spec.thy ===== *)
theory Dfw_Array_Spec
  imports Dfw_Array Dfw_String_Spec "HOL-Library.Multiset"
begin

text \<open>
  What the containers promise.  Inside \<open>dfw_order\<close>: the bisections of \<open>ArraySorted\<close> end,
  stay inside the elements and find the right place; insertion keeps the elements sorted and
  removal takes out one element.  The locale \<open>keyed_store\<close> is the contract the HTTP headers
  rely on.
\<close>

section \<open>Bisection\<close>

context dfw_order
begin

abbreviation ordered :: "'a list \<Rightarrow> bool" where
  "ordered xs \<equiv> sorted_wrt (op_le ops) xs"

lemma ordered_nth_mono: "ordered xs \<Longrightarrow> i \<le> j \<Longrightarrow> j < length xs \<Longrightarrow> op_le ops (xs ! i) (xs ! j)"
  by (metis le_neq_implies_less le_refl sorted_wrt_nth_less)

definition ins_point :: "'a \<Rightarrow> 'a list \<Rightarrow> nat \<Rightarrow> bool" where
  "ins_point x xs i \<longleftrightarrow> i \<le> length xs \<and> (\<forall>j<i. op_le ops (xs ! j) x) \<and>
     (\<forall>j. i \<le> j \<and> j < length xs \<longrightarrow> op_le ops x (xs ! j))"

lemma mid_between:
  assumes "sp < ep"
  shows "sp = (ep - sp) div 2 + sp \<and> ep = Suc sp \<or>
    sp < (ep - sp) div 2 + sp \<and> (ep - sp) div 2 + sp < ep"
proof -
  from assms obtain d where "ep = sp + Suc d" by (metis add_Suc_right less_iff_Suc_add)
  then show ?thesis by (cases d) auto
qed

lemma insertId_loop_spec:
  assumes ok: "arr_ok a" and srt: "ordered (elems a)"
  shows "sp < ep \<Longrightarrow> ep \<le> a_size a \<Longrightarrow> ep - sp \<le> fuel \<Longrightarrow>
    \<not> op_le ops x (elems a ! sp) \<Longrightarrow> (ep < a_size a \<longrightarrow> op_le ops x (elems a ! ep)) \<Longrightarrow>
    \<exists>i. insertId_loop ops x (a_data a) sp ep fuel = Some i \<and> ins_point x (elems a) i"
proof (induction fuel arbitrary: sp ep)
  case (Suc fuel)
  let ?cp = "(ep - sp) div 2 + sp"
  have sl: "cmp_slot f ops x k (a_data a) = Some (f ops x (elems a ! k))" if "k < ep" for f k
    using that Suc.prems(2) cmp_slot_elems[OF ok] by auto
  have before: "op_le ops (elems a ! j) x" if "j \<le> k" "k < ep" "op_le ops (elems a ! k) x" for j k
    using that ordered_nth_mono[OF srt, of j k] Suc.prems(2) ok le_trans by (metis length_elems less_le_trans)
  have after: "op_le ops x (elems a ! j)" if "k \<le> j" "j < a_size a" "op_le ops x (elems a ! k)" for j k
    using that ordered_nth_mono[OF srt, of k j] ok le_trans by (metis length_elems)
  have le_sp: "op_le ops (elems a ! sp) x" using Suc.prems(4) le_total by blast
  from mid_between[OF Suc.prems(1)] show ?case
  proof
    assume s: "sp = ?cp \<and> ep = Suc sp"
    then have "insertId_loop ops x (a_data a) sp ep (Suc fuel) = Some ep"
      using Suc.prems(1,4) by (simp add: sl)
    moreover have "ins_point x (elems a) ep"
      unfolding ins_point_def
    proof (intro conjI allI impI)
      show "ep \<le> length (elems a)" using Suc.prems(2) ok by simp
      show "op_le ops (elems a ! j) x" if "j < ep" for j
        using that s le_sp before[of j sp] by auto
      show "op_le ops x (elems a ! j)" if "ep \<le> j \<and> j < length (elems a)" for j
        using that ok Suc.prems(5) after[of ep j] by auto
    qed
    ultimately show ?thesis by blast
  next
    assume m: "sp < ?cp \<and> ?cp < ep"
    show ?thesis
    proof (cases "op_eq ops x (elems a ! ?cp)")
      case True
      then have "ins_point x (elems a) ?cp"
        using m Suc.prems(2) ok before[of _ ?cp] after[of ?cp]
        by (auto simp: ins_point_def eq_le_ge ge_le)
      moreover have "insertId_loop ops x (a_data a) sp ep (Suc fuel) = Some ?cp"
        using m True by (simp add: sl)
      ultimately show ?thesis by blast
    next
      case ne: False
      show ?thesis
      proof (cases "op_lt ops x (elems a ! ?cp)")
        case True
        with ne m have "insertId_loop ops x (a_data a) sp ep (Suc fuel) = insertId_loop ops x (a_data a) sp ?cp fuel"
          by (simp add: sl)
        with Suc.IH[of sp ?cp] True m Suc.prems show ?thesis by (auto simp: lt_iff)
      next
        case False
        with ne m have "insertId_loop ops x (a_data a) sp ep (Suc fuel) = insertId_loop ops x (a_data a) ?cp ep fuel"
          by (simp add: sl)
        moreover have "\<not> op_le ops x (elems a ! ?cp)" using ne False by (simp add: lt_iff)
        ultimately show ?thesis using Suc.IH[of ?cp ep] m Suc.prems by auto
      qed
    qed
  qed
qed simp

lemma insertId_spec:
  assumes ok: "arr_ok a" and srt: "ordered (elems a)"
  shows "\<exists>i. insertId ops x a = Some i \<and> ins_point x (elems a) i"
proof (cases "a_size a = 0")
  case True
  with ok show ?thesis by (simp add: insertId_def ins_point_def)
next
  case ne: False
  have sl: "cmp_slot f ops x k (a_data a) = Some (f ops x (elems a ! k))" if "k < a_size a" for f k
    using that cmp_slot_elems[OF ok] by auto
  consider (first) "op_le ops x (elems a ! 0)"
    | (last) "\<not> op_le ops x (elems a ! 0)" "op_ge ops x (elems a ! (a_size a - 1))"
    | (mid) "\<not> op_le ops x (elems a ! 0)" "\<not> op_ge ops x (elems a ! (a_size a - 1))" by blast
  then show ?thesis
  proof cases
    case first
    with ne ok have "insertId ops x a = Some 0" by (simp add: insertId_def sl)
    moreover have "ins_point x (elems a) 0"
      using first ok ordered_nth_mono[OF srt, of 0] by (auto simp: ins_point_def intro: le_trans)
    ultimately show ?thesis by blast
  next
    case last
    with ne ok have "insertId ops x a = Some (a_size a)" by (simp add: insertId_def sl)
    moreover have "ins_point x (elems a) (a_size a)"
      unfolding ins_point_def
    proof (intro conjI allI impI)
      show "op_le ops (elems a ! j) x" if "j < a_size a" for j
      proof -
        have "op_le ops (elems a ! j) (elems a ! (a_size a - 1))"
          using that ok by (intro ordered_nth_mono[OF srt]) auto
        then show ?thesis using last(2) ge_le le_trans by blast
      qed
    qed (use ok in auto)
    ultimately show ?thesis by blast
  next
    case mid
    with ne have "insertId ops x a = insertId_loop ops x (a_data a) 0 (a_size a) (a_size a)"
      by (simp add: insertId_def sl)
    with insertId_loop_spec[OF ok srt, of 0 "a_size a" "a_size a" x] mid ne show ?thesis by simp
  qed
qed

lemma ordered_insert_nth:
  assumes "ordered xs" "ins_point x xs i"
  shows "ordered (insert_nth i x xs)"
proof -
  have a: "\<forall>y\<in>set (take i xs). op_le ops y x"
    using assms(2) by (auto simp: ins_point_def in_set_conv_nth)
  have b: "\<forall>y\<in>set (drop i xs). op_le ops x y"
    using assms(2) by (auto simp: ins_point_def in_set_conv_nth)
  have "ordered (take i xs @ drop i xs)" using assms(1) by simp
  then have "ordered (take i xs)" "ordered (drop i xs)"
    "\<forall>y\<in>set (take i xs). \<forall>z\<in>set (drop i xs). op_le ops y z"
    unfolding sorted_wrt_append by blast+
  with a b show ?thesis unfolding insert_nth_def by (auto simp: sorted_wrt_append)
qed

lemma index_loop_spec:
  assumes ok: "arr_ok a" and srt: "ordered (elems a)"
  shows "sp < ep \<Longrightarrow> ep \<le> a_size a \<Longrightarrow> ep - sp \<le> fuel \<Longrightarrow>
    \<not> op_lt ops x (elems a ! sp) \<Longrightarrow> (ep < a_size a \<longrightarrow> op_lt ops x (elems a ! ep)) \<Longrightarrow>
    \<exists>r. index_loop ops x (a_data a) sp ep fuel = Some r \<and>
      ((\<exists>i<a_size a. r = int i \<and> op_eq ops x (elems a ! i)) \<or>
       r = -1 \<and> (\<forall>j<a_size a. \<not> op_eq ops x (elems a ! j)))"
proof (induction fuel arbitrary: sp ep)
  case (Suc fuel)
  let ?cp = "(ep - sp) div 2 + sp"
  have sl: "cmp_slot f ops x k (a_data a) = Some (f ops x (elems a ! k))" if "k < ep" for f k
    using that Suc.prems(2) cmp_slot_elems[OF ok] by auto
  from mid_between[OF Suc.prems(1)] show ?case
  proof
    assume s: "sp = ?cp \<and> ep = Suc sp"
    show ?thesis
    proof (cases "op_eq ops x (elems a ! sp)")
      case True
      with s Suc.prems show ?thesis by (auto simp: sl)
    next
      case False
      with s have "index_loop ops x (a_data a) sp ep (Suc fuel) = Some (-1)" by (simp add: sl)
      moreover have "\<not> op_eq ops x (elems a ! j)" if j: "j < a_size a" for j
      proof (cases "j \<le> sp")
        case True
        then have "op_le ops (elems a ! j) (elems a ! sp)"
          using ordered_nth_mono[OF srt, of j sp] s Suc.prems(2) ok by simp
        with False Suc.prems(4) show ?thesis by (meson eq_le_ge ge_le le_trans not_lt)
      next
        case gt: False
        then have "op_lt ops x (elems a ! ep)" "op_le ops (elems a ! ep) (elems a ! j)"
          using Suc.prems(5) ordered_nth_mono[OF srt, of ep j] s j ok by auto
        then show ?thesis using lt_le_trans lt_iff by blast
      qed
      ultimately show ?thesis by blast
    qed
  next
    assume m: "sp < ?cp \<and> ?cp < ep"
    show ?thesis
    proof (cases "op_eq ops x (elems a ! ?cp)")
      case True
      with m have "index_loop ops x (a_data a) sp ep (Suc fuel) = Some (int ?cp)" by (simp add: sl)
      moreover have "?cp < a_size a" using m Suc.prems(2) by simp
      ultimately show ?thesis using True by blast
    next
      case ne: False
      show ?thesis
      proof (cases "op_lt ops x (elems a ! ?cp)")
        case True
        with ne m have "index_loop ops x (a_data a) sp ep (Suc fuel) = index_loop ops x (a_data a) sp ?cp fuel"
          by (simp add: sl)
        with Suc.IH[of sp ?cp] True m Suc.prems show ?thesis by auto
      next
        case False
        with ne m have "index_loop ops x (a_data a) sp ep (Suc fuel) = index_loop ops x (a_data a) ?cp ep fuel"
          by (simp add: sl)
        with Suc.IH[of ?cp ep] False m Suc.prems show ?thesis by auto
      qed
    qed
  qed
qed simp

lemma sorted_index_spec:
  assumes ok: "arr_ok a" and srt: "ordered (elems a)"
  shows "\<exists>r. sorted_index ops (Some x) a = Some r \<and>
      ((\<exists>i<a_size a. r = int i \<and> op_eq ops x (elems a ! i)) \<or>
       r = -1 \<and> (\<forall>j<a_size a. \<not> op_eq ops x (elems a ! j)))"
proof (cases "a_size a = 0")
  case True
  then show ?thesis by (simp add: sorted_index_def)
next
  case ne: False
  have sl: "cmp_slot f ops x k (a_data a) = Some (f ops x (elems a ! k))" if "k < a_size a" for f k
    using that cmp_slot_elems[OF ok] by auto
  consider (first) "op_lt ops x (elems a ! 0)"
    | (last) "\<not> op_lt ops x (elems a ! 0)" "op_gt ops x (elems a ! (a_size a - 1))"
    | (mid) "\<not> op_lt ops x (elems a ! 0)" "\<not> op_gt ops x (elems a ! (a_size a - 1))" by blast
  then show ?thesis
  proof cases
    case first
    have "\<not> op_eq ops x (elems a ! j)" if "j < a_size a" for j
    proof -
      have "op_le ops (elems a ! 0) (elems a ! j)"
        using that ok by (intro ordered_nth_mono[OF srt]) auto
      with first show ?thesis using lt_le_trans lt_iff by blast
    qed
    with first ne show ?thesis by (auto simp: sorted_index_def sl)
  next
    case last
    have "\<not> op_eq ops x (elems a ! j)" if j: "j < a_size a" for j
    proof -
      have "op_le ops (elems a ! j) (elems a ! (a_size a - 1))"
        using ordered_nth_mono[OF srt, of j "a_size a - 1"] j ok by simp
      with last(2) show ?thesis by (meson eq_le_ge gt_le le_trans)
    qed
    with last ne show ?thesis by (auto simp: sorted_index_def sl)
  next
    case mid
    with ne have "sorted_index ops (Some x) a = index_loop ops x (a_data a) 0 (a_size a) (a_size a)"
      by (simp add: sorted_index_def sl)
    with index_loop_spec[OF ok srt, of 0 "a_size a" "a_size a" x] mid ne show ?thesis by simp
  qed
qed

lemma index_finds: "op_eq ops x y \<Longrightarrow> op_eq ops z y \<Longrightarrow> op_eq ops x z"
  using eq_sym eq_trans by blast

end

section \<open>Moving slots\<close>

text \<open>The shift to the right followed by the store puts the element at its place.\<close>

lemma slots_insert:
  assumes "i < length xs"
  shows "slots_move (i + 1) i (length xs - i) (map Some xs @ s # r) =
     Some (map Some (take i xs) @ Some (xs ! i) # map Some (drop i xs) @ r)"
proof -
  have "take (i + 1) xs = take i xs @ [xs ! i]"
    using assms by (simp add: take_Suc_conv_app_nth)
  moreover have "i + 1 + (length xs - i) = Suc (length xs)" using assms by simp
  ultimately show ?thesis using assms
    by (simp add: slots_move_def take_map drop_map)
qed

lemma slots_insert_write:
  assumes "i < length xs"
  shows "do { d1 \<leftarrow> slots_move (i + 1) i (length xs - i) (map Some xs @ s # r); slot_write i (Some x) d1 } =
     Some (map Some (insert_nth i x xs) @ r)"
  using assms unfolding slots_insert[OF assms]
  by (simp add: slot_write_def list_update_append insert_nth_def)

lemma slots_remove:
  assumes "i < length xs"
  shows "slots_move i (i + 1) (length xs - i) (map Some xs @ s # r) =
     Some (map Some (remove_nth i xs) @ s # s # r)"
proof -
  have "i + (length xs - i) = length xs" "length xs - i = Suc (length xs - Suc i)" using assms by auto
  then show ?thesis using assms
    by (simp add: slots_move_def remove_nth_def take_map drop_map)
qed

lemma data_split_spare:
  assumes "arr_ok a" "a_size a < a_capacity a"
  obtains s r where "a_data a = map Some (elems a) @ s # r" "Suc (length r + a_size a) = a_capacity a"
proof -
  have "length (drop (a_size a) (a_data a)) = a_capacity a - a_size a"
    using assms(1) by (simp add: arr_ok_def)
  with assms(2) obtain s r where d: "drop (a_size a) (a_data a) = s # r"
    by (cases "drop (a_size a) (a_data a)") auto
  with \<open>length (drop (a_size a) (a_data a)) = a_capacity a - a_size a\<close> assms(2)
  have "Suc (length r + a_size a) = a_capacity a" by simp
  with d data_split[OF assms(1)] that show ?thesis by metis
qed

section \<open>ArraySorted: insertion\<close>

context dfw_order
begin

lemma sorted_insert_ok:
  assumes ok: "arr_ok a" and srt: "ordered (elems a)" and al: "al_out al \<noteq> AllocFails"
  shows "\<exists>i a'. sorted_insert ops al (Some x) a = Some (None, i, a') \<and> arr_ok a' \<and>
     ins_point x (elems a) i \<and> elems a' = insert_nth i x (elems a)"
proof -
  obtain b where b: "arr_grow al a = (None, b)" "arr_ok b" "elems b = elems a"
      "a_size b = a_size a" "a_size b < a_capacity b"
    using arr_grow_ok[OF ok al] by blast
  obtain i where i: "insertId ops x b = Some i" "ins_point x (elems b) i"
    using insertId_spec[of b x] b srt by auto
  obtain s r where d: "a_data b = map Some (elems b) @ s # r" "Suc (length r + a_size b) = a_capacity b"
    using data_split_spare[OF b(2,5)] by blast
  have n: "a_size b = length (elems b)" using b(2) by simp
  have store: "do { d1 \<leftarrow> (if arr_get (int i) b \<noteq> None
                    then slots_move (i + 1) i (a_size b - i) (a_data b) else Some (a_data b));
              slot_write i (Some x) d1 } = Some (map Some (insert_nth i x (elems b)) @ r)"
  proof (cases "i < length (elems b)")
    case True
    have "arr_get (int i) b \<noteq> None" using True b(2) arr_get_elems[of b "int i"] by simp
    then show ?thesis using slots_insert_write[OF True, of s r x] unfolding d(1) n by simp
  next
    case False
    then have il: "i = length (elems b)" using i(2) by (simp add: ins_point_def)
    have "arr_get (int i) b = None" using il n by (simp add: arr_get_def)
    then show ?thesis unfolding d(1) il by (simp add: slot_write_def insert_nth_def list_update_append)
  qed
  let ?a' = "b\<lparr>a_data := map Some (insert_nth i x (elems b)) @ r, a_size := a_size b + 1\<rparr>"
  have "sorted_insert ops al (Some x) a = Some (None, i, ?a')"
    using store i(1) b(1) by (auto simp: sorted_insert_def bind_eq_Some_conv split: if_splits)
  moreover have "arr_ok ?a' \<and> elems ?a' = insert_nth i x (elems b)"
    using arr_okI[of ?a' "insert_nth i x (elems b)" r] d(2) n by simp
  ultimately show ?thesis using b(3) i(2) by auto
qed

lemma sorted_index_insert:
  assumes "arr_ok a" "ordered (elems a)" "elems a = insert_nth i x xs" "i \<le> length xs"
  shows "\<exists>k<a_size a. sorted_index ops (Some x) a = Some (int k) \<and> op_eq ops x (elems a ! k)"
proof -
  have "i < a_size a" "elems a ! i = x"
    using assms length_elems[of a] by (auto simp: insert_nth_def nth_append)
  moreover have "op_eq ops x x" by (simp add: eq_le_ge ge_le)
  ultimately show ?thesis using sorted_index_spec[OF assms(1,2), of x] by metis
qed

end

section \<open>ArraySorted and Array: removal\<close>

text \<open>While the allocation has a spare slot the surplus slot of the shift is inside it.\<close>

lemma sorted_remove_at_ok:
  assumes ok: "arr_ok a" and spare: "a_size a < a_capacity a" and p: "p < a_size a"
  shows "\<exists>a'. sorted_remove_at (int p) a = Some (Some (elems a ! p), a') \<and> arr_ok a' \<and>
     elems a' = remove_nth p (elems a) \<and> a_capacity a' = a_capacity a"
proof -
  obtain s r where d: "a_data a = map Some (elems a) @ s # r" "Suc (length r + a_size a) = a_capacity a"
    using data_split_spare[OF ok spare] by blast
  have n: "a_size a = length (elems a)" using ok by simp
  have g: "arr_get (int p) a = Some (elems a ! p)" using p ok by (simp add: arr_get_elems)
  show ?thesis
  proof (cases "int p = int (a_size a) - 1")
    case True
    then have last: "length (elems a) = Suc p" using n by linarith
    then have "elems a = remove_nth p (elems a) @ [elems a ! p]"
      by (simp add: remove_nth_def flip: take_Suc_conv_app_nth)
    then obtain ys where ys: "ys = remove_nth p (elems a)" "elems a = ys @ [elems a ! p]" by blast
    then have "length ys = p" using last by (metis length_remove_nth lessI diff_Suc_1)
    then have "slot_write p None (a_data a) = Some (map Some ys @ None # s # r)"
      unfolding d(1) by (subst ys(2)) (simp add: slot_write_def list_update_append)
    moreover let ?a' = "a\<lparr>a_data := map Some ys @ None # s # r, a_size := a_size a - 1\<rparr>"
    have "arr_ok ?a' \<and> elems ?a' = ys"
      using arr_okI[of ?a' ys "None # s # r"] d(2) n last \<open>length ys = p\<close> by simp
    moreover have c: "(int p = int (a_size a) - 1) = True" using True by simp
    ultimately show ?thesis using ys(1) unfolding sorted_remove_at_def g c by auto
  next
    case False
    have "slots_move p (p + 1) (a_size a - p) (a_data a) = Some (map Some (remove_nth p (elems a)) @ s # s # r)"
      using slots_remove[of p "elems a" s r] d(1) n p by simp
    moreover let ?a' = "a\<lparr>a_data := map Some (remove_nth p (elems a)) @ s # s # r, a_size := a_size a - 1\<rparr>"
    have "arr_ok ?a' \<and> elems ?a' = remove_nth p (elems a)"
      using arr_okI[of ?a' "remove_nth p (elems a)" "s # s # r"] d(2) n p by simp
    ultimately show ?thesis using False g by (auto simp: sorted_remove_at_def)
  qed
qed

lemma sorted_remove_at_none: "p < 0 \<or> int (a_size a) \<le> p \<Longrightarrow> sorted_remove_at p a = Some (None, a)"
  by (auto simp: sorted_remove_at_def arr_get_def)

lemma sorted_remove_at_full:
  assumes "arr_ok a" "a_size a = a_capacity a" "Suc p < a_size a"
  shows "sorted_remove_at (int p) a = None"
  using assms by (simp add: sorted_remove_at_def arr_get_elems slots_move_def arr_ok_def nat_add_distrib)

text \<open>\<open>Array::remove\<close>: the last element takes the place of the removed one.\<close>

lemma array_remove_at_ok:
  assumes ok: "arr_ok a" and p: "p < a_size a"
  shows "\<exists>a'. array_remove_at (int p) a = Some (Some (elems a ! p), a') \<and> arr_ok a' \<and>
     mset (elems a') = mset (elems a) - {#elems a ! p#}"
proof -
  have n: "a_size a = length (elems a)" using ok by simp
  define l where "l = last (elems a)"
  have ne: "elems a \<noteq> []" using p n by auto
  define ys where "ys = butlast (elems a)"
  have e: "elems a = ys @ [l]" using ne by (simp add: ys_def l_def)
  define r where "r = drop (a_size a) (a_data a)"
  have d: "a_data a = map Some ys @ Some l # r" using data_split[OF ok] e by (simp add: r_def)
  have nl: "a_size a = Suc (length ys)" using e n by simp
  have g: "arr_get (int p) a = Some (elems a ! p)" using p ok by (simp add: arr_get_elems)
  have r: "length r + a_size a = a_capacity a" using ok by (simp add: r_def arr_ok_def)
  show ?thesis
  proof (cases "p = length ys")
    case True
    let ?a' = "a\<lparr>a_data := map Some ys @ None # r, a_size := a_size a - 1\<rparr>"
    have "array_remove_at (int p) a = Some (Some (elems a ! p), ?a')"
      using g d nl True by (simp add: array_remove_at_def slot_read_def slot_write_def nth_append list_update_append)
    moreover have "arr_ok ?a' \<and> elems ?a' = ys" using arr_okI[of ?a' ys "None # r"] nl r by simp
    ultimately show ?thesis using e True by (auto simp: nth_append)
  next
    case False
    then have lt: "p < length ys" using p nl by simp
    let ?a' = "a\<lparr>a_data := map Some (ys[p := l]) @ None # r, a_size := a_size a - 1\<rparr>"
    have "array_remove_at (int p) a = Some (Some (elems a ! p), ?a')"
      using g d nl lt
      by (simp add: array_remove_at_def slot_read_def slot_write_def nth_append list_update_append map_update)
    moreover have "arr_ok ?a' \<and> elems ?a' = ys[p := l]"
      using arr_okI[of ?a' "ys[p := l]" "None # r"] nl r by simp
    moreover have "mset (ys[p := l]) = mset (elems a) - {#elems a ! p#}"
      using e lt by (simp add: mset_update nth_append)
    ultimately show ?thesis by metis
  qed
qed

lemma array_insert_ok:
  assumes ok: "arr_ok a" and al: "al_out al \<noteq> AllocFails"
  shows "\<exists>a'. array_insert al (Some x) a = Some (None, a') \<and> arr_ok a' \<and> elems a' = elems a @ [x]"
proof -
  obtain b where b: "arr_grow al a = (None, b)" "arr_ok b" "elems b = elems a"
      "a_size b = a_size a" "a_size b < a_capacity b"
    using arr_grow_ok[OF ok al] by blast
  obtain s r where d: "a_data b = map Some (elems b) @ s # r" "Suc (length r + a_size b) = a_capacity b"
    using data_split_spare[OF b(2,5)] by blast
  let ?a' = "b\<lparr>a_data := map Some (elems b @ [x]) @ r, a_size := a_size b + 1\<rparr>"
  have n: "a_size b = length (elems b)" using b(2) by simp
  have "array_insert al (Some x) a = Some (None, ?a')"
    using b(1) d n by (simp add: array_insert_def slot_write_def list_update_append)
  moreover have "arr_ok ?a' \<and> elems ?a' = elems b @ [x]"
    using arr_okI[of ?a' "elems b @ [x]" r] d(2) n by simp
  ultimately show ?thesis using b(3) by auto
qed

section \<open>Properties\<close>

text \<open>C14. Insertion into an \<open>ArraySorted\<close> whose elements are in order, over any operators
  that agree on a total preorder, succeeds when the allocator does; the elements afterwards are
  the old ones with the new one put at the returned position, again in order, and a search for
  the new element finds an equal one.\<close>

theorem sorted_insert_keeps_order:
  assumes "dfw_order c" "arr_ok a" "sorted_wrt (op_le c) (elems a)" "al_out al \<noteq> AllocFails"
  shows "\<exists>i a'. sorted_insert c al (Some x) a = Some (None, i, a') \<and> arr_ok a' \<and>
     i \<le> length (elems a) \<and> elems a' = insert_nth i x (elems a) \<and> sorted_wrt (op_le c) (elems a') \<and>
     (\<exists>k<a_size a'. sorted_index c (Some x) a' = Some (int k) \<and> op_eq c x (elems a' ! k))"
proof -
  obtain i a' where i: "sorted_insert c al (Some x) a = Some (None, i, a')" "arr_ok a'"
      "dfw_order.ins_point c x (elems a) i" "elems a' = insert_nth i x (elems a)"
    using dfw_order.sorted_insert_ok[OF assms] by blast
  then have le: "i \<le> length (elems a)" using dfw_order.ins_point_def[OF assms(1)] by blast
  have srt: "sorted_wrt (op_le c) (elems a')"
    using dfw_order.ordered_insert_nth[OF assms(1,3) i(3)] i(4) by simp
  with i le dfw_order.sorted_index_insert[OF assms(1) i(2) srt i(4) le] show ?thesis by blast
qed

definition three_sorted :: "int arr" where
  "three_sorted = \<lparr>a_capacity = 5, a_size = 3, a_data = [Some 10, Some 20, Some 30, None, None]\<rparr>"

lemma three_sorted_facts [simp]:
  "arr_ok three_sorted" "elems three_sorted = [10, 20, 30]" "a_size three_sorted = 3"
  "a_capacity three_sorted = 5"
  by (simp_all add: three_sorted_def arr_ok_def elems_def less_Suc_eq numeral_eq_Suc)

theorem sorted_insert_keeps_order_witness:
  "\<exists>i a'. sorted_insert int_ops \<lparr>al_out = AllocOk, al_fill = CHR 0x00\<rparr> (Some 25) three_sorted = Some (None, i, a') \<and>
     arr_ok a' \<and> i \<le> length (elems three_sorted) \<and> elems a' = insert_nth i 25 (elems three_sorted) \<and>
     sorted_wrt (op_le int_ops) (elems a') \<and>
     (\<exists>k<a_size a'. sorted_index int_ops (Some 25) a' = Some (int k) \<and> op_eq int_ops 25 (elems a' ! k))"
  by (rule sorted_insert_keeps_order) simp_all

text \<open>C37. The bisection of \<open>ArraySorted::index\<close> ends on every sorted array without leaving the
  elements; the answer is a position of an equal element, or -1 when there is none.\<close>

theorem sorted_index_finds_iff:
  assumes "dfw_order c" "arr_ok a" "sorted_wrt (op_le c) (elems a)"
  shows "\<exists>r. sorted_index c (Some x) a = Some r \<and>
     (r = -1 \<and> \<not> (\<exists>y\<in>set (elems a). op_eq c x y) \<or>
      0 \<le> r \<and> r < int (a_size a) \<and> op_eq c x (elems a ! nat r))"
proof -
  obtain r where r: "sorted_index c (Some x) a = Some r"
      "(\<exists>i<a_size a. r = int i \<and> op_eq c x (elems a ! i)) \<or>
       r = -1 \<and> (\<forall>j<a_size a. \<not> op_eq c x (elems a ! j))"
    using dfw_order.sorted_index_spec[OF assms] by blast
  then show ?thesis using assms(2) by (auto simp: in_set_conv_nth)
qed

theorem sorted_index_finds_iff_witness:
  "\<exists>r. sorted_index int_ops (Some 20) three_sorted = Some r \<and>
     (r = -1 \<and> \<not> (\<exists>y\<in>set (elems three_sorted). op_eq int_ops 20 y) \<or>
      0 \<le> r \<and> r < int (a_size three_sorted) \<and> op_eq int_ops 20 (elems three_sorted ! nat r))"
  by (rule sorted_index_finds_iff) simp_all

text \<open>\<open>ArraySorted::remove(int)\<close> takes out exactly the element at the position while the
  allocation has a spare slot; when the array is full and the position is not the last, the shift
  reads one slot behind the allocation.\<close>

theorem sorted_remove_needs_a_spare_slot:
  assumes "arr_ok a" "Suc p < a_size a"
  shows "if a_size a < a_capacity a
     then \<exists>a'. sorted_remove_at (int p) a = Some (Some (elems a ! p), a') \<and> arr_ok a' \<and>
            elems a' = remove_nth p (elems a)
     else sorted_remove_at (int p) a = None"
proof (cases "a_size a < a_capacity a")
  case True
  with sorted_remove_at_ok[OF assms(1) True, of p] assms(2) show ?thesis by auto
next
  case False
  then have "a_size a = a_capacity a" using assms(1) by (simp add: arr_ok_def)
  with sorted_remove_at_full[OF assms(1) _ assms(2)] False show ?thesis by simp
qed

theorem sorted_remove_needs_a_spare_slot_witness:
  "\<exists>a'. sorted_remove_at 1 three_sorted = Some (Some 20, a') \<and> arr_ok a' \<and> elems a' = [10, 30]"
  using sorted_remove_needs_a_spare_slot[of three_sorted 1]
  by (simp add: remove_nth_def)

text \<open>\<open>Array\<close> keeps a multiset: insertion appends, and removal by position returns the
  element there and leaves the others.\<close>

theorem array_is_a_multiset:
  assumes "arr_ok a" "al_out al \<noteq> AllocFails" "p \<le> a_size a"
  shows "\<exists>a1 a2 y. array_insert al (Some x) a = Some (None, a1) \<and>
     array_remove_at (int p) a1 = Some (Some y, a2) \<and> arr_ok a2 \<and>
     y = (elems a @ [x]) ! p \<and> mset (elems a2) + {#y#} = mset (elems a) + {#x#}"
proof -
  obtain a1 where a1: "array_insert al (Some x) a = Some (None, a1)" "arr_ok a1" "elems a1 = elems a @ [x]"
    using array_insert_ok[OF assms(1,2)] by blast
  have n: "a_size a1 = Suc (a_size a)" using a1(2,3) assms(1) by (metis length_append_singleton length_elems)
  with array_remove_at_ok[OF a1(2), of p] assms(3) obtain a2
    where a2: "array_remove_at (int p) a1 = Some (Some (elems a1 ! p), a2)" "arr_ok a2"
      "mset (elems a2) = mset (elems a1) - {#elems a1 ! p#}" by auto
  have "elems a1 ! p \<in># mset (elems a1)" using n assms(3) a1(2) by (simp add: in_set_conv_nth exI[of _ p])
  then have "mset (elems a2) + {#elems a1 ! p#} = mset (elems a1)" using a2(3) by simp
  with a1 a2 show ?thesis by auto
qed

theorem array_is_a_multiset_witness:
  "\<exists>a1 a2 y. array_insert \<lparr>al_out = AllocOk, al_fill = CHR 0x00\<rparr> (Some 7) three_sorted = Some (None, a1) \<and>
     array_remove_at (int 0) a1 = Some (Some y, a2) \<and> arr_ok a2 \<and>
     y = (elems three_sorted @ [7]) ! 0 \<and> mset (elems a2) + {#y#} = mset (elems three_sorted) + {#7#}"
  by (rule array_is_a_multiset) simp_all

end
