(* ===== verification/Dfw_Queue.thy ===== *)
theory Dfw_Queue
  imports Dfw_Array_Spec
begin

text \<open>
  The linked containers of \<open>include/dframework/util\<close>: \<open>Queue\<close> (nodes on the heap, a front and an
  end pointer) and \<open>ArrayLinked\<close> (heap nodes indexed by an \<open>ArraySorted\<close>).  The heap maps
  addresses to nodes; reading through NULL or a freed node is the fault \<open>None\<close>.  The locale
  \<open>fifo\<close> is what the HTTP workers and senders rely on; \<open>Queue\<close> is shown to provide it.
\<close>

section \<open>Queue\<close>

record 'a qnode =
  q_data :: "'a option"
  q_next :: "nat option"

record 'a queue =
  q_heap :: "nat \<Rightarrow> 'a qnode option"
  q_brk :: nat
  q_front :: "nat option"
  q_end :: "nat option"
  q_size :: nat

definition queue_init :: "'a queue" where
  "queue_init = \<lparr>q_heap = Map.empty, q_brk = 0, q_front = None, q_end = None, q_size = 0\<rparr>"

definition queue_empty :: "'a queue \<Rightarrow> bool" where
  "queue_empty q \<longleftrightarrow> \<not> 0 < q_size q"

text \<open>\<open>new\<close> hands out the address \<open>q_brk\<close>.\<close>

definition queue_push :: "'a option \<Rightarrow> 'a queue \<Rightarrow> 'a queue option" where
  "queue_push d q =
     (let tmp = q_brk q; h = (q_heap q)(tmp \<mapsto> \<lparr>q_data = d, q_next = None\<rparr>) in
      do { (h', front) \<leftarrow>
             (if queue_empty q then Some (h, Some tmp)
              else case q_end q of
                None \<Rightarrow> Some (h, q_front q)
              | Some e \<Rightarrow> do { n \<leftarrow> h e; Some (h(e \<mapsto> n\<lparr>q_next := Some tmp\<rparr>), q_front q) });
           Some (q\<lparr>q_heap := h', q_brk := Suc tmp, q_front := front, q_end := Some tmp,
                   q_size := q_size q + 1\<rparr>) })"

definition queue_pop :: "'a queue \<Rightarrow> ('a option \<times> 'a queue) option" where
  "queue_pop q =
     (if queue_empty q then Some (None, q)
      else do { tmp \<leftarrow> q_front q;
                n \<leftarrow> q_heap q tmp;
                Some (q_data n,
                      q\<lparr>q_front := q_next n,
                        q_end := (if q_next n = None then None else q_end q),
                        q_size := q_size q - 1,
                        q_heap := (q_heap q)(tmp := None)\<rparr>) })"

text \<open>The destructor; \<open>m_iSize\<close> pops are enough.\<close>

fun queue_drain :: "nat \<Rightarrow> 'a queue \<Rightarrow> 'a queue option" where
  "queue_drain 0 q = (if queue_empty q then Some q else None)"
| "queue_drain (Suc fuel) q =
     (if queue_empty q then Some q else do { (d, q') \<leftarrow> queue_pop q; queue_drain fuel q' })"

definition queue_destroy :: "'a queue \<Rightarrow> 'a queue option" where
  "queue_destroy q = queue_drain (q_size q) q"

text \<open>The chain of nodes from a pointer.\<close>

fun chain :: "(nat \<Rightarrow> 'a qnode option) \<Rightarrow> nat option \<Rightarrow> nat list \<Rightarrow> 'a option list \<Rightarrow> bool" where
  "chain h p [] xs \<longleftrightarrow> p = None \<and> xs = []"
| "chain h p (a # as) xs \<longleftrightarrow>
     p = Some a \<and> (\<exists>n ys. h a = Some n \<and> xs = q_data n # ys \<and> chain h (q_next n) as ys)"

definition queue_at :: "'a queue \<Rightarrow> nat list \<Rightarrow> 'a option list \<Rightarrow> bool" where
  "queue_at q as xs \<longleftrightarrow> chain (q_heap q) (q_front q) as xs \<and> distinct as \<and>
     dom (q_heap q) = set as \<and> (\<forall>a\<in>set as. a < q_brk q) \<and>
     q_end q = (if as = [] then None else Some (last as)) \<and> q_size q = length as"

text \<open>No node is lost and none is shared: the heap is exactly the chain.\<close>

definition queue_rep :: "'a queue \<Rightarrow> 'a option list \<Rightarrow> bool" where
  "queue_rep q xs \<longleftrightarrow> (\<exists>as. queue_at q as xs)"

lemma chain_upd [simp]: "a \<notin> set as \<Longrightarrow> chain (h(a := x)) p as xs \<longleftrightarrow> chain h p as xs"
  by (induction as arbitrary: p xs) auto

lemma chain_length: "chain h p as xs \<Longrightarrow> length xs = length as"
  by (induction as arbitrary: p xs) auto

lemma chain_snoc:
  "chain h p (as @ [e]) xs \<Longrightarrow> distinct (as @ [e, b]) \<Longrightarrow> h e = Some n \<Longrightarrow>
   chain (h(b \<mapsto> \<lparr>q_data = d, q_next = None\<rparr>, e \<mapsto> n\<lparr>q_next := Some b\<rparr>)) p (as @ [e, b]) (xs @ [d])"
  by (induction as arbitrary: p xs) auto

lemma chain_dom: "chain h p as xs \<Longrightarrow> a \<in> set as \<Longrightarrow> h a \<noteq> None"
  by (induction as arbitrary: p xs) auto

lemma queue_push_rep:
  assumes "queue_rep q xs"
  shows "\<exists>q'. queue_push d q = Some q' \<and> queue_rep q' (xs @ [d])"
proof -
  from assms obtain as where r: "queue_at q as xs" by (auto simp: queue_rep_def)
  show ?thesis
  proof (cases as rule: rev_cases)
    case Nil
    with r show ?thesis
      by (auto simp: queue_push_def Let_def queue_empty_def queue_at_def queue_rep_def intro!: exI[of _ "[q_brk q]"])
  next
    case (snoc bs e)
    let ?b = "q_brk q"
    have c: "chain (q_heap q) (q_front q) (bs @ [e]) xs" and fresh: "?b \<notin> set as" "?b \<noteq> e"
      and di: "distinct (bs @ [e, ?b])"
      using r snoc by (auto simp: queue_at_def)
    obtain n where n: "q_heap q e = Some n" using chain_dom[OF c, of e] by auto
    have "q_end q = Some e" "\<not> queue_empty q" using r snoc by (auto simp: queue_at_def queue_empty_def)
    then have p: "queue_push d q = Some (q\<lparr>q_heap := (q_heap q)(?b \<mapsto> \<lparr>q_data = d, q_next = None\<rparr>,
        e \<mapsto> n\<lparr>q_next := Some ?b\<rparr>), q_brk := Suc ?b, q_end := Some ?b, q_size := q_size q + 1\<rparr>)"
      using n fresh by (simp add: queue_push_def Let_def)
    have "queue_rep (the (queue_push d q)) (xs @ [d])"
      unfolding queue_rep_def p option.sel
    proof (rule exI[of _ "as @ [?b]"])
      show "queue_at (q\<lparr>q_heap := (q_heap q)(?b \<mapsto> \<lparr>q_data = d, q_next = None\<rparr>,
        e \<mapsto> n\<lparr>q_next := Some ?b\<rparr>), q_brk := Suc ?b, q_end := Some ?b, q_size := q_size q + 1\<rparr>)
        (as @ [?b]) (xs @ [d])"
        using chain_snoc[OF c di n, of d] r snoc by (auto simp: queue_at_def less_Suc_eq)
    qed
    with p show ?thesis by simp
  qed
qed

lemma queue_pop_empty: "queue_rep q [] \<Longrightarrow> queue_pop q = Some (None, q)"
  by (auto simp: queue_rep_def queue_at_def queue_pop_def queue_empty_def dest: chain_length)

lemma queue_pop_rep:
  assumes "queue_rep q (x # xs)"
  shows "\<exists>q'. queue_pop q = Some (x, q') \<and> queue_rep q' xs"
proof -
  from assms obtain as where r: "queue_at q as (x # xs)" by (auto simp: queue_rep_def)
  then obtain a bs where as: "as = a # bs" by (cases as) (auto simp: queue_at_def)
  with r obtain n where n: "q_front q = Some a" "q_heap q a = Some n" "x = q_data n"
      "chain (q_heap q) (q_next n) bs xs" by (auto simp: queue_at_def)
  have nn: "q_next n = None \<longleftrightarrow> bs = []" using n(4) by (cases bs) auto
  let ?q = "q\<lparr>q_front := q_next n, q_end := (if q_next n = None then None else q_end q),
              q_size := q_size q - 1, q_heap := (q_heap q)(a := None)\<rparr>"
  have "queue_pop q = Some (x, ?q)"
    using n r as by (simp add: queue_pop_def queue_empty_def queue_at_def)
  moreover have "queue_at ?q bs xs" using r as n nn by (auto simp: queue_at_def)
  ultimately show ?thesis by (auto simp: queue_rep_def)
qed

lemma queue_init_rep: "queue_rep queue_init []"
  by (auto simp: queue_rep_def queue_at_def queue_init_def intro: exI[of _ "[]"])

section \<open>The interface of a FIFO\<close>

text \<open>The calls a worker thread makes.\<close>

datatype 'a queue_call = Push "'a option" | Pop

fun fifo_spec :: "'a queue_call list \<Rightarrow> 'a option list \<Rightarrow> 'a option list \<times> 'a option list" where
  "fifo_spec [] xs = ([], xs)"
| "fifo_spec (Push d # cs) xs = fifo_spec cs (xs @ [d])"
| "fifo_spec (Pop # cs) xs =
     (case xs of [] \<Rightarrow> apfst (Cons None) (fifo_spec cs [])
      | x # ys \<Rightarrow> apfst (Cons x) (fifo_spec cs ys))"

text \<open>Running calls against an implementation; the results of the pops are collected.\<close>

fun run_calls :: "('a option \<Rightarrow> 'q \<Rightarrow> 'q option) \<Rightarrow> ('q \<Rightarrow> ('a option \<times> 'q) option) \<Rightarrow>
    'a queue_call list \<Rightarrow> 'q \<Rightarrow> ('a option list \<times> 'q) option" where
  "run_calls push pop [] q = Some ([], q)"
| "run_calls push pop (Push d # cs) q = do { q' \<leftarrow> push d q; run_calls push pop cs q' }"
| "run_calls push pop (Pop # cs) q =
     do { (x, q') \<leftarrow> pop q; (xs, q'') \<leftarrow> run_calls push pop cs q'; Some (x # xs, q'') }"

locale fifo =
  fixes rep :: "'q \<Rightarrow> 'a option list \<Rightarrow> bool"
    and init :: 'q
    and push :: "'a option \<Rightarrow> 'q \<Rightarrow> 'q option"
    and pop :: "'q \<Rightarrow> ('a option \<times> 'q) option"
  assumes rep_init: "rep init []"
    and rep_push: "rep q xs \<Longrightarrow> \<exists>q'. push d q = Some q' \<and> rep q' (xs @ [d])"
    and rep_pop_empty: "rep q [] \<Longrightarrow> pop q = Some (None, q)"
    and rep_pop: "rep q (x # xs) \<Longrightarrow> \<exists>q'. pop q = Some (x, q') \<and> rep q' xs"
begin

lemma run_rep:
  "rep q xs \<Longrightarrow> \<exists>q'. run_calls push pop cs q = Some (fst (fifo_spec cs xs), q') \<and>
     rep q' (snd (fifo_spec cs xs))"
proof (induction cs arbitrary: q xs rule: list.induct)
  case (Cons c cs)
  show ?case
  proof (cases c)
    case (Push d)
    with rep_push[OF Cons.prems, of d] Cons.IH show ?thesis by fastforce
  next
    case Pop
    show ?thesis
    proof (cases xs)
      case Nil
      then have r: "rep q []" using Cons.prems by simp
      from Cons.IH[OF this] Nil Pop rep_pop_empty[OF r] show ?thesis by fastforce
    next
      case (Cons y ys)
      then have "rep q (y # ys)" using Cons.prems by simp
      then obtain q' where "pop q = Some (y, q')" "rep q' ys" using rep_pop by blast
      with Cons.IH[of q' ys] Cons Pop show ?thesis by fastforce
    qed
  qed
qed simp

lemma run_init: "\<exists>q'. run_calls push pop cs init = Some (fst (fifo_spec cs []), q') \<and>
     rep q' (snd (fifo_spec cs []))"
  using run_rep[OF rep_init] .

end

interpretation queue: fifo queue_rep queue_init queue_push queue_pop
  by unfold_locales (auto simp: queue_init_rep queue_push_rep queue_pop_empty queue_pop_rep)

lemma queue_drain_ok: "queue_rep q xs \<Longrightarrow> q_size q \<le> fuel \<Longrightarrow>
   \<exists>q'. queue_drain fuel q = Some q' \<and> q_heap q' = Map.empty"
proof (induction fuel arbitrary: q xs)
  case 0
  then show ?case by (auto simp: queue_empty_def queue_rep_def queue_at_def)
next
  case (Suc fuel)
  show ?case
  proof (cases xs)
    case Nil
    with Suc.prems have "queue_empty q" "q_heap q = Map.empty"
      by (auto simp: queue_empty_def queue_rep_def queue_at_def dest: chain_length)
    then show ?thesis by simp
  next
    case (Cons y ys)
    with Suc.prems(1) obtain q' where q': "queue_pop q = Some (y, q')" "queue_rep q' ys"
      using queue_pop_rep by blast
    have "\<not> queue_empty q"
      using Suc.prems(1) Cons by (auto simp: queue_empty_def queue_rep_def queue_at_def dest: chain_length)
    moreover then have "q_size q' \<le> fuel"
      using q'(1) Suc.prems(2) by (auto simp: queue_pop_def bind_eq_Some_conv queue_empty_def)
    ultimately show ?thesis using Suc.IH[OF q'(2)] q'(1) by simp
  qed
qed

text \<open>C35. Whatever calls are made on a new \<open>Queue\<close>, none touches a freed node, every \<open>pop\<close> returns
  what a first-in first-out list would return (NULL when it is empty), and the destructor run
  afterwards gives every node back.\<close>

theorem queue_is_fifo:
  "\<exists>q q'. run_calls queue_push queue_pop cs (queue_init :: 'a queue) = Some (fst (fifo_spec cs []), q) \<and>
     q_size q = length (snd (fifo_spec cs [])) \<and>
     queue_destroy q = Some q' \<and> q_heap q' = Map.empty"
proof -
  obtain q where q: "run_calls queue_push queue_pop cs (queue_init :: 'a queue) = Some (fst (fifo_spec cs []), q)"
    "queue_rep q (snd (fifo_spec cs []))" using queue.run_init by blast
  then have "q_size q = length (snd (fifo_spec cs []))"
    by (auto simp: queue_rep_def queue_at_def dest: chain_length)
  with q queue_drain_ok[OF q(2) order_refl] show ?thesis by (auto simp: queue_destroy_def)
qed

section \<open>ArrayLinked\<close>

text \<open>A node is its index in \<open>l_heap\<close>; nodes are compared by their data.\<close>

record 'a lnode =
  ln_data :: "'a option"
  ln_prev :: "nat option"
  ln_next :: "nat option"

record 'a linked =
  l_heap :: "'a lnode list"
  l_list :: "nat arr"

definition linked_init :: "'a linked" where
  "linked_init = \<lparr>l_heap = [], l_list = arr_init\<rparr>"

definition node_ops :: "'a cmp_ops \<Rightarrow> 'a lnode list \<Rightarrow> nat cmp_ops" where
  "node_ops c h = member_ops (sp_ops c) (\<lambda>p. ln_data (h ! p))"

definition linked_insert :: "'a cmp_ops \<Rightarrow> allocator \<Rightarrow> 'a option \<Rightarrow> 'a linked \<Rightarrow> (rv \<times> nat \<times> 'a linked) option" where
  "linked_insert c al data l =
     (let node = length (l_heap l);
          h = l_heap l @ [\<lparr>ln_data = data, ln_prev = None, ln_next = None\<rparr>] in
      do { (r, pos, a) \<leftarrow> sorted_insert (node_ops c h) al (Some node) (l_list l);
           (if r \<noteq> None then Some (r, 0, l)
            else
              let h1 = (case arr_get (int pos - 1) a of None \<Rightarrow> h
                        | Some p \<Rightarrow> h[p := (h ! p)\<lparr>ln_next := Some node\<rparr>]);
                  h2 = (case arr_get (int pos + 1) a of None \<Rightarrow> h1
                        | Some p \<Rightarrow> h1[p := (h1 ! p)\<lparr>ln_prev := Some node\<rparr>])
              in Some (None, pos, l\<lparr>l_heap := h2, l_list := a\<rparr>)) })"

definition linked_get_at :: "int \<Rightarrow> 'a linked \<Rightarrow> 'a option" where
  "linked_get_at i l = (case arr_get i (l_list l) of None \<Rightarrow> None | Some p \<Rightarrow> ln_data (l_heap l ! p))"

definition linked_get :: "'a cmp_ops \<Rightarrow> 'a option \<Rightarrow> 'a linked \<Rightarrow> 'a option option" where
  "linked_get c data l =
     (let node = length (l_heap l);
          h = l_heap l @ [\<lparr>ln_data = data, ln_prev = None, ln_next = None\<rparr>] in
      do { r \<leftarrow> sorted_get (node_ops c h) (Some node) (l_list l);
           Some (case r of None \<Rightarrow> None | Some p \<Rightarrow> ln_data (h ! p)) })"

definition linked_data :: "'a linked \<Rightarrow> 'a option list" where
  "linked_data l = map (\<lambda>p. ln_data (l_heap l ! p)) (elems (l_list l))"

definition linked_ok :: "'a cmp_ops \<Rightarrow> 'a linked \<Rightarrow> bool" where
  "linked_ok c l \<longleftrightarrow> arr_ok (l_list l) \<and> distinct (elems (l_list l)) \<and>
     (\<forall>p\<in>set (elems (l_list l)). p < length (l_heap l)) \<and> sorted_wrt (op_le (sp_ops c)) (linked_data l)"

lemma node_ops_order: "dfw_order c \<Longrightarrow> dfw_order (node_ops c h)"
  by (simp add: node_ops_def member_ops_order sp_ops_order)

lemma node_ops_sorted:
  "sorted_wrt (op_le (node_ops c h)) ps \<longleftrightarrow> sorted_wrt (op_le (sp_ops c)) (map (\<lambda>p. ln_data (h ! p)) ps)"
  by (simp add: node_ops_def member_ops_def sorted_wrt_map)

definition relink :: "nat \<Rightarrow> nat option \<Rightarrow> nat option \<Rightarrow> 'a lnode list \<Rightarrow> 'a lnode list" where
  "relink node prev next h =
     (let h1 = (case prev of None \<Rightarrow> h | Some p \<Rightarrow> h[p := (h ! p)\<lparr>ln_next := Some node\<rparr>]) in
      case next of None \<Rightarrow> h1 | Some p \<Rightarrow> h1[p := (h1 ! p)\<lparr>ln_prev := Some node\<rparr>])"

lemma relink_data: "k < length h \<Longrightarrow> ln_data (relink node prev next h ! k) = ln_data (h ! k)"
  by (auto simp: relink_def Let_def nth_list_update_if split: option.splits)

lemma length_relink [simp]: "length (relink node prev next h) = length h"
  by (auto simp: relink_def Let_def split: option.splits)

lemma relink_other: "prev \<noteq> Some k \<Longrightarrow> next \<noteq> Some k \<Longrightarrow> relink node prev next h ! k = h ! k"
  by (auto simp: relink_def Let_def nth_list_update_if split: option.splits)

lemma relink_prev: "p < length h \<Longrightarrow> next \<noteq> Some p \<Longrightarrow> ln_next (relink node (Some p) next h ! p) = Some node"
  by (auto simp: relink_def Let_def nth_list_update_if split: option.splits)

lemma relink_next: "p < length h \<Longrightarrow> ln_prev (relink node prev (Some p) h ! p) = Some node"
  by (auto simp: relink_def Let_def nth_list_update_if split: option.splits)

lemma linked_insert_ok:
  assumes c: "dfw_order c" and ok: "linked_ok c l" and al: "al_out al \<noteq> AllocFails"
    and h_def: "h = l_heap l @ [\<lparr>ln_data = d, ln_prev = None, ln_next = None\<rparr>]"
  shows "\<exists>pos a. pos \<le> length (elems (l_list l)) \<and> arr_ok a \<and>
     elems a = insert_nth pos (length (l_heap l)) (elems (l_list l)) \<and>
     sorted_wrt (op_le (node_ops c h)) (elems a) \<and>
     linked_insert c al d l = Some (None, pos, l\<lparr>l_heap :=
        relink (length (l_heap l)) (arr_get (int pos - 1) a) (arr_get (int pos + 1) a) h, l_list := a\<rparr>)"
proof -
  let ?ops = "node_ops c h" and ?n = "length (l_heap l)"
  have o: "dfw_order ?ops" by (rule node_ops_order[OF c])
  have "map (\<lambda>p. ln_data (h ! p)) (elems (l_list l)) = linked_data l"
    using ok by (auto simp: linked_ok_def linked_data_def h_def nth_append)
  then have "sorted_wrt (op_le ?ops) (elems (l_list l))"
    using ok by (simp add: node_ops_sorted linked_ok_def)
  moreover have "arr_ok (l_list l)" using ok by (simp add: linked_ok_def)
  ultimately obtain i a where i: "sorted_insert ?ops al (Some ?n) (l_list l) = Some (None, i, a)"
      "arr_ok a" "dfw_order.ins_point ?ops ?n (elems (l_list l)) i"
      "elems a = insert_nth i ?n (elems (l_list l))"
    and s: "sorted_wrt (op_le ?ops) (elems (l_list l))"
    using dfw_order.sorted_insert_ok[OF o _ _ al, of "l_list l" ?n] by blast
  have "i \<le> length (elems (l_list l))" using i(3) dfw_order.ins_point_def[OF o] by blast
  moreover have "sorted_wrt (op_le ?ops) (elems a)"
    using dfw_order.ordered_insert_nth[OF o s i(3)] i(4) by simp
  moreover have "linked_insert c al d l = Some (None, i, l\<lparr>l_heap :=
        relink ?n (arr_get (int i - 1) a) (arr_get (int i + 1) a) h, l_list := a\<rparr>)"
    using i(1) by (simp add: linked_insert_def Let_def h_def relink_def)
  ultimately show ?thesis using i(2,4) by blast
qed

text \<open>\<open>ArrayLinked::insert\<close> keeps the nodes in the order of their data and puts the new data
  at the reported position.  The predecessor's \<open>m_next\<close> and the successor's \<open>m_prev\<close> are set to
  the new node, but the new node's own two links stay NULL: no chain through the nodes arises.\<close>

theorem linked_insert_leaves_new_node_unlinked:
  assumes "dfw_order c" "linked_ok c l" "al_out al \<noteq> AllocFails"
  shows "\<exists>pos l'. linked_insert c al d l = Some (None, pos, l') \<and> linked_ok c l' \<and>
     linked_data l' = insert_nth pos d (linked_data l) \<and>
     elems (l_list l') = insert_nth pos (length (l_heap l)) (elems (l_list l)) \<and>
     (0 < pos \<longrightarrow> ln_next (l_heap l' ! (elems (l_list l) ! (pos - 1))) = Some (length (l_heap l))) \<and>
     (pos < length (elems (l_list l)) \<longrightarrow>
        ln_prev (l_heap l' ! (elems (l_list l) ! pos)) = Some (length (l_heap l))) \<and>
     l_heap l' ! length (l_heap l) = \<lparr>ln_data = d, ln_prev = None, ln_next = None\<rparr>"
proof -
  let ?es = "elems (l_list l)" and ?n = "length (l_heap l)"
  let ?h = "l_heap l @ [\<lparr>ln_data = d, ln_prev = None, ln_next = None\<rparr>]"
  obtain pos a where p: "pos \<le> length ?es" "arr_ok a" "elems a = insert_nth pos ?n ?es"
     "sorted_wrt (op_le (node_ops c ?h)) (elems a)"
     "linked_insert c al d l = Some (None, pos, l\<lparr>l_heap :=
        relink ?n (arr_get (int pos - 1) a) (arr_get (int pos + 1) a) ?h, l_list := a\<rparr>)"
    using linked_insert_ok[OF assms refl] by blast
  let ?h' = "relink ?n (arr_get (int pos - 1) a) (arr_get (int pos + 1) a) ?h"
  let ?l' = "l\<lparr>l_heap := ?h', l_list := a\<rparr>"
  have below: "\<forall>q\<in>set ?es. q < ?n" and di: "distinct ?es" using assms(2) by (auto simp: linked_ok_def)
  have sz: "a_size a = Suc (length ?es)" using p(2,3) by (metis length_elems length_insert_nth)
  have prev: "arr_get (int pos - 1) a = (if pos = 0 then None else Some (?es ! (pos - 1)))"
    using p(1,3) sz by (auto simp: arr_get_elems[OF p(2)] insert_nth_def nth_append nat_diff_distrib)
  have "next": "arr_get (int pos + 1) a = (if pos < length ?es then Some (?es ! pos) else None)"
    using p(1,3) sz by (auto simp: arr_get_elems[OF p(2)] insert_nth_def nth_append nat_add_distrib)
  have data: "map (\<lambda>q. ln_data (?h' ! q)) (elems a) = insert_nth pos d (linked_data l)"
    using below p(3) by (auto simp: relink_data insert_nth_def linked_data_def nth_append take_map drop_map
      dest!: in_set_takeD in_set_dropD intro!: map_cong)
  have "map (\<lambda>q. ln_data (?h' ! q)) (elems a) = map (\<lambda>q. ln_data (?h ! q)) (elems a)"
    using below p(3) by (auto simp: relink_data)
  note same = this
  have srt: "sorted_wrt (op_le (sp_ops c)) (map (\<lambda>q. ln_data (?h' ! q)) (elems a))"
    using p(4) unfolding node_ops_sorted same .
  have nin: "?n \<notin> set ?es" using below by blast
  have "linked_ok c ?l'"
    unfolding linked_ok_def linked_data_def using srt p(2) di nin below by (auto simp: p(3))
  moreover have "linked_data ?l' = insert_nth pos d (linked_data l)"
    using data by (simp add: linked_data_def)
  moreover have "ln_next (?h' ! (?es ! (pos - 1))) = Some ?n" if "0 < pos"
  proof -
    have "pos - 1 < length ?es" using that p(1) by simp
    moreover have "?es ! (pos - 1) \<noteq> ?es ! pos" if "pos < length ?es"
      using that \<open>0 < pos\<close> di by (simp add: nth_eq_iff_index_eq)
    ultimately show ?thesis using that below "next" prev by (auto intro!: relink_prev split: if_splits simp: less_SucI)
  qed
  moreover have "ln_prev (?h' ! (?es ! pos)) = Some ?n" if "pos < length ?es"
    using that below "next" by (auto intro!: relink_next simp: less_SucI)
  moreover have "?h' ! ?n = \<lparr>ln_data = d, ln_prev = None, ln_next = None\<rparr>"
  proof -
    have "arr_get (int pos - 1) a \<noteq> Some ?n" "arr_get (int pos + 1) a \<noteq> Some ?n"
      using prev "next" nin p(1) by (auto simp: in_set_conv_nth)
    then show ?thesis by (simp add: relink_other nth_append)
  qed
  ultimately show ?thesis using p(3,5) by (intro exI[of _ pos] exI[of _ ?l']) simp
qed

theorem linked_insert_leaves_new_node_unlinked_witness:
  "\<exists>pos l'. linked_insert int_ops \<lparr>al_out = AllocOk, al_fill = NUL\<rparr> (Some 5) linked_init = Some (None, pos, l') \<and>
     linked_ok int_ops l' \<and> linked_data l' = insert_nth pos (Some 5) []"
  using linked_insert_leaves_new_node_unlinked
    [of int_ops linked_init "\<lparr>al_out = AllocOk, al_fill = NUL\<rparr>" "Some 5"]
  by (auto simp: linked_ok_def linked_init_def linked_data_def)

end
