(* ===== verification/Dfw_Sp.thy ===== *)
theory Dfw_Sp
  imports Dfw_Prelude "HOL-Library.Multiset" "HOL-Library.Monad_Syntax"
begin

text \<open>
  Reference counting: \<open>include/dframework/base/sp.h\<close> over \<open>Object::incRefCount\<close> and
  \<open>decRefCount\<close> of \<open>lib/base/Object.cpp\<close>.  The state has the counts of the objects that exist
  (an address without a count is free) and the smart pointers that exist.  A result \<open>None\<close> is a
  fault: a method called on a deleted object, or the abort on a negative count.  The pointers
  without a handle (stored in containers by \<open>undocking\<close>) are the multiset \<open>R\<close> of the
  invariant; the code does not record them.  The pointers an object owns itself are not modelled:
  deleting an object only frees it.
\<close>

record cell =
  c_ptr :: "nat option"
  c_resp :: bool

record rc_state =
  counts :: "nat \<Rightarrow> nat option"
  rc_brk :: nat
  sps :: "cell option list"

definition rc_init :: rc_state where
  "rc_init = \<lparr>counts = Map.empty, rc_brk = 0, sps = []\<rparr>"

definition obj_new :: "rc_state \<Rightarrow> rc_state" where
  "obj_new st = st\<lparr>counts := (counts st)(rc_brk st \<mapsto> 0), rc_brk := Suc (rc_brk st)\<rparr>"

definition incRefCount :: "nat \<Rightarrow> rc_state \<Rightarrow> rc_state option" where
  "incRefCount a st = do { n \<leftarrow> counts st a; Some (st\<lparr>counts := (counts st)(a \<mapsto> Suc n)\<rparr>) }"

definition inc_opt :: "nat option \<Rightarrow> rc_state \<Rightarrow> rc_state option" where
  "inc_opt p st = (case p of None \<Rightarrow> Some st | Some a \<Rightarrow> incRefCount a st)"

definition decRefCount :: "nat \<Rightarrow> rc_state \<Rightarrow> (nat \<times> rc_state) option" where
  "decRefCount a st =
     do { n \<leftarrow> counts st a;
          if n = 0 then None else Some (n - 1, st\<lparr>counts := (counts st)(a \<mapsto> n - 1)\<rparr>) }"

definition obj_delete :: "nat \<Rightarrow> rc_state \<Rightarrow> rc_state" where
  "obj_delete a st = st\<lparr>counts := (counts st)(a := None)\<rparr>"

definition sp_cell :: "nat \<Rightarrow> rc_state \<Rightarrow> cell option" where
  "sp_cell h st = (if h < length (sps st) then sps st ! h else None)"

definition set_cell :: "nat \<Rightarrow> cell option \<Rightarrow> rc_state \<Rightarrow> rc_state" where
  "set_cell h c st = st\<lparr>sps := (sps st)[h := c]\<rparr>"

definition release :: "cell \<Rightarrow> rc_state \<Rightarrow> rc_state option" where
  "release c st =
     (case c_ptr c of
        None \<Rightarrow> Some st
      | Some a \<Rightarrow>
          if c_resp c then Some st
          else do { (n, st1) \<leftarrow> decRefCount a st; Some (if n = 0 then obj_delete a st1 else st1) })"

definition sp_dec :: "nat \<Rightarrow> rc_state \<Rightarrow> rc_state option" where
  "sp_dec h st =
     do { c \<leftarrow> sp_cell h st;
          st1 \<leftarrow> release c st;
          Some (set_cell h (Some (c\<lparr>c_ptr := None\<rparr>)) st1) }"

definition sp_set :: "nat \<Rightarrow> nat option \<Rightarrow> rc_state \<Rightarrow> rc_state option" where
  "sp_set h p st =
     do { c \<leftarrow> sp_cell h st;
          inc_opt p (set_cell h (Some (c\<lparr>c_ptr := p\<rparr>)) st) }"

definition sp_ctor :: "nat option \<Rightarrow> rc_state \<Rightarrow> rc_state option" where
  "sp_ctor p st = inc_opt p (st\<lparr>sps := sps st @ [Some \<lparr>c_ptr = p, c_resp = False\<rparr>]\<rparr>)"

definition sp_copy :: "nat \<Rightarrow> rc_state \<Rightarrow> rc_state option" where
  "sp_copy g st = do { c \<leftarrow> sp_cell g st; sp_ctor (c_ptr c) st }"

definition sp_dtor :: "nat \<Rightarrow> rc_state \<Rightarrow> rc_state option" where
  "sp_dtor h st = do { st1 \<leftarrow> sp_dec h st; Some (set_cell h None st1) }"

definition sp_assign_ptr :: "nat \<Rightarrow> nat option \<Rightarrow> rc_state \<Rightarrow> rc_state option" where
  "sp_assign_ptr h p st = do { st1 \<leftarrow> sp_dec h st; sp_set h p st1 }"

text \<open>\<open>operator=(const sp<T>&)\<close> reads the other pointer after \<open>dec()\<close>.\<close>

definition sp_assign :: "nat \<Rightarrow> nat \<Rightarrow> rc_state \<Rightarrow> rc_state option" where
  "sp_assign h g st = do { st1 \<leftarrow> sp_dec h st; c \<leftarrow> sp_cell g st1; sp_set h (c_ptr c) st1 }"

text \<open>
  \<open>docking(p)\<close> hands a reference kept outside to a new handle; the local \<open>dock\<close> takes the
  pointer without counting it and releases it when it dies.
\<close>

definition sp_docking :: "nat \<Rightarrow> rc_state \<Rightarrow> rc_state option" where
  "sp_docking p st =
     do { st1 \<leftarrow> sp_ctor (Some p) st; release \<lparr>c_ptr = Some p, c_resp = False\<rparr> st1 }"

text \<open>\<open>undocking(p)\<close> counts the pointer and forgets it.\<close>

definition sp_undocking :: "nat \<Rightarrow> rc_state \<Rightarrow> rc_state option" where
  "sp_undocking p st = incRefCount p st"

definition sp_resp :: "bool \<Rightarrow> nat \<Rightarrow> rc_state \<Rightarrow> rc_state option" where
  "sp_resp b h st = do { c \<leftarrow> sp_cell h st; Some (set_cell h (Some (c\<lparr>c_resp := b\<rparr>)) st) }"

datatype sp_op = New_obj | Ctor "nat option" | Copy nat | Dtor nat | Assign_ptr nat "nat option"
  | Assign nat nat | Docking nat | Undocking nat | Undock_resp nat | Cancle_resp nat

fun sp_step :: "sp_op \<Rightarrow> rc_state \<Rightarrow> rc_state option" where
  "sp_step New_obj st = Some (obj_new st)"
| "sp_step (Ctor p) st = sp_ctor p st"
| "sp_step (Copy h) st = sp_copy h st"
| "sp_step (Dtor h) st = sp_dtor h st"
| "sp_step (Assign_ptr h p) st = sp_assign_ptr h p st"
| "sp_step (Assign h g) st = sp_assign h g st"
| "sp_step (Docking p) st = sp_docking p st"
| "sp_step (Undocking p) st = sp_undocking p st"
| "sp_step (Undock_resp h) st = sp_resp True h st"
| "sp_step (Cancle_resp h) st = sp_resp False h st"

section \<open>The counting invariant\<close>

definition owners :: "rc_state \<Rightarrow> nat \<Rightarrow> nat" where
  "owners st a = count (mset (sps st)) (Some \<lparr>c_ptr = Some a, c_resp = False\<rparr>)"

definition rc_ok :: "rc_state \<Rightarrow> nat multiset \<Rightarrow> bool" where
  "rc_ok st R \<longleftrightarrow> (\<forall>a. case counts st a of
       None \<Rightarrow> owners st a = 0 \<and> count R a = 0
     | Some n \<Rightarrow> n = owners st a + count R a) \<and> (\<forall>a\<ge>rc_brk st. counts st a = None)"

text \<open>The references held outside the handles after an operation.\<close>

definition sp_ptr :: "nat \<Rightarrow> rc_state \<Rightarrow> nat option" where
  "sp_ptr h st = (case sp_cell h st of None \<Rightarrow> None | Some c \<Rightarrow> c_ptr c)"

definition flagged :: "nat \<Rightarrow> rc_state \<Rightarrow> bool" where
  "flagged h st = (case sp_cell h st of None \<Rightarrow> False | Some c \<Rightarrow> c_resp c)"

definition opt_mset :: "nat option \<Rightarrow> nat multiset" where
  "opt_mset p = (case p of None \<Rightarrow> {#} | Some a \<Rightarrow> {#a#})"

fun raw_after :: "sp_op \<Rightarrow> rc_state \<Rightarrow> nat multiset \<Rightarrow> nat multiset" where
  "raw_after (Assign_ptr h p) st R = (if flagged h st then R + opt_mset p else R)"
| "raw_after (Assign h g) st R =
     (if flagged h st then R + opt_mset (if g = h then None else sp_ptr g st) else R)"
| "raw_after (Docking p) st R = R - {#p#}"
| "raw_after (Undocking p) st R = R + {#p#}"
| "raw_after (Undock_resp h) st R = (if flagged h st then R else R + opt_mset (sp_ptr h st))"
| "raw_after (Cancle_resp h) st R = (if flagged h st then R - opt_mset (sp_ptr h st) else R)"
| "raw_after _ st R = R"

text \<open>
  What a caller must respect: the handles exist, raw pointers point to live objects, only a
  reference held outside is docked or taken back, a handle that gave its reference away is not
  read after the object may be gone, and \<open>p = raw\<close> does not assign the object whose last
  reference is \<open>p\<close>'s.
\<close>

definition live_opt :: "nat option \<Rightarrow> rc_state \<Rightarrow> bool" where
  "live_opt p st = (case p of None \<Rightarrow> True | Some a \<Rightarrow> counts st a \<noteq> None)"

fun legal :: "sp_op \<Rightarrow> rc_state \<Rightarrow> nat multiset \<Rightarrow> bool" where
  "legal New_obj st R = True"
| "legal (Ctor p) st R = live_opt p st"
| "legal (Copy h) st R = (sp_cell h st \<noteq> None \<and> live_opt (sp_ptr h st) st)"
| "legal (Dtor h) st R = (sp_cell h st \<noteq> None)"
| "legal (Assign_ptr h p) st R =
     (sp_cell h st \<noteq> None \<and> live_opt p st \<and>
      \<not> (\<not> flagged h st \<and> p \<noteq> None \<and> sp_ptr h st = p \<and> counts st (the p) = Some 1))"
| "legal (Assign h g) st R =
     (sp_cell h st \<noteq> None \<and> sp_cell g st \<noteq> None \<and> (flagged g st \<longrightarrow> live_opt (sp_ptr g st) st) \<and>
      \<not> (\<not> flagged h st \<and> flagged g st \<and> sp_ptr g st \<noteq> None \<and> sp_ptr h st = sp_ptr g st \<and>
         counts st (the (sp_ptr g st)) = Some 1))"
| "legal (Docking p) st R = (p \<in># R)"
| "legal (Undocking p) st R = (counts st p \<noteq> None)"
| "legal (Undock_resp h) st R = (sp_cell h st \<noteq> None)"
| "legal (Cancle_resp h) st R = (sp_cell h st \<noteq> None \<and> (flagged h st \<longrightarrow> opt_mset (sp_ptr h st) \<subseteq># R))"

definition cell_owns :: "cell option \<Rightarrow> nat \<Rightarrow> nat" where
  "cell_owns c a = (if c = Some \<lparr>c_ptr = Some a, c_resp = False\<rparr> then 1 else 0)"

lemma owners_set_cell:
  assumes "h < length (sps st)"
  shows "owners (set_cell h c st) a + cell_owns (sps st ! h) a = owners st a + cell_owns c a"
proof -
  have "Some x \<in># mset (sps st)" if "sps st ! h = Some x" for x
    using assms that by (metis nth_mem set_mset_mset)
  then show ?thesis using assms by (auto simp: owners_def set_cell_def cell_owns_def mset_update)
qed

text \<open>The counts agree with an expected number of references.\<close>

definition balanced :: "rc_state \<Rightarrow> (nat \<Rightarrow> nat) \<Rightarrow> bool" where
  "balanced st e \<longleftrightarrow> (\<forall>a. case counts st a of None \<Rightarrow> e a = 0 | Some n \<Rightarrow> n = e a) \<and>
     (\<forall>a\<ge>rc_brk st. counts st a = None)"

lemma rc_ok_balanced: "rc_ok st R \<longleftrightarrow> balanced st (\<lambda>a. owners st a + count R a)"
  by (auto simp: rc_ok_def balanced_def split: option.splits)

lemma balancedD: "balanced st e \<Longrightarrow> counts st a = Some n \<Longrightarrow> n = e a"
  by (auto simp: balanced_def dest: spec[of _ a])

lemma balanced_pos: "balanced st e \<Longrightarrow> 0 < e a \<Longrightarrow> counts st a = Some (e a)"
  by (cases "counts st a") (auto simp: balanced_def dest: spec[of _ a])

lemma sps_incRefCount: "incRefCount p st = Some st' \<Longrightarrow> sps st' = sps st"
  by (auto simp: incRefCount_def bind_eq_Some_conv)

lemma balanced_upd:
  assumes "balanced st e" "counts st b = Some n"
  shows "balanced (st\<lparr>counts := (counts st)(b \<mapsto> m)\<rparr>) (e(b := m))"
proof -
  have "b < rc_brk st" using assms by (metis balanced_def not_le option.distinct(1))
  with assms show ?thesis unfolding balanced_def by (simp cong: option.case_cong)
qed

lemma balanced_del: "balanced st e \<Longrightarrow> balanced (st\<lparr>counts := (counts st)(b := None)\<rparr>) (e(b := 0))"
  unfolding balanced_def by (simp cong: option.case_cong)

lemma inc_opt_ok:
  assumes "balanced st e" "live_opt p st"
  shows "\<exists>st'. inc_opt p st = Some st' \<and> balanced st' (\<lambda>a. e a + count (opt_mset p) a) \<and> sps st' = sps st"
proof (cases p)
  case None
  with assms show ?thesis by (simp add: inc_opt_def opt_mset_def)
next
  case (Some b)
  with assms(2) obtain n where n: "counts st b = Some n" by (auto simp: live_opt_def)
  have "e(b := Suc n) = (\<lambda>a. e a + count (opt_mset p) a)"
    using balancedD[OF assms(1) n] Some by (auto simp: opt_mset_def)
  with balanced_upd[OF assms(1) n, of "Suc n"] n Some show ?thesis
    by (simp add: inc_opt_def incRefCount_def)
qed

lemma release_ok:
  assumes "balanced st e" "\<And>a. cell_owns (Some c) a \<le> e a"
  shows "\<exists>st'. release c st = Some st' \<and> balanced st' (\<lambda>a. e a - cell_owns (Some c) a) \<and> sps st' = sps st \<and>
     (\<forall>a. counts st' a = None \<longleftrightarrow> counts st a = None \<or> cell_owns (Some c) a = 1 \<and> counts st a = Some 1)"
proof (cases "\<exists>b. c_ptr c = Some b \<and> \<not> c_resp c")
  case False
  then have "cell_owns (Some c) a = 0" for a by (cases c) (auto simp: cell_owns_def)
  with False assms(1) show ?thesis by (auto simp: release_def split: option.splits)
next
  case True
  then obtain b where b: "c_ptr c = Some b" "\<not> c_resp c" by blast
  then have o: "cell_owns (Some c) a = (if a = b then 1 else 0)" for a
    by (cases c) (auto simp: cell_owns_def)
  with assms(2)[of b] have "0 < e b" by simp
  with balanced_pos[OF assms(1)] obtain n where n: "counts st b = Some (Suc n)" "e b = Suc n"
    by (metis gr0_implies_Suc)
  have f: "e(b := n) = (\<lambda>a. e a - cell_owns (Some c) a)" using n(2) o by auto
  let ?st1 = "st\<lparr>counts := (counts st)(b \<mapsto> n)\<rparr>"
  have b1: "balanced ?st1 (e(b := n))" using balanced_upd[OF assms(1) n(1)] .
  show ?thesis
  proof (cases n)
    case 0
    with b1 balanced_del[of ?st1 _ b] have "balanced (obj_delete b ?st1) (e(b := n))"
      by (fastforce simp: obj_delete_def)
    with 0 n b f o show ?thesis by (auto simp: release_def decRefCount_def obj_delete_def)
  next
    case (Suc m)
    with b1 n b f o show ?thesis by (auto simp: release_def decRefCount_def)
  qed
qed

lemma sp_cell_Some: "sp_cell h st = Some c \<longleftrightarrow> h < length (sps st) \<and> sps st ! h = Some c"
  by (auto simp: sp_cell_def)

lemma sp_cell_set_cell: "h < length (sps st) \<Longrightarrow> sp_cell g (set_cell h c st) = (if g = h then c else sp_cell g st)"
  by (auto simp: sp_cell_def set_cell_def)

lemma sp_cell_cong: "sps st = sps st' \<Longrightarrow> sp_cell h st = sp_cell h st'"
  by (simp add: sp_cell_def)

lemma owners_cong: "sps st = sps st' \<Longrightarrow> owners st a = owners st' a"
  by (simp add: owners_def)

lemma balanced_set_cell [simp]: "balanced (set_cell h c st) e \<longleftrightarrow> balanced st e"
  by (simp add: balanced_def set_cell_def)

lemma counts_set_cell [simp]: "counts (set_cell h c st) = counts st"
  by (simp add: set_cell_def)

lemma sps_set_cell [simp]: "sps (set_cell h c st) = (sps st)[h := c]"
  by (simp add: set_cell_def)

lemma cell_owns_None [simp]: "cell_owns None a = 0" "cell_owns (Some (c\<lparr>c_ptr := None\<rparr>)) a = 0"
  by (cases c; simp add: cell_owns_def)+

lemma sp_dec_ok:
  assumes ok: "rc_ok st R" and c: "sp_cell h st = Some c"
  shows "\<exists>st'. sp_dec h st = Some st' \<and> rc_ok st' R \<and>
     sps st' = (sps st)[h := Some (c\<lparr>c_ptr := None\<rparr>)] \<and>
     (\<forall>a. counts st' a = None \<longleftrightarrow> counts st a = None \<or> cell_owns (Some c) a = 1 \<and> counts st a = Some 1)"
proof -
  have h: "h < length (sps st)" "sps st ! h = Some c" using c by (simp_all add: sp_cell_Some)
  have ge: "cell_owns (Some c) a \<le> owners st a" for a
    using owners_set_cell[OF h(1), of None a] h(2) by simp
  then have ge': "cell_owns (Some c) a \<le> owners st a + count R a" for a by (simp add: trans_le_add1)
  obtain st1 where s: "release c st = Some st1"
      "balanced st1 (\<lambda>a. owners st a + count R a - cell_owns (Some c) a)" "sps st1 = sps st"
      "\<forall>a. counts st1 a = None \<longleftrightarrow> counts st a = None \<or> cell_owns (Some c) a = 1 \<and> counts st a = Some 1"
    using release_ok[OF ok[unfolded rc_ok_balanced] ge'] by blast
  let ?st' = "set_cell h (Some (c\<lparr>c_ptr := None\<rparr>)) st1"
  have "owners ?st' a + cell_owns (Some c) a = owners st a" for a
    using owners_set_cell[of h st1 "Some (c\<lparr>c_ptr := None\<rparr>)" a] h s(3) owners_cong[OF s(3)] by simp
  then have "owners st a + count R a - cell_owns (Some c) a = owners ?st' a + count R a" for a
    by (metis add.assoc add.commute add_diff_cancel_left')
  then have "rc_ok ?st' R" using s(2) by (simp add: rc_ok_balanced)
  with s c show ?thesis by (simp add: sp_dec_def)
qed

lemma sp_set_ok:
  assumes ok: "rc_ok st R" and c: "sp_cell h st = Some c" "c_ptr c = None" and p: "live_opt p st"
  shows "\<exists>st'. sp_set h p st = Some st' \<and> rc_ok st' (if c_resp c then R + opt_mset p else R)"
proof -
  have h: "h < length (sps st)" "sps st ! h = Some c" using c by (simp_all add: sp_cell_Some)
  have c0: "cell_owns (Some c) a = 0" for a using c(2) by (cases c) (simp add: cell_owns_def)
  let ?st = "set_cell h (Some (c\<lparr>c_ptr := p\<rparr>)) st"
  have own: "owners ?st a = owners st a + (if c_resp c then 0 else count (opt_mset p) a)" for a
    using owners_set_cell[OF h(1), of "Some (c\<lparr>c_ptr := p\<rparr>)" a] h(2) c0
    by (cases c) (auto simp: cell_owns_def opt_mset_def split: option.splits)
  have "balanced ?st (\<lambda>a. owners st a + count R a)" using ok by (simp add: rc_ok_balanced)
  moreover have "live_opt p ?st" using p by (simp add: live_opt_def split: option.splits)
  ultimately obtain st' where s: "inc_opt p ?st = Some st'" "sps st' = sps ?st"
      "balanced st' (\<lambda>a. owners st a + count R a + count (opt_mset p) a)"
    using inc_opt_ok by blast
  have "owners st a + count R a + count (opt_mset p) a =
     owners st' a + count (if c_resp c then R + opt_mset p else R) a" for a
    using own[of a] owners_cong[OF s(2)] by simp
  then have "rc_ok st' (if c_resp c then R + opt_mset p else R)" using s(3) by (simp add: rc_ok_balanced)
  with s(1) c(1) show ?thesis by (auto simp: sp_set_def)
qed

lemma sp_ctor_ok:
  assumes ok: "rc_ok st R" and p: "live_opt p st"
  shows "\<exists>st'. sp_ctor p st = Some st' \<and> rc_ok st' R"
proof -
  let ?st = "st\<lparr>sps := sps st @ [Some \<lparr>c_ptr = p, c_resp = False\<rparr>]\<rparr>"
  have "balanced ?st (\<lambda>a. owners st a + count R a)" using ok by (simp add: rc_ok_balanced balanced_def)
  moreover have "live_opt p ?st" using p by (simp add: live_opt_def split: option.splits)
  ultimately obtain st' where s: "inc_opt p ?st = Some st'" "sps st' = sps ?st"
      "balanced st' (\<lambda>a. owners st a + count R a + count (opt_mset p) a)"
    using inc_opt_ok by blast
  have "owners st' a = owners st a + count (opt_mset p) a" for a
    using s(2) by (auto simp: owners_def opt_mset_def split: option.splits)
  then have "rc_ok st' R" using s(3) by (simp add: rc_ok_balanced add.assoc add.left_commute add.commute)
  with s(1) show ?thesis by (simp add: sp_ctor_def)
qed

lemma live_opt_counts:
  assumes "\<forall>a. counts st' a = None \<longleftrightarrow> counts st a = None \<or> own a = 1 \<and> counts st a = Some (1::nat)"
    "live_opt p st" "p \<noteq> None \<Longrightarrow> own (the p) = (1::nat) \<Longrightarrow> counts st (the p) \<noteq> Some 1"
  shows "live_opt p st'"
  using assms by (auto simp: live_opt_def split: option.splits)

text \<open>A handle that owns its object keeps it alive.\<close>

lemma owner_live:
  assumes "rc_ok st R" "sp_cell h st = Some c" "\<not> c_resp c"
  shows "live_opt (c_ptr c) st"
proof (cases "c_ptr c")
  case (Some a)
  have "0 < owners st a"
    using assms(2,3) Some by (cases c) (auto simp: owners_def sp_cell_Some in_set_conv_nth count_greater_zero_iff)
  with assms(1) Some show ?thesis
    by (auto simp: rc_ok_def live_opt_def split: option.splits dest!: spec[of _ a])
qed (simp add: live_opt_def)

lemma two_owners:
  assumes ok: "rc_ok st R" and g: "sp_cell g st = Some d" "\<not> c_resp d"
    and h: "sp_cell h st = Some c" "\<not> c_resp c" and "g \<noteq> h" "c_ptr c = Some a" "c_ptr d = Some a"
  shows "counts st a \<noteq> Some 1"
proof
  assume one: "counts st a = Some 1"
  have cd: "c = \<lparr>c_ptr = Some a, c_resp = False\<rparr>" "d = \<lparr>c_ptr = Some a, c_resp = False\<rparr>"
    using assms by (cases c; cases d; simp)+
  have hh: "h < length (sps st)" "sps st ! h = Some c" using h by (simp_all add: sp_cell_Some)
  have "owners st a + count R a = 1" using ok one by (auto simp: rc_ok_def split: option.splits dest!: spec[of _ a])
  then have "owners (set_cell h None st) a = 0"
    using owners_set_cell[OF hh(1), of None a] hh(2) cd by (simp add: cell_owns_def)
  moreover have "Some d \<in> set (sps (set_cell h None st))"
    using g \<open>g \<noteq> h\<close> by (auto simp: sp_cell_Some in_set_conv_nth intro!: exI[of _ g])
  ultimately show False using cd by (auto simp: owners_def)
qed

lemma sp_assign_ptr_ok:
  assumes ok: "rc_ok st R" and l: "legal (Assign_ptr h p) st R"
  shows "\<exists>st'. sp_assign_ptr h p st = Some st' \<and> rc_ok st' (raw_after (Assign_ptr h p) st R)"
proof -
  obtain c where c: "sp_cell h st = Some c" using l by auto
  obtain st1 where s: "sp_dec h st = Some st1" "rc_ok st1 R" "sps st1 = (sps st)[h := Some (c\<lparr>c_ptr := None\<rparr>)]"
      "\<forall>a. counts st1 a = None \<longleftrightarrow> counts st a = None \<or> cell_owns (Some c) a = 1 \<and> counts st a = Some 1"
    using sp_dec_ok[OF ok c] by blast
  have "live_opt p st1"
  proof (rule live_opt_counts[OF s(4)])
    show "live_opt p st" using l by simp
    assume "p \<noteq> None" "cell_owns (Some c) (the p) = 1"
    moreover from this have "c_ptr c = p" "\<not> c_resp c" by (auto simp: cell_owns_def split: if_splits)
    ultimately show "counts st (the p) \<noteq> Some 1" using l c by (simp add: flagged_def sp_ptr_def)
  qed
  moreover have "sp_cell h st1 = Some (c\<lparr>c_ptr := None\<rparr>)" using s(3) c by (simp add: sp_cell_def split: if_splits)
  ultimately show ?thesis using sp_set_ok[OF s(2)] s(1) c
    by (fastforce simp: sp_assign_ptr_def flagged_def)
qed

lemma sp_assign_ok:
  assumes ok: "rc_ok st R" and l: "legal (Assign h g) st R"
  shows "\<exists>st'. sp_assign h g st = Some st' \<and> rc_ok st' (raw_after (Assign h g) st R)"
proof -
  obtain c d where c: "sp_cell h st = Some c" and d: "sp_cell g st = Some d" using l by auto
  obtain st1 where s: "sp_dec h st = Some st1" "rc_ok st1 R" "sps st1 = (sps st)[h := Some (c\<lparr>c_ptr := None\<rparr>)]"
      "\<forall>a. counts st1 a = None \<longleftrightarrow> counts st a = None \<or> cell_owns (Some c) a = 1 \<and> counts st a = Some 1"
    using sp_dec_ok[OF ok c] by blast
  define p where "p = (if g = h then None else c_ptr d)"
  have cg: "sp_cell g st1 = Some (if g = h then c\<lparr>c_ptr := None\<rparr> else d)"
    using s(3) c d by (auto simp: sp_cell_def split: if_splits)
  have ch: "sp_cell h st1 = Some (c\<lparr>c_ptr := None\<rparr>)" using s(3) c by (simp add: sp_cell_def split: if_splits)
  have "live_opt p st1"
  proof (cases "g = h")
    case False
    have "live_opt (c_ptr d) st"
      using l d owner_live[OF ok d] by (cases "c_resp d") (auto simp: flagged_def sp_ptr_def)
    then have "live_opt (c_ptr d) st1"
    proof (rule live_opt_counts[OF s(4)])
      assume "c_ptr d \<noteq> None" "cell_owns (Some c) (the (c_ptr d)) = 1"
      then have "c_ptr c = c_ptr d" "\<not> c_resp c" by (auto simp: cell_owns_def split: if_splits)
      then show "counts st (the (c_ptr d)) \<noteq> Some 1"
        using l c d two_owners[OF ok d _ c] False \<open>c_ptr d \<noteq> None\<close>
        by (cases "c_resp d") (auto simp: flagged_def sp_ptr_def)
    qed
    with False show ?thesis by (simp add: p_def)
  qed (simp add: p_def live_opt_def)
  from sp_set_ok[OF s(2) ch _ this]
  obtain st' where "sp_set h p st1 = Some st'" "rc_ok st' (if c_resp c then R + opt_mset p else R)"
    by auto
  then show ?thesis using s(1) cg c d by (auto simp: sp_assign_def p_def flagged_def sp_ptr_def)
qed

lemma sp_docking_ok:
  assumes ok: "rc_ok st R" and l: "p \<in># R"
  shows "\<exists>st'. sp_docking p st = Some st' \<and> rc_ok st' (R - {#p#})"
proof -
  have "live_opt (Some p) st"
    using ok l by (auto simp: rc_ok_def live_opt_def split: option.splits dest!: spec[of _ p])
  then obtain st1 where s: "sp_ctor (Some p) st = Some st1" "rc_ok st1 R" using sp_ctor_ok[OF ok] by blast
  let ?c = "\<lparr>c_ptr = Some p, c_resp = False\<rparr>"
  have "cell_owns (Some ?c) a \<le> owners st1 a + count R a" for a
    using l by (auto simp: cell_owns_def Suc_le_eq count_greater_zero_iff)
  with release_ok[OF s(2)[unfolded rc_ok_balanced], of ?c] obtain st2 where
    r: "release ?c st1 = Some st2" "balanced st2 (\<lambda>a. owners st1 a + count R a - cell_owns (Some ?c) a)"
      "sps st2 = sps st1" by blast
  have "owners st1 a + count R a - cell_owns (Some ?c) a = owners st2 a + count (R - {#p#}) a" for a
    using l owners_cong[OF r(3)] by (auto simp: cell_owns_def Suc_le_eq count_greater_zero_iff)
  then have "rc_ok st2 (R - {#p#})" using r(2) by (simp add: rc_ok_balanced)
  with s(1) r(1) show ?thesis by (simp add: sp_docking_def)
qed

lemma sp_undocking_ok:
  assumes ok: "rc_ok st R" and l: "counts st p \<noteq> None"
  shows "\<exists>st'. sp_undocking p st = Some st' \<and> rc_ok st' (R + {#p#})"
proof -
  have "live_opt (Some p) st" using l by (simp add: live_opt_def)
  from inc_opt_ok[OF ok[unfolded rc_ok_balanced] this] obtain st' where
    s: "incRefCount p st = Some st'" "balanced st' (\<lambda>a. owners st a + count R a + count {#p#} a)" "sps st' = sps st"
    by (auto simp: inc_opt_def opt_mset_def)
  have "owners st a + count R a + count {#p#} a = owners st' a + count (R + {#p#}) a" for a
    using owners_cong[OF s(3)] by simp
  with s show ?thesis by (simp add: sp_undocking_def rc_ok_balanced)
qed

lemma sp_resp_ok:
  assumes ok: "rc_ok st R" and c: "sp_cell h st = Some c"
    and e: "\<And>a. cell_owns (Some (c\<lparr>c_resp := b\<rparr>)) a + count R' a = cell_owns (Some c) a + count R a"
  shows "\<exists>st'. sp_resp b h st = Some st' \<and> rc_ok st' R'"
proof -
  let ?st' = "set_cell h (Some (c\<lparr>c_resp := b\<rparr>)) st"
  have h: "h < length (sps st)" "sps st ! h = Some c" using c by (simp_all add: sp_cell_Some)
  have "owners st a + count R a = owners ?st' a + count R' a" for a
    using owners_set_cell[OF h(1), of "Some (c\<lparr>c_resp := b\<rparr>)" a] e[of a] unfolding h(2) by linarith
  moreover have "balanced ?st' (\<lambda>a. owners st a + count R a)" using ok by (simp add: rc_ok_balanced)
  ultimately show ?thesis using c by (simp add: sp_resp_def rc_ok_balanced)
qed

lemma sp_step_ok:
  assumes ok: "rc_ok st R" and l: "legal op st R"
  shows "\<exists>st'. sp_step op st = Some st' \<and> rc_ok st' (raw_after op st R)"
proof (cases op)
  case New_obj
  let ?e = "\<lambda>a. owners st a + count R a"
  have b: "balanced st ?e" using ok by (simp add: rc_ok_balanced)
  then have "counts st (rc_brk st) = None" by (simp add: balanced_def)
  with b have "?e (rc_brk st) = 0" unfolding balanced_def by (auto dest: spec[of _ "rc_brk st"])
  with b have "balanced (obj_new st) ?e"
    unfolding balanced_def obj_new_def by (auto cong: option.case_cong)
  moreover have "owners (obj_new st) = owners st" by (rule ext) (simp add: owners_def obj_new_def)
  ultimately have "rc_ok (obj_new st) R" by (simp add: rc_ok_balanced)
  with New_obj show ?thesis by simp
next
  case (Copy h)
  with l obtain c where "sp_cell h st = Some c" "live_opt (c_ptr c) st" by (auto simp: sp_ptr_def)
  with sp_ctor_ok[OF ok, of "c_ptr c"] Copy show ?thesis by (simp add: sp_copy_def)
next
  case (Dtor h)
  with l obtain c where c: "sp_cell h st = Some c" by auto
  obtain st1 where s: "sp_dec h st = Some st1" "rc_ok st1 R" "sps st1 = (sps st)[h := Some (c\<lparr>c_ptr := None\<rparr>)]"
    using sp_dec_ok[OF ok c] by blast
  have h: "h < length (sps st1)" "sps st1 ! h = Some (c\<lparr>c_ptr := None\<rparr>)"
    using s(3) c by (simp_all add: sp_cell_Some)
  have "owners (set_cell h None st1) a = owners st1 a" for a
    using owners_set_cell[OF h(1), of None a] h(2) by simp
  then have "rc_ok (set_cell h None st1) R" using s(2) by (simp add: rc_ok_balanced)
  with s(1) Dtor show ?thesis by (simp add: sp_dtor_def)
next
  case (Undock_resp h)
  with l obtain c where c: "sp_cell h st = Some c" by auto
  show ?thesis unfolding Undock_resp sp_step.simps
    by (rule sp_resp_ok[OF ok c], cases c)
      (auto simp: c cell_owns_def flagged_def sp_ptr_def opt_mset_def split: option.splits)
next
  case (Cancle_resp h)
  with l obtain c where c: "sp_cell h st = Some c" by auto
  show ?thesis unfolding Cancle_resp sp_step.simps
  proof (rule sp_resp_ok[OF ok c])
    fix a
    show "cell_owns (Some (c\<lparr>c_resp := False\<rparr>)) a + count (raw_after (Cancle_resp h) st R) a =
      cell_owns (Some c) a + count R a"
      using l Cancle_resp c by (cases c) (auto simp: cell_owns_def flagged_def sp_ptr_def opt_mset_def
        count_greater_zero_iff Suc_le_eq split: option.splits)
  qed
qed (use l sp_ctor_ok[OF ok] sp_assign_ptr_ok[OF ok] sp_assign_ok[OF ok] sp_docking_ok[OF ok]
      sp_undocking_ok[OF ok] in \<open>auto simp del: legal.simps(5,6) raw_after.simps(1,2)\<close>)

section \<open>Properties\<close>

fun run_ops :: "sp_op list \<Rightarrow> rc_state \<Rightarrow> nat multiset \<Rightarrow> (rc_state \<times> nat multiset) option" where
  "run_ops [] st R = Some (st, R)"
| "run_ops (p # ps) st R = do { st' \<leftarrow> sp_step p st; run_ops ps st' (raw_after p st R) }"

fun all_legal :: "sp_op list \<Rightarrow> rc_state \<Rightarrow> nat multiset \<Rightarrow> bool" where
  "all_legal [] st R = True"
| "all_legal (p # ps) st R \<longleftrightarrow>
     legal p st R \<and> (case sp_step p st of None \<Rightarrow> True | Some st' \<Rightarrow> all_legal ps st' (raw_after p st R))"

lemma run_ops_ok:
  "rc_ok st R \<Longrightarrow> all_legal ps st R \<Longrightarrow> \<exists>st' R'. run_ops ps st R = Some (st', R') \<and> rc_ok st' R'"
proof (induction ps arbitrary: st R)
  case (Cons p ps)
  obtain st' where "sp_step p st = Some st'" "rc_ok st' (raw_after p st R)"
    using sp_step_ok[OF Cons.prems(1)] Cons.prems(2) by auto
  with Cons.IH[of st' "raw_after p st R"] Cons.prems(2) show ?case by simp
qed simp

lemma rc_init_ok: "rc_ok rc_init {#}"
  by (simp add: rc_ok_def rc_init_def owners_def)

text \<open>C2. In every legal history of smart pointers no method is called on a deleted object and no
  count goes below zero; at the end the count of each object is the number of handles that own it
  plus the references kept outside, and every handle that owns an object finds it alive.\<close>

theorem refcounts_are_owner_counts:
  assumes "all_legal ps rc_init {#}"
  shows "\<exists>st R. run_ops ps rc_init {#} = Some (st, R) \<and>
     (\<forall>a n. counts st a = Some n \<longrightarrow> n = owners st a + count R a) \<and>
     (\<forall>h c. sp_cell h st = Some c \<longrightarrow> \<not> c_resp c \<longrightarrow> live_opt (c_ptr c) st)"
proof -
  obtain st R where r: "run_ops ps rc_init {#} = Some (st, R)" "rc_ok st R"
    using run_ops_ok[OF rc_init_ok assms] by blast
  then have "\<forall>a n. counts st a = Some n \<longrightarrow> n = owners st a + count R a"
    by (auto simp: rc_ok_def split: option.splits)
  with r owner_live[OF r(2)] show ?thesis by blast
qed

text \<open>Create an object, hold it twice, store it in a container, drop both handles and take it back.\<close>

definition sp_history :: "sp_op list" where
  "sp_history = [New_obj, Ctor (Some 0), Copy 0, Undocking 0, Dtor 0, Dtor 1, Docking 0, Ctor None, Assign 3 2]"

theorem refcounts_are_owner_counts_witness:
  "\<exists>st R. run_ops sp_history rc_init {#} = Some (st, R) \<and>
     (\<forall>a n. counts st a = Some n \<longrightarrow> n = owners st a + count R a) \<and>
     (\<forall>h c. sp_cell h st = Some c \<longrightarrow> \<not> c_resp c \<longrightarrow> live_opt (c_ptr c) st)"
  by (rule refcounts_are_owner_counts)
    (simp add: sp_history_def rc_init_def obj_new_def sp_ctor_def sp_copy_def sp_dtor_def sp_dec_def
      sp_docking_def sp_undocking_def sp_assign_def sp_set_def inc_opt_def incRefCount_def release_def
      decRefCount_def obj_delete_def sp_cell_def sp_ptr_def flagged_def set_cell_def live_opt_def opt_mset_def)

text \<open>Assigning a smart pointer to itself when it holds the last reference deletes the object and
  leaves the pointer NULL: \<open>operator=\<close> releases before it reads its argument.\<close>

theorem self_assignment_destroys:
  assumes "sp_cell h st = Some \<lparr>c_ptr = Some a, c_resp = False\<rparr>" "counts st a = Some 1"
  shows "\<exists>st'. sp_assign h h st = Some st' \<and> counts st' a = None \<and>
     sp_cell h st' = Some \<lparr>c_ptr = None, c_resp = False\<rparr>"
  using assms by (simp add: sp_assign_def sp_dec_def release_def decRefCount_def obj_delete_def
      sp_set_def inc_opt_def set_cell_def sp_cell_def split: if_splits)

theorem self_assignment_destroys_witness:
  "\<exists>st'. sp_assign 0 0 \<lparr>counts = [7 \<mapsto> 1], rc_brk = 8, sps = [Some \<lparr>c_ptr = Some 7, c_resp = False\<rparr>]\<rparr> = Some st' \<and>
     counts st' 7 = None"
  using self_assignment_destroys[of 0
      "\<lparr>counts = [7 \<mapsto> 1], rc_brk = 8, sps = [Some \<lparr>c_ptr = Some 7, c_resp = False\<rparr>]\<rparr>" 7]
  by (auto simp: sp_cell_def)

end
