(* ===== verification/Dfw_Base64.thy ===== *)
theory Dfw_Base64
  imports Dfw_Prelude "HOL-Library.Monad_Syntax"
begin

unbundle bit_operations_syntax

text \<open>
  \<open>lib/util/Base64.cpp\<close>.  Memory is a list of characters; decoding starts at a pointer into it
  and faults (\<open>None\<close>) when the scan for the first character outside the alphabet leaves the
  memory.  Bytes are 8-bit words: the casts of the code drop the higher bits of its shifts.
\<close>

section \<open>Tables\<close>

definition pr2six :: "byte list" where
  "pr2six = [
   64, 64, 64, 64, 64, 64, 64, 64, 64, 64, 64, 64, 64, 64, 64, 64,
   64, 64, 64, 64, 64, 64, 64, 64, 64, 64, 64, 64, 64, 64, 64, 64,
   64, 64, 64, 64, 64, 64, 64, 64, 64, 64, 64, 62, 64, 64, 64, 63,
   52, 53, 54, 55, 56, 57, 58, 59, 60, 61, 64, 64, 64, 64, 64, 64,
   64, 0, 1, 2, 3, 4, 5, 6, 7, 8, 9, 10, 11, 12, 13, 14,
   15, 16, 17, 18, 19, 20, 21, 22, 23, 24, 25, 64, 64, 64, 64, 64,
   64, 26, 27, 28, 29, 30, 31, 32, 33, 34, 35, 36, 37, 38, 39, 40,
   41, 42, 43, 44, 45, 46, 47, 48, 49, 50, 51, 64, 64, 64, 64, 64,
   64, 64, 64, 64, 64, 64, 64, 64, 64, 64, 64, 64, 64, 64, 64, 64,
   64, 64, 64, 64, 64, 64, 64, 64, 64, 64, 64, 64, 64, 64, 64, 64,
   64, 64, 64, 64, 64, 64, 64, 64, 64, 64, 64, 64, 64, 64, 64, 64,
   64, 64, 64, 64, 64, 64, 64, 64, 64, 64, 64, 64, 64, 64, 64, 64,
   64, 64, 64, 64, 64, 64, 64, 64, 64, 64, 64, 64, 64, 64, 64, 64,
   64, 64, 64, 64, 64, 64, 64, 64, 64, 64, 64, 64, 64, 64, 64, 64,
   64, 64, 64, 64, 64, 64, 64, 64, 64, 64, 64, 64, 64, 64, 64, 64,
   64, 64, 64, 64, 64, 64, 64, 64, 64, 64, 64, 64, 64, 64, 64, 64]"

definition alphabet :: string where
  "alphabet = ''ABCDEFGHIJKLMNOPQRSTUVWXYZabcdefghijklmnopqrstuvwxyz0123456789+/=''"

definition six :: "char \<Rightarrow> byte" where
  "six c = pr2six ! uchar c"

definition to_byte :: "char \<Rightarrow> byte" where
  "to_byte c = of_nat (uchar c)"

definition of_byte :: "byte \<Rightarrow> char" where
  "of_byte w = char_of (unat w)"

section \<open>Decoding\<close>

text \<open>\<open>while (pr2six[*(bufin++)] <= 63);\<close> and the number of characters before the one that stopped it.\<close>

fun b64_scan :: "string \<Rightarrow> nat option" where
  "b64_scan [] = None"
| "b64_scan (c # cs) = (if six c \<le> 63 then map_option Suc (b64_scan cs) else Some 0)"

text \<open>\<open>(((int)nprbytes + 3) / 4) * 3\<close>: the count is a \<open>size_t\<close>, the arithmetic that of \<open>int\<close>.\<close>

definition nbytes :: "nat \<Rightarrow> int" where
  "nbytes n = cdiv (to_int32 (to_int32 (int n) + 3)) 4 * 3"

definition decodeLen :: "string \<Rightarrow> int option" where
  "decodeLen bufcoded = do { nprbytes \<leftarrow> b64_scan bufcoded; Some (nbytes nprbytes + 1) }"

definition out1 :: "string \<Rightarrow> char" where
  "out1 m = of_byte (push_bit 2 (six (m ! 0)) OR drop_bit 4 (six (m ! 1)))"
definition out2 :: "string \<Rightarrow> char" where
  "out2 m = of_byte (push_bit 4 (six (m ! 1)) OR drop_bit 2 (six (m ! 2)))"
definition out3 :: "string \<Rightarrow> char" where
  "out3 m = of_byte (push_bit 6 (six (m ! 2)) OR six (m ! 3))"

fun b64_loop :: "string \<Rightarrow> nat \<Rightarrow> string" where
  "b64_loop m n =
     (if 4 < n then out1 m # out2 m # out3 m # b64_loop (drop 4 m) (n - 4)
      else (if 1 < n then [out1 m] else []) @ (if 2 < n then [out2 m] else []) @
           (if 3 < n then [out3 m] else []))"

declare b64_loop.simps [simp del]

text \<open>The bytes written to \<open>bufplain\<close> and the returned count.\<close>

definition decodeBinary :: "string \<Rightarrow> (string \<times> int) option" where
  "decodeBinary bufcoded =
     do { n \<leftarrow> b64_scan bufcoded;
          let rest = (if n \<le> 4 then n else (n - 1) mod 4 + 1);
          Some (b64_loop bufcoded n, nbytes n - (4 - int rest) mod 4) }"

text \<open>Nothing is decoded when the length is not positive.  \<open>malloc\<close> failing aborts the program; the
  result string is the first \<open>len\<close> bytes written, and writing more than the allocation holds is a fault.\<close>

definition base64_decode :: "string \<Rightarrow> string option" where
  "base64_decode buf =
     do { room \<leftarrow> decodeLen buf;
          if room \<le> 0 then Some []
          else do { (out, len) \<leftarrow> decodeBinary buf;
                    if int (length out) \<le> room \<and> 0 \<le> len \<and> len \<le> room then Some (take (nat len) out) else None } }"

section \<open>Encoding\<close>

text \<open>\<open>(inlen*4)/3\<close> and the padding, in \<open>int\<close>.\<close>

definition b64_outlen :: "int \<Rightarrow> int" where
  "b64_outlen inlen =
     cdiv (to_int32 (inlen * 4)) 3 + (if 0 < crem inlen 3 then 4 - crem inlen 3 else 0)"

fun b64_encode_loop :: "string \<Rightarrow> string" where
  "b64_encode_loop (a # b # c # inp) =
     alphabet ! unat (drop_bit 2 (to_byte a)) #
     alphabet ! unat ((push_bit 4 (to_byte a) AND 0x30) OR drop_bit 4 (to_byte b)) #
     alphabet ! unat ((push_bit 2 (to_byte b) AND 0x3c) OR drop_bit 6 (to_byte c)) #
     alphabet ! unat (to_byte c AND 0x3f) # b64_encode_loop inp"
| "b64_encode_loop [] = []"
| "b64_encode_loop [a] =
     [alphabet ! unat (drop_bit 2 (to_byte a)),
      alphabet ! unat ((push_bit 4 (to_byte a) AND 0x30) OR 0), CHR ''='', CHR ''='']"
| "b64_encode_loop [a, b] =
     [alphabet ! unat (drop_bit 2 (to_byte a)),
      alphabet ! unat ((push_bit 4 (to_byte a) AND 0x30) OR drop_bit 4 (to_byte b)),
      alphabet ! unat (push_bit 2 (to_byte b) AND 0x3c), CHR ''='']"

text \<open>The buffer has \<open>outlen + 1\<close> bytes; writing more leaves it, as does writing through the NULL that
  \<open>malloc\<close> answers to a negative size.  No byte is read when \<open>inlen\<close> is not positive.\<close>

definition base64_encode :: "string \<Rightarrow> int \<Rightarrow> string option" where
  "base64_encode inp inlen =
     (if nat inlen \<le> length inp
      then let out = b64_encode_loop (take (nat inlen) inp) in
        if int (length out) + 1 \<le> b64_outlen inlen + 1 then Some (cstr (out @ [NUL])) else None
      else None)"

section \<open>Lemmas\<close>

lemma to_byte_of_byte [simp]: "of_byte (to_byte c) = c"
proof -
  have "unat (of_nat (uchar c) :: byte) = uchar c"
    using uchar_lt[of c] by (simp add: unat_of_nat)
  then show ?thesis by (simp add: of_byte_def to_byte_def uchar_def)
qed

lemma alphabet_six: "k < 64 \<Longrightarrow> six (alphabet ! k) = of_nat k"
proof -
  have "list_all (\<lambda>k. six (alphabet ! k) = of_nat k) [0..<64]" by code_simp
  then show "k < 64 \<Longrightarrow> six (alphabet ! k) = of_nat k" by (simp add: list_all_iff)
qed

lemma six_stop: "six CHR ''='' = 64" "six NUL = 64"
  by code_simp+

definition six_bits :: "byte \<Rightarrow> bool" where
  "six_bits w \<longleftrightarrow> take_bit 6 w = w"

lemma six_bits_lt:
  assumes "six_bits w"
  shows "unat w < 64"
proof -
  have "unat (take_bit 6 w) = take_bit 6 (unat w)" by (simp add: unsigned_take_bit_eq)
  also have "\<dots> < 2 ^ 6" by (rule take_bit_nat_less_exp)
  finally show ?thesis using assms by (simp add: six_bits_def)
qed

lemma byte_eqI:
  fixes a b :: byte
  assumes "bit a 0 = bit b 0" "bit a 1 = bit b 1" "bit a 2 = bit b 2" "bit a 3 = bit b 3"
    "bit a 4 = bit b 4" "bit a 5 = bit b 5" "bit a 6 = bit b 6" "bit a 7 = bit b 7"
  shows "a = b"
proof (rule bit_word_eqI)
  fix n assume "n < LENGTH(8)"
  then have "n < 8" by simp
  then have "n = 0 \<or> n = 1 \<or> n = 2 \<or> n = 3 \<or> n = 4 \<or> n = 5 \<or> n = 6 \<or> n = 7" by linarith
  with assms show "bit a n = bit b n" by blast
qed

lemma byte_bit_high [simp]: "\<not> bit (a :: byte) (numeral k)" if "8 \<le> (numeral k :: nat)"
  using that bit_imp_le_length[of a "numeral k"] by auto

lemma six_alphabet: "six_bits w \<Longrightarrow> six (alphabet ! unat w) = w"
  by (simp add: alphabet_six six_bits_lt)

lemma six_bits_le: "six_bits w \<Longrightarrow> w \<le> 63"
  using six_bits_lt[of w] by (simp add: word_le_nat_alt)

lemma six_bits_sextets:
  "six_bits (drop_bit 2 a)"
  "six_bits ((push_bit 4 a AND 0x30) OR drop_bit 4 b)"
  "six_bits ((push_bit 2 b AND 0x3c) OR drop_bit 6 c)"
  "six_bits (c AND 0x3f)" "six_bits (push_bit 2 b AND 0x3c)" "six_bits (push_bit 4 a AND 0x30)"
  unfolding six_bits_def by (rule byte_eqI; simp add: bit_simps)+

lemma sextets_decode:
  "push_bit 2 (drop_bit 2 a) OR drop_bit 4 ((push_bit 4 a AND 0x30) OR drop_bit 4 b) = (a :: byte)"
  "push_bit 2 (drop_bit 2 a) OR drop_bit 4 (push_bit 4 a AND 0x30) = (a :: byte)"
  "push_bit 4 ((push_bit 4 a AND 0x30) OR drop_bit 4 b) OR drop_bit 2 ((push_bit 2 b AND 0x3c) OR drop_bit 6 c) = (b :: byte)"
  "push_bit 4 ((push_bit 4 a AND 0x30) OR drop_bit 4 b) OR drop_bit 2 (push_bit 2 b AND 0x3c) = (b :: byte)"
  "push_bit 6 ((push_bit 2 b AND 0x3c) OR drop_bit 6 c) OR (c AND 0x3f) = (c :: byte)"
  by (rule byte_eqI; simp add: bit_simps)+

lemma b64_loop_4:
  "4 \<le> n \<Longrightarrow> b64_loop m n = out1 m # out2 m # out3 m # b64_loop (drop 4 m) (n - 4)"
  by (subst b64_loop.simps, cases "n = 4") (simp_all add: b64_loop.simps[of _ 0])

lemma nbytes_eq: "n < 2 ^ 31 - 3 \<Longrightarrow> nbytes n = int ((n + 3) div 4 * 3)"
  using to_int32_of_nat[of n] to_int32_of_nat[of "n + 3"] by (simp add: nbytes_def zdiv_int)

lemma length_b64_loop: "int (length (b64_loop m n)) =
    int ((n + 3) div 4 * 3) - (4 - int (if n \<le> 4 then n else (n - 1) mod 4 + 1)) mod 4"
proof (induction m n rule: b64_loop.induct)
  case (1 m n)
  show ?case
  proof (cases "4 < n")
    case False
    then have "n = 0 \<or> n = 1 \<or> n = 2 \<or> n = 3 \<or> n = 4" by linarith
    then show ?thesis by (auto simp: b64_loop.simps[of m])
  next
    case True
    have nb: "(n + 3) div 4 * 3 = (n - 4 + 3) div 4 * 3 + 3" using True by (simp add: le_div_geq[of 4 "n + 3"])
    have md: "(if n - 4 \<le> 4 then n - 4 else (n - 4 - 1) mod 4 + 1) = (n - 1) mod 4 + 1"
    proof (cases "n - 4 \<le> 4")
      case True
      with \<open>4 < n\<close> have "n = 5 \<or> n = 6 \<or> n = 7 \<or> n = 8" by linarith
      then show ?thesis by auto
    next
      case False
      have "(n - 1) mod 4 = (n - 4 - 1) mod 4" using False le_mod_geq[of 4 "n - 1"] by (simp add: diff_diff_add add.commute)
      with False show ?thesis by simp
    qed
    show ?thesis using 1(1)[OF True] True unfolding md nb
      by (simp add: b64_loop.simps[of m n])
  qed
qed

lemma length_b64_loop_div: "length (b64_loop m n) = (n * 3) div 4"
proof (induction m n rule: b64_loop.induct)
  case (1 m n)
  show ?case
  proof (cases "4 < n")
    case False
    then have "n = 0 \<or> n = 1 \<or> n = 2 \<or> n = 3 \<or> n = 4" by linarith
    then show ?thesis by (auto simp: b64_loop.simps[of m])
  next
    case True
    then have "n * 3 = (n - 4) * 3 + 3 * 4" by simp
    then have "(n * 3) div 4 = (n - 4) * 3 div 4 + 3" by simp
    with 1(1)[OF True] True show ?thesis by (simp add: b64_loop.simps[of m n])
  qed
qed

lemma out_cong:
  "take n m = take n m' \<Longrightarrow> 1 < n \<Longrightarrow> out1 m = out1 m'"
  "take n m = take n m' \<Longrightarrow> 2 < n \<Longrightarrow> out2 m = out2 m'"
  "take n m = take n m' \<Longrightarrow> 3 < n \<Longrightarrow> out3 m = out3 m'"
proof -
  assume t: "take n m = take n m'"
  have e: "m ! k = m' ! k" if "k < n" for k using t that by (metis nth_take)
  show "1 < n \<Longrightarrow> out1 m = out1 m'" "2 < n \<Longrightarrow> out2 m = out2 m'" "3 < n \<Longrightarrow> out3 m = out3 m'"
    by (simp_all add: out1_def out2_def out3_def e)
qed

lemma b64_loop_cong: "take n m = take n m' \<Longrightarrow> b64_loop m n = b64_loop m' n"
proof (induction m n arbitrary: m' rule: b64_loop.induct)
  case (1 m n)
  show ?case
  proof (cases "4 < n")
    case True
    have "take (n - 4) (drop 4 m) = take (n - 4) (drop 4 m')"
      using "1.prems" by (metis drop_take)
    with 1(1)[OF True] out_cong[OF "1.prems"] True show ?thesis
      by (simp add: b64_loop.simps[of m n] b64_loop.simps[of m' n])
  next
    case False
    with out_cong[OF "1.prems"] show ?thesis
      by (simp add: b64_loop.simps[of m n] b64_loop.simps[of m' n])
  qed
qed

lemma length_b64_encode_loop: "length (b64_encode_loop inp) = ((length inp + 2) div 3) * 4"
proof (induction inp rule: b64_encode_loop.induct)
  case (1 a b c inp)
  have "(Suc (Suc (Suc (length inp))) + 2) div 3 = Suc ((length inp + 2) div 3)"
    using div_add_self1[of 3 "length inp + 2"] by simp
  with 1 show ?case by simp
qed simp_all

lemma b64_outlen_exact:
  assumes "n < 2 ^ 29"
  shows "b64_outlen (int n) = int (((n + 2) div 3) * 4)"
proof -
  have m: "crem (int n) 3 = int (n mod 3)" by (simp add: crem_pos zmod_int)
  have le: "n mod 3 \<le> 4" by (rule less_imp_le[OF less_le_trans[OF mod_less_divisor]]) simp_all
  have "b64_outlen (int n) = int ((n * 4) div 3 + (if 0 < n mod 3 then 4 - n mod 3 else 0))"
    using to_int32_of_nat[of "n * 4"] assms
    by (simp add: b64_outlen_def m zdiv_int of_nat_diff[OF le])
  also obtain q r where n: "n = 3 * q + r" "r < 3" by (metis mod_less_divisor mult_div_mod_eq zero_less_numeral)
  then have "r = 0 \<or> r = 1 \<or> r = 2" by linarith
  with n have "(n * 4) div 3 + (if 0 < n mod 3 then 4 - n mod 3 else 0) = ((n + 2) div 3) * 4" by auto
  finally show ?thesis .
qed

text \<open>The encoded characters without the padding.\<close>

definition b64_pad :: "string \<Rightarrow> string" where
  "b64_pad inp = (if length inp mod 3 = 1 then ''=='' else if length inp mod 3 = 2 then ''='' else [])"

lemma sextet_char:
  assumes "six_bits w"
  shows "six (alphabet ! unat w) \<le> 63 \<and> alphabet ! unat w \<noteq> NUL"
proof -
  have "six (alphabet ! unat w) \<le> 63" using six_alphabet[OF assms] six_bits_le[OF assms] by simp
  moreover have "\<not> six NUL \<le> 63" by (simp add: six_stop)
  ultimately show ?thesis by metis
qed

lemma out_sextets:
  "six (m ! 0) = drop_bit 2 (to_byte a) \<Longrightarrow>
   six (m ! 1) = (push_bit 4 (to_byte a) AND 0x30) OR drop_bit 4 (to_byte b) \<Longrightarrow> out1 m = a"
  "six (m ! 0) = drop_bit 2 (to_byte a) \<Longrightarrow> six (m ! 1) = push_bit 4 (to_byte a) AND 0x30 \<Longrightarrow> out1 m = a"
  "six (m ! 1) = (push_bit 4 (to_byte a) AND 0x30) OR drop_bit 4 (to_byte b) \<Longrightarrow>
   six (m ! 2) = (push_bit 2 (to_byte b) AND 0x3c) OR drop_bit 6 (to_byte c) \<Longrightarrow> out2 m = b"
  "six (m ! 1) = (push_bit 4 (to_byte a) AND 0x30) OR drop_bit 4 (to_byte b) \<Longrightarrow>
   six (m ! 2) = push_bit 2 (to_byte b) AND 0x3c \<Longrightarrow> out2 m = b"
  "six (m ! 2) = (push_bit 2 (to_byte b) AND 0x3c) OR drop_bit 6 (to_byte c) \<Longrightarrow>
   six (m ! 3) = to_byte c AND 0x3f \<Longrightarrow> out3 m = c"
  by (simp_all only: out1_def out2_def out3_def sextets_decode to_byte_of_byte)

lemma encode_core:
  "\<exists>v. b64_encode_loop inp = v @ b64_pad inp \<and> (\<forall>c\<in>set v. six c \<le> 63 \<and> c \<noteq> NUL) \<and>
     (\<forall>rest. b64_loop (v @ rest) (length v) = inp)"
proof (induction inp rule: b64_encode_loop.induct)
  case (1 a b c inp)
  then obtain v where v: "b64_encode_loop inp = v @ b64_pad inp" "\<forall>c\<in>set v. six c \<le> 63 \<and> c \<noteq> NUL"
      "\<And>rest. b64_loop (v @ rest) (length v) = inp" by auto
  let ?w1 = "drop_bit 2 (to_byte a)"
  let ?w2 = "(push_bit 4 (to_byte a) AND 0x30) OR drop_bit 4 (to_byte b)"
  let ?w3 = "(push_bit 2 (to_byte b) AND 0x3c) OR drop_bit 6 (to_byte c)"
  let ?w4 = "to_byte c AND 0x3f"
  let ?v = "alphabet ! unat ?w1 # alphabet ! unat ?w2 # alphabet ! unat ?w3 # alphabet ! unat ?w4 # v"
  have s: "six (alphabet ! unat ?w1) = ?w1" "six (alphabet ! unat ?w2) = ?w2"
    "six (alphabet ! unat ?w3) = ?w3" "six (alphabet ! unat ?w4) = ?w4"
    by (simp_all only: six_alphabet six_bits_sextets)
  have "b64_loop (?v @ rest) (length ?v) = a # b # c # inp" for rest
  proof -
    have n: "(?v @ rest) ! 0 = ?v ! 0" "(?v @ rest) ! 1 = ?v ! 1" "(?v @ rest) ! 2 = ?v ! 2"
      "(?v @ rest) ! 3 = ?v ! 3" by simp_all
    have n': "?v ! 0 = alphabet ! unat ?w1" "?v ! 1 = alphabet ! unat ?w2" "?v ! 2 = alphabet ! unat ?w3"
      "?v ! 3 = alphabet ! unat ?w4" by simp_all
    have "out1 (?v @ rest) = a" by (rule out_sextets(1)) (simp_all only: n n' s)
    moreover have "out2 (?v @ rest) = b" by (rule out_sextets(3)) (simp_all only: n n' s)
    moreover have "out3 (?v @ rest) = c" by (rule out_sextets(5)) (simp_all only: n n' s)
    ultimately show ?thesis by (subst b64_loop_4) (simp_all add: v(3))
  qed
  moreover have "b64_encode_loop (a # b # c # inp) = ?v @ b64_pad (a # b # c # inp)"
    using v(1) by (simp add: b64_pad_def mod_Suc)
  moreover have "\<forall>c\<in>set ?v. six c \<le> 63 \<and> c \<noteq> NUL"
    using v(2) sextet_char[OF six_bits_sextets(1)] sextet_char[OF six_bits_sextets(2)]
      sextet_char[OF six_bits_sextets(3)] sextet_char[OF six_bits_sextets(4)] by auto
  ultimately show ?case by blast
next
  case 2
  show ?case by (rule exI[of _ "[]"]) (simp add: b64_pad_def b64_loop.simps)
next
  case (3 a)
  let ?w1 = "drop_bit 2 (to_byte a)" and ?w2 = "push_bit 4 (to_byte a) AND 0x30"
  have s: "six (alphabet ! unat ?w1) = ?w1" "six (alphabet ! unat ?w2) = ?w2"
    by (simp_all only: six_alphabet six_bits_sextets)
  let ?v = "[alphabet ! unat ?w1, alphabet ! unat ?w2]"
  have "out1 (?v @ rest) = a" for rest
    by (rule out_sextets(2)) (simp_all only: append_Cons nth_Cons_0 nth_Cons_Suc One_nat_def s)
  then show ?case
    using sextet_char[OF six_bits_sextets(1)] sextet_char[OF six_bits_sextets(6)]
    by (intro exI[of _ ?v]) (auto simp: b64_pad_def b64_loop.simps)
next
  case (4 a b)
  let ?w1 = "drop_bit 2 (to_byte a)"
  let ?w2 = "(push_bit 4 (to_byte a) AND 0x30) OR drop_bit 4 (to_byte b)"
  let ?w3 = "push_bit 2 (to_byte b) AND 0x3c"
  have s: "six (alphabet ! unat ?w1) = ?w1" "six (alphabet ! unat ?w2) = ?w2"
    "six (alphabet ! unat ?w3) = ?w3"
    by (simp_all only: six_alphabet six_bits_sextets)
  let ?v = "[alphabet ! unat ?w1, alphabet ! unat ?w2, alphabet ! unat ?w3]"
  have n: "(?v @ rest) ! 0 = alphabet ! unat ?w1" "(?v @ rest) ! 1 = alphabet ! unat ?w2"
    "(?v @ rest) ! 2 = alphabet ! unat ?w3" for rest by simp_all
  have "out1 (?v @ rest) = a" for rest by (rule out_sextets(1)) (simp_all only: n s)
  moreover have "out2 (?v @ rest) = b" for rest by (rule out_sextets(4)) (simp_all only: n s)
  ultimately show ?case
    using sextet_char[OF six_bits_sextets(1)] sextet_char[OF six_bits_sextets(2)]
      sextet_char[OF six_bits_sextets(5)]
    by (intro exI[of _ ?v]) (auto simp: b64_pad_def b64_loop.simps)
qed

lemma b64_scan_split:
  "\<forall>c\<in>set v. six c \<le> 63 \<Longrightarrow> \<not> six d \<le> 63 \<Longrightarrow> b64_scan (v @ d # rest) = Some (length v)"
  by (induction v) auto

lemma b64_scan_bound: "b64_scan m = Some n \<Longrightarrow> n < length m \<and> (\<forall>c\<in>set (take n m). six c \<le> 63)"
  by (induction m arbitrary: n) (auto split: if_splits)

lemma base64_encode_eq:
  assumes "inlen \<le> length inp" "inlen < 2 ^ 29"
  shows "base64_encode inp (int inlen) = Some (b64_encode_loop (take inlen inp))"
proof -
  obtain v where v: "b64_encode_loop (take inlen inp) = v @ b64_pad (take inlen inp)"
      "\<forall>c\<in>set v. six c \<le> 63 \<and> c \<noteq> NUL"
    using encode_core[of "take inlen inp"] by blast
  then have "NUL \<notin> set (b64_encode_loop (take inlen inp))" by (auto simp: b64_pad_def)
  with assms(1) show ?thesis
    by (simp add: base64_encode_def Let_def length_b64_encode_loop b64_outlen_exact[OF assms(2)] cstr_append_nul)
qed

lemma base64_decode_eq:
  assumes "b64_scan m = Some n" "n < 2 ^ 31 - 3"
  shows "base64_decode m = Some (b64_loop m n)"
proof -
  have "nbytes n - (4 - int (if n \<le> 4 then n else (n - 1) mod 4 + 1)) mod 4 = int (length (b64_loop m n))"
    by (simp add: length_b64_loop nbytes_eq[OF assms(2)])
  moreover have "int (length (b64_loop m n)) \<le> nbytes n"
    unfolding length_b64_loop nbytes_eq[OF assms(2)] by simp
  ultimately show ?thesis
    using assms(1) by (simp add: base64_decode_def decodeLen_def decodeBinary_def Let_def)
qed

lemma base64_encode_decode:
  assumes "length inp < 2 ^ 29"
  shows "\<exists>e. base64_encode inp (int (length inp)) = Some e \<and> length e = ((length inp + 2) div 3) * 4 \<and>
     base64_decode (e @ NUL # junk) = Some inp \<and> (\<forall>c\<in>set e. six c \<le> 63 \<or> c = CHR ''='')"
proof -
  obtain v where v: "b64_encode_loop inp = v @ b64_pad inp"
      "\<forall>c\<in>set v. six c \<le> 63 \<and> c \<noteq> NUL" "\<And>rest. b64_loop (v @ rest) (length v) = inp"
    using encode_core[of inp] by blast
  obtain d rest where d: "b64_pad inp @ NUL # junk = d # rest" "d = NUL \<or> d = CHR ''=''"
    by (cases "b64_pad inp") (auto simp: b64_pad_def split: if_splits)
  then have "\<not> six d \<le> 63" by (auto simp: six_stop)
  with v(2) have scan: "b64_scan (v @ d # rest) = Some (length v)" by (intro b64_scan_split) auto
  have "length v \<le> length (b64_encode_loop inp)" using v(1) by simp
  also have "\<dots> = (length inp + 2) div 3 * 4" by (rule length_b64_encode_loop)
  also have "\<dots> < 2 ^ 31 - 3" using assms by (simp add: div_less_iff_less_mult)
  finally have "base64_decode (b64_encode_loop inp @ NUL # junk) = Some inp"
    using v(1,3) d(1) base64_decode_eq[OF scan] by simp
  moreover have "\<forall>c\<in>set (b64_encode_loop inp). six c \<le> 63 \<or> c = CHR ''=''"
    unfolding v(1) using v(2) by (auto simp: b64_pad_def)
  ultimately show ?thesis using assms by (simp add: base64_encode_eq length_b64_encode_loop)
qed

lemma base64_chars:
  assumes "six c \<le> 63 \<or> c = CHR ''=''"
  shows "c \<notin> {NUL, CR, LF, TAB, SPC}"
proof -
  have "six NUL = 64 \<and> six CR = 64 \<and> six LF = 64 \<and> six TAB = 64 \<and> six SPC = 64" by code_simp
  with assms show ?thesis by auto
qed

section \<open>Properties\<close>

text \<open>C13. Encoding fewer than \<open>2 ^ 29\<close> bytes never overruns the computed buffer, gives four characters
  for every three bytes begun, and decoding the result, whatever follows its terminator in memory,
  gives the bytes back.\<close>

theorem base64_roundtrip:
  assumes "length inp < 2 ^ 29"
  shows "\<exists>e. base64_encode inp (int (length inp)) = Some e \<and> length e = ((length inp + 2) div 3) * 4 \<and>
     base64_decode (e @ NUL # junk) = Some inp"
  using base64_encode_decode[OF assms, of junk] by blast

theorem base64_roundtrip_witness:
  "\<exists>e. base64_encode ''ABCD'' 4 = Some e \<and> length e = 8 \<and> base64_decode (e @ NUL # ''x'') = Some ''ABCD''"
proof -
  have "length ''ABCD'' < 2 ^ 29" by simp
  from base64_roundtrip[OF this, of "''x''"] show ?thesis by simp
qed

text \<open>From \<open>2 ^ 29\<close> bytes on, \<open>inlen*4\<close> overflows, the buffer is too small, and encoding always writes
  outside it.\<close>

theorem base64_encode_overflows:
  assumes "2 ^ 29 \<le> n" "n < 2 ^ 31"
  shows "base64_encode inp (int n) = None"
proof -
  have "to_int32 (int n * 4) \<le> int n * 4 - 2 ^ 32" using assms(1) by (intro to_int32_wraps) simp
  moreover have "crem (int n) 3 = int n mod 3" by (intro crem_pos) simp
  ultimately have "b64_outlen (int n) \<le> int n * 4 div 3 - 2 ^ 30"
    unfolding b64_outlen_def cdiv_def by (auto split: if_splits)
  moreover have "int n * 4 div 3 \<le> int ((n + 2) div 3 * 4)" by (simp add: zdiv_int)
  moreover have "(0 :: int) < 2 ^ 30" by simp
  ultimately have "b64_outlen (int n) < int ((n + 2) div 3 * 4)" by linarith
  then show ?thesis by (simp add: base64_encode_def Let_def length_b64_encode_loop)
qed

text \<open>C38. Decoding a terminated string of fewer than \<open>2 ^ 31 - 3\<close> characters never writes outside the buffer
  of \<open>decodeLen\<close> bytes, uses only the characters before the first one outside the alphabet, and returns
  exactly the bytes it wrote: three for every four characters, rounded up, less the missing characters.\<close>

theorem base64_decode_in_bounds:
  assumes "\<forall>c\<in>set v. six c \<le> 63" "\<not> six d \<le> 63" "length v < 2 ^ 31 - 3"
  shows "\<exists>out. base64_decode (v @ d # rest) = Some out \<and>
     base64_decode (v @ d # rest') = Some out \<and>
     decodeLen (v @ d # rest) = Some (int ((length v + 3) div 4 * 3) + 1) \<and>
     length out = (length v * 3) div 4"
proof -
  have scan: "b64_scan (v @ d # r) = Some (length v)" for r
    using b64_scan_split[OF assms(1,2)] .
  have "b64_loop (v @ d # rest) (length v) = b64_loop (v @ d # rest') (length v)"
    by (rule b64_loop_cong) simp
  then show ?thesis
    by (simp add: base64_decode_eq[OF scan assms(3)] scan decodeLen_def nbytes_eq[OF assms(3)] length_b64_loop_div)
qed

theorem base64_decode_in_bounds_witness:
  "\<exists>out. base64_decode (''QUJD'' @ NUL # ''xy'') = Some out \<and> base64_decode (''QUJD'' @ NUL # []) = Some out \<and>
     decodeLen (''QUJD'' @ NUL # ''xy'') = Some (int ((length ''QUJD'' + 3) div 4 * 3) + 1) \<and> length out = (length ''QUJD'' * 3) div 4"
proof (rule base64_decode_in_bounds)
  show "\<forall>c\<in>set ''QUJD''. six c \<le> 63" by code_simp
  show "\<not> six NUL \<le> 63" by (simp add: six_stop)
  show "length ''QUJD'' < 2 ^ 31 - 3" by simp
qed

end
