(* ===== verification/Dfw_MD5.thy ===== *)
theory Dfw_MD5
  imports Dfw_Prelude "HOL-Library.Monad_Syntax"
begin

unbundle bit_operations_syntax

text \<open>
  \<open>lib/util/MD5.cpp\<close>: the block function with its 64 steps on 32-bit words, the streaming
  context (\<open>count\<close> is the number of bits, \<open>buffer\<close> the bytes of the unfinished block) and the
  finalization.  The reference is the one-shot definition of RFC 1321: pad the whole message,
  cut it into blocks, run the block function over them.
\<close>

type_synonym w32 = "32 word"

section \<open>The block function\<close>

abbreviation (input) S11 :: nat where "S11 \<equiv> 7"
abbreviation (input) S12 :: nat where "S12 \<equiv> 12"
abbreviation (input) S13 :: nat where "S13 \<equiv> 17"
abbreviation (input) S14 :: nat where "S14 \<equiv> 22"
abbreviation (input) S21 :: nat where "S21 \<equiv> 5"
abbreviation (input) S22 :: nat where "S22 \<equiv> 9"
abbreviation (input) S23 :: nat where "S23 \<equiv> 14"
abbreviation (input) S24 :: nat where "S24 \<equiv> 20"
abbreviation (input) S31 :: nat where "S31 \<equiv> 4"
abbreviation (input) S32 :: nat where "S32 \<equiv> 11"
abbreviation (input) S33 :: nat where "S33 \<equiv> 16"
abbreviation (input) S34 :: nat where "S34 \<equiv> 23"
abbreviation (input) S41 :: nat where "S41 \<equiv> 6"
abbreviation (input) S42 :: nat where "S42 \<equiv> 10"
abbreviation (input) S43 :: nat where "S43 \<equiv> 15"
abbreviation (input) S44 :: nat where "S44 \<equiv> 21"

definition F :: "w32 \<Rightarrow> w32 \<Rightarrow> w32 \<Rightarrow> w32" where
  "F x y z = (x AND y) OR (NOT x AND z)"
definition G :: "w32 \<Rightarrow> w32 \<Rightarrow> w32 \<Rightarrow> w32" where
  "G x y z = (x AND z) OR (y AND NOT z)"
definition H :: "w32 \<Rightarrow> w32 \<Rightarrow> w32 \<Rightarrow> w32" where
  "H x y z = (x XOR y) XOR z"
definition I :: "w32 \<Rightarrow> w32 \<Rightarrow> w32 \<Rightarrow> w32" where
  "I x y z = y XOR (x OR NOT z)"

definition ROTATE_LEFT :: "w32 \<Rightarrow> nat \<Rightarrow> w32" where
  "ROTATE_LEFT x n = push_bit n x OR drop_bit (32 - n) x"

definition FF :: "w32 \<Rightarrow> w32 \<Rightarrow> w32 \<Rightarrow> w32 \<Rightarrow> w32 \<Rightarrow> nat \<Rightarrow> w32 \<Rightarrow> w32" where
  "FF a b c d x s ac = (let a = a + (F b c d + x + ac); a = ROTATE_LEFT a s in a + b)"
definition GG :: "w32 \<Rightarrow> w32 \<Rightarrow> w32 \<Rightarrow> w32 \<Rightarrow> w32 \<Rightarrow> nat \<Rightarrow> w32 \<Rightarrow> w32" where
  "GG a b c d x s ac = (let a = a + (G b c d + x + ac); a = ROTATE_LEFT a s in a + b)"
definition HH :: "w32 \<Rightarrow> w32 \<Rightarrow> w32 \<Rightarrow> w32 \<Rightarrow> w32 \<Rightarrow> nat \<Rightarrow> w32 \<Rightarrow> w32" where
  "HH a b c d x s ac = (let a = a + (H b c d + x + ac); a = ROTATE_LEFT a s in a + b)"
definition II :: "w32 \<Rightarrow> w32 \<Rightarrow> w32 \<Rightarrow> w32 \<Rightarrow> w32 \<Rightarrow> nat \<Rightarrow> w32 \<Rightarrow> w32" where
  "II a b c d x s ac = (let a = a + (I b c d + x + ac); a = ROTATE_LEFT a s in a + b)"

definition md5_word_bytes :: "w32 \<Rightarrow> byte list" where
  "md5_word_bytes k =
     [ucast (k AND 0xff), ucast (drop_bit 8 k AND 0xff), ucast (drop_bit 16 k AND 0xff),
      ucast (drop_bit 24 k AND 0xff)]"

text \<open>\<open>encode\<close> writes \<open>len / 4\<close> words, \<open>decode\<close> reads them.\<close>

definition md5_encode :: "w32 list \<Rightarrow> byte list" where
  "md5_encode ws = concat (map md5_word_bytes ws)"

fun md5_decode :: "byte list \<Rightarrow> w32 list" where
  "md5_decode (a # b # c # d # r) =
     (ucast a OR push_bit 8 (ucast b) OR push_bit 16 (ucast c) OR push_bit 24 (ucast d)) # md5_decode r"
| "md5_decode _ = []"

type_synonym md5_state = "w32 \<times> w32 \<times> w32 \<times> w32"

text \<open>
  The 64 calls.  Their four arguments rotate: \<open>(a,b,c,d)\<close>, \<open>(d,a,b,c)\<close>, \<open>(c,d,a,b)\<close>,
  \<open>(b,c,d,a)\<close>, and each call changes its first one; \<open>md5_call\<close> makes a call and rotates, so
  after every fourth call the four values are back in place.
\<close>

datatype md5_macro = FF_call | GG_call | HH_call | II_call

fun md5_macro_fun :: "md5_macro \<Rightarrow> w32 \<Rightarrow> w32 \<Rightarrow> w32 \<Rightarrow> w32 \<Rightarrow> w32 \<Rightarrow> nat \<Rightarrow> w32 \<Rightarrow> w32" where
  "md5_macro_fun FF_call = FF"
| "md5_macro_fun GG_call = GG"
| "md5_macro_fun HH_call = HH"
| "md5_macro_fun II_call = II"

definition md5_calls :: "(md5_macro \<times> nat \<times> nat \<times> w32) list" where
  "md5_calls = [
   (FF_call, 0, S11, 0xd76aa478), (FF_call, 1, S12, 0xe8c7b756), (FF_call, 2, S13, 0x242070db), (FF_call, 3, S14, 0xc1bdceee),
   (FF_call, 4, S11, 0xf57c0faf), (FF_call, 5, S12, 0x4787c62a), (FF_call, 6, S13, 0xa8304613), (FF_call, 7, S14, 0xfd469501),
   (FF_call, 8, S11, 0x698098d8), (FF_call, 9, S12, 0x8b44f7af), (FF_call, 10, S13, 0xffff5bb1), (FF_call, 11, S14, 0x895cd7be),
   (FF_call, 12, S11, 0x6b901122), (FF_call, 13, S12, 0xfd987193), (FF_call, 14, S13, 0xa679438e), (FF_call, 15, S14, 0x49b40821),
   (GG_call, 1, S21, 0xf61e2562), (GG_call, 6, S22, 0xc040b340), (GG_call, 11, S23, 0x265e5a51), (GG_call, 0, S24, 0xe9b6c7aa),
   (GG_call, 5, S21, 0xd62f105d), (GG_call, 10, S22, 0x2441453), (GG_call, 15, S23, 0xd8a1e681), (GG_call, 4, S24, 0xe7d3fbc8),
   (GG_call, 9, S21, 0x21e1cde6), (GG_call, 14, S22, 0xc33707d6), (GG_call, 3, S23, 0xf4d50d87), (GG_call, 8, S24, 0x455a14ed),
   (GG_call, 13, S21, 0xa9e3e905), (GG_call, 2, S22, 0xfcefa3f8), (GG_call, 7, S23, 0x676f02d9), (GG_call, 12, S24, 0x8d2a4c8a),
   (HH_call, 5, S31, 0xfffa3942), (HH_call, 8, S32, 0x8771f681), (HH_call, 11, S33, 0x6d9d6122), (HH_call, 14, S34, 0xfde5380c),
   (HH_call, 1, S31, 0xa4beea44), (HH_call, 4, S32, 0x4bdecfa9), (HH_call, 7, S33, 0xf6bb4b60), (HH_call, 10, S34, 0xbebfbc70),
   (HH_call, 13, S31, 0x289b7ec6), (HH_call, 0, S32, 0xeaa127fa), (HH_call, 3, S33, 0xd4ef3085), (HH_call, 6, S34, 0x4881d05),
   (HH_call, 9, S31, 0xd9d4d039), (HH_call, 12, S32, 0xe6db99e5), (HH_call, 15, S33, 0x1fa27cf8), (HH_call, 2, S34, 0xc4ac5665),
   (II_call, 0, S41, 0xf4292244), (II_call, 7, S42, 0x432aff97), (II_call, 14, S43, 0xab9423a7), (II_call, 5, S44, 0xfc93a039),
   (II_call, 12, S41, 0x655b59c3), (II_call, 3, S42, 0x8f0ccc92), (II_call, 10, S43, 0xffeff47d), (II_call, 1, S44, 0x85845dd1),
   (II_call, 8, S41, 0x6fa87e4f), (II_call, 15, S42, 0xfe2ce6e0), (II_call, 6, S43, 0xa3014314), (II_call, 13, S44, 0x4e0811a1),
   (II_call, 4, S41, 0xf7537e82), (II_call, 11, S42, 0xbd3af235), (II_call, 2, S43, 0x2ad7d2bb), (II_call, 9, S44, 0xeb86d391)
  ]"

fun md5_call :: "w32 list \<Rightarrow> md5_state \<Rightarrow> md5_macro \<times> nat \<times> nat \<times> w32 \<Rightarrow> md5_state" where
  "md5_call x (a, b, c, d) (m, k, s, ac) = (d, md5_macro_fun m a b c d (x ! k) s ac, b, c)"

definition transform :: "md5_state \<Rightarrow> byte list \<Rightarrow> md5_state" where
  "transform state block =
     (case (state, foldl (md5_call (md5_decode block)) state md5_calls) of
        ((s0, s1, s2, s3), (a, b, c, d)) \<Rightarrow> (s0 + a, s1 + b, s2 + c, s3 + d))"

section \<open>The streaming context\<close>

record md5_ctx =
  md_state :: md5_state
  md_count :: "w32 list"
  md_buffer :: "byte list"

definition md5_init_state :: md5_state where
  "md5_init_state = (0x67452301, 0xefcdab89, 0x98badcfe, 0x10325476)"

text \<open>\<open>init\<close> leaves the buffer as it is.\<close>

definition md5_init :: "md5_ctx \<Rightarrow> md5_ctx" where
  "md5_init ctx = ctx\<lparr>md_count := [0, 0, 0, 0], md_state := md5_init_state\<rparr>"

text \<open>\<open>memcpy\<close> into the context's buffer.\<close>

definition md5_copy :: "nat \<Rightarrow> byte list \<Rightarrow> byte list \<Rightarrow> byte list option" where
  "md5_copy i xs buf =
     (if i + length xs \<le> length buf then Some (take i buf @ xs @ drop (i + length xs) buf) else None)"

text \<open>\<open>for (i = partLen; i + 63 < inputLen; i += 64) transform(state, &input[i])\<close>\<close>

function md5_loop :: "md5_state \<Rightarrow> byte list \<Rightarrow> nat \<Rightarrow> md5_state \<times> nat" where
  "md5_loop st inp i =
     (if i + 63 < length inp then md5_loop (transform st (take 64 (drop i inp))) inp (i + 64) else (st, i))"
  by pat_completeness auto
termination by (relation "measure (\<lambda>(st, inp, i). length inp - i)") auto

declare md5_loop.simps [simp del]

text \<open>
  The index \<open>i\<close> of the loop has 32 bits; on inputs of \<open>2^32 - 63\<close> bytes or more it could wrap and
  the loop not end: there the result is \<open>None\<close>.
\<close>

definition md5_index :: "w32 list \<Rightarrow> nat" where
  "md5_index count = unat (drop_bit 3 (count ! 0) AND 0x3F)"

definition md5_count_bits :: "nat \<Rightarrow> w32 list \<Rightarrow> w32 list" where
  "md5_count_bits n count =
     (let inputLen = of_nat n; add = push_bit 3 inputLen; c0 = count ! 0 + add;
          c1 = (if c0 < add then count ! 1 + 1 else count ! 1) + drop_bit 29 inputLen in
      count[0 := c0, 1 := c1])"

definition md5_update :: "byte list \<Rightarrow> md5_ctx \<Rightarrow> md5_ctx option" where
  "md5_update inp ctx =
     (if 2 ^ 32 - 63 \<le> length inp then None else
      let idx = md5_index (md_count ctx);
          ctx1 = ctx\<lparr>md_count := md5_count_bits (length inp) (md_count ctx)\<rparr>;
          partLen = 64 - idx in
      if partLen \<le> length inp
      then do { b \<leftarrow> md5_copy idx (take partLen inp) (md_buffer ctx);
                let (st, i) = md5_loop (transform (md_state ctx) b) inp partLen;
                b' \<leftarrow> md5_copy 0 (drop i inp) b;
                Some (ctx1\<lparr>md_state := st, md_buffer := b'\<rparr>) }
      else do { b \<leftarrow> md5_copy idx inp (md_buffer ctx);
                Some (ctx1\<lparr>md_buffer := b\<rparr>) })"

definition PADDING :: "byte list" where
  "PADDING = 0x80 # replicate 63 0"

text \<open>The sixteen bytes stored into the caller's buffer; the context is cleared.\<close>

definition md5_finalization :: "md5_ctx \<Rightarrow> (byte list \<times> md5_ctx) option" where
  "md5_finalization ctx =
     (let bits = md5_encode (take 2 (md_count ctx));
          idx = md5_index (md_count ctx);
          padLen = (if idx < 56 then 56 - idx else 120 - idx) in
      do { ctx1 \<leftarrow> md5_update (take padLen PADDING) ctx;
           ctx2 \<leftarrow> md5_update bits ctx1;
           let (a, b, c, d) = md_state ctx2;
           Some (md5_encode [a, b, c, d],
                 \<lparr>md_state = (0, 0, 0, 0), md_count = [0, 0, 0, 0], md_buffer = replicate 64 0\<rparr>) })"

section \<open>The reference\<close>

function md5_blocks :: "byte list \<Rightarrow> byte list list" where
  "md5_blocks xs = (if length xs < 64 then [] else take 64 xs # md5_blocks (drop 64 xs))"
  by pat_completeness auto
termination by (relation "measure length") auto

declare md5_blocks.simps [simp del]

definition md5_tail :: "byte list \<Rightarrow> byte list" where
  "md5_tail xs = drop (64 * (length xs div 64)) xs"

definition md5_fold :: "md5_state \<Rightarrow> byte list list \<Rightarrow> md5_state" where
  "md5_fold st bs = foldl transform st bs"

text \<open>The 64-bit little-endian length in bits.\<close>

definition md5_length_bytes :: "nat \<Rightarrow> byte list" where
  "md5_length_bytes n = map (\<lambda>k. of_nat ((8 * n) div 256 ^ k)) [0..<8]"

definition md5_pad :: "byte list \<Rightarrow> byte list" where
  "md5_pad msg =
     msg @ 0x80 # replicate ((119 - length msg mod 64) mod 64) 0 @ md5_length_bytes (length msg)"

definition md5_digest :: "byte list \<Rightarrow> byte list" where
  "md5_digest msg =
     (let (a, b, c, d) = md5_fold md5_init_state (md5_blocks (md5_pad msg))
      in md5_encode [a, b, c, d])"

section \<open>Blocks and the unfinished block\<close>

lemma md5_blocks_short [simp]: "length xs < 64 \<Longrightarrow> md5_blocks xs = []"
  by (simp add: md5_blocks.simps)

lemma md5_tail_short [simp]: "length xs < 64 \<Longrightarrow> md5_tail xs = xs"
  by (simp add: md5_tail_def)

lemma md5_blocks_64: "length b = 64 \<Longrightarrow> md5_blocks (b @ xs) = b # md5_blocks xs"
  by (subst md5_blocks.simps) simp

lemma md5_tail_64: "length b = 64 \<Longrightarrow> md5_tail (b @ xs) = md5_tail xs"
proof -
  have "(length xs + 64) div 64 = length xs div 64 + 1" by simp
  then show "length b = 64 \<Longrightarrow> md5_tail (b @ xs) = md5_tail xs" by (simp add: md5_tail_def add.commute)
qed

lemma long_split:
  assumes "\<not> length xs < 64"
  obtains b r where "xs = b @ r" "length b = 64" "length r < length xs"
proof
  show "xs = take 64 xs @ drop 64 xs" "length (take 64 xs) = 64" "length (drop 64 xs) < length xs"
    using assms by auto
qed

lemma md5_append:
  "md5_blocks (a @ b) = md5_blocks a @ md5_blocks (md5_tail a @ b) \<and>
   md5_tail (a @ b) = md5_tail (md5_tail a @ b)"
proof (induction "length a" arbitrary: a rule: less_induct)
  case less
  show ?case
  proof (cases "length a < 64")
    case False
    then obtain c r where c: "a = c @ r" "length c = 64" "length r < length a" by (rule long_split)
    with less[OF c(3)] show ?thesis by (simp add: md5_blocks_64 md5_tail_64)
  qed simp
qed

lemma length_md5_tail [simp]: "length (md5_tail xs) = length xs mod 64"
  by (simp add: md5_tail_def minus_mult_div_eq_mod)

lemma md5_fold_append [simp]: "md5_fold st (xs @ ys) = md5_fold (md5_fold st xs) ys"
  "md5_fold st [] = st" "md5_fold st (b # ys) = md5_fold (transform st b) ys"
  by (simp_all add: md5_fold_def)

lemma md5_loop_spec:
  "i \<le> length inp \<Longrightarrow> \<exists>k. md5_loop st inp i = (md5_fold st (md5_blocks (drop i inp)), k) \<and>
     drop k inp = md5_tail (drop i inp)"
proof (induction st inp i rule: md5_loop.induct)
  case (1 st inp i)
  show ?case
  proof (cases "i + 63 < length inp")
    case True
    let ?b = "take 64 (drop i inp)"
    have d: "drop i inp = ?b @ drop (i + 64) inp"
      by (metis add.commute append_take_drop_id drop_drop)
    moreover have l: "length ?b = 64" using True by simp
    ultimately have "md5_blocks (drop i inp) = ?b # md5_blocks (drop (i + 64) inp)"
      "md5_tail (drop i inp) = md5_tail (drop (i + 64) inp)"
      by (metis md5_blocks_64, metis md5_tail_64)
    with 1(1)[OF True] True show ?thesis by (simp add: md5_loop.simps[of st])
  next
    case False
    then have "length (drop i inp) < 64" by auto
    with False show ?thesis by (simp add: md5_loop.simps[of st])
  qed
qed

section \<open>The bit counter\<close>

lemma md5_idx_word: "unat (drop_bit 3 (w :: w32) AND 0x3F) = unat w div 8 mod 64"
proof -
  have "drop_bit 3 w AND 0x3F = take_bit 6 (drop_bit 3 w)"
    using take_bit_eq_mask[of 6 "drop_bit 3 w"] mask_eq_exp_minus_1[where ?'a = w32, of 6] by simp
  then show ?thesis
    by (simp only: unsigned_take_bit_eq unat_drop_bit_eq) (simp add: take_bit_eq_mod drop_bit_eq_div)
qed

lemma md5_idx: "unat (drop_bit 3 (of_nat (8 * n) :: w32) AND 0x3F) = n mod 64"
proof -
  have "unat (drop_bit 3 (of_nat (8 * n) :: w32) AND 0x3F) = ((8 * n) mod 2 ^ 32 div 8) mod 64"
    unfolding md5_idx_word by (simp only: unat_of_nat) simp
  also have "(8 * n) mod 2 ^ 32 div 8 = n mod 2 ^ 29"
    using mod_mult_mult1[of 8 n "2 ^ 29"] by simp
  also have "n mod 2 ^ 29 mod 64 = n mod 64"
    using mod_mod_cancel[of 64 "2 ^ 29 :: nat" n] by simp
  finally show ?thesis .
qed

lemma add_div_carry:
  fixes a b :: nat
  assumes "0 < w"
  shows "(a + b) div w = a div w + b div w + (if (a + b) mod w < b mod w then 1 else 0)"
proof -
  have m: "a mod w < w" "b mod w < w" using assms by simp_all
  have e: "(a + b) mod w = (a mod w + b mod w) mod w" by (simp add: mod_add_eq)
  show ?thesis
  proof (cases "a mod w + b mod w < w")
    case True
    then have "(a + b) mod w = a mod w + b mod w" "(a mod w + b mod w) div w = 0" using e by simp_all
    then show ?thesis using div_add1_eq[of a b w] by simp
  next
    case False
    then obtain k where k: "a mod w + b mod w = k + w" by (metis add.commute le_Suc_ex not_less)
    then have "k < w" "k < b mod w" using m by linarith+
    moreover have "(k + w) div w = 1" "(k + w) mod w = k"
      using \<open>k < w\<close> assms div_add_self2[of w k] by simp_all
    ultimately show ?thesis using e k div_add1_eq[of a b w] by simp
  qed
qed

definition md5_bits :: "nat \<Rightarrow> w32 list \<Rightarrow> w32 list" where
  "md5_bits l r = of_nat (8 * l) # of_nat (8 * l div 2 ^ 32) # r"

lemma md5_index_bits [simp]: "md5_index (md5_bits l r) = l mod 64"
  unfolding md5_index_def md5_bits_def nth_Cons_0 by (rule md5_idx)

lemma md5_count_bits_ok:
  assumes "n < 2 ^ 32"
  shows "md5_count_bits n (md5_bits l r) = md5_bits (l + n) r"
proof -
  let ?c = "(8 * l + 8 * n) mod 2 ^ 32 < (8 * n) mod 2 ^ 32"
  have p: "(push_bit 3 (of_nat n) :: w32) = of_nat (8 * n)" by (simp add: push_bit_eq_mult mult.commute)
  have s: "(of_nat (8 * l) :: w32) + of_nat (8 * n) = of_nat (8 * (l + n))"
    by (simp add: algebra_simps)
  have lt: "((of_nat (8 * (l + n)) :: w32) < of_nat (8 * n)) = ?c"
    by (simp only: word_less_nat_alt unat_of_nat distrib_left) simp
  have "unat (drop_bit 29 (of_nat n :: w32)) = n div 2 ^ 29"
    using assms by (simp only: unat_drop_bit_eq unat_of_nat) (simp add: drop_bit_eq_div)
  then have d: "(drop_bit 29 (of_nat n) :: w32) = of_nat (n div 2 ^ 29)"
    by (metis of_nat_unat ucast_id)
  have "8 * n div 2 ^ 32 = n div 2 ^ 29" using div_mult_mult1[of 8 n "2 ^ 29"] by simp
  then have "8 * (l + n) div 2 ^ 32 = 8 * l div 2 ^ 32 + n div 2 ^ 29 + (if ?c then 1 else 0)"
    using add_div_carry[of "2 ^ 32" "8 * l" "8 * n"] by (simp add: algebra_simps)
  then have q: "(of_nat (8 * (l + n) div 2 ^ 32) :: w32) =
      of_nat (8 * l div 2 ^ 32) + of_nat (n div 2 ^ 29) + (if ?c then 1 else 0)"
    by (cases ?c) (simp_all only: if_True if_False of_nat_add of_nat_1 semiring_1_class.of_nat_0)
  have "(if ?c then (x :: w32) + 1 else x) + y = x + y + (if ?c then 1 else 0)" for x y by simp
  then show ?thesis
    unfolding md5_count_bits_def md5_bits_def Let_def nth_Cons_0 nth_Cons_Suc One_nat_def
      list_update.simps nat.case p s lt d q by (simp only:)
qed

section \<open>Streaming\<close>

text \<open>The context stands for a message: the state is that of its whole blocks, the buffer starts
  with the bytes behind them, the counter is its length in bits.\<close>

definition md5_rep :: "md5_ctx \<Rightarrow> byte list \<Rightarrow> bool" where
  "md5_rep ctx msg \<longleftrightarrow>
     md_state ctx = md5_fold md5_init_state (md5_blocks msg) \<and>
     md_count ctx = md5_bits (length msg) [0, 0] \<and>
     length (md_buffer ctx) = 64 \<and>
     take (length msg mod 64) (md_buffer ctx) = md5_tail msg"

lemma md5_init_rep: "length (md_buffer ctx) = 64 \<Longrightarrow> md5_rep (md5_init ctx) []"
  by (simp add: md5_rep_def md5_init_def md5_bits_def)

lemma md5_update_rep:
  assumes rep: "md5_rep ctx msg" and len: "length inp < 2 ^ 32 - 63"
  shows "\<exists>ctx'. md5_update inp ctx = Some ctx' \<and> md5_rep ctx' (msg @ inp)"
proof -
  let ?n = "length inp" and ?l = "length msg" and ?buf = "md_buffer ctx"
  have st: "md_state ctx = md5_fold md5_init_state (md5_blocks msg)"
    and cnt: "md_count ctx = md5_bits ?l [0, 0]"
    and buf: "length ?buf = 64" "take (?l mod 64) ?buf = md5_tail msg"
    using rep by (auto simp: md5_rep_def)
  have n: "?n < 2 ^ 32" "\<not> 2 ^ 32 - 63 \<le> ?n" using len by simp_all
  note count = md5_count_bits_ok[OF n(1)]
  have app: "md5_blocks (msg @ inp) = md5_blocks msg @ md5_blocks (md5_tail msg @ inp)"
    "md5_tail (msg @ inp) = md5_tail (md5_tail msg @ inp)" using md5_append[of msg inp] by blast+
  have lt: "?l mod 64 < 64" by simp
  show ?thesis
  proof (cases "64 - ?l mod 64 \<le> ?n")
    case True
    let ?p = "64 - ?l mod 64"
    define b where "b = md5_tail msg @ take ?p inp"
    have lb: "length b = 64" using True lt by (simp add: b_def)
    have b: "md5_copy (?l mod 64) (take ?p inp) ?buf = Some b"
      using True lt buf by (simp add: md5_copy_def b_def)
    have split: "md5_tail msg @ inp = b @ drop ?p inp" by (simp add: b_def)
    have bl: "md5_blocks (md5_tail msg @ inp) = b # md5_blocks (drop ?p inp)"
      "md5_tail (md5_tail msg @ inp) = md5_tail (drop ?p inp)"
      unfolding split using md5_blocks_64[OF lb] md5_tail_64[OF lb] by blast+
    obtain k where k: "md5_loop (transform (md_state ctx) b) inp ?p =
        (md5_fold (transform (md_state ctx) b) (md5_blocks (drop ?p inp)), k)"
        "drop k inp = md5_tail (drop ?p inp)" using md5_loop_spec[OF True] by blast
    define rest where "rest = drop k inp"
    have lr: "length rest = (?l + ?n) mod 64"
      using k(2) bl(2) app(2) unfolding rest_def by (metis length_append length_md5_tail)
    then have lr': "length rest \<le> 64" by (simp add: less_imp_le)
    let ?ctx = "ctx\<lparr>md_count := md5_bits (?l + ?n) [0, 0],
        md_state := md5_fold (transform (md_state ctx) b) (md5_blocks (drop ?p inp)),
        md_buffer := rest @ drop (length rest) b\<rparr>"
    have "md5_copy 0 (drop k inp) b = Some (rest @ drop (length rest) b)"
      using lr' lb by (simp add: md5_copy_def flip: rest_def)
    then have "md5_update inp ctx = Some ?ctx"
      using n(2) True b k(1) by (simp add: md5_update_def Let_def cnt count)
    moreover have "take ((?l + ?n) mod 64) (rest @ drop (length rest) b) = rest"
      unfolding lr[symmetric] by simp
    moreover have "md5_tail (msg @ inp) = rest" using app(2) bl(2) k(2) by (simp add: rest_def)
    ultimately have "md5_update inp ctx = Some ?ctx" "md5_rep ?ctx (msg @ inp)"
      using lb lr' unfolding md5_rep_def by (simp_all add: st app(1) bl(1))
    then show ?thesis by blast
  next
    case False
    then have short: "?l mod 64 + ?n < 64" by simp
    let ?ctx = "ctx\<lparr>md_count := md5_bits (?l + ?n) [0, 0],
       md_buffer := md5_tail msg @ inp @ drop (?l mod 64 + ?n) ?buf\<rparr>"
    have "md5_copy (?l mod 64) inp ?buf = Some (md5_tail msg @ inp @ drop (?l mod 64 + ?n) ?buf)"
      using short buf by (simp add: md5_copy_def)
    then have "md5_update inp ctx = Some ?ctx"
      using n(2) False by (simp add: md5_update_def Let_def cnt count)
    moreover have "(?l + ?n) mod 64 = ?l mod 64 + ?n" using short by (metis mod_add_left_eq mod_less)
    then have "md5_rep ?ctx (msg @ inp)"
      using short buf unfolding md5_rep_def by (simp add: st app)
    ultimately show ?thesis by blast
  qed
qed

section \<open>Finalization\<close>

lemma md5_byte:
  assumes "m + 8 \<le> 32"
  shows "(ucast (drop_bit m (of_nat x :: w32) AND 0xff) :: byte) = of_nat (x div 2 ^ m)"
proof -
  have f: "(0xff :: w32) = mask 8" by (simp add: mask_eq_exp_minus_1)
  show ?thesis
    unfolding f drop_bit_eq_div[symmetric]
    using assms by (intro bit_word_eqI) (auto simp: bit_simps)
qed

lemma md5_encode_64:
  "md5_encode [of_nat x, of_nat (x div 2 ^ 32)] = map (\<lambda>k. of_nat (x div 256 ^ k)) [0..<8]"
proof -
  have b: "(ucast (of_nat y AND 0xff :: w32) :: byte) = of_nat y" for y
    using md5_byte[of 0 y] by simp
  have u: "[0..<8] = [0, 1, 2, 3, 4, 5, 6, 7 :: nat]" by (simp add: upt_rec)
  have d: "x div 2 ^ 32 div 2 ^ 8 = x div 256 ^ 5" "x div 2 ^ 32 div 2 ^ 16 = x div 256 ^ 6"
    "x div 2 ^ 32 div 2 ^ 24 = x div 256 ^ 7" "x div 2 ^ 32 = x div 256 ^ 4"
    "x div 2 ^ 8 = x div 256 ^ 1" "x div 2 ^ 16 = x div 256 ^ 2" "x div 2 ^ 24 = x div 256 ^ 3"
    by (simp_all flip: div_mult2_eq)
  have m: "8 + 8 \<le> (32 :: nat)" "16 + 8 \<le> (32 :: nat)" "24 + 8 \<le> (32 :: nat)" by simp_all
  show ?thesis
    unfolding md5_encode_def md5_word_bytes_def u list.map concat.simps append.simps b
      md5_byte[OF m(1)] md5_byte[OF m(2)] md5_byte[OF m(3)] d(1,2,3,5,6,7)
    by (simp only: d(4) power_0 div_by_1)
qed

lemma md5_length_bytes_eq: "md5_encode (take 2 (md5_bits n r)) = md5_length_bytes n"
  using md5_encode_64[of "8 * n"] by (simp add: md5_bits_def md5_length_bytes_def)

lemma md5_finalization_ok:
  assumes rep: "md5_rep ctx msg"
  shows "\<exists>c. md5_finalization ctx = Some (md5_digest msg, c)"
proof -
  let ?l = "length msg"
  have cnt: "md_count ctx = md5_bits ?l [0, 0]" using rep by (simp add: md5_rep_def)
  let ?pad = "if ?l mod 64 < 56 then 56 - ?l mod 64 else 120 - ?l mod 64"
  have lt: "?l mod 64 < 64" by simp
  have pl: "?pad = Suc ((119 - ?l mod 64) mod 64)" "?pad \<le> 64"
  proof -
    define m where "m = ?l mod 64"
    have "m < 64" by (simp add: m_def)
    have e: "(119 - m) mod 64 = 55 - m" if "m < 56"
    proof -
      have "119 - m = 64 + (55 - m)" using that by simp
      then have "(119 - m) mod 64 = (55 - m) mod 64" by (simp only: mod_add_self1)
      then show ?thesis by simp
    qed
    have "(if m < 56 then 56 - m else 120 - m) = Suc ((119 - m) mod 64)"
      using e \<open>m < 64\<close> by (cases "m < 56") auto
    then show "?pad = Suc ((119 - ?l mod 64) mod 64)" by (simp only: m_def)
    have "(if m < 56 then 56 - m else 120 - m) \<le> 64" using \<open>m < 64\<close> by (cases "m < 56") auto
    then show "?pad \<le> 64" by (simp only: m_def)
  qed
  have tp: "take ?pad PADDING = 0x80 # replicate ((119 - ?l mod 64) mod 64) 0"
  proof -
    have "take (Suc q) PADDING = 0x80 # replicate q 0" if "q < 64" for q
      using that by (simp add: PADDING_def min_def)
    then show ?thesis unfolding pl(1) by simp
  qed
  let ?p = "0x80 # replicate ((119 - ?l mod 64) mod 64) 0 :: byte list"
  have "length ?p < 2 ^ 32 - 63" by (simp add: less_le_trans[of _ 64])
  with md5_update_rep[OF rep] obtain c1 where c1: "md5_update ?p ctx = Some c1" "md5_rep c1 (msg @ ?p)"
    by blast
  have lb: "length (md5_length_bytes ?l) = 8" by (simp add: md5_length_bytes_def)
  then have "length (md5_length_bytes ?l) < 2 ^ 32 - 63" by simp
  with md5_update_rep[OF c1(2)] obtain c2 where c2: "md5_update (md5_length_bytes ?l) c1 = Some c2"
    "md5_rep c2 ((msg @ ?p) @ md5_length_bytes ?l)" by blast
  have "(msg @ ?p) @ md5_length_bytes ?l = md5_pad msg" by (simp add: md5_pad_def)
  with c2(2) have "md_state c2 = md5_fold md5_init_state (md5_blocks (md5_pad msg))"
    by (simp add: md5_rep_def)
  then show ?thesis
    unfolding md5_finalization_def Let_def cnt md5_index_bits md5_length_bytes_eq tp
    by (simp add: c1 c2 md5_digest_def split: prod.splits)
qed

fun md5_run :: "byte list list \<Rightarrow> md5_ctx \<Rightarrow> md5_ctx option" where
  "md5_run [] ctx = Some ctx"
| "md5_run (p # ps) ctx = do { c \<leftarrow> md5_update p ctx; md5_run ps c }"

lemma md5_run_rep:
  "md5_rep ctx msg \<Longrightarrow> \<forall>p\<in>set ps. length p < 2 ^ 32 - 63 \<Longrightarrow>
   \<exists>c. md5_run ps ctx = Some c \<and> md5_rep c (msg @ concat ps)"
proof (induction ps arbitrary: ctx msg)
  case (Cons p ps)
  then obtain c where "md5_update p ctx = Some c" "md5_rep c (msg @ p)"
    using md5_update_rep[of ctx msg p] by auto
  with Cons.IH[of c "msg @ p"] Cons.prems(2) show ?case by auto
qed simp

section \<open>Properties\<close>

text \<open>C12. Feeding a message to the context in pieces of any sizes below 2^32 - 63, in whatever state
  its memory was before \<open>init\<close>, and finalizing gives the digest of RFC 1321 of the whole message;
  no copy leaves the 64-byte buffer and every loop ends.\<close>

theorem md5_streaming_is_one_shot:
  assumes "length (md_buffer ctx) = 64" "\<forall>p\<in>set parts. length p < 2 ^ 32 - 63"
  shows "\<exists>c c'. md5_run parts (md5_init ctx) = Some c \<and>
     md5_finalization c = Some (md5_digest (concat parts), c')"
proof -
  obtain c where "md5_run parts (md5_init ctx) = Some c" "md5_rep c ([] @ concat parts)"
    using md5_run_rep[OF md5_init_rep[OF assms(1)] assms(2)] by blast
  with md5_finalization_ok[of c "concat parts"] show ?thesis by auto
qed

theorem md5_streaming_is_one_shot_witness:
  "\<exists>c c'. md5_run [[1, 2], replicate 70 3] (md5_init \<lparr>md_state = (0, 0, 0, 0), md_count = [], md_buffer = replicate 64 7\<rparr>) = Some c \<and>
     md5_finalization c = Some (md5_digest (concat [[1, 2], replicate 70 3]), c')"
  by (rule md5_streaming_is_one_shot) simp_all

lemma md5_digest_one_block:
  "length (md5_pad msg) = 64 \<Longrightarrow> md5_digest msg =
     (case transform md5_init_state (md5_pad msg) of (a, b, c, d) \<Rightarrow> md5_encode [a, b, c, d])"
  using md5_blocks_64[of "md5_pad msg" "[]"] by (simp add: md5_digest_def)

lemmas md5_eval = FF_def GG_def HH_def II_def F_def G_def H_def I_def ROTATE_LEFT_def
  md5_init_state_def md5_calls_def transform_def md5_encode_def md5_word_bytes_def

lemma md5_pad_empty: "md5_pad [] = 0x80 # [0, 0, 0, 0, 0, 0, 0, 0, 0, 0, 0, 0, 0, 0, 0, 0, 0, 0, 0, 0, 0, 0, 0, 0, 0, 0, 0, 0, 0, 0, 0, 0, 0, 0, 0, 0, 0, 0, 0, 0, 0, 0, 0, 0, 0, 0, 0, 0, 0, 0, 0, 0, 0, 0, 0, 0, 0, 0, 0, 0, 0, 0, 0]"
  by (simp add: md5_pad_def md5_length_bytes_def upt_rec) (simp add: numeral_eq_Suc)

lemma md5_pad_abc: "md5_pad [0x61, 0x62, 0x63] = [0x61, 0x62, 0x63, 0x80] @ [0, 0, 0, 0, 0, 0, 0, 0, 0, 0, 0, 0, 0, 0, 0, 0, 0, 0, 0, 0, 0, 0, 0, 0, 0, 0, 0, 0, 0, 0, 0, 0, 0, 0, 0, 0, 0, 0, 0, 0, 0, 0, 0, 0, 0, 0, 0, 0, 0, 0, 0, 0] @ [24, 0, 0, 0, 0, 0, 0, 0]"
proof -
  have "replicate 52 (0 :: byte) = [0, 0, 0, 0, 0, 0, 0, 0, 0, 0, 0, 0, 0, 0, 0, 0, 0, 0, 0, 0, 0, 0, 0, 0, 0, 0, 0, 0, 0, 0, 0, 0, 0, 0, 0, 0, 0, 0, 0, 0, 0, 0, 0, 0, 0, 0, 0, 0, 0, 0, 0, 0]" by (simp add: numeral_eq_Suc)
  then show ?thesis by (simp add: md5_pad_def md5_length_bytes_def upt_rec)
qed

text \<open>The digests of RFC 1321's test strings \<open>""\<close> and \<open>"abc"\<close>, computed through the 64 calls.\<close>

theorem md5_test_vectors:
  "md5_digest [] = [0xd4, 0x1d, 0x8c, 0xd9, 0x8f, 0x00, 0xb2, 0x04, 0xe9, 0x80, 0x09, 0x98, 0xec, 0xf8, 0x42, 0x7e] \<and>
   md5_digest [0x61, 0x62, 0x63] = [0x90, 0x01, 0x50, 0x98, 0x3c, 0xd2, 0x4f, 0xb0, 0xd6, 0x96, 0x3f, 0x7d, 0x28, 0xe1, 0x7f, 0x72]"
proof
  show "md5_digest [] = [0xd4, 0x1d, 0x8c, 0xd9, 0x8f, 0x00, 0xb2, 0x04, 0xe9, 0x80, 0x09, 0x98, 0xec, 0xf8, 0x42, 0x7e]"
    by (simp add: md5_digest_one_block md5_pad_empty md5_eval)
  show "md5_digest [0x61, 0x62, 0x63] = [0x90, 0x01, 0x50, 0x98, 0x3c, 0xd2, 0x4f, 0xb0, 0xd6, 0x96, 0x3f, 0x7d, 0x28, 0xe1, 0x7f, 0x72]"
    by (simp add: md5_digest_one_block md5_pad_abc md5_eval)
qed

end
