(* ===== verification/Dfw_Text.thy ===== *)
theory Dfw_Text
  imports Dfw_String_Spec
begin

text \<open>
  \<open>String\<close> objects as their contents, for the components that only use them.  The operations
  here are those of \<open>Dfw_String\<close> seen through \<open>content\<close> when no allocation fails
  (\<open>string_calls_refine_lists\<close>); a pointer obtained from an object is its content with the
  terminating NUL, or NULL for an empty object.
\<close>

definition chars :: "string \<Rightarrow> string option" where
  "chars s = (if s = [] then None else Some (s @ [NUL]))"

text \<open>\<open>set(const char*)\<close> and \<open>set(const char*, n)\<close> on a pointer into memory; the second copies
  exactly \<open>n\<close> bytes and faults when they are not there.\<close>

definition text_set :: "string option \<Rightarrow> string" where
  "text_set p = c_arg p"

definition text_set_n :: "string option \<Rightarrow> nat \<Rightarrow> nat \<Rightarrow> string option" where
  "text_set_n p off n = ptr_read p off n"

text \<open>\<open>equals(const char*)\<close> with a literal: case-insensitive, and an empty object equals only the
  empty literal.\<close>

definition text_equals :: "string \<Rightarrow> string \<Rightarrow> bool" where
  "text_equals s lit = (if s = [] then lit = [] else strcaseeq lit (cstr s))"

text \<open>\<open>Integer::parseInt\<close>, \<open>Long::parseLong\<close>: \<open>atoi\<close> and \<open>atol\<close> of the C library, the first cut to 32 bits,
  both limited to 64.\<close>

definition clamp64 :: "int \<Rightarrow> int" where
  "clamp64 z = max (- (2 ^ 63)) (min (2 ^ 63 - 1) z)"

definition parseInt :: "string option \<Rightarrow> int \<Rightarrow> int" where
  "parseInt str defaultVal =
     (case str of None \<Rightarrow> defaultVal | Some p \<Rightarrow> to_int32 (clamp64 (c_atoi (cstr p))))"

definition parseLong :: "string option \<Rightarrow> int \<Rightarrow> int" where
  "parseLong str defaultVal =
     (case str of None \<Rightarrow> defaultVal | Some p \<Rightarrow> clamp64 (c_atoi (cstr p)))"

lemma clamp64_id: "- (2 ^ 63) \<le> z \<Longrightarrow> z < 2 ^ 63 \<Longrightarrow> clamp64 z = z"
  by (simp add: clamp64_def)

lemma chars_simps [simp]: "chars [] = None" "s \<noteq> [] \<Longrightarrow> chars s = Some (s @ [NUL])"
  by (simp_all add: chars_def)

lemma digit_not_sign:
  assumes "c_isdigit c"
  shows "\<not> c_isspace c" "c \<noteq> CHR ''-''" "c \<noteq> CHR ''+''" "c \<noteq> NUL" "c \<noteq> CHR '':''" "c \<noteq> CHR ''/''"
  using assms by (auto simp: c_isdigit_def c_isspace_def uchar_def)

lemma c_atoi_digits: "\<forall>c\<in>set ds. c_isdigit c \<Longrightarrow> c_atoi ds = int (dec_run 0 ds)"
proof (cases ds)
  case (Cons c cs)
  assume "\<forall>c\<in>set ds. c_isdigit c"
  with Cons have "c_isdigit c" by simp
  from digit_not_sign[OF this] Cons show ?thesis by (simp add: c_atoi_def split_sign_def)
qed (simp add: c_atoi_def split_sign_def)

lemma show_nat_no_nul [simp]: "NUL \<notin> set (show_nat n)"
  using show_nat_digits digit_not_sign(4) by blast

lemma c_atoi_show_nat: "c_atoi (show_nat n) = int n"
  by (simp add: c_atoi_digits show_nat_digits dec_run_show_nat)

lemma parseInt_show_nat: "n < 2 ^ 31 \<Longrightarrow> parseInt (chars (show_nat n)) d = int n"
  by (simp add: parseInt_def c_atoi_show_nat clamp64_id to_int32_id cstr_append_nul)

section \<open>Searching one character\<close>

lemma prefix_char_drop: "prefix [c] (drop j s) \<longleftrightarrow> j < length s \<and> s ! j = c"
  by (cases "j < length s") (auto simp: prefix_def Cons_nth_drop_Suc[symmetric])

lemma indexOf_char:
  "c \<noteq> NUL \<Longrightarrow> length (cstr mem) < 2 ^ 31 \<Longrightarrow> string_indexOf (Some mem) (Some [c]) =
    (if c \<in> set (cstr mem) then int (length (takeWhile (\<lambda>x. x \<noteq> c) (cstr mem))) else -1)"
  by (subst string_indexOf_strstr) (simp_all add: strstr_single)

lemma lastIndexOf_char:
  assumes "c \<noteq> NUL" "length (cstr mem) < 2 ^ 31"
  shows "string_lastIndexOf (Some mem) (Some [c]) =
    (case strrchr (cstr mem) c of None \<Rightarrow> -1 | Some i \<Rightarrow> int i)"
proof -
  have n: "cstr [c] = [c]" using assms(1) by simp
  note sp = string_lastIndexOf_spec[OF assms(2), of "[c]", unfolded n prefix_char_drop]
  show ?thesis
  proof (cases "strrchr (cstr mem) c")
    case None
    then have "c \<notin> set (cstr mem)" by (simp add: strrchr_None_iff)
    with sp None show ?thesis by (auto dest: nth_mem)
  next
    case (Some i)
    from strrchr_SomeD[OF this] have i: "i < length (cstr mem)" "cstr mem ! i = c"
      "c \<notin> set (drop (Suc i) (cstr mem))" by blast+
    have later: "j \<le> i" if "j < length (cstr mem)" "cstr mem ! j = c" for j
    proof (rule ccontr)
      assume "\<not> j \<le> i"
      then have "drop (Suc i) (cstr mem) ! (j - Suc i) = c" "j - Suc i < length (drop (Suc i) (cstr mem))"
        using that by auto
      with i(3) show False using nth_mem by blast
    qed
    from sp i show ?thesis
    proof (elim disjE exE conjE)
      fix k
      assume "string_lastIndexOf (Some mem) (Some [c]) = int k" "k < length (cstr mem)" "cstr mem ! k = c"
        "\<forall>j\<le>length (cstr mem). j < length (cstr mem) \<and> cstr mem ! j = c \<longrightarrow> j \<le> k"
      with i(1,2) later have "k = i" by (metis le_antisym less_imp_le)
      then show ?thesis using Some \<open>string_lastIndexOf (Some mem) (Some [c]) = int k\<close> by simp
    next
      assume "\<forall>j\<le>length (cstr mem). \<not> (j < length (cstr mem) \<and> cstr mem ! j = c)"
      with i(1,2) show ?thesis by (metis less_imp_le)
    qed
  qed
qed

lemma strrchr_append: "c \<notin> set b \<Longrightarrow> strrchr (a @ c # b) c = Some (length a)"
  by (induction a) (simp_all add: strrchr_None_iff[THEN iffD2])

lemma takeWhile_neq_append: "c \<notin> set a \<Longrightarrow> takeWhile (\<lambda>x. x \<noteq> c) (a @ c # b) = a"
  by (induction a) auto

lemma text_set_chars: "NUL \<notin> set s \<Longrightarrow> text_set (chars s) = s"
  by (simp add: text_set_def c_arg_def chars_def cstr_append_nul)

lemma text_set_n_chars: "n \<le> length s \<Longrightarrow> text_set_n (chars s) 0 n = Some (take n s)"
  by (auto simp: text_set_n_def ptr_read_def chars_def)

lemma trim_spec_id:
  assumes "s \<noteq> []" "\<not> string_isspace (hd s)" "\<not> string_isspace (last s)"
  shows "trim_spec s = s"
proof -
  have "dropWhile string_isspace s = s" using assms(1,2) by (cases s) auto
  moreover have "dropWhile string_isspace (rev s) = rev s"
    using assms(1,3) by (cases s rule: rev_cases) auto
  ultimately show ?thesis by (simp add: trim_spec_def)
qed

section \<open>Lines\<close>

lemma cstr_append_clean: "NUL \<notin> set a \<Longrightarrow> cstr (a @ b) = a @ cstr b"
  by (induction a) (auto simp: cstr_def)

lemma strstr_crlf: "CR \<notin> set a \<Longrightarrow> strstr (a @ CR # LF # b) [CR, LF] = Some (length a)"
  by (simp add: strstr_append_notin)

lemma strstr_char: "c \<notin> set a \<Longrightarrow> strstr (a @ c # b) [c] = Some (length a)"
  by (simp add: strstr_single takeWhile_neq_append)

end
