(* ===== verification/Dfw_Uri.thy ===== *)
theory Dfw_Uri
  imports Dfw_Text Dfw_Retval
begin

text \<open>
  \<open>lib/net/URI.cpp\<close>: the URI parser and printer, \<open>PathInfo\<close>, \<open>FileInfo\<close>, the default ports
  and the comparison operators.  A result \<open>None\<close> is a fault (a copy from NULL or from behind a
  buffer).  The two regular expressions are written out as the matches PCRE documents for them;
  \<open>getMatch\<close> is the wrapper of \<open>lib/util/Regexp.cpp\<close> with its own length test.
\<close>

section \<open>PathInfo\<close>

record path_scan =
  ps_temp :: string
  ps_paths :: "string list"
  ps_buslash :: bool
  ps_reslash :: bool

definition path_step :: "path_scan \<Rightarrow> char \<Rightarrow> path_scan" where
  "path_step s c =
     (if \<not> ps_buslash s \<and> c = BACKSLASH then s\<lparr>ps_buslash := True\<rparr>
      else
        let s1 =
          (if (\<not> ps_buslash s \<and> c = CHR ''/'') \<and> \<not> ps_reslash s
           then s\<lparr>ps_reslash := True, ps_paths := ps_paths s @ [ps_temp s], ps_temp := []\<rparr>
           else if (\<not> ps_buslash s \<and> c = CHR ''/'') \<and> ps_reslash s then s
           else if ps_reslash s then s\<lparr>ps_reslash := False, ps_temp := ps_temp s @ [c]\<rparr>
           else if ps_buslash s then s\<lparr>ps_temp := ps_temp s @ [BACKSLASH, c], ps_buslash := False\<rparr>
           else s\<lparr>ps_temp := ps_temp s @ [c]\<rparr>)
        in s1\<lparr>ps_buslash := False\<rparr>)"

record path_info =
  m_sPath :: string
  m_sWinPath :: string
  m_sPrefixPath :: string
  m_sWinPrefixPath :: string
  m_sName :: string
  m_aPaths :: "string list"

definition path_info_init :: path_info where
  "path_info_init = \<lparr>m_sPath = [], m_sWinPath = [], m_sPrefixPath = [], m_sWinPrefixPath = [],
     m_sName = [], m_aPaths = []\<rparr>"

text \<open>The four texts are built while the components are visited; \<open>k\<close> counts them.\<close>

definition path_first :: "string \<Rightarrow> nat \<Rightarrow> path_info \<Rightarrow> path_info" where
  "path_first p s i =
     (if p = []
      then i\<lparr>m_sPath := m_sPath i @ ''/'', m_sPrefixPath := m_sPrefixPath i @ ''/'',
             m_sWinPath := m_sWinPath i @ [BACKSLASH], m_sWinPrefixPath := m_sWinPrefixPath i @ [BACKSLASH]\<rparr>
      else
        let i1 = i\<lparr>m_sPath := m_sPath i @ p, m_sWinPath := m_sWinPath i @ p\<rparr>;
            i2 = (if last p = CHR '':''
                  then i1\<lparr>m_sWinPath := m_sWinPath i1 @ [BACKSLASH, BACKSLASH],
                          m_sWinPrefixPath := m_sWinPrefixPath i1 @ [BACKSLASH, BACKSLASH]\<rparr>
                  else i1)
        in (if 1 < s then i2\<lparr>m_sPath := m_sPath i2 @ ''/'', m_sPrefixPath := m_sPrefixPath i2 @ ''/''\<rparr> else i2))"

fun path_rest :: "string list \<Rightarrow> nat \<Rightarrow> nat \<Rightarrow> path_info \<Rightarrow> path_info" where
  "path_rest [] k s i = i"
| "path_rest (p # ps) k s i =
     (let i1 = i\<lparr>m_sPath := m_sPath i @ p, m_sWinPath := m_sWinPath i @ p\<rparr>;
          i2 = (if k < s - 1
                then
                  let i3 = i1\<lparr>m_sPath := m_sPath i1 @ ''/'', m_sWinPath := m_sWinPath i1 @ [BACKSLASH],
                              m_sPrefixPath := m_sPrefixPath i1 @ p, m_sWinPrefixPath := m_sWinPrefixPath i1 @ p\<rparr>
                  in (if k < s - 2
                      then i3\<lparr>m_sPrefixPath := m_sPrefixPath i3 @ ''/'',
                              m_sWinPrefixPath := m_sWinPrefixPath i3 @ [BACKSLASH]\<rparr>
                      else i3)
                else i1\<lparr>m_sName := cstr p\<rparr>)
      in path_rest ps (Suc k) s i2)"

definition path_build :: "string list \<Rightarrow> path_info" where
  "path_build paths =
     (let i0 = path_info_init\<lparr>m_aPaths := paths\<rparr> in
      case paths of [] \<Rightarrow> i0
      | p # ps \<Rightarrow> path_rest ps 1 (length paths) (path_first p (length paths) i0))"

definition scan_result :: "path_scan \<Rightarrow> string list" where
  "scan_result s = (if ps_temp s \<noteq> [] then ps_paths s @ [ps_temp s] else ps_paths s)"

text \<open>\<open>temp\<close> has 1024 bytes; the scan takes at most 1023 characters of the path.\<close>

definition path_parse :: "string \<Rightarrow> path_info \<Rightarrow> path_info option" where
  "path_parse path i =
     (let len = (if 1023 < length path then 1023 else length path);
          s = foldl path_step \<lparr>ps_temp = [], ps_paths = m_aPaths i, ps_buslash = False, ps_reslash = False\<rparr> (take len path) in
      if 1024 < length (ps_temp s) then None else Some (path_build (scan_result s)))"

definition path_no :: "int \<Rightarrow> path_info \<Rightarrow> string" where
  "path_no no i = (if 0 \<le> no \<and> no < int (length (m_aPaths i)) then m_aPaths i ! nat no else [])"

text \<open>\<open>fullpath(no)\<close>: the first component is skipped.\<close>

definition path_fullpath :: "int \<Rightarrow> path_info \<Rightarrow> string" where
  "path_fullpath no i =
     concat (map (\<lambda>p. CHR ''/'' # cstr p) (drop 1 (take (nat (no + 1)) (m_aPaths i))))"

section \<open>FileInfo\<close>

record file_info =
  f_bUse :: bool
  f_sDirname :: string
  f_sFilename :: string
  f_sName :: string
  f_sExtension :: string

definition file_clean :: file_info where
  "file_clean = \<lparr>f_bUse = False, f_sDirname = [], f_sFilename = [], f_sName = [], f_sExtension = []\<rparr>"

fun last_slash :: "string \<Rightarrow> nat \<Rightarrow> bool \<Rightarrow> nat \<Rightarrow> nat" where
  "last_slash [] off buslash lst = lst"
| "last_slash (c # cs) off buslash lst =
     (if \<not> buslash \<and> c = BACKSLASH then last_slash cs (Suc off) True lst
      else if buslash then last_slash cs (Suc off) False lst
      else if c = CHR ''/'' then last_slash cs (Suc off) False off
      else last_slash cs (Suc off) False lst)"

text \<open>\<open>lidx\<close> is an \<open>int\<close>: for a name of \<open>2 ^ 31\<close> characters or more it can be negative, and the extension is
  then read before the name.\<close>

definition file_parse :: "string option \<Rightarrow> file_info option" where
  "file_parse path =
     (case path of
        None \<Rightarrow> Some (file_clean\<lparr>f_bUse := True\<rparr>)
      | Some mem \<Rightarrow>
          (let p = cstr mem; l = last_slash p 0 False 0;
               dir = (if l = 0 then [] else take l p);
               file = (if l = 0 then p else drop (l + 1) p);
               lidx = string_lastIndexOf (chars file) (Some ''.'') in
           if lidx < -1 then None
           else Some
           \<lparr>f_bUse = True, f_sDirname = dir, f_sFilename = file,
            f_sName = (if lidx = -1 then file else if lidx = 0 then [] else take (nat lidx) file),
            f_sExtension = (if lidx = -1 then [] else if lidx = 0 then file else drop (nat lidx + 1) file)\<rparr>))"

section \<open>URI\<close>

record uri =
  u_uri :: string
  u_scheme :: string
  u_user :: string
  u_pass :: string
  u_host :: string
  u_port :: int
  u_path :: string
  u_query :: string
  u_fragment :: string

definition uri_clear :: uri where
  "uri_clear = \<lparr>u_uri = [], u_scheme = [], u_user = [], u_pass = [], u_host = [], u_port = 0,
     u_path = [], u_query = [], u_fragment = []\<rparr>"

definition uri_toString :: "uri \<Rightarrow> string" where
  "uri_toString u =
     (if u_scheme u \<noteq> [] then cstr (u_scheme u) @ ''://'' else []) @
     (if u_user u \<noteq> [] then u_user u else []) @
     (if u_pass u \<noteq> [] then '':****'' else []) @
     (if u_user u \<noteq> [] \<or> u_pass u \<noteq> [] then ''@'' else []) @
     (if u_host u \<noteq> [] then u_host u else []) @
     (if u_port u \<noteq> 0 then CHR '':'' # show_int (u_port u) else []) @
     (if u_path u \<noteq> [] then u_path u else []) @
     (if u_query u \<noteq> [] then CHR ''?'' # cstr (u_query u) else []) @
     (if u_fragment u \<noteq> [] then CHR ''#'' # cstr (u_fragment u) else [])"

text \<open>\<open>^([\\S]+?)://([\\s\\S]*)$\<close>: the shortest nonempty run of non-blanks before \<open>://\<close>.\<close>

fun re_scheme :: "string \<Rightarrow> string \<Rightarrow> (string \<times> string) option" where
  "re_scheme pre [] = None"
| "re_scheme pre (c # cs) =
     (if pre \<noteq> [] \<and> prefix ''://'' (c # cs) then Some (pre, drop 3 (c # cs))
      else if c_isspace c then None else re_scheme (pre @ [c]) cs)"

text \<open>\<open>^([\\S]*?)([/]{1})([\\s\\S]*)\<close>: the shortest run of non-blanks before a slash.\<close>

fun re_host :: "string \<Rightarrow> string \<Rightarrow> (string \<times> string) option" where
  "re_host pre [] = None"
| "re_host pre (c # cs) =
     (if c = CHR ''/'' then Some (pre, cs)
      else if c_isspace c then None else re_host (pre @ [c]) cs)"

text \<open>\<open>Regexp::regexp\<close> with the pattern \<open>re\<close> on a value; an empty value is an error.\<close>

definition regexp :: "(string \<Rightarrow> string \<Rightarrow> (string \<times> string) option) \<Rightarrow> string \<Rightarrow> rv \<times> (string \<times> string)" where
  "regexp re value =
     (if value = [] then (Some (DFW_E_INVAL, 0), ([], []))
      else case re [] (cstr value) of
        None \<Rightarrow> (Some (DFW_E_REGEXP_NOT_MATCH, 0), ([], []))
      | Some g \<Rightarrow> (None, g))"

text \<open>\<open>getMatch(index)\<close> is not NULL only when the value is longer than twice the index.\<close>

definition getMatch :: "string \<Rightarrow> nat \<Rightarrow> string \<Rightarrow> string option" where
  "getMatch value index grp = (if 2 * index < length value then Some grp else None)"

definition getMatchString :: "string \<Rightarrow> nat \<Rightarrow> string \<Rightarrow> string option" where
  "getMatchString value index grp = text_set_n (getMatch value index grp) 0 (length grp)"

definition parse_HP_FileScheme ::
    "string \<Rightarrow> string \<Rightarrow> string \<Rightarrow> string option \<Rightarrow> string \<Rightarrow> string \<Rightarrow> string \<Rightarrow> (string \<times> string) option" where
  "parse_HP_FileScheme scheme value g1 str host slash g3 =
     (if text_equals scheme ''file''
      then
        let path = (if 0 < length g3
              then (case getMatch value 3 g3 of
                      Some p \<Rightarrow> p
                    | None \<Rightarrow> text_set (map_option (drop (length g1 + (if slash \<noteq> [] then 1 else 0))) str))
              else [])
        in Some ([], cstr host @ cstr slash @ cstr path)
      else if 0 < length g3
      then do { p \<leftarrow> getMatch value 3 g3; Some (host, CHR ''/'' # p) }
      else Some (host, []))"

text \<open>\<open>index\<close> is the \<open>int\<close> extended to 64 bits: a negative one gives a size that cannot be
  allocated, so nothing is copied, and a pointer before the text.\<close>

definition parse_host :: "string option \<Rightarrow> uri \<Rightarrow> uri option" where
  "parse_host str u =
     (if (case str of Some (c # cs) \<Rightarrow> c = CHR ''/'' | _ \<Rightarrow> False) then Some u
      else let index = string_lastIndexOf str (Some '':'') in
      if index = -1 then Some (u\<lparr>u_host := text_set str\<rparr>)
      else if index < 0 then None
      else do { h \<leftarrow> text_set_n str 0 (nat index);
                let port = text_set (map_option (drop (nat index + 1)) str);
                Some (u\<lparr>u_host := h, u_port := parseInt (chars port) 0\<rparr>) })"

text \<open>The fragment is set from \<open>p\<close> with \<open>index2 + index2 + 1\<close> characters.\<close>

definition parse_path :: "string option \<Rightarrow> uri \<Rightarrow> uri option" where
  "parse_path str u =
     (let index = string_indexOf str (Some ''?'') in
      if index = -1 then Some (u\<lparr>u_path := text_set str\<rparr>)
      else if index < 0 then None
      else do { path \<leftarrow> text_set_n str 0 (nat index);
                let p = map_option (drop (nat index + 1)) str;
                let index2 = string_indexOf p (Some ''#'');
                (if index2 = -1 then Some (u\<lparr>u_path := path, u_query := text_set p\<rparr>)
                 else if index2 < 0 then Some (u\<lparr>u_path := path\<rparr>)
                 else do { q \<leftarrow> text_set_n p 0 (nat index2);
                           f \<leftarrow> text_set_n p 0 (nat (index2 + index2 + 1));
                           Some (u\<lparr>u_path := path, u_query := q, u_fragment := f\<rparr>) }) })"

definition parse_HP :: "string \<Rightarrow> string \<times> string \<Rightarrow> string option \<Rightarrow> uri \<Rightarrow> uri option" where
  "parse_HP value g str u =
     do { host \<leftarrow> getMatchString value 1 (fst g);
          (host', path) \<leftarrow> parse_HP_FileScheme (u_scheme u) value (fst g) str host ''/'' (snd g);
          u1 \<leftarrow> parse_host (chars host') u;
          parse_path (chars path) u1 }"

definition parseHostAndPath :: "string option \<Rightarrow> uri \<Rightarrow> (rv \<times> uri) option" where
  "parseHostAndPath hp u =
     (let sHp = text_set hp; (retval, g) = regexp re_host (text_set hp);
          value = (if retval \<noteq> None then sHp @ ''/'' else sHp);
          (retval, g) = (if retval \<noteq> None then regexp re_host value else (retval, g)) in
      if retval = None
      then do { u' \<leftarrow> parse_HP value g hp u; Some (None, u') }
      else Some (retval, u))"

definition uri_parse :: "string \<Rightarrow> (rv \<times> uri) option" where
  "uri_parse text =
     (let s = trim_spec text; u = uri_clear\<lparr>u_uri := s\<rparr> in
      if s = [] then Some (Some (DFW_E_INVAL, 0), u)
      else case regexp re_scheme s of
        (None, (scheme, hp)) \<Rightarrow>
          do { sch \<leftarrow> getMatchString s 1 scheme;
               rest \<leftarrow> getMatchString s 2 hp;
               parseHostAndPath (chars rest) (u\<lparr>u_scheme := sch\<rparr>) }
      | (Some e, _) \<Rightarrow> parseHostAndPath (chars s) (u\<lparr>u_scheme := ''file''\<rparr>))"

text \<open>\<open>___parse_account\<close>, which no caller reaches.\<close>

definition parse_account :: "string \<Rightarrow> uri \<Rightarrow> uri" where
  "parse_account str u =
     (if str = [] then u
      else case strstr (cstr str) '':'' of
        None \<Rightarrow> u\<lparr>u_user := str\<rparr>
      | Some l \<Rightarrow> u\<lparr>u_user := take l str, u_pass := cstr (drop (l + 1) str)\<rparr>)"

section \<open>Ports and comparison\<close>

definition default_ports :: "(string \<times> int) list" where
  "default_ports =
    [(''http'', 80), (''file'', 0), (''https'', 443), (''ftp'', 21), (''ssh'', 22), (''sftp'', 22),
     (''telnet'', 23), (''smtp'', 25), (''dns'', 53), (''dhcp'', 68), (''finger'', 79), (''pop3'', 110),
     (''nntp'', 119), (''imap'', 143), (''snmp'', 161), (''irc'', 194), (''imap3'', 220), (''ldap'', 389),
     (''ssl'', 443), (''smb'', 445), (''mssql'', 1433), (''oracle'', 1521), (''nfs'', 2049), (''mysql'', 3306)]"

definition getDefaultPort :: "string \<Rightarrow> int \<Rightarrow> int" where
  "getDefaultPort scheme defaultPort =
     (if scheme = [] then defaultPort
      else case find (\<lambda>(s, p). text_equals scheme s) default_ports of
        Some (s, p) \<Rightarrow> p | None \<Rightarrow> defaultPort)"

definition uri_getPort :: "uri \<Rightarrow> int" where
  "uri_getPort u = (if u_port u \<noteq> 0 then u_port u else getDefaultPort (u_scheme u) 80)"

definition uri_ne :: "uri \<Rightarrow> uri \<Rightarrow> bool" where
  "uri_ne a b \<longleftrightarrow>
     \<not> (op_eq str_ops (u_scheme a) (u_scheme b) \<and> op_eq str_ops (u_host a) (u_host b) \<and> u_port a = u_port b \<and>
        op_eq str_ops (u_path a) (u_path b) \<and> op_eq str_ops (u_query a) (u_query b) \<and>
        op_eq str_ops (u_fragment a) (u_fragment b) \<and> op_eq str_ops (u_user a) (u_user b) \<and>
        op_eq str_ops (u_pass a) (u_pass b))"

definition uri_ge :: "uri \<Rightarrow> uri \<Rightarrow> bool" where
  "uri_ge a b \<longleftrightarrow>
     \<not> op_lt str_ops (u_scheme a) (u_scheme b) \<and> \<not> op_lt str_ops (u_host a) (u_host b) \<and> \<not> u_port a < u_port b \<and>
     \<not> op_lt str_ops (u_path a) (u_path b) \<and> \<not> op_lt str_ops (u_query a) (u_query b) \<and>
     \<not> op_lt str_ops (u_fragment a) (u_fragment b) \<and> \<not> op_lt str_ops (u_user a) (u_user b) \<and>
     \<not> op_lt str_ops (u_pass a) (u_pass b)"

definition uri_le :: "uri \<Rightarrow> uri \<Rightarrow> bool" where
  "uri_le a b \<longleftrightarrow>
     \<not> op_gt str_ops (u_scheme a) (u_scheme b) \<and> \<not> op_gt str_ops (u_host a) (u_host b) \<and> \<not> u_port a > u_port b \<and>
     \<not> op_gt str_ops (u_path a) (u_path b) \<and> \<not> op_gt str_ops (u_query a) (u_query b) \<and>
     \<not> op_gt str_ops (u_fragment a) (u_fragment b) \<and> \<not> op_gt str_ops (u_user a) (u_user b) \<and>
     \<not> op_gt str_ops (u_pass a) (u_pass b)"

definition uri_ops :: "uri cmp_ops" where
  "uri_ops = \<lparr>op_eq = \<lambda>a b. \<not> uri_ne a b, op_ne = uri_ne, op_gt = \<lambda>a b. \<not> uri_le a b,
     op_lt = \<lambda>a b. \<not> uri_ge a b, op_ge = uri_ge, op_le = uri_le\<rparr>"

end
