(* ===== verification/Dfw_Uri_Spec.thy ===== *)
theory Dfw_Uri_Spec
  imports Dfw_Uri
begin

text \<open>
  What the URI component promises: printing and parsing are inverse on well-formed URIs whose
  authority and path are long enough for \<open>Regexp::getMatch\<close>, paths are cut at slashes,
  \<open>FileInfo\<close> only splits, and where the code goes wrong (short URIs, fragments, ordering).
\<close>

section \<open>Cutting paths\<close>










section \<open>FileInfo\<close>

lemma last_slash_plain:
  "BACKSLASH \<notin> set p \<Longrightarrow> last_slash p off False l =
     (case strrchr p CHR ''/'' of None \<Rightarrow> l | Some i \<Rightarrow> off + i)"
  by (induction p arbitrary: off l) (auto split: option.splits)

lemma last_slash_at:
  "last_slash p off b l = l \<or>
   (\<exists>i<length p. last_slash p off b l = off + i \<and> p ! i = CHR ''/'')"
proof (induction p arbitrary: off b l)
  case (Cons c cs)
  have step: "last_slash cs (Suc off) b' l' = l \<or>
      (\<exists>i<length (c # cs). last_slash cs (Suc off) b' l' = off + i \<and> (c # cs) ! i = CHR ''/'')"
    if "l' = l \<or> l' = off \<and> c = CHR ''/''" for b' l'
    using Cons.IH[of "Suc off" b' l'] that by fastforce
  show ?case using step by auto
qed simp

lemma file_parse_splits:
  fixes mem :: string
  defines "p \<equiv> cstr mem"
  assumes len: "length p < 2 ^ 31"
  shows "\<exists>f. file_parse (Some mem) = Some f \<and> (f_sDirname f = [] \<and> f_sFilename f = p \<or> f_sDirname f @ ''/'' @ f_sFilename f = p) \<and>
     (f_sExtension f = [] \<and> f_sName f = f_sFilename f \<or> f_sName f = [] \<and> f_sExtension f = f_sFilename f \<or>
      f_sName f @ ''.'' @ f_sExtension f = f_sFilename f \<and> CHR ''.'' \<notin> set (f_sExtension f))"
proof -
  let ?l = "last_slash p 0 False 0"
  have nn: "NUL \<notin> set p" by (simp add: p_def cstr_no_nul)
  define fl where "fl = (if ?l = 0 then p else drop (?l + 1) p)"
  have fnn: "NUL \<notin> set fl" using nn by (auto simp: fl_def dest: in_set_dropD)
  let ?x = "string_lastIndexOf (chars fl) (Some ''.'')"
  have "length fl \<le> length p" by (simp add: fl_def)
  then have "length fl < 2 ^ 31" using len by (rule le_less_trans)
  then have x: "?x = (if fl = [] then -1 else case strrchr fl CHR ''.'' of None \<Rightarrow> -1 | Some i \<Rightarrow> int i)"
    using lastIndexOf_char[of "CHR ''.''" "fl @ [NUL]"] fnn
    by (cases "fl = []") (simp add: string_lastIndexOf_def, simp add: cstr_append_nul)
  have "\<not> ?x < -1" unfolding x by (simp split: option.split)
  define f where "f = \<lparr>f_bUse = True, f_sDirname = if ?l = 0 then [] else take ?l p, f_sFilename = fl,
    f_sName = if ?x = -1 then fl else if ?x = 0 then [] else take (nat ?x) fl,
    f_sExtension = if ?x = -1 then [] else if ?x = 0 then fl else drop (nat ?x + 1) fl\<rparr>"
  have parse: "file_parse (Some mem) = Some f"
    using \<open>\<not> ?x < -1\<close> by (simp add: f_def file_parse_def Let_def fl_def flip: p_def)
  have f: "f_sFilename f = fl" "f_sDirname f = (if ?l = 0 then [] else take ?l p)"
    by (simp_all add: f_def)
  have dir: "f_sDirname f = [] \<and> fl = p \<or> f_sDirname f @ ''/'' @ fl = p"
  proof (cases "?l = 0")
    case False
    with last_slash_at[of p 0 False 0] have "?l < length p" "p ! ?l = CHR ''/''" by auto
    then have "p = take ?l p @ CHR ''/'' # drop (?l + 1) p" by (metis Suc_eq_plus1 id_take_nth_drop)
    with False show ?thesis by (simp add: f fl_def)
  qed (simp add: f fl_def)
  have ext: "f_sName f = (if ?x = -1 then fl else if ?x = 0 then [] else take (nat ?x) fl)"
    "f_sExtension f = (if ?x = -1 then [] else if ?x = 0 then fl else drop (nat ?x + 1) fl)"
    by (simp_all add: f_def)
  have "f_sExtension f = [] \<and> f_sName f = fl \<or> f_sName f = [] \<and> f_sExtension f = fl \<or>
      f_sName f @ ''.'' @ f_sExtension f = fl \<and> CHR ''.'' \<notin> set (f_sExtension f)"
  proof (cases "fl = []")
    case True
    then show ?thesis by (simp add: ext x)
  next
    case False
    show ?thesis
    proof (cases "strrchr fl CHR ''.''")
      case None
      with x show ?thesis by (simp add: ext split: if_splits)
    next
      case (Some i)
      from strrchr_SomeD[OF this] have i: "i < length fl" "fl ! i = CHR ''.''"
        "CHR ''.'' \<notin> set (drop (Suc i) fl)" by blast+
      then have "fl = take i fl @ CHR ''.'' # drop (i + 1) fl" by (metis Suc_eq_plus1 id_take_nth_drop)
      with x False Some i(3) show ?thesis by (simp add: ext)
    qed
  qed
  with dir parse show ?thesis by (intro exI[of _ f]) (simp add: f(1))
qed

section \<open>Printing and parsing\<close>

definition host_char :: "char \<Rightarrow> bool" where
  "host_char c \<longleftrightarrow> \<not> c_isspace c \<and> c \<noteq> CHR '':'' \<and> c \<noteq> CHR ''/'' \<and> c \<noteq> NUL"

definition authority :: "uri \<Rightarrow> string" where
  "authority u = u_host u @ (if u_port u \<noteq> 0 then CHR '':'' # show_int (u_port u) else [])"

definition uri_tail :: "uri \<Rightarrow> string" where
  "uri_tail u = u_path u @ (if u_query u \<noteq> [] then CHR ''?'' # u_query u else [])"

text \<open>The URIs that survive: a scheme other than \<open>file\<close>, a host, an optional port, a path with its
  slash and a query.  The line before the last is what \<open>getMatch\<close> needs; the last keeps the offsets
  within an \<open>int\<close>.\<close>

definition uri_wf :: "uri \<Rightarrow> bool" where
  "uri_wf u \<longleftrightarrow>
     u_scheme u \<noteq> [] \<and> list_all host_char (u_scheme u) \<and> \<not> strcaseeq ''file'' (u_scheme u) \<and>
     u_user u = [] \<and> u_pass u = [] \<and> u_fragment u = [] \<and>
     u_host u \<noteq> [] \<and> list_all host_char (u_host u) \<and> 0 \<le> u_port u \<and> u_port u < 2 ^ 31 \<and>
     u_path u \<noteq> [] \<and> hd (u_path u) = CHR ''/'' \<and> CHR ''?'' \<notin> set (u_path u) \<and> NUL \<notin> set (u_path u) \<and>
     CHR ''#'' \<notin> set (u_query u) \<and> NUL \<notin> set (u_query u) \<and> u_uri u = uri_toString u \<and>
     \<not> string_isspace (last (uri_tail u)) \<and> 1 < length (uri_tail u) \<and> 6 < length (authority u @ uri_tail u) \<and>
     length (u_uri u) < 2 ^ 31"

lemma re_scheme_hit:
  "list_all host_char s \<Longrightarrow> pre @ s \<noteq> [] \<Longrightarrow> re_scheme pre (s @ ''://'' @ r) = Some (pre @ s, r)"
proof (induction s arbitrary: pre)
  case (Cons c s)
  then have "c \<noteq> CHR '':''" "\<not> c_isspace c" by (simp_all add: host_char_def)
  with Cons.IH[of "pre @ [c]"] Cons.prems show ?case by simp
qed simp

lemma re_host_hit:
  "list_all (\<lambda>c. \<not> c_isspace c \<and> c \<noteq> CHR ''/'') s \<Longrightarrow> re_host pre (s @ CHR ''/'' # r) = Some (pre @ s, r)"
  by (induction s arbitrary: pre) auto

lemma digits_ok:
  "list_all (\<lambda>c. \<not> c_isspace c \<and> c \<noteq> CHR ''/'' \<and> c \<noteq> CHR '':'' \<and> c \<noteq> NUL) (show_nat n)"
  using show_nat_digits[of n] digit_not_sign by (auto simp: list_all_iff)

lemma isspace_string: "string_isspace c \<Longrightarrow> c_isspace c"
  by (auto simp: string_isspace_def c_isspace_def uchar_def)

lemma parse_host_ok:
  assumes "u_host u \<noteq> []" "list_all host_char (u_host u)" "0 \<le> u_port u" "u_port u < 2 ^ 31" "u_port v = 0"
    "length (authority u) < 2 ^ 31"
  shows "parse_host (chars (authority u)) v = Some (v\<lparr>u_host := u_host u, u_port := u_port u\<rparr>)"
proof -
  let ?h = "u_host u"
  have h: "CHR '':'' \<notin> set ?h" "NUL \<notin> set ?h" "hd ?h \<noteq> CHR ''/''"
    using assms(1,2) by (auto simp: host_char_def list_all_iff)
  show ?thesis
  proof (cases "u_port u = 0")
    case True
    then have a: "authority u = ?h" by (simp add: authority_def)
    have "string_lastIndexOf (chars ?h) (Some '':'') = -1"
      using lastIndexOf_char[of "CHR '':''" "?h @ [NUL]"] assms(1) h assms(6)[unfolded a]
      by (simp add: cstr_append_nul strrchr_None_iff[THEN iffD2])
    moreover have "\<not> (case chars ?h of Some (c # cs) \<Rightarrow> c = CHR ''/'' | _ \<Rightarrow> False)"
      using assms(1) h(3) by (cases ?h) auto
    moreover have "text_set (chars ?h) = ?h" using h(2) by (rule text_set_chars)
    ultimately show ?thesis unfolding a using True assms(5) by (simp add: parse_host_def Let_def)
  next
    case False
    let ?d = "show_nat (nat (u_port u))"
    have a: "authority u = ?h @ CHR '':'' # ?d"
      using False assms(3) by (simp add: authority_def show_int_def)
    have dn: "NUL \<notin> set ?d" "CHR '':'' \<notin> set ?d"
      using digits_ok[of "nat (u_port u)"] by (auto simp: list_all_iff)
    have c: "chars (authority u) = Some (authority u @ [NUL])" by (simp add: a)
    have k: "cstr (authority u @ [NUL]) = authority u"
      using h(2) dn(1) by (intro cstr_append_nul) (simp add: a)
    have ix: "string_lastIndexOf (Some (authority u @ [NUL])) (Some '':'') = int (length ?h)"
      using lastIndexOf_char[of "CHR '':''" "authority u @ [NUL]"] dn(2) assms(6) unfolding k
      by (simp add: a strrchr_append)
    have hd: "\<not> (case Some (authority u @ [NUL]) of Some (c # cs) \<Rightarrow> c = CHR ''/'' | _ \<Rightarrow> False)"
      using assms(1) h(3) by (cases ?h) (auto simp: a)
    have t: "text_set_n (Some (authority u @ [NUL])) 0 (length ?h) = Some ?h"
      using text_set_n_chars[of "length ?h" "authority u"] unfolding c by (simp add: a)
    have "text_set (Some (drop (length ?h + 1) (authority u @ [NUL]))) = ?d"
      using dn(1) by (simp add: a text_set_def c_arg_def cstr_append_nul)
    moreover have "parseInt (chars ?d) 0 = u_port u"
      using assms(3,4) parseInt_show_nat[of "nat (u_port u)" 0] by simp
    ultimately show ?thesis
      unfolding c parse_host_def Let_def ix using hd t by simp
  qed
qed

lemma parse_path_ok:
  assumes "u_path u \<noteq> []" "CHR ''?'' \<notin> set (u_path u)" "NUL \<notin> set (u_path u)"
    "CHR ''#'' \<notin> set (u_query u)" "NUL \<notin> set (u_query u)" "u_query v = []"
    "length (uri_tail u) < 2 ^ 31"
  shows "parse_path (chars (uri_tail u)) v = Some (v\<lparr>u_path := u_path u, u_query := u_query u\<rparr>)"
proof -
  let ?t = "uri_tail u"
  have c: "chars ?t = Some (?t @ [NUL])" using assms(1) by (simp add: uri_tail_def)
  have k: "cstr (?t @ [NUL]) = ?t" using assms(3,5) by (intro cstr_append_nul) (simp add: uri_tail_def)
  show ?thesis
  proof (cases "u_query u = []")
    case True
    then have t: "?t = u_path u" by (simp add: uri_tail_def)
    have "string_indexOf (Some (?t @ [NUL])) (Some ''?'') = -1"
      using assms(2,7) indexOf_char[of "CHR ''?''" "?t @ [NUL]"] unfolding k by (simp add: t)
    then show ?thesis unfolding c using True assms(6) k
      by (simp add: parse_path_def Let_def text_set_def c_arg_def t)
  next
    case False
    then have t: "?t = u_path u @ CHR ''?'' # u_query u" by (simp add: uri_tail_def)
    have ix: "string_indexOf (Some (?t @ [NUL])) (Some ''?'') = int (length (u_path u))"
      using assms(2,7) indexOf_char[of "CHR ''?''" "?t @ [NUL]"] unfolding k
      by (simp add: t takeWhile_neq_append)
    let ?q = "drop (length (u_path u) + 1) (?t @ [NUL])"
    have q: "?q = u_query u @ [NUL]" by (simp add: t)
    have kq: "cstr ?q = u_query u" unfolding q using assms(5) by (rule cstr_append_nul)
    have ix2: "string_indexOf (Some ?q) (Some ''#'') = -1"
      using assms(4,7) indexOf_char[of "CHR ''#''" ?q] unfolding kq by (simp add: t)
    have "text_set_n (Some (?t @ [NUL])) 0 (length (u_path u)) = Some (u_path u)"
      using text_set_n_chars[of "length (u_path u)" ?t] unfolding c by (simp add: t)
    moreover have "text_set (Some ?q) = u_query u" by (simp only: text_set_def c_arg_def option.case kq)
    ultimately show ?thesis
      unfolding c parse_path_def Let_def ix using ix2 by simp
  qed
qed

lemma uri_text:
  assumes "uri_wf u"
  shows "uri_toString u = u_scheme u @ ''://'' @ authority u @ uri_tail u"
    "NUL \<notin> set (u_scheme u)" "NUL \<notin> set (authority u)" "NUL \<notin> set (uri_tail u)"
proof -
  show n: "NUL \<notin> set (u_scheme u)" using assms by (auto simp: uri_wf_def host_char_def list_all_iff)
  show "NUL \<notin> set (authority u)"
    using assms digits_ok[of "nat (u_port u)"]
    by (auto simp: uri_wf_def host_char_def list_all_iff authority_def show_int_def)
  show "NUL \<notin> set (uri_tail u)" using assms by (auto simp: uri_wf_def uri_tail_def)
  show "uri_toString u = u_scheme u @ ''://'' @ authority u @ uri_tail u"
    using assms n by (auto simp: uri_wf_def uri_toString_def authority_def uri_tail_def)
qed

lemma uri_parse_print:
  assumes wf: "uri_wf u"
  shows "uri_parse (uri_toString u) = Some (None, u)"
proof -
  let ?rest = "authority u @ uri_tail u"
  note t = uri_text[OF wf]
  obtain tl where tl: "uri_tail u = CHR ''/'' # tl" "tl \<noteq> []"
    using wf by (cases "u_path u") (auto simp: uri_wf_def uri_tail_def)
  have rl: "6 < length ?rest" using wf by (simp add: uri_wf_def)
  have sc: "u_scheme u \<noteq> []" "list_all host_char (u_scheme u)" "\<not> text_equals (u_scheme u) ''file''"
    using wf t(2) by (auto simp: uri_wf_def text_equals_def)
  have colon: "\<not> c_isspace CHR '':''" by (simp add: c_isspace_def uchar_def)
  have "list_all host_char (u_host u)" "0 \<le> u_port u" using wf by (simp_all add: uri_wf_def)
  then have auth: "list_all (\<lambda>c. \<not> c_isspace c \<and> c \<noteq> CHR ''/'') (authority u)"
    using digits_ok[of "nat (u_port u)"] colon
    by (auto simp: authority_def show_int_def list_all_iff host_char_def)
  have trim: "trim_spec (uri_toString u) = uri_toString u"
  proof (rule trim_spec_id)
    show "uri_toString u \<noteq> []" using sc(1) by (simp add: t(1))
    have "host_char (hd (u_scheme u))" using sc(1,2) by (cases "u_scheme u") auto
    then show "\<not> string_isspace (hd (uri_toString u))"
      using sc(1) isspace_string by (auto simp: t(1) host_char_def)
    show "\<not> string_isspace (last (uri_toString u))" using wf tl by (simp add: t(1) uri_wf_def)
  qed
  have kt: "cstr (uri_toString u) = uri_toString u" using t by simp
  have kr: "cstr ?rest = ?rest" using t by simp
  have m1: "regexp re_scheme (uri_toString u) = (None, (u_scheme u, ?rest))"
    using re_scheme_hit[of "u_scheme u" "[]" ?rest] sc unfolding regexp_def kt by (simp add: t(1))
  have m2: "regexp re_host ?rest = (None, (authority u, tl))"
    using re_host_hit[OF auth, of "[]" tl] rl unfolding regexp_def kr by (simp add: tl(1))
  have g: "getMatchString v k w = Some w" if "2 * k < length v" for v k w
    using that by (auto simp: getMatchString_def getMatch_def text_set_n_def ptr_read_def)
  have lt: "6 < length (uri_toString u)" using rl by (simp add: t(1))
  have fsch: "parse_HP_FileScheme (u_scheme u) ?rest (authority u) (chars ?rest) (authority u) ''/'' tl =
     Some (authority u, uri_tail u)"
    using sc(3) tl rl by (simp add: parse_HP_FileScheme_def getMatch_def)
  let ?v = "uri_clear\<lparr>u_uri := uri_toString u, u_scheme := u_scheme u\<rparr>"
  have "length (authority u) < 2 ^ 31" "length (uri_tail u) < 2 ^ 31" using wf t(1) by (auto simp: uri_wf_def)
  note len = this
  have host: "parse_host (chars (authority u)) ?v = Some (?v\<lparr>u_host := u_host u, u_port := u_port u\<rparr>)"
    using wf by (intro parse_host_ok[OF _ _ _ _ _ len(1)]) (auto simp: uri_wf_def uri_clear_def)
  have path: "parse_path (chars (uri_tail u)) (?v\<lparr>u_host := u_host u, u_port := u_port u\<rparr>) =
     Some (?v\<lparr>u_host := u_host u, u_port := u_port u, u_path := u_path u, u_query := u_query u\<rparr>)"
    using wf by (intro parse_path_ok[OF _ _ _ _ _ _ len(2)]) (auto simp: uri_wf_def uri_clear_def)
  have sch: "u_scheme ?v = u_scheme u" by simp
  have "getMatchString ?rest 1 (authority u) = Some (authority u)" using rl by (intro g) simp
  then have "parse_HP ?rest (authority u, tl) (chars ?rest) ?v =
     Some (?v\<lparr>u_host := u_host u, u_port := u_port u, u_path := u_path u, u_query := u_query u\<rparr>)"
    unfolding parse_HP_def fst_conv snd_conv sch by (simp only: fsch host path bind.bind_lunit prod.case)
  moreover have "text_set (chars ?rest) = ?rest" using t(3,4) by (intro text_set_chars) simp
  ultimately have hp: "parseHostAndPath (chars ?rest) ?v =
     Some (None, ?v\<lparr>u_host := u_host u, u_port := u_port u, u_path := u_path u, u_query := u_query u\<rparr>)"
    unfolding parseHostAndPath_def Let_def by (simp only: m2 prod.case if_False bind.bind_lunit simp_thms if_True not_False_eq_True)
  have "?v\<lparr>u_host := u_host u, u_port := u_port u, u_path := u_path u, u_query := u_query u\<rparr> = u"
    using wf by (simp add: uri_wf_def uri_clear_def)
  note v = this
  have e: "getMatchString (uri_toString u) 1 (u_scheme u) = Some (u_scheme u)"
    "getMatchString (uri_toString u) 2 ?rest = Some ?rest"
    using lt by (intro g, simp)+
  have "uri_toString u \<noteq> []" using lt by auto
  then show ?thesis
    unfolding uri_parse_def Let_def trim m1 prod.case option.case e
    by (simp only: if_False e bind.bind_lunit hp v)
qed

section \<open>Properties\<close>

text \<open>C15. Printing a well-formed URI (with or without a port and a query) and parsing the text
  succeeds and gives the URI back, field by field.\<close>

theorem uri_print_parse:
  assumes "uri_wf u"
  shows "uri_parse (uri_toString u) = Some (None, u)"
  by (rule uri_parse_print[OF assms])

definition sample_uri :: uri where
  "sample_uri = \<lparr>u_uri = ''http://www.a.org:8080/b/c?d=1'', u_scheme = ''http'', u_user = [], u_pass = [],
     u_host = ''www.a.org'', u_port = 8080, u_path = ''/b/c'', u_query = ''d=1'', u_fragment = []\<rparr>"

lemma sample_uri_wf: "uri_wf sample_uri"
proof -
  have "char_of (48 :: nat) = CHR ''0''" "char_of (56 :: nat) = CHR ''8''" by code_simp+
  then have "show_int 8080 = ''8080''" by (simp add: show_int_def show_nat.simps)
  moreover have "list_all host_char ''http''" "list_all host_char ''www.a.org''" "\<not> strcaseeq ''file'' ''http''"
    by (simp_all add: host_char_def c_isspace_def uchar_def strcaseeq_def c_tolower_def c_isupper_def)
  ultimately show ?thesis
    by (simp add: uri_wf_def sample_uri_def uri_toString_def authority_def uri_tail_def string_isspace_def)
qed

theorem uri_print_parse_witness:
  "uri_parse (uri_toString sample_uri) = Some (None, sample_uri)"
  by (rule uri_print_parse[OF sample_uri_wf])

text \<open>A URI with a scheme other than \<open>file\<close> whose host, slash and path together have at most six
  characters makes the parser copy from an invalid pointer: \<open>getMatch\<close> answers NULL for the third
  group of such a text.\<close>

theorem short_uri_faults:
  assumes "s \<noteq> []" "list_all host_char s" "\<not> strcaseeq ''file'' s" "h \<noteq> []" "list_all host_char h"
    "p \<noteq> []" "NUL \<notin> set p" "\<not> string_isspace (last p)" "length (h @ ''/'' @ p) \<le> 6"
  shows "uri_parse (s @ ''://'' @ h @ ''/'' @ p) = None"
proof -
  let ?rest = "h @ ''/'' @ p" and ?t = "s @ ''://'' @ h @ ''/'' @ p"
  have n: "NUL \<notin> set s" "NUL \<notin> set h" using assms(2,5) by (auto simp: list_all_iff host_char_def)
  have k: "cstr ?t = ?t" "cstr ?rest = ?rest" using n assms(7) by simp_all
  have trim: "trim_spec ?t = ?t"
  proof (rule trim_spec_id)
    have "host_char (hd s)" using assms(1,2) by (cases s) auto
    then show "\<not> string_isspace (hd ?t)" using assms(1) isspace_string by (auto simp: host_char_def)
    show "\<not> string_isspace (last ?t)" using assms(6,8) by simp
  qed (use assms(1) in simp)
  have m1: "regexp re_scheme ?t = (None, (s, ?rest))"
    using re_scheme_hit[of s "[]" ?rest] assms(1,2) unfolding regexp_def k(1) by simp
  have "list_all (\<lambda>c. \<not> c_isspace c \<and> c \<noteq> CHR ''/'') h" using assms(5) by (auto simp: list_all_iff host_char_def)
  from re_host_hit[OF this, of "[]" p] have m2: "regexp re_host ?rest = (None, (h, p))"
    unfolding regexp_def k(2) by simp
  have nofile: "\<not> text_equals s ''file''" using assms(1,3) n(1) by (simp add: text_equals_def)
  have "getMatch ?rest 3 p = None" using assms(9) by (simp add: getMatch_def)
  then have fs: "parse_HP_FileScheme s ?rest h q h ''/'' p = None" for q
    unfolding parse_HP_FileScheme_def using nofile assms(6) by simp
  let ?v = "uri_clear\<lparr>u_uri := ?t, u_scheme := s\<rparr>"
  have "parse_HP ?rest (h, p) q ?v = None" for q
  proof (cases "getMatchString ?rest 1 h")
    case (Some x)
    then have "x = h" by (auto simp: getMatchString_def getMatch_def text_set_n_def ptr_read_def split: if_splits)
    with Some fs show ?thesis by (simp add: parse_HP_def)
  qed (simp add: parse_HP_def)
  moreover have "text_set (chars ?rest) = ?rest" using n(2) assms(7) by (intro text_set_chars) simp
  ultimately have hp: "parseHostAndPath (chars ?rest) ?v = None"
    unfolding parseHostAndPath_def Let_def by (simp only: m2 prod.case if_False bind.simps simp_thms if_True not_False_eq_True)
  have "getMatchString ?t 1 s = Some s" "getMatchString ?t 2 ?rest = Some ?rest"
    using assms(1,4,6) by (auto simp: getMatchString_def getMatch_def text_set_n_def ptr_read_def Suc_le_eq numeral_eq_Suc neq_Nil_conv)
  with hp assms(1) show ?thesis
    unfolding uri_parse_def Let_def trim m1 by simp
qed

theorem short_uri_faults_witness: "uri_parse ''http://a.b/c'' = None"
  using short_uri_faults[of "''http''" "''a.b''" "''c''"]
  by (simp add: host_char_def c_isspace_def uchar_def strcaseeq_def c_tolower_def c_isupper_def string_isspace_def)

text \<open>With a query and a fragment the stored fragment is not the fragment: it is the first
  \<open>2 * |query| + 1\<close> characters from the query on, and when the fragment is shorter than the query
  by two or more the copy leaves the buffer.\<close>

theorem fragment_is_misread:
  assumes "CHR ''?'' \<notin> set p" "CHR ''#'' \<notin> set q" "NUL \<notin> set (p @ q @ f)"
    "length (p @ ''?'' @ q @ ''#'' @ f) < 2 ^ 31"
  shows "parse_path (chars (p @ ''?'' @ q @ ''#'' @ f)) v =
     (if length q \<le> length f + 1
      then Some (v\<lparr>u_path := p, u_query := q, u_fragment := take (2 * length q + 1) (q @ ''#'' @ f @ [NUL])\<rparr>)
      else None)"
proof -
  let ?t = "p @ ''?'' @ q @ ''#'' @ f"
  define T where "T = ?t @ [NUL]"
  define Q where "Q = q @ ''#'' @ f @ [NUL]"
  have c: "chars ?t = Some T" by (simp add: T_def)
  have "cstr T = ?t" unfolding T_def using assms(3) by (intro cstr_append_nul) simp
  then have ix: "string_indexOf (Some T) (Some ''?'') = int (length p)"
    using assms(1,4) indexOf_char[of "CHR ''?''" T] by (simp add: takeWhile_neq_append)
  have d: "drop (length p + 1) T = Q" by (simp add: T_def Q_def)
  have "cstr ((q @ ''#'' @ f) @ [NUL]) = q @ ''#'' @ f" using assms(3) by (intro cstr_append_nul) simp
  then have "cstr Q = q @ ''#'' @ f" by (simp add: Q_def)
  then have ix2: "string_indexOf (Some Q) (Some ''#'') = int (length q)"
    using assms(2,4) indexOf_char[of "CHR ''#''" Q] by (simp add: takeWhile_neq_append)
  have t1: "text_set_n (Some T) 0 (length p) = Some p" by (simp add: text_set_n_def ptr_read_def T_def)
  have t2: "text_set_n (Some Q) 0 (length q) = Some q" by (simp add: text_set_n_def ptr_read_def Q_def)
  have lQ: "length Q = length q + length f + 2" by (simp add: Q_def)
  have t3: "text_set_n (Some Q) 0 (2 * length q + 1) =
     (if length q \<le> length f + 1 then Some (take (2 * length q + 1) Q) else None)"
    by (auto simp: text_set_n_def ptr_read_def lQ)
  have n: "nat (int (length p)) = length p" "nat (int (length q)) = length q"
    "nat (int (length q) + int (length q) + 1) = 2 * length q + 1" by simp_all
  have ne: "int (length p) \<noteq> -1" "int (length q) \<noteq> -1"
    "\<not> int (length p) < 0" "\<not> int (length q) < 0" by linarith+
  show ?thesis
    unfolding c parse_path_def Let_def ix n option.map d ix2 t1 t2 t3 if_not_P[OF ne(1)] if_not_P[OF ne(2)] if_not_P[OF ne(3)] if_not_P[OF ne(4)]
    by (simp add: Q_def)
qed

theorem fragment_is_misread_witness:
  "parse_path (chars (''/p'' @ ''?'' @ ''q=1'' @ ''#'' @ ''frag'')) uri_clear =
     Some (uri_clear\<lparr>u_path := ''/p'', u_query := ''q=1'', u_fragment := ''q=1#fra''\<rparr>)"
proof -
  have len: "length (''/p'' @ ''?'' @ ''q=1'' @ ''#'' @ ''frag'') < 2 ^ 31" by simp
  show ?thesis using fragment_is_misread[OF _ _ _ len, of uri_clear] by (simp add: numeral_eq_Suc)
qed



text \<open>\<open>FileInfo\<close> loses nothing of a path below \<open>2 ^ 31\<close> characters: directory, slash and file name give
  the path back (or there is no directory), name, dot and extension give the file name back (or one
  of them is empty), and the extension starts behind the last dot.\<close>

theorem file_info_recombines:
  assumes "length (cstr mem) < 2 ^ 31"
  shows "\<exists>f. file_parse (Some mem) = Some f \<and>
   (f_sDirname f = [] \<and> f_sFilename f = cstr mem \<or> f_sDirname f @ ''/'' @ f_sFilename f = cstr mem) \<and>
   (f_sExtension f = [] \<and> f_sName f = f_sFilename f \<or> f_sName f = [] \<and> f_sExtension f = f_sFilename f \<or>
    f_sName f @ ''.'' @ f_sExtension f = f_sFilename f \<and> CHR ''.'' \<notin> set (f_sExtension f))"
  by (rule file_parse_splits[OF assms])

text \<open>The comparison operators of \<open>URI\<close> are not the order the sorted containers rely on: two URIs
  can each be less than the other, because the fields are compared one by one.\<close>

theorem uri_operators_are_no_order:
  "\<not> dfw_order uri_ops \<and>
   op_lt uri_ops (uri_clear\<lparr>u_scheme := ''a'', u_host := ''b''\<rparr>) (uri_clear\<lparr>u_scheme := ''b'', u_host := ''a''\<rparr>) \<and>
   op_lt uri_ops (uri_clear\<lparr>u_scheme := ''b'', u_host := ''a''\<rparr>) (uri_clear\<lparr>u_scheme := ''a'', u_host := ''b''\<rparr>)"
proof -
  let ?a = "uri_clear\<lparr>u_scheme := ''a'', u_host := ''b''\<rparr>" and ?b = "uri_clear\<lparr>u_scheme := ''b'', u_host := ''a''\<rparr>"
  have "op_lt str_ops ''a'' ''b''" "\<not> op_lt str_ops ''b'' ''a''"
    by (simp_all add: str_ops_def str_ge_def schar_def)
  then have lt: "op_lt uri_ops ?a ?b" "op_lt uri_ops ?b ?a" by (simp_all add: uri_ops_def uri_ge_def uri_clear_def)
  moreover have "\<not> dfw_order uri_ops"
    using lt dfw_order.lt_iff[of uri_ops] dfw_order.lt_ge[of uri_ops] dfw_order.ge_le[of uri_ops] by blast
  ultimately show ?thesis by blast
qed

end
