(* ===== verification/Dfw_Time.thy ===== *)
theory Dfw_Time
  imports Dfw_Text Dfw_Retval
begin

text \<open>
  Calendar time: the class \<open>Time\<close> of \<open>lib/util/Time.cpp\<close> (its broken-down fields and the printer
  \<open>getDateStringRfc822\<close>) and the date parser of \<open>lib/httpd/HttpdUtil.cpp\<close> (\<open>isDateMask\<close>,
  \<open>expget\<close>, \<open>parseToTime\<close>).  The C library's \<open>gmtime_r\<close>, \<open>localtime_r\<close> and the current time are
  parameters.  The reference counts days year by year and month by month.
\<close>

unbundle bit_operations_syntax

section \<open>The class Time\<close>

record tm =
  tm_sec :: int
  tm_min :: int
  tm_hour :: int
  tm_mday :: int
  tm_mon :: int
  tm_year :: int
  tm_wday :: int
  tm_yday :: int
  tm_isdst :: int
  tm_gmtoff :: int
  tm_zone :: string

record dtime = tm +
  t_timestamp :: int
  t_type :: int

abbreviation (input) DFW_TIMETYPE_LOCAL :: int where "DFW_TIMETYPE_LOCAL \<equiv> 1"
abbreviation (input) DFW_TIMETYPE_GM :: int where "DFW_TIMETYPE_GM \<equiv> 2"

text \<open>The copy of a \<open>struct tm\<close> into the members; timestamp and type are stored before.\<close>

definition time_fields :: "int \<Rightarrow> int \<Rightarrow> tm \<Rightarrow> dtime" where
  "time_fields t type x =
     \<lparr>tm_sec = tm_sec x, tm_min = tm_min x, tm_hour = tm_hour x, tm_mday = tm_mday x, tm_mon = tm_mon x,
      tm_year = tm_year x, tm_wday = tm_wday x, tm_yday = tm_yday x, tm_isdst = tm_isdst x,
      tm_gmtoff = tm_gmtoff x, tm_zone = tm_zone x, t_timestamp = t, t_type = type\<rparr>"

definition time_get :: "(int \<Rightarrow> tm) \<Rightarrow> (int \<Rightarrow> tm) \<Rightarrow> int \<Rightarrow> int \<Rightarrow> int \<Rightarrow> dtime \<Rightarrow> rv \<times> dtime" where
  "time_get gmtime localtime now t type self =
     (let rt = (if t = 0 then now else t) in
      if type = DFW_TIMETYPE_GM then (None, time_fields t type (gmtime rt))
      else if type = DFW_TIMETYPE_LOCAL then (None, time_fields t type (localtime rt))
      else (Some (DFW_ERROR, 0), self\<lparr>t_timestamp := t, t_type := type\<rparr>))"

text \<open>\<open>Time ds;\<close> and \<open>Time tm; tm.get(t);\<close>: local time.\<close>

definition time_local :: "(int \<Rightarrow> tm) \<Rightarrow> int \<Rightarrow> int \<Rightarrow> dtime" where
  "time_local localtime now t =
     time_fields t DFW_TIMETYPE_LOCAL (localtime (if t = 0 then now else t))"

definition getGmtOffsetHour :: "dtime \<Rightarrow> int" where
  "getGmtOffsetHour x = to_int32 (cdiv (cdiv (tm_gmtoff x) 60) 60)"

definition getGmtOffsetMin :: "dtime \<Rightarrow> int" where
  "getGmtOffsetMin x = to_int32 (crem (cdiv (tm_gmtoff x) 60) 60)"

definition WEEK_DAYS :: "string list" where
  "WEEK_DAYS = [''Sun'', ''Mon'', ''Tue'', ''Wed'', ''Thu'', ''Fri'', ''Sat'']"

definition SHORT_MONTHS :: "string list" where
  "SHORT_MONTHS = [''Jan'', ''Feb'', ''Mar'', ''Apr'', ''May'', ''Jun'',
                   ''Jul'', ''Aug'', ''Sep'', ''Oct'', ''Nov'', ''Dec'']"

definition table :: "string list \<Rightarrow> int \<Rightarrow> string option" where
  "table t i = (if 0 \<le> i \<and> nat i < length t then Some (t ! nat i) else None)"

text \<open>\<open>n + '0'\<close> stored in a \<open>char\<close>.\<close>

definition digit_char :: "int \<Rightarrow> char" where
  "digit_char n = char_of (nat ((n + 48) mod 256))"

definition two_digits :: "int \<Rightarrow> string" where
  "two_digits n = [digit_char (cdiv n 10), digit_char (crem n 10)]"

definition getDateStringRfc822 :: "(int \<Rightarrow> tm) \<Rightarrow> int \<Rightarrow> int \<Rightarrow> string option" where
  "getDateStringRfc822 localtime now t =
     (let x = time_local localtime now t; real_year = 1900 + tm_year x in
      do { wd \<leftarrow> table WEEK_DAYS (tm_wday x);
           mo \<leftarrow> table SHORT_MONTHS (tm_mon x);
           let local_str =
             wd @ '', '' @ two_digits (tm_mday x) @ '' '' @ mo @ '' '' @
             [digit_char (cdiv real_year 1000), digit_char (cdiv (crem real_year 1000) 100),
              digit_char (cdiv (crem real_year 100) 10), digit_char (crem real_year 10)] @ '' '' @
             two_digits (tm_hour x) @ '':'' @ two_digits (tm_min x) @ '':'' @ two_digits (tm_sec x) @
             '' GMT'' @ [NUL];
           Some (cstr local_str) })"

section \<open>HttpdUtil::isDateMask\<close>

text \<open>Both texts are memory with the terminating NUL; the loop ends after 256 characters.\<close>

fun date_mask_loop :: "nat \<Rightarrow> string \<Rightarrow> string \<Rightarrow> bool option" where
  "date_mask_loop 0 data msk = Some False"
| "date_mask_loop (Suc n) (d # data) (m # msk) =
     (if m = NUL then Some (d = NUL)
      else if m = CHR ''*'' then Some True
      else if m = CHR ''@'' then (if \<not> c_isupper d then Some False else date_mask_loop n data msk)
      else if m = CHR ''$'' then (if \<not> c_islower d then Some False else date_mask_loop n data msk)
      else if m = CHR ''#'' then (if \<not> c_isdigit d then Some False else date_mask_loop n data msk)
      else if m = CHR ''&'' then (if \<not> c_isxdigit d then Some False else date_mask_loop n data msk)
      else if m = CHR ''~'' then
        (if d \<noteq> SPC \<and> \<not> c_isdigit d then Some False else date_mask_loop n data msk)
      else if m \<noteq> d then Some False else date_mask_loop n data msk)"
| "date_mask_loop (Suc n) _ _ = None"

definition isDateMask :: "string \<Rightarrow> string \<Rightarrow> bool option" where
  "isDateMask data msk = date_mask_loop 256 data msk"

section \<open>HttpdUtil::expget\<close>

definition dayoffset :: "int list" where
  "dayoffset = [306, 337, 0, 31, 61, 92, 122, 153, 184, 214, 245, 275]"

text \<open>
  The sums are computed in 32 bits; overflow wraps (two's complement).  The divisions only see
  the year.
\<close>

definition expget :: "int \<Rightarrow> dtime \<Rightarrow> (rv \<times> int) option" where
  "expget t xt =
     (if \<not> (0 \<le> tm_mon xt \<and> tm_mon xt < 12) then None
      else let year = (if tm_mon xt < 2 then tm_year xt - 1 else tm_year xt);
        days = year * 365 + cdiv year 4 - cdiv year 100 + cdiv (cdiv year 100 + 3) 4;
        days1 = days + dayoffset ! nat (tm_mon xt) + tm_mday xt - 1;
        days2 = to_int32 (days1 - 25508);
        secs = to_int32 ((((days2 * 24 + tm_hour xt - getGmtOffsetHour xt) * 60)
                 + tm_min xt - getGmtOffsetMin xt) * 60 + tm_sec xt)
      in if secs < 0 then Some (Some (DFW_E_INVAL, 22), t) else Some (None, secs))"

section \<open>HttpdUtil::parseToTime\<close>

definition dg :: "string \<Rightarrow> nat \<Rightarrow> int" where
  "dg date i = schar (date ! i) - 48"

text \<open>
  The four formats.  The answer is the time with year and day set and the offsets of the month's
  name and of the clock time, or \<open>Some None\<close> for an error.
\<close>

definition date_format :: "string \<Rightarrow> dtime \<Rightarrow> (dtime \<times> nat \<times> nat) option option" where
  "date_format date ds =
     do { rfc1123 \<leftarrow> isDateMask date (''## @$$ #### ##:##:## *'' @ [NUL]);
     if rfc1123 then
       (let year = ((dg date 7 * 10) + dg date 8 - 19) * 100 in
        Some (if year < 0 then None
              else Some (ds\<lparr>tm_year := year + (dg date 9 * 10 + dg date 10),
                            tm_mday := dg date 0 * 10 + dg date 1\<rparr>, 3, 12)))
     else do { rfc850 \<leftarrow> isDateMask date (''##-@$$-## ##:##:## *'' @ [NUL]);
     if rfc850 then
       (let year = dg date 7 * 10 + dg date 8 in
        Some (Some (ds\<lparr>tm_year := (if year < 70 then year + 100 else year),
                       tm_mday := dg date 0 * 10 + dg date 1\<rparr>, 3, 10)))
     else do { asc \<leftarrow> isDateMask date (''@$$ ~# ##:##:## ####*'' @ [NUL]);
     if asc then
       (let year = (dg date 16 * 10 + dg date 17 - 19) * 100 in
        Some (if year < 0 then None
              else Some (ds\<lparr>tm_year := year + dg date 18 * 10 + dg date 19,
                            tm_mday := (if date ! 4 = SPC then 0 else dg date 4 * 10) + dg date 5\<rparr>, 0, 7)))
     else do { one \<leftarrow> isDateMask date (''# @$$ #### ##:##:## *'' @ [NUL]);
     if one then
       (let year = (dg date 6 * 10 + dg date 7 - 19) * 100 in
        Some (if year < 0 then None
              else Some (ds\<lparr>tm_year := year + dg date 8 * 10 + dg date 9, tm_mday := dg date 0\<rparr>, 2, 11)))
     else Some None }}}}"

definition mint :: "string \<Rightarrow> int" where
  "mint s = (push_bit 16 (schar (s ! 0)) OR push_bit 8 (schar (s ! 1))) OR schar (s ! 2)"

fun month_loop :: "int \<Rightarrow> string list \<Rightarrow> int \<Rightarrow> int" where
  "month_loop m [] mon = mon"
| "month_loop m (n # ns) mon = (if m = mint n then mon else month_loop m ns (mon + 1))"

text \<open>The checks behind the formats, on the text, the time so far and the two offsets.\<close>

definition date_checks :: "string \<Rightarrow> dtime \<Rightarrow> nat \<Rightarrow> nat \<Rightarrow> dtime option" where
  "date_checks date ds monstr timstr =
     (if tm_mday ds \<le> 0 \<or> tm_mday ds > 31 then None
      else let ds = ds\<lparr>tm_hour := dg date timstr * 10 + dg date (timstr + 1),
                       tm_min := dg date (timstr + 3) * 10 + dg date (timstr + 4),
                       tm_sec := dg date (timstr + 6) * 10 + dg date (timstr + 7)\<rparr> in
      if tm_hour ds > 23 \<or> tm_min ds > 59 \<or> tm_sec ds > 61 then None
      else let mon = month_loop (mint (drop monstr date)) SHORT_MONTHS 0 in
      if mon = 12 then None
      else if tm_mday ds = 31 \<and> (mon = 3 \<or> mon = 5 \<or> mon = 8 \<or> mon = 10) then None
      else if mon = 1 \<and> (tm_mday ds > 29 \<or>
             (tm_mday ds = 29 \<and> (tm_year ds AND 3 \<noteq> 0 \<or>
                (crem (tm_year ds) 100 = 0 \<and> crem (tm_year ds) 400 \<noteq> 100)))) then None
      else Some (ds\<lparr>tm_mon := mon\<rparr>))"

definition parseToTime :: "(int \<Rightarrow> tm) \<Rightarrow> int \<Rightarrow> int \<Rightarrow> string option \<Rightarrow> (rv \<times> int) option" where
  "parseToTime localtime now out date0 =
     (case date0 of
        None \<Rightarrow> Some (Some (DFW_E_INVAL, 22), out)
      | Some mem \<Rightarrow>
         (let date1 = dropWhile c_isspace mem in
          if cstr date1 = [] then Some (Some (DFW_E_INVAL, 22), out)
          else case strstr (cstr date1) [SPC] of
            None \<Rightarrow> Some (Some (DFW_E_INVAL, 22), out)
          | Some sp \<Rightarrow>
             (let date = drop (sp + 1) date1 in
              do { f \<leftarrow> date_format date (time_local localtime now 0);
                   case f of
                     None \<Rightarrow> Some (Some (DFW_ERROR, 22), out)
                   | Some (ds, monstr, timstr) \<Rightarrow>
                       (case date_checks date ds monstr timstr of
                          None \<Rightarrow> Some (Some (DFW_ERROR, 22), out)
                        | Some ds' \<Rightarrow>
                            do { r \<leftarrow> expget 0 ds';
                                 Some (case r of (None, result) \<Rightarrow> (None, result)
                                       | (Some e, _) \<Rightarrow> (Some e, out)) }) })))"

end
