(* ===== verification/Dfw_Time_Spec.thy ===== *)
theory Dfw_Time_Spec
  imports Dfw_Time
begin

text \<open>
  The calendar arithmetic of \<open>expget\<close> against a reference that counts the days year by year and
  month by month, and the date printer against the date parser.
\<close>

section \<open>The reference calendar\<close>

definition leap :: "int \<Rightarrow> bool" where
  "leap y \<longleftrightarrow> y mod 4 = 0 \<and> (y mod 100 \<noteq> 0 \<or> y mod 400 = 0)"

definition year_days :: "int \<Rightarrow> int" where
  "year_days y = (if leap y then 366 else 365)"

definition month_days :: "int \<Rightarrow> int \<Rightarrow> int" where
  "month_days y m = (if m = 1 then (if leap y then 29 else 28)
                     else if m = 3 \<or> m = 5 \<or> m = 8 \<or> m = 10 then 30 else 31)"

text \<open>Days since 1 January 1970.\<close>

definition days_ref :: "int \<Rightarrow> int \<Rightarrow> int \<Rightarrow> int" where
  "days_ref y m d = sum_list (map year_days [1970..y - 1]) + sum_list (map (month_days y) [0..m - 1]) + (d - 1)"

definition epoch_ref :: "'a tm_scheme \<Rightarrow> int" where
  "epoch_ref x = ((days_ref (1900 + tm_year x) (tm_mon x) (tm_mday x) * 24 + tm_hour x) * 60 + tm_min x) * 60 + tm_sec x"

definition valid_tm :: "'a tm_scheme \<Rightarrow> bool" where
  "valid_tm x \<longleftrightarrow> 70 \<le> tm_year x \<and> tm_year x < 8100 \<and> 0 \<le> tm_mon x \<and> tm_mon x < 12 \<and>
     1 \<le> tm_mday x \<and> tm_mday x \<le> month_days (1900 + tm_year x) (tm_mon x) \<and>
     0 \<le> tm_hour x \<and> tm_hour x < 24 \<and> 0 \<le> tm_min x \<and> tm_min x < 60 \<and> 0 \<le> tm_sec x \<and> tm_sec x < 60 \<and>
     0 \<le> tm_wday x \<and> tm_wday x < 7"

section \<open>The day formula\<close>

definition march_days :: "int \<Rightarrow> int" where
  "march_days y = y * 365 + y div 4 - y div 100 + (y div 100 + 3) div 4"

lemma div_pred: "(k::int) > 0 \<Longrightarrow> y div k = (y - 1) div k + (if k dvd y then 1 else 0)"
proof -
  assume k: "k > 0"
  show ?thesis
  proof (cases "k dvd y")
    case True
    then obtain q where q: "y = k * q" by blast
    have "(k * q - 1) div k = q - 1"
      using k by (intro div_pos_pos_trivial int_div_pos_eq[where r = "k - 1"]) (auto simp: algebra_simps)
    then show ?thesis using q k by simp
  next
    case False
    then have "0 < y mod k" using k by (metis dvd_imp_mod_0 mod_0_imp_dvd order_le_less pos_mod_sign)
    moreover have "y = k * (y div k) + y mod k" by simp
    ultimately have "(y - 1) div k = y div k"
      using k by (intro int_div_pos_eq[where r = "y mod k - 1"]) (use pos_mod_bound[OF k, of y] in \<open>auto simp: algebra_simps\<close>)
    then show ?thesis using False by simp
  qed
qed

lemma march_days_step: "march_days y = march_days (y - 1) + year_days (1900 + y)"
proof -
  have c: "(z div 100 + 3) div 4 = (z + 300) div 400" for z :: int
    using zdiv_zmult2_eq[of 4 "z + 300" 100] by simp
  have m: "(1900 + y) mod 400 = (y + 300) mod 400" "(1900 + y) mod 4 = y mod 4" "(1900 + y) mod 100 = y mod 100"
    using mod_mult_self1[of "y + 300" 4 400] mod_mult_self1[of y 475 4] mod_mult_self1[of y 19 100]
    by (simp_all only: mult_numeral_left_semiring_numeral arith_simps add.assoc add.commute[of 1900])
  have d: "400 dvd y + 300 \<longleftrightarrow> (1900 + y) mod 400 = 0" "4 dvd y \<longleftrightarrow> (1900 + y) mod 4 = 0"
    "100 dvd y \<longleftrightarrow> (1900 + y) mod 100 = 0"
    by (simp_all only: m dvd_eq_mod_eq_0)
  have q: "100 dvd y" if "400 dvd y + 300"
  proof -
    have "100 dvd y + 300" using that by (rule dvd_trans[rotated]) simp
    then show ?thesis by (simp add: dvd_add_left_iff)
  qed
  have q4: "4 dvd y" if "100 dvd y" using that by (rule dvd_trans[rotated]) simp
  have e: "y + 300 - 1 = y - 1 + 300" by simp
  have f: "y div 4 = (y - 1) div 4 + (if 4 dvd y then 1 else 0)"
    "y div 100 = (y - 1) div 100 + (if 100 dvd y then 1 else 0)"
    "(y + 300) div 400 = (y - 1 + 300) div 400 + (if 400 dvd y + 300 then 1 else 0)"
    using div_pred[of 4 y] div_pred[of 100 y] div_pred[of 400 "y + 300"] unfolding e by simp_all
  have "\<not> 4 dvd y \<and> \<not> 100 dvd y \<and> \<not> 400 dvd y + 300 \<or> 4 dvd y \<and> \<not> 100 dvd y \<and> \<not> 400 dvd y + 300 \<or>
    4 dvd y \<and> 100 dvd y \<and> \<not> 400 dvd y + 300 \<or> 4 dvd y \<and> 100 dvd y \<and> 400 dvd y + 300"
    using q q4 by blast
  then show ?thesis
    unfolding march_days_def c year_days_def leap_def d[symmetric]
    unfolding f
    by (elim disjE conjE; simp)
qed

lemma new_year_days: "sum_list (map year_days [1970..1969 + int n]) = march_days (69 + int n) + 306 - 25508"
proof (induction n)
  case 0
  show ?case by (simp add: march_days_def)
next
  case (Suc n)
  have "[1970..1969 + int (Suc n)] = [1970..1969 + int n] @ [1970 + int n]"
    by (simp add: upto_rec2)
  moreover have "march_days (69 + int (Suc n)) = march_days (69 + int n) + year_days (1970 + int n)"
    using march_days_step[of "70 + int n"] by simp
  ultimately show ?case using Suc by simp
qed

lemma year_sum:
  assumes "70 \<le> y"
  shows "sum_list (map year_days [1970..1900 + y - 1]) = march_days (y - 1) + 306 - 25508"
proof -
  have "1969 + int (nat (y - 70)) = 1900 + y - 1" "69 + int (nat (y - 70)) = y - 1" using assms by simp_all
  with new_year_days[of "nat (y - 70)"] show ?thesis by metis
qed

lemma month_cases:
  assumes "0 \<le> (m::int)" "m < 12"
  obtains "m = 0" | "m = 1" | "m = 2" | "m = 3" | "m = 4" | "m = 5" | "m = 6" | "m = 7" | "m = 8" | "m = 9"
    | "m = 10" | "m = 11"
proof -
  have "m = 0 \<or> m = 1 \<or> m = 2 \<or> m = 3 \<or> m = 4 \<or> m = 5 \<or> m = 6 \<or> m = 7 \<or> m = 8 \<or> m = 9 \<or> m = 10 \<or> m = 11"
    using assms by arith
  then show ?thesis using that by blast
qed

lemma month_sum:
  assumes "0 \<le> m" "m < 12"
  shows "sum_list (map (month_days y) [0..m - 1]) =
    (if m < 2 then dayoffset ! nat m - 306 else dayoffset ! nat m + year_days y - 306)"
  using assms
  by (cases rule: month_cases) (simp_all add: upto.simps month_days_def dayoffset_def year_days_def)

lemma days_formula:
  assumes "70 \<le> y" "0 \<le> m" "m < 12"
  shows "march_days (if m < 2 then y - 1 else y) + dayoffset ! nat m + d - 1 - 25508 = days_ref (1900 + y) m d"
  using assms year_sum[of y] month_sum[of m "1900 + y"] march_days_step[of y]
  by (simp add: days_ref_def)

lemma march_days_code: "0 \<le> y \<Longrightarrow>
  y * 365 + cdiv y 4 - cdiv y 100 + cdiv (cdiv y 100 + 3) 4 = march_days y"
  by (simp add: march_days_def)

lemma days_ref_bounds:
  assumes "70 \<le> y" "y < 8100" "0 \<le> m" "m < 12" "1 \<le> d" "d \<le> 31"
  shows "0 \<le> days_ref (1900 + y) m d \<and> days_ref (1900 + y) m d < 2 ^ 31"
proof -
  let ?y = "if m < 2 then y - 1 else y"
  have "0 \<le> sum_list (map year_days xs)" "0 \<le> sum_list (map (month_days z) xs)" for xs z
    by (induction xs) (simp_all add: year_days_def month_days_def)
  then have "0 \<le> days_ref (1900 + y) m d" using assms by (simp add: days_ref_def)
  moreover have "march_days z \<le> z * 367 + 1" if "0 \<le> z" for z
    unfolding march_days_def using that by linarith
  then have "march_days ?y \<le> ?y * 367 + 1" using assms by simp
  moreover have "dayoffset ! nat m \<le> 337"
    using assms(3,4) by (cases rule: month_cases) (simp_all add: dayoffset_def)
  ultimately show ?thesis using days_formula[OF assms(1,3,4), of d] assms by (simp split: if_splits)
qed

section \<open>expget\<close>

lemma cdiv_bounds: "0 < b \<Longrightarrow> \<bar>b * cdiv a b\<bar> \<le> \<bar>a\<bar>" "0 < b \<Longrightarrow> \<bar>crem a b\<bar> < b"
proof -
  assume b: "0 < b"
  have m: "0 \<le> z mod b" "z mod b < b" "b * (z div b) = z - z mod b" for z
    using b by (simp_all add: minus_mod_eq_mult_div)
  have d: "0 \<le> z \<Longrightarrow> 0 \<le> b * (z div b)" for z
    using b by (simp add: pos_imp_zdiv_nonneg_iff)
  show "\<bar>b * cdiv a b\<bar> \<le> \<bar>a\<bar>"
    using m[of a] m[of "- a"] d[of a] d[of "- a"] by (auto simp: cdiv_def)
  show "\<bar>crem a b\<bar> < b"
    using m[of a] m[of "- a"] by (auto simp: crem_def cdiv_def)
qed

text \<open>The offset the parser subtracts, in seconds: the local one, whole minutes.\<close>

definition offset_secs :: "'a tm_scheme \<Rightarrow> int" where
  "offset_secs x = 60 * cdiv (tm_gmtoff x) 60"

lemma gmt_offset_secs:
  assumes "\<bar>tm_gmtoff x\<bar> \<le> 86400"
  shows "getGmtOffsetHour x * 3600 + getGmtOffsetMin x * 60 = offset_secs x"
proof -
  let ?a = "cdiv (tm_gmtoff x) 60"
  have "\<bar>60 * ?a\<bar> \<le> 86400" "\<bar>60 * cdiv ?a 60\<bar> \<le> \<bar>?a\<bar>" "\<bar>crem ?a 60\<bar> < 60"
    using cdiv_bounds(1)[of 60 "tm_gmtoff x"] cdiv_bounds[of 60 ?a] assms by simp_all
  then have "\<bar>cdiv ?a 60\<bar> \<le> 1440" "\<bar>crem ?a 60\<bar> \<le> 60" by linarith+
  then have "to_int32 (cdiv ?a 60) = cdiv ?a 60" "to_int32 (crem ?a 60) = crem ?a 60"
    by (simp_all add: to_int32_id abs_le_iff)
  then show ?thesis
    by (simp add: getGmtOffsetHour_def getGmtOffsetMin_def offset_secs_def crem_def)
qed

lemma expget_ref:
  assumes y: "70 \<le> tm_year x" "tm_year x < 8100" and m: "0 \<le> tm_mon x" "tm_mon x < 12"
    and d: "1 \<le> tm_mday x" "tm_mday x \<le> 31" and off: "\<bar>tm_gmtoff x\<bar> \<le> 86400"
  shows "expget t x =
    (let secs = to_int32 (epoch_ref x - offset_secs x)
     in if secs < 0 then Some (Some (DFW_E_INVAL, 22), t) else Some (None, secs))"
proof -
  let ?y = "if tm_mon x < 2 then tm_year x - 1 else tm_year x"
  let ?n = "days_ref (1900 + tm_year x) (tm_mon x) (tm_mday x)"
  have "0 \<le> ?y" using y by simp
  from march_days_code[OF this] days_formula[OF y(1) m, of "tm_mday x"]
  have "?y * 365 + cdiv ?y 4 - cdiv ?y 100 + cdiv (cdiv ?y 100 + 3) 4
      + dayoffset ! nat (tm_mon x) + tm_mday x - 1 - 25508 = ?n" by simp
  moreover have "to_int32 ?n = ?n"
    using days_ref_bounds[OF y m d] by (intro to_int32_id) auto
  moreover have "(((?n * 24 + tm_hour x - getGmtOffsetHour x) * 60) + tm_min x - getGmtOffsetMin x) * 60 + tm_sec x
      = epoch_ref x - offset_secs x"
    unfolding gmt_offset_secs[OF off, symmetric] by (simp add: epoch_ref_def algebra_simps)
  ultimately show ?thesis using m unfolding expget_def Let_def by simp
qed

section \<open>Masks\<close>

definition mask_ok :: "char \<Rightarrow> char \<Rightarrow> bool" where
  "mask_ok m d \<longleftrightarrow>
     (if m = NUL \<or> m = CHR ''*'' then False
      else if m = CHR ''@'' then c_isupper d else if m = CHR ''$'' then c_islower d
      else if m = CHR ''#'' then c_isdigit d else if m = CHR ''&'' then c_isxdigit d
      else if m = CHR ''~'' then d = SPC \<or> c_isdigit d else m = d)"

lemma date_mask_step:
  "date_mask_loop (Suc n) (d # ds) (m # ms) =
     (if m = NUL then Some (d = NUL) else if m = CHR ''*'' then Some True
      else if mask_ok m d then date_mask_loop n ds ms else Some False)"
  by (simp add: mask_ok_def)

declare date_mask_loop.simps [simp del]

lemma mask_ok_NUL: "\<not> mask_ok NUL d" "\<not> mask_ok (CHR ''*'') d" "\<not> mask_ok m NUL"
  by (simp_all add: mask_ok_def c_isupper_def c_islower_def c_isdigit_def c_isxdigit_def uchar_def)

lemma date_mask_run:
  "list_all2 mask_ok ms ds \<Longrightarrow> length ms < n \<Longrightarrow>
     date_mask_loop n (ds @ d # r) (ms @ CHR ''*'' # k) = Some True"
proof (induction ms ds arbitrary: n rule: list_all2_induct)
  case Nil
  then show ?case by (cases n) (simp_all add: date_mask_step)
next
  case (Cons m ms c ds)
  then obtain k where "n = Suc k" "length ms < k" by (cases n) auto
  moreover have "m \<noteq> NUL" "m \<noteq> CHR ''*''" using Cons.hyps(1) mask_ok_NUL by auto
  ultimately show ?case using Cons by (simp add: date_mask_step)
qed

lemma date_mask_total: "date_mask_loop n (ds @ NUL # r) (ms @ NUL # k) \<noteq> None"
proof (induction ms arbitrary: n ds)
  case Nil
  then show ?case by (cases n; cases ds) (simp_all add: date_mask_step date_mask_loop.simps(1))
next
  case (Cons m ms)
  show ?case
  proof (cases n)
    case (Suc j)
    then show ?thesis using Cons.IH[of j "tl ds"] mask_ok_NUL(3)
      by (cases ds) (auto simp: date_mask_step)
  qed (simp add: date_mask_loop.simps(1))
qed

lemma isDateMask_star:
  "list_all2 mask_ok ms ds \<Longrightarrow> length ms < 256 \<Longrightarrow> isDateMask (ds @ d # r) (ms @ CHR ''*'' # k) = Some True"
  by (simp add: isDateMask_def date_mask_run)

section \<open>The printed text\<close>

lemma digit_char_facts10:
  assumes "0 \<le> n" "n \<le> 9"
  shows "schar (digit_char n) = n + 48" "c_isdigit (digit_char n)"
proof -
  have u: "uchar (digit_char n) = nat n + 48"
    using assms by (simp add: uchar_def digit_char_def nat_add_distrib)
  then show "schar (digit_char n) = n + 48"
    using assms by (simp add: schar_def uchar_def)
  show "c_isdigit (digit_char n)" using u assms by (simp add: c_isdigit_def)
qed

lemma two_digits_eq:
  assumes "0 \<le> n" "n < 100"
  shows "two_digits n = [digit_char (n div 10), digit_char (n mod 10)]"
    "0 \<le> n div 10" "n div 10 \<le> 9" "0 \<le> n mod 10" "n mod 10 \<le> 9"
  using assms by (auto simp: two_digits_def crem_def minus_mult_div_eq_mod)

lemma week_day:
  assumes "0 \<le> i" "i < 7"
  obtains a b c where "table WEEK_DAYS i = Some [a, b, c]" "\<not> c_isspace a" "set [a, b, c] \<inter> {SPC, NUL} = {}"
proof -
  have "i = 0 \<or> i = 1 \<or> i = 2 \<or> i = 3 \<or> i = 4 \<or> i = 5 \<or> i = 6" using assms by arith
  then have "\<exists>a b c. table WEEK_DAYS i = Some [a, b, c] \<and> \<not> c_isspace a \<and> set [a, b, c] \<inter> {SPC, NUL} = {}"
    by (elim disjE) (simp_all add: table_def WEEK_DAYS_def c_isspace_def uchar_def)
  then show ?thesis by (elim exE conjE) (rule that)
qed

lemma mint_Cons: "mint (a # b # c # r) = (push_bit 16 (schar a) OR push_bit 8 (schar b)) OR schar c"
  by (simp add: mint_def)

lemma mint_values:
  "mint ''Jan'' = 4874606"
  "mint ''Feb'' = 4613474"
  "mint ''Mar'' = 5071218"
  "mint ''Apr'' = 4288626"
  "mint ''May'' = 5071225"
  "mint ''Jun'' = 4879726"
  "mint ''Jul'' = 4879724"
  "mint ''Aug'' = 4289895"
  "mint ''Sep'' = 5465456"
  "mint ''Oct'' = 5202804"
  "mint ''Nov'' = 5140342"
  "mint ''Dec'' = 4482403"
  by (simp_all add: mint_def schar_def)

lemma month_name:
  assumes "0 \<le> i" "i < 12"
  obtains a b c where "table SHORT_MONTHS i = Some [a, b, c]" "c_isupper a" "c_islower b" "c_islower c"
    "\<forall>r. month_loop (mint (a # b # c # r)) SHORT_MONTHS 0 = i"
proof -
  have "\<exists>a b c. table SHORT_MONTHS i = Some [a, b, c] \<and> c_isupper a \<and> c_islower b \<and> c_islower c \<and>
      month_loop (mint [a, b, c]) SHORT_MONTHS 0 = i"
    using assms by (cases rule: month_cases)
      (simp_all add: table_def SHORT_MONTHS_def mint_values c_isupper_def c_islower_def uchar_def)
  then have "\<exists>a b c. table SHORT_MONTHS i = Some [a, b, c] \<and> c_isupper a \<and> c_islower b \<and> c_islower c \<and>
      (\<forall>r. month_loop (mint (a # b # c # r)) SHORT_MONTHS 0 = i)"
    unfolding mint_Cons by simp
  then show ?thesis by (elim exE conjE) (rule that)
qed

lemma div_le_9:
  assumes "0 < k" "z < 10 * k"
  shows "z div k \<le> (9::int)"
proof (rule ccontr)
  assume "\<not> z div k \<le> 9"
  then have "10 * k \<le> z div k * k" using assms(1) by (intro mult_right_mono) auto
  moreover have "z div k * k = z - z mod k" by (rule minus_mod_eq_div_mult[symmetric])
  moreover have "0 \<le> z mod k" using assms(1) by simp
  ultimately show False using assms(2) by linarith
qed

text \<open>The text as 29 characters, and what they are.\<close>

lemma printed_date:
  assumes v: "valid_tm x" and lx: "localtime (if t = 0 then now else t) = x"
  obtains w1 w2 w3 m1 m2 m3 where
    "table WEEK_DAYS (tm_wday x) = Some [w1, w2, w3]" "\<not> c_isspace w1" "set [w1, w2, w3] \<inter> {SPC, NUL} = {}"
    "c_isupper m1" "c_islower m2" "c_islower m3" "\<forall>r. month_loop (mint (m1 # m2 # m3 # r)) SHORT_MONTHS 0 = tm_mon x"
    "getDateStringRfc822 localtime now t = Some ([w1, w2, w3, CHR '','', SPC,
       digit_char (tm_mday x div 10), digit_char (tm_mday x mod 10), SPC, m1, m2, m3, SPC,
       digit_char ((1900 + tm_year x) div 1000), digit_char ((1900 + tm_year x) mod 1000 div 100),
       digit_char ((1900 + tm_year x) mod 100 div 10), digit_char ((1900 + tm_year x) mod 10), SPC,
       digit_char (tm_hour x div 10), digit_char (tm_hour x mod 10), CHR '':'',
       digit_char (tm_min x div 10), digit_char (tm_min x mod 10), CHR '':'',
       digit_char (tm_sec x div 10), digit_char (tm_sec x mod 10)] @ '' GMT'')"
proof -
  have r: "0 \<le> tm_wday x" "tm_wday x < 7" "0 \<le> tm_mon x" "tm_mon x < 12"
    and n: "0 \<le> tm_mday x" "tm_mday x < 100" "0 \<le> tm_hour x" "tm_hour x < 100"
      "0 \<le> tm_min x" "tm_min x < 100" "0 \<le> tm_sec x" "tm_sec x < 100"
    and y: "0 \<le> tm_year x" "tm_year x < 8100"
    using v by (auto simp: valid_tm_def month_days_def split: if_splits)
  obtain w1 w2 w3 where w: "table WEEK_DAYS (tm_wday x) = Some [w1, w2, w3]" "\<not> c_isspace w1"
      "set [w1, w2, w3] \<inter> {SPC, NUL} = {}" using r(1,2) by (rule week_day)
  obtain m1 m2 m3 where m: "table SHORT_MONTHS (tm_mon x) = Some [m1, m2, m3]" "c_isupper m1" "c_islower m2"
      "c_islower m3" "\<forall>r. month_loop (mint (m1 # m2 # m3 # r)) SHORT_MONTHS 0 = tm_mon x"
    using r(3,4) by (rule month_name)
  note two = two_digits_eq[OF n(1,2)] two_digits_eq[OF n(3,4)] two_digits_eq[OF n(5,6)] two_digits_eq[OF n(7,8)]
  have nul: "digit_char i \<noteq> NUL" if "0 \<le> i" "i \<le> 9" for i
    using digit_char_facts10(2)[OF that] digit_not_sign(4) by blast
  have low: "c_islower c \<or> c_isupper c \<Longrightarrow> c \<noteq> NUL" for c
    by (auto simp: c_islower_def c_isupper_def uchar_def)
  let ?Y = "1900 + tm_year x"
  have yd: "0 \<le> ?Y div 1000" "?Y div 1000 \<le> 9" "0 \<le> ?Y mod 1000 div 100" "?Y mod 1000 div 100 \<le> 9"
    "0 \<le> ?Y mod 100 div 10" "?Y mod 100 div 10 \<le> 9" "0 \<le> ?Y mod 10" "?Y mod 10 \<le> 9"
    using y div_le_9[of 1000 "1900 + tm_year x"] div_le_9[of 100 "(1900 + tm_year x) mod 1000"]
      div_le_9[of 10 "(1900 + tm_year x) mod 100"] pos_mod_bound[of 10 "1900 + tm_year x"]
    by (simp_all add: pos_imp_zdiv_nonneg_iff)
  have yr: "cdiv ?Y 1000 = ?Y div 1000" "cdiv (crem ?Y 1000) 100 = ?Y mod 1000 div 100"
    "cdiv (crem ?Y 100) 10 = ?Y mod 100 div 10" "crem ?Y 10 = ?Y mod 10"
    using y by (simp_all add: crem_def minus_mult_div_eq_mod)
  have nn: "\<forall>c\<in>set [w1, w2, w3, m1, m2, m3, digit_char (tm_mday x div 10), digit_char (tm_mday x mod 10),
      digit_char (?Y div 1000), digit_char (?Y mod 1000 div 100), digit_char (?Y mod 100 div 10), digit_char (?Y mod 10),
      digit_char (tm_hour x div 10), digit_char (tm_hour x mod 10), digit_char (tm_min x div 10),
      digit_char (tm_min x mod 10), digit_char (tm_sec x div 10), digit_char (tm_sec x mod 10)]. c \<noteq> NUL"
    using w(3) low[OF disjI2, OF m(2)] low[OF disjI1, OF m(3)] low[OF disjI1, OF m(4)]
      nul[OF two(2,3)] nul[OF two(4,5)] nul[OF two(7,8)] nul[OF two(9,10)] nul[OF two(12,13)] nul[OF two(14,15)]
      nul[OF two(17,18)] nul[OF two(19,20)] nul[OF yd(1,2)] nul[OF yd(3,4)] nul[OF yd(5,6)] nul[OF yd(7,8)]
    by auto
  have xs: "tm_wday (time_local localtime now t) = tm_wday x" "tm_mon (time_local localtime now t) = tm_mon x"
    "tm_mday (time_local localtime now t) = tm_mday x" "tm_year (time_local localtime now t) = tm_year x"
    "tm_hour (time_local localtime now t) = tm_hour x" "tm_min (time_local localtime now t) = tm_min x"
    "tm_sec (time_local localtime now t) = tm_sec x"
    by (simp_all add: time_local_def time_fields_def lx)
  show ?thesis
    by (rule that[OF w m(2-5)])
      (use nn in \<open>simp add: getDateStringRfc822_def Let_def xs w(1) m(1) two(1,6,11,16) yr cstr_def\<close>)
qed

section \<open>Reading the printed text\<close>

lemma c_chars_ok:
  "c_isdigit d \<Longrightarrow> \<not> c_isspace d" "c_isdigit d \<Longrightarrow> d \<noteq> NUL"
  "c_isupper d \<Longrightarrow> d \<noteq> NUL" "c_islower d \<Longrightarrow> d \<noteq> NUL"
  by (auto simp: c_isdigit_def c_isspace_def c_isupper_def c_islower_def uchar_def)

lemma date_format_rfc1123:
  assumes "list_all c_isdigit [d1, d2, y1, y2, y3, y4, h1, h2, n1, n2, s1, s2]"
    "c_isupper m1" "c_islower m2" "c_islower m3" "19 \<le> dg [y1, y2] 0 * 10 + dg [y1, y2] 1"
  shows "date_format ([d1, d2, SPC, m1, m2, m3, SPC, y1, y2, y3, y4, SPC, h1, h2, CHR '':'', n1, n2, CHR '':'', s1, s2, SPC] @ c # r) ds =
    Some (Some (ds\<lparr>tm_year := (dg [y1, y2] 0 * 10 + dg [y1, y2] 1 - 19) * 100 + (dg [y3, y4] 0 * 10 + dg [y3, y4] 1),
                   tm_mday := dg [d1, d2] 0 * 10 + dg [d1, d2] 1\<rparr>, 3, 12))"
    (is "date_format (?D @ c # r) ds = _")
proof -
  have "list_all2 mask_ok ''## @$$ #### ##:##:## '' ?D"
    using assms(1-4) by (simp add: mask_ok_def)
  from isDateMask_star[OF this, of c r "[NUL]"]
  have "isDateMask (?D @ c # r) (''## @$$ #### ##:##:## *'' @ [NUL]) = Some True" by simp
  with assms(5) show ?thesis unfolding date_format_def by (simp add: dg_def Let_def)
qed

lemma year_and_3: "0 \<le> y \<Longrightarrow> (y AND 3 \<noteq> 0) \<longleftrightarrow> (1900 + y) mod 4 \<noteq> (0::int)"
proof -
  have "y AND 3 = take_bit 2 y" by (simp add: take_bit_eq_mask mask_eq_exp_minus_1)
  moreover have "(1900 + y) mod 4 = y mod 4" using mod_mult_self1[of y 475 4] by (simp add: add.commute)
  ultimately show ?thesis by (simp add: take_bit_eq_mod)
qed

lemma mod_400_shift: "y mod 400 \<noteq> 100 \<longleftrightarrow> (y + 300) mod 400 \<noteq> (0::int)"
proof -
  have r: "r \<noteq> 100 \<longleftrightarrow> (r + 300) mod 400 \<noteq> 0" if "0 \<le> r" "r < 400" for r :: int
  proof (cases "r < 100")
    case True
    then have "(r + 300) mod 400 = r + 300" using that by (intro mod_pos_pos_trivial) auto
    then show ?thesis using True that by simp
  next
    case False
    have "(r + 300) mod 400 = (r - 100 + 400) mod 400" by (rule arg_cong[where f = "\<lambda>z. z mod 400"]) simp
    also have "\<dots> = (r - 100) mod 400" by (rule mod_add_self2)
    also have "\<dots> = r - 100" using that False by (intro mod_pos_pos_trivial) auto
    finally show ?thesis by simp
  qed
  have "(y mod 400 + 300) mod 400 = (y + 300) mod 400" by (rule mod_add_left_eq)
  then show ?thesis using r[of "y mod 400"] by (simp del: mod_add_left_eq)
qed

lemma leap_check:
  assumes "0 \<le> y"
  shows "(y AND 3 \<noteq> 0 \<or> (crem y 100 = 0 \<and> crem y 400 \<noteq> 100)) \<longleftrightarrow> \<not> leap (1900 + y)"
proof -
  have "(1900 + y) mod 100 = y mod 100" using mod_mult_self1[of y 19 100] by (simp add: add.commute)
  moreover have "(1900 + y) mod 400 = (y + 300) mod 400"
    using mod_mult_self1[of "y + 300" 4 400] by (simp add: add.commute)
  moreover have "y mod 400 \<noteq> 100 \<longleftrightarrow> (y + 300) mod 400 \<noteq> 0" by (rule mod_400_shift)
  moreover have "crem y 100 = y mod 100" "crem y 400 = y mod 400"
    using assms by (simp_all add: crem_def minus_mult_div_eq_mod)
  ultimately show ?thesis using year_and_3[OF assms] unfolding leap_def by auto
qed

text \<open>The checks accept the valid dates.\<close>

lemma date_checks_valid:
  assumes v: "valid_tm x" and ds: "tm_year ds = tm_year x" "tm_mday ds = tm_mday x"
    and mo: "month_loop (mint (drop mi date)) SHORT_MONTHS 0 = tm_mon x"
    and ti: "dg date ti * 10 + dg date (ti + 1) = tm_hour x" "dg date (ti + 3) * 10 + dg date (ti + 4) = tm_min x"
      "dg date (ti + 6) * 10 + dg date (ti + 7) = tm_sec x"
  shows "date_checks date ds mi ti =
    Some (ds\<lparr>tm_hour := tm_hour x, tm_min := tm_min x, tm_sec := tm_sec x, tm_mon := tm_mon x\<rparr>)"
proof -
  have r: "0 < tm_mday x" "tm_mday x \<le> 31" "tm_hour x \<le> 23" "tm_min x \<le> 59" "tm_sec x \<le> 61" "tm_mon x \<noteq> 12"
    and d: "tm_mday x \<le> month_days (1900 + tm_year x) (tm_mon x)" and y: "0 \<le> tm_year x"
    using v by (auto simp: valid_tm_def month_days_def split: if_splits)
  have "\<not> (tm_mday x = 31 \<and> (tm_mon x = 3 \<or> tm_mon x = 5 \<or> tm_mon x = 8 \<or> tm_mon x = 10))"
    using d by (auto simp: month_days_def)
  moreover have "\<not> (tm_mon x = 1 \<and> (tm_mday x > 29 \<or> (tm_mday x = 29 \<and>
      (tm_year x AND 3 \<noteq> 0 \<or> (crem (tm_year x) 100 = 0 \<and> crem (tm_year x) 400 \<noteq> 100)))))"
    unfolding leap_check[OF y] using d by (auto simp: month_days_def split: if_splits)
  ultimately show ?thesis
    using r unfolding date_checks_def Let_def by (simp add: ds mo ti ti(1)[unfolded Suc_eq_plus1[symmetric]])
qed

lemma two_digit_value:
  assumes "0 \<le> n" "n < 100"
  shows "dg [digit_char (n div 10), digit_char (n mod 10)] 0 * 10 + dg [digit_char (n div 10), digit_char (n mod 10)] 1 = n"
    "(schar (digit_char (n div 10)) - 48) * 10 + (schar (digit_char (n mod 10)) - 48) = n"
  using digit_char_facts10(1)[OF two_digits_eq(2,3)[OF assms]] digit_char_facts10(1)[OF two_digits_eq(4,5)[OF assms]]
  by (simp_all add: dg_def)

lemma year_pairs:
  fixes Y :: int
  shows "Y mod 1000 div 100 = Y div 100 mod 10" "Y div 1000 = Y div 100 div 10" "Y mod 100 mod 10 = Y mod 10"
    "Y div 100 * 100 + Y mod 100 = Y"
proof -
  show "Y mod 1000 div 100 = Y div 100 mod 10" using zmod_zmult2_eq[of 10 Y 100] by simp
  show "Y div 1000 = Y div 100 div 10" using zdiv_zmult2_eq[of 10 Y 100] by simp
  show "Y mod 100 mod 10 = Y mod 10" by (rule mod_mod_cancel) simp
qed simp

lemma century_offset: "q * 100 + r = 1900 + t \<Longrightarrow> (q - 19) * 100 + r = (t::int)"
  by simp

lemma clock_fields:
  fixes d1 d2 b1 m1 m2 m3 b2 y1 y2 y3 y4 b3 h1 h2 p1 n1 n2 p2 s1 s2 :: char and r :: string
  defines "D \<equiv> [d1, d2, b1, m1, m2, m3, b2, y1, y2, y3, y4, b3, h1, h2, p1, n1, n2, p2, s1, s2] @ r"
  shows "dg D 12 * 10 + dg D (12 + 1) = (schar h1 - 48) * 10 + (schar h2 - 48)"
    "dg D (12 + 3) * 10 + dg D (12 + 4) = (schar n1 - 48) * 10 + (schar n2 - 48)"
    "dg D (12 + 6) * 10 + dg D (12 + 7) = (schar s1 - 48) * 10 + (schar s2 - 48)"
    "drop 3 D = m1 # m2 # m3 # drop 6 D"
  by (simp_all add: D_def dg_def)

lemma parse_printed:
  assumes v: "valid_tm x" and lx: "localtime (if t = 0 then now else t) = x"
    and off: "\<bar>tm_gmtoff (localtime2 now2)\<bar> \<le> 86400"
  shows "\<exists>s. getDateStringRfc822 localtime now t = Some s \<and>
    parseToTime localtime2 now2 out (Some (s @ NUL # junk)) =
      (let secs = to_int32 (epoch_ref x - offset_secs (localtime2 now2))
       in Some (if secs < 0 then (Some (DFW_E_INVAL, 22), out) else (None, secs)))"
proof -
  let ?Y = "1900 + tm_year x" and ?d = digit_char
  obtain w1 w2 w3 m1 m2 m3 where
    w: "\<not> c_isspace w1" "set [w1, w2, w3] \<inter> {SPC, NUL} = {}" and
    m: "c_isupper m1" "c_islower m2" "c_islower m3" and
    ml: "\<forall>r. month_loop (mint (m1 # m2 # m3 # r)) SHORT_MONTHS 0 = tm_mon x" and
    pr: "getDateStringRfc822 localtime now t = Some ([w1, w2, w3, CHR '','', SPC,
       ?d (tm_mday x div 10), ?d (tm_mday x mod 10), SPC, m1, m2, m3, SPC,
       ?d (?Y div 1000), ?d (?Y mod 1000 div 100), ?d (?Y mod 100 div 10), ?d (?Y mod 10), SPC,
       ?d (tm_hour x div 10), ?d (tm_hour x mod 10), CHR '':'',
       ?d (tm_min x div 10), ?d (tm_min x mod 10), CHR '':'',
       ?d (tm_sec x div 10), ?d (tm_sec x mod 10)] @ '' GMT'')"
    using v lx by (rule printed_date)
  let ?D = "[?d (tm_mday x div 10), ?d (tm_mday x mod 10), SPC, m1, m2, m3, SPC,
       ?d (?Y div 1000), ?d (?Y mod 1000 div 100), ?d (?Y mod 100 div 10), ?d (?Y mod 10), SPC,
       ?d (tm_hour x div 10), ?d (tm_hour x mod 10), CHR '':'',
       ?d (tm_min x div 10), ?d (tm_min x mod 10), CHR '':'',
       ?d (tm_sec x div 10), ?d (tm_sec x mod 10), SPC] @ CHR ''G'' # CHR ''M'' # CHR ''T'' # NUL # junk"
  have n: "0 \<le> tm_mday x" "tm_mday x < 100" "0 \<le> tm_hour x" "tm_hour x < 100"
      "0 \<le> tm_min x" "tm_min x < 100" "0 \<le> tm_sec x" "tm_sec x < 100" "0 \<le> tm_year x" "tm_year x < 8100"
      "1 \<le> tm_mday x" "tm_mday x \<le> 31" "70 \<le> tm_year x" "0 \<le> tm_mon x" "tm_mon x < 12"
    using v by (auto simp: valid_tm_def month_days_def split: if_splits)
  have c: "0 \<le> ?Y div 100" "?Y div 100 < 100" "0 \<le> ?Y mod 100" "?Y mod 100 < 100" "19 \<le> ?Y div 100"
    using n(9,10) zdiv_mono1[of ?Y 9999 100] zdiv_mono1[of 1900 ?Y 100]
    by (simp_all add: pos_imp_zdiv_nonneg_iff)
  let ?L = "time_local localtime2 now2 0"
  let ?e = "?L\<lparr>tm_year := tm_year x, tm_mday := tm_mday x, tm_hour := tm_hour x, tm_min := tm_min x,
    tm_sec := tm_sec x, tm_mon := tm_mon x\<rparr>"
  have Y: "?Y mod 1000 div 100 = ?Y div 100 mod 10" "?Y div 1000 = ?Y div 100 div 10" "?Y mod 10 = ?Y mod 100 mod 10"
    by (rule year_pairs, rule year_pairs, rule year_pairs(3)[symmetric])
  have dig: "c_isdigit (?d (a div 10))" "c_isdigit (?d (a mod 10))" if "0 \<le> a" "a < 100" for a
    using digit_char_facts10(2) two_digits_eq(2-5)[OF that] by blast+
  have digs: "list_all c_isdigit [?d (tm_mday x div 10), ?d (tm_mday x mod 10), ?d (?Y div 1000), ?d (?Y mod 1000 div 100),
      ?d (?Y mod 100 div 10), ?d (?Y mod 10), ?d (tm_hour x div 10), ?d (tm_hour x mod 10),
      ?d (tm_min x div 10), ?d (tm_min x mod 10), ?d (tm_sec x div 10), ?d (tm_sec x mod 10)]"
    unfolding Y by (simp only: list.pred_inject dig[OF n(1,2)] dig[OF n(3,4)] dig[OF n(5,6)] dig[OF n(7,8)] dig[OF c(1,2)] dig[OF c(3,4)] simp_thms)
  have cent: "dg [?d (?Y div 1000), ?d (?Y mod 1000 div 100)] 0 * 10 + dg [?d (?Y div 1000), ?d (?Y mod 1000 div 100)] 1 = ?Y div 100"
    "dg [?d (?Y mod 100 div 10), ?d (?Y mod 10)] 0 * 10 + dg [?d (?Y mod 100 div 10), ?d (?Y mod 10)] 1 = ?Y mod 100"
    unfolding Y by (rule two_digit_value(1)[OF c(1,2)], rule two_digit_value(1)[OF c(3,4)])
  have yv: "(?Y div 100 - 19) * 100 + ?Y mod 100 = tm_year x"
    using year_pairs(4)[of ?Y] by (rule century_offset)
  have "date_format ?D ?L = Some (Some (?L\<lparr>tm_year := tm_year x, tm_mday := tm_mday x\<rparr>, 3, 12))"
    using date_format_rfc1123[OF digs m, of "CHR ''G''" "CHR ''M'' # CHR ''T'' # NUL # junk" ?L] c(5)
    unfolding cent two_digit_value(1)[OF n(1,2)] yv by simp
  moreover have "date_checks ?D (?L\<lparr>tm_year := tm_year x, tm_mday := tm_mday x\<rparr>) 3 12 = Some ?e"
  proof (subst date_checks_valid[OF v])
    show "dg ?D 12 * 10 + dg ?D (12 + 1) = tm_hour x"
      using clock_fields(1) two_digit_value(2)[OF n(3,4)] by (simp only: append_Cons append_Nil)
    show "dg ?D (12 + 3) * 10 + dg ?D (12 + 4) = tm_min x"
      using clock_fields(2) two_digit_value(2)[OF n(5,6)] by (simp only: append_Cons append_Nil)
    show "dg ?D (12 + 6) * 10 + dg ?D (12 + 7) = tm_sec x"
      using clock_fields(3) two_digit_value(2)[OF n(7,8)] by (simp only: append_Cons append_Nil)
    show "month_loop (mint (drop 3 ?D)) SHORT_MONTHS 0 = tm_mon x"
      using ml by (simp del: drop_append)
  qed simp_all
  moreover have "expget 0 ?e = (let secs = to_int32 (epoch_ref x - offset_secs (localtime2 now2))
      in if secs < 0 then Some (Some (DFW_E_INVAL, 22), 0) else Some (None, secs))"
    using expget_ref[of ?e 0] n off by (simp add: epoch_ref_def offset_secs_def time_local_def time_fields_def)
  moreover have "cstr (w1 # w2 # w3 # CHR '','' # SPC # ?D) \<noteq> []"
    using w(2) by (auto simp: cstr_def)
  moreover have "strstr (cstr (w1 # w2 # w3 # CHR '','' # SPC # ?D)) [SPC] = Some 4"
    using w(2) by (auto simp: cstr_def)
  ultimately have "parseToTime localtime2 now2 out (Some (w1 # w2 # w3 # CHR '','' # SPC # ?D)) =
      (let secs = to_int32 (epoch_ref x - offset_secs (localtime2 now2))
       in Some (if secs < 0 then (Some (DFW_E_INVAL, 22), out) else (None, secs)))"
    using w(1) by (simp add: parseToTime_def Let_def del: append_Cons append.simps)
  then show ?thesis unfolding pr by simp
qed

section \<open>Every text\<close>

lemma isDateMask_total: "NUL \<in> set date \<Longrightarrow> isDateMask date (ms @ [NUL]) \<noteq> None"
  using date_mask_total by (metis isDateMask_def split_list)

lemma date_format_total: "NUL \<in> set date \<Longrightarrow> date_format date ds \<noteq> None"
  unfolding date_format_def
  using isDateMask_total[of date "''## @$$ #### ##:##:## *''"] isDateMask_total[of date "''##-@$$-## ##:##:## *''"]
    isDateMask_total[of date "''@$$ ~# ##:##:## ####*''"] isDateMask_total[of date "''# @$$ #### ##:##:## *''"]
  by (auto simp del: append.simps simp: Let_def)

lemma month_loop_bounds: "mon \<le> month_loop m ns mon \<and> month_loop m ns mon \<le> mon + int (length ns)"
proof (induction ns arbitrary: mon)
  case (Cons n ns)
  from Cons.IH[of "mon + 1"] show ?case by auto
qed simp

lemma date_checks_month: "date_checks date ds mi ti = Some ds' \<Longrightarrow> 0 \<le> tm_mon ds' \<and> tm_mon ds' < 12"
  using month_loop_bounds[of 0 "mint (drop mi date)" SHORT_MONTHS]
  by (auto simp: date_checks_def Let_def SHORT_MONTHS_def split: if_splits)

lemma expget_total:
  assumes "0 \<le> tm_mon x" "tm_mon x < 12"
  shows "\<exists>e t'. expget t x = Some (e, t') \<and> (e = None \<and> 0 \<le> t' \<and> t' < 2 ^ 31 \<or> e \<noteq> None \<and> t' = t)"
proof -
  have "\<exists>z. expget t x = (if to_int32 z < 0 then Some (Some (DFW_E_INVAL, 22), t) else Some (None, to_int32 z))"
    unfolding expget_def Let_def by (simp only: assms simp_thms if_False) (rule exI, rule refl)
  then obtain z where
    "expget t x = (if to_int32 z < 0 then Some (Some (DFW_E_INVAL, 22), t) else Some (None, to_int32 z))" by blast
  then show ?thesis using to_int32_bounds[of z] by auto
qed

lemma parseToTime_total:
  assumes "NUL \<in> set mem"
  shows "\<exists>e v. parseToTime localtime now out (Some mem) = Some (e, v) \<and>
    (e = None \<and> 0 \<le> v \<and> v < 2 ^ 31 \<or> e \<noteq> None \<and> v = out)"
proof -
  let ?m = "dropWhile c_isspace mem"
  show ?thesis
  proof (cases "strstr (cstr ?m) [SPC]")
    case (Some sp)
    then have sp: "sp < length (cstr ?m)" "cstr ?m \<noteq> []"
      using strstr_Some_length[OF Some] by auto
    let ?d = "drop (sp + 1) ?m"
    have "NUL \<notin> set (takeWhile c_isspace mem)"
      by (auto dest: set_takeWhileD simp: c_isspace_def uchar_def)
    then have "NUL \<in> set ?m" using assms by (metis UnE set_append takeWhile_dropWhile_id)
    moreover have "NUL \<notin> set (take (sp + 1) ?m)"
      using sp(1) take_cstr[of "sp + 1" ?m] cstr_no_nul[of ?m] by (metis Suc_eq_plus1 Suc_leI in_set_takeD)
    ultimately have "NUL \<in> set ?d" by (metis UnE append_take_drop_id set_append)
    then obtain f where f: "date_format ?d (time_local localtime now 0) = Some f"
      using date_format_total by fastforce
    show ?thesis
    proof (cases f)
      case None
      then show ?thesis using f Some sp(2) by (simp add: parseToTime_def Let_def)
    next
      case (Some g)
      obtain ds mi ti where g: "g = (ds, mi, ti)" by (cases g) auto
      show ?thesis
      proof (cases "date_checks ?d ds mi ti")
        case None
        then show ?thesis using f \<open>f = Some g\<close> g \<open>strstr (cstr ?m) [SPC] = Some sp\<close> sp(2)
          by (simp add: parseToTime_def Let_def)
      next
        case (Some ds')
        from date_checks_month[OF this] obtain e t' where
          "expget 0 ds' = Some (e, t')" "e = None \<and> 0 \<le> t' \<and> t' < 2 ^ 31 \<or> e \<noteq> None \<and> t' = 0"
          using expget_total[of ds' 0] by blast
        then show ?thesis using f \<open>f = Some g\<close> g \<open>strstr (cstr ?m) [SPC] = Some sp\<close> sp(2) Some
          by (auto simp: parseToTime_def Let_def)
      qed
    qed
  qed (auto simp: parseToTime_def Let_def)
qed

section \<open>Properties\<close>

text \<open>C32. \<open>parseToTime\<close> reads back what \<open>getDateStringRfc822\<close> prints, for all times behind 1970 and below
  \<open>2 ^ 31\<close>, when \<open>localtime_r\<close> gives the fields of the time shifted by its own offset, in whole minutes, and
  the offset of the present time is the same: printing writes local fields and calls them GMT, and
  reading subtracts the local offset of the present again, although its comment says that the offset
  is zero because all times are GMT.  With another offset at present, or with a date that
  is GMT in a zone that is not, the time does not come back.\<close>

theorem date_print_parse:
  assumes "valid_tm (localtime t)" "t \<noteq> 0" "0 \<le> t" "t < 2 ^ 31"
    and "epoch_ref (localtime t) = t + tm_gmtoff (localtime t)"
    and "offset_secs (localtime now) = tm_gmtoff (localtime t)" "\<bar>tm_gmtoff (localtime now)\<bar> \<le> 86400"
  shows "\<exists>s. getDateStringRfc822 localtime now t = Some s \<and>
    parseToTime localtime now out (Some (s @ [NUL])) = Some (None, t)"
proof -
  have "to_int32 t = t" using assms(3,4) by (intro to_int32_id) auto
  then show ?thesis
    using parse_printed[of "localtime t" localtime t now localtime now out "[]"] assms by (simp add: Let_def)
qed

definition sun_06_nov_1994 :: tm where
  "sun_06_nov_1994 = \<lparr>tm_sec = 37, tm_min = 49, tm_hour = 10, tm_mday = 6, tm_mon = 10, tm_year = 94,
     tm_wday = 0, tm_yday = 309, tm_isdst = 0, tm_gmtoff = 7200, tm_zone = ''EET''\<rparr>"

lemma sun_06_nov_1994_facts:
  "valid_tm sun_06_nov_1994" "epoch_ref sun_06_nov_1994 = 784118977"
  by (simp_all add: sun_06_nov_1994_def valid_tm_def month_days_def epoch_ref_def days_ref_def year_days_def
      upto.simps leap_def)

theorem date_print_parse_witness:
  "\<exists>s. getDateStringRfc822 (\<lambda>_. sun_06_nov_1994) 1 784111777 = Some s \<and>
    parseToTime (\<lambda>_. sun_06_nov_1994) 1 5 (Some (s @ [NUL])) = Some (None, 784111777)"
  by (rule date_print_parse)
    (simp_all add: sun_06_nov_1994_facts, simp_all add: sun_06_nov_1994_def offset_secs_def)

text \<open>Dates after 19 January 2038, 03:14:07 are refused: the 32-bit sum of \<open>expget\<close> wraps to a negative
  number, which is taken for a date before 1970, and the caller's value is left alone.  A time whose
  sum fits is the reference count of days and seconds, less the parser's own local offset (the
  comment in the source says the offset is zero).\<close>

theorem date_parse_2038:
  assumes "valid_tm (localtime t)" "t \<noteq> 0" "\<bar>tm_gmtoff (localtime2 now2)\<bar> \<le> 86400"
    and "0 \<le> epoch_ref (localtime t) - offset_secs (localtime2 now2)"
    and "epoch_ref (localtime t) - offset_secs (localtime2 now2) < 2 ^ 32"
  shows "\<exists>s. getDateStringRfc822 localtime now t = Some s \<and>
    parseToTime localtime2 now2 out (Some (s @ [NUL])) =
      (let secs = epoch_ref (localtime t) - offset_secs (localtime2 now2)
       in Some (if 2 ^ 31 \<le> secs then (Some (DFW_E_INVAL, 22), out) else (None, secs)))"
proof -
  let ?s = "epoch_ref (localtime t) - offset_secs (localtime2 now2)"
  have "to_int32 ?s = (if 2 ^ 31 \<le> ?s then ?s - 2 ^ 32 else ?s)"
    unfolding to_int32_def using assms(4,5) mod_pos_pos_trivial[of "?s + 2 ^ 31 - 2 ^ 32" "2 ^ 32"]
      mod_pos_pos_trivial[of "?s + 2 ^ 31" "2 ^ 32"] by (auto simp: mod_pos_geq)
  then show ?thesis
    using parse_printed[of "localtime t" localtime t now localtime2 now2 out "[]"] assms by (auto simp: Let_def)
qed

theorem date_parse_2038_witness:
  "\<exists>s. getDateStringRfc822 (\<lambda>_. sun_06_nov_1994\<lparr>tm_year := 150\<rparr>) 1 9 = Some s \<and>
    parseToTime (\<lambda>_. sun_06_nov_1994) 1 5 (Some (s @ [NUL])) = Some (Some (DFW_E_INVAL, 22), 5)"
proof -
  have e: "epoch_ref (sun_06_nov_1994\<lparr>tm_year := 150\<rparr>) = 2551344577" "valid_tm (sun_06_nov_1994\<lparr>tm_year := 150\<rparr>)"
    "offset_secs sun_06_nov_1994 = 7200"
    by (simp_all add: sun_06_nov_1994_def valid_tm_def month_days_def epoch_ref_def days_ref_def year_days_def
        upto.simps leap_def offset_secs_def)
  have "tm_gmtoff sun_06_nov_1994 = 7200" by (simp add: sun_06_nov_1994_def)
  then show ?thesis
    using date_parse_2038[of "\<lambda>_. sun_06_nov_1994\<lparr>tm_year := 150\<rparr>" 9 "\<lambda>_. sun_06_nov_1994" 1 1 5] e by simp
qed

text \<open>On every terminated text the parser ends without reading behind it: it either leaves the caller's
  value alone and reports an error, or stores a time of 31 bits.\<close>

theorem date_parse_total:
  assumes "NUL \<in> set mem"
  shows "\<exists>e v. parseToTime localtime now out (Some mem) = Some (e, v) \<and>
    (e = None \<and> 0 \<le> v \<and> v < 2 ^ 31 \<or> e \<noteq> None \<and> v = out)"
  using assms by (rule parseToTime_total)

theorem date_parse_total_witness:
  "\<exists>e v. parseToTime (\<lambda>_. sun_06_nov_1994) 1 5 (Some (''Sunday'' @ [NUL])) = Some (e, v) \<and>
    (e = None \<and> 0 \<le> v \<and> v < 2 ^ 31 \<or> e \<noteq> None \<and> v = 5)"
  by (rule date_parse_total) simp

end
