(* ===== verification/Dfw_HttpHeader.thy ===== *)
theory Dfw_HttpHeader
  imports Dfw_Array_Spec Dfw_Text
begin

text \<open>
  \<open>lib/http/HttpHeader.cpp\<close> with its elements \<open>NamedValue\<close>, and the contexts of a request
  (\<open>NamedObject\<close>): both are sorted arrays ordered by name.  The locale \<open>keyed_store\<close> is what
  the protocol code relies on; \<open>HttpHeader\<close> provides it for up to 100 names.
\<close>

section \<open>Named values and the header list\<close>

record named_value =
  nv_name :: string
  nv_value :: string

definition nv_ops :: "named_value cmp_ops" where
  "nv_ops = member_ops str_ops nv_name"

definition nv_new :: "string option \<Rightarrow> string option \<Rightarrow> named_value" where
  "nv_new name val = \<lparr>nv_name = text_set name, nv_value = text_set val\<rparr>"

definition nv_getInt :: "named_value \<Rightarrow> int" where
  "nv_getInt nv = parseInt (chars (nv_value nv)) 0"

definition nv_getUnsigned :: "named_value \<Rightarrow> 32 word" where
  "nv_getUnsigned nv = word_of_int (parseInt (chars (nv_value nv)) 0)"

definition nv_getLong :: "named_value \<Rightarrow> int" where
  "nv_getLong nv = parseLong (chars (nv_value nv)) 0"

definition nv_getUnsignedLong :: "named_value \<Rightarrow> 64 word" where
  "nv_getUnsignedLong nv = word_of_int (parseLong (chars (nv_value nv)) 0)"

type_synonym header = "named_value arr"

definition appendHeader :: "allocator \<Rightarrow> string option \<Rightarrow> string option \<Rightarrow> header \<Rightarrow> (rv \<times> header) option" where
  "appendHeader al name val h =
     (let nv = nv_new name val in
      do { r \<leftarrow> sorted_remove nv_ops (Some nv) h;
           i \<leftarrow> sorted_insert nv_ops al (Some nv) (snd r);
           Some (fst i, snd (snd i)) })"

definition getHeader :: "string option \<Rightarrow> header \<Rightarrow> named_value option option" where
  "getHeader name h = sorted_get nv_ops (Some (nv_new name None)) h"

section \<open>Contexts of a request\<close>

text \<open>\<open>'o\<close> is the type of the objects the contexts hold.\<close>

record 'o named_object =
  no_name :: string
  no_object :: "'o option"

definition no_ops :: "'o named_object cmp_ops" where
  "no_ops = member_ops str_ops no_name"

definition no_new :: "string option \<Rightarrow> 'o option \<Rightarrow> 'o named_object" where
  "no_new name obj = \<lparr>no_name = text_set name, no_object = obj\<rparr>"

definition addContext :: "allocator \<Rightarrow> string option \<Rightarrow> 'o option \<Rightarrow> 'o named_object arr \<Rightarrow> (rv \<times> 'o named_object arr) option" where
  "addContext al name obj cs =
     do { i \<leftarrow> sorted_insert no_ops al (Some (no_new name obj)) cs; Some (fst i, snd (snd i)) }"

definition removeContext :: "string option \<Rightarrow> 'o named_object arr \<Rightarrow> ('o named_object option \<times> 'o named_object arr) option" where
  "removeContext name cs = sorted_remove no_ops (Some (no_new name None)) cs"

definition getContext :: "string option \<Rightarrow> 'o named_object arr \<Rightarrow> 'o named_object option option" where
  "getContext name cs = sorted_get no_ops (Some (no_new name None)) cs"

definition getContextObject :: "string option \<Rightarrow> 'o named_object arr \<Rightarrow> 'o option option" where
  "getContextObject name cs =
     do { search \<leftarrow> getContext name cs;
          Some (case search of None \<Rightarrow> None | Some no \<Rightarrow> no_object no) }"

section \<open>A store of named texts\<close>

locale keyed_store =
  fixes inv :: "'s \<Rightarrow> bool"
    and room :: "nat \<Rightarrow> 's \<Rightarrow> bool"
    and put :: "string \<Rightarrow> string \<Rightarrow> 's \<Rightarrow> 's option"
    and find :: "'s \<Rightarrow> string \<Rightarrow> string option"
  assumes put_ok: "inv s \<Longrightarrow> room (Suc n) s \<Longrightarrow> NUL \<notin> set k \<Longrightarrow> NUL \<notin> set v \<Longrightarrow>
      \<exists>s'. put k v s = Some s' \<and> inv s' \<and> room n s' \<and> find s' = (find s)(k \<mapsto> v)"
begin

primrec puts :: "(string \<times> string) list \<Rightarrow> 's \<Rightarrow> 's option" where
  "puts [] s = Some s"
| "puts (kv # kvs) s = do { s' \<leftarrow> put (fst kv) (snd kv) s; puts kvs s' }"

lemma puts_ok:
  "inv s \<Longrightarrow> room (length kvs) s \<Longrightarrow> \<forall>(k, v)\<in>set kvs. NUL \<notin> set k \<and> NUL \<notin> set v \<Longrightarrow>
   \<exists>s'. puts kvs s = Some s' \<and> inv s' \<and> find s' = find s ++ map_of (rev kvs)"
proof (induction kvs arbitrary: s)
  case (Cons kv kvs)
  obtain k v where kv: "kv = (k, v)" by fastforce
  with Cons.prems have nn: "NUL \<notin> set k" "NUL \<notin> set v" by auto
  from put_ok[OF Cons.prems(1) _ nn] Cons.prems(2) obtain s' where
    s': "put k v s = Some s'" "inv s'" "room (length kvs) s'" "find s' = (find s)(k \<mapsto> v)" by auto
  from Cons.IH[OF s'(2,3)] Cons.prems(3) obtain t where
    "puts kvs s' = Some t" "inv t" "find t = find s' ++ map_of (rev kvs)" by auto
  with s' kv show ?case by (auto simp: map_add_def fun_eq_iff split: option.splits)
qed simp

end

section \<open>The header list is such a store\<close>

definition nv_key :: "named_value \<Rightarrow> string \<times> string" where
  "nv_key nv = (nv_name nv, nv_value nv)"

definition header_find :: "header \<Rightarrow> string \<Rightarrow> string option" where
  "header_find h = map_of (map nv_key (elems h))"

definition header_ok :: "header \<Rightarrow> bool" where
  "header_ok h \<longleftrightarrow> arr_ok h \<and> sorted_wrt (op_le nv_ops) (elems h) \<and> distinct (map nv_name (elems h))"

definition header_room :: "nat \<Rightarrow> header \<Rightarrow> bool" where
  "header_room n h \<longleftrightarrow> a_size h + n \<le> 100 \<and> (a_capacity h = 0 \<or> 100 \<le> a_capacity h)"

definition header_put :: "string \<Rightarrow> string \<Rightarrow> header \<Rightarrow> header option" where
  "header_put k v h = do { r \<leftarrow> appendHeader \<lparr>al_out = AllocOk, al_fill = NUL\<rparr> (chars k) (chars v) h;
     if fst r = None then Some (snd r) else None }"

interpretation nvcmp: dfw_order nv_ops
  unfolding nv_ops_def by (rule member_ops_order) unfold_locales

lemma nv_ops_eq [simp]: "op_eq nv_ops a b \<longleftrightarrow> nv_name a = nv_name b"
  by (simp add: nv_ops_def member_ops_def)

lemma nv_new_chars [simp]:
  "NUL \<notin> set k \<Longrightarrow> NUL \<notin> set v \<Longrightarrow> nv_new (chars k) (chars v) = \<lparr>nv_name = k, nv_value = v\<rparr>"
  "NUL \<notin> set k \<Longrightarrow> nv_name (nv_new (chars k) None) = k"
  by (simp_all add: nv_new_def text_set_chars)

lemma sorted_insert_capacity:
  "sorted_insert c al (Some x) a = Some (e, i, a') \<Longrightarrow> a_capacity a' = a_capacity (snd (arr_grow al a))"
  by (auto simp: sorted_insert_def bind_eq_Some_conv split: prod.splits option.splits if_splits)

lemma arr_grow_capacity:
  "al_out al \<noteq> AllocFails \<Longrightarrow> a_capacity a \<ge> 100 \<or> \<not> isCapacity a \<Longrightarrow> 100 \<le> a_capacity (snd (arr_grow al a))"
  by (auto simp: arr_grow_def Let_def getNewCapacity_def)

lemma header_find_iff:
  assumes "distinct (map nv_name (elems h))"
  shows "header_find h k = Some v \<longleftrightarrow> \<lparr>nv_name = k, nv_value = v\<rparr> \<in> set (elems h)"
proof -
  have "map_of (map nv_key xs) k = Some v \<longleftrightarrow> \<lparr>nv_name = k, nv_value = v\<rparr> \<in> set xs"
    if "distinct (map nv_name xs)" for xs
  proof -
    have "distinct (map fst (map nv_key xs))" using that by (simp add: nv_key_def o_def)
    then have "map_of (map nv_key xs) k = Some v \<longleftrightarrow> (k, v) \<in> nv_key ` set xs"
      by (simp only: map_of_eq_Some_iff set_map)
    moreover have "(k, v) = nv_key x \<longleftrightarrow> x = \<lparr>nv_name = k, nv_value = v\<rparr>" for x
      by (cases x) (auto simp: nv_key_def)
    ultimately show ?thesis by (auto simp: image_iff)
  qed
  with assms show ?thesis by (simp add: header_find_def)
qed

lemma getHeader_find:
  assumes "header_ok h" "NUL \<notin> set k"
  shows "getHeader (chars k) h = Some (map_option (\<lambda>v. \<lparr>nv_name = k, nv_value = v\<rparr>) (header_find h k))"
proof -
  let ?x = "nv_new (chars k) None"
  have ok: "arr_ok h" and d: "distinct (map nv_name (elems h))" using assms(1) by (auto simp: header_ok_def)
  from nvcmp.sorted_index_spec[OF ok, of ?x] assms obtain r where
    r: "sorted_index nv_ops (Some ?x) h = Some r"
       "(\<exists>i<a_size h. r = int i \<and> k = nv_name (elems h ! i)) \<or> r = -1 \<and> (\<forall>j<a_size h. k \<noteq> nv_name (elems h ! j))"
    by (auto simp: header_ok_def)
  from r(2) show ?thesis
  proof (elim disjE exE conjE)
    fix i assume i: "i < a_size h" "r = int i" "k = nv_name (elems h ! i)"
    then have "elems h ! i = \<lparr>nv_name = k, nv_value = nv_value (elems h ! i)\<rparr>" by simp
    moreover have "elems h ! i \<in> set (elems h)" using i(1) ok by simp
    ultimately have "header_find h k = Some (nv_value (elems h ! i))"
      using header_find_iff[OF d] by metis
    then show ?thesis using r(1) i ok by (simp add: getHeader_def sorted_get_def arr_get_elems)
  next
    assume n: "r = -1" "\<forall>j<a_size h. k \<noteq> nv_name (elems h ! j)"
    have "header_find h k = None"
    proof (rule ccontr)
      assume "header_find h k \<noteq> None"
      then obtain v where "\<lparr>nv_name = k, nv_value = v\<rparr> \<in> set (elems h)"
        using header_find_iff[OF d] by auto
      then show False using n(2) ok by (metis in_set_conv_nth length_elems named_value.select_convs(1))
    qed
    then show ?thesis using r(1) n(1) by (simp add: getHeader_def sorted_get_def arr_get_def)
  qed
qed

lemma remove_nth_filter:
  assumes "distinct (map f xs)" "p < length xs"
  shows "remove_nth p xs = filter (\<lambda>y. f y \<noteq> f (xs ! p)) xs"
proof -
  have s: "xs = take p xs @ xs ! p # drop (Suc p) xs" using assms(2) by (rule id_take_nth_drop)
  then have "distinct (map f (take p xs @ xs ! p # drop (Suc p) xs))" using assms(1) by simp
  then have "f (xs ! p) \<notin> f ` set (take p xs)" "f (xs ! p) \<notin> f ` set (drop (Suc p) xs)" by auto
  then have "\<forall>y\<in>set (take p xs) \<union> set (drop (Suc p) xs). f y \<noteq> f (xs ! p)" by (metis UnE imageI)
  then have "filter (\<lambda>y. f y \<noteq> f (xs ! p)) (take p xs @ xs ! p # drop (Suc p) xs) = take p xs @ drop (Suc p) xs"
    by simp
  then show ?thesis using s by (simp add: remove_nth_def)
qed

lemma header_remove_ok:
  assumes ok: "header_ok h" and spare: "a_size h = 0 \<or> a_size h < a_capacity h"
  shows "\<exists>old h'. sorted_remove nv_ops (Some x) h = Some (old, h') \<and> arr_ok h' \<and> a_capacity h' = a_capacity h \<and>
     elems h' = filter (\<lambda>e. nv_name e \<noteq> nv_name x) (elems h)"
proof -
  have a: "arr_ok h" and d: "distinct (map nv_name (elems h))" using ok by (auto simp: header_ok_def)
  from nvcmp.sorted_index_spec[OF a, of x] ok obtain r where
    r: "sorted_index nv_ops (Some x) h = Some r"
       "(\<exists>i<a_size h. r = int i \<and> nv_name x = nv_name (elems h ! i)) \<or>
        r = -1 \<and> (\<forall>j<a_size h. nv_name x \<noteq> nv_name (elems h ! j))"
    by (auto simp: header_ok_def)
  from r(2) show ?thesis
  proof (elim disjE exE conjE)
    fix i assume i: "i < a_size h" "r = int i" "nv_name x = nv_name (elems h ! i)"
    then have "i < length (elems h)" using a by simp
    from remove_nth_filter[OF d this] sorted_remove_at_ok[OF a _ i(1)] spare i r(1)
    show ?thesis by (auto simp: sorted_remove_def)
  next
    assume n: "r = -1" "\<forall>j<a_size h. nv_name x \<noteq> nv_name (elems h ! j)"
    then have "filter (\<lambda>e. nv_name e \<noteq> nv_name x) (elems h) = elems h"
      using a by (auto simp: filter_id_conv in_set_conv_nth) metis
    then show ?thesis using r(1) n(1) a by (simp add: sorted_remove_def sorted_remove_at_none)
  qed
qed

lemma sorted_wrt_filter_le: "sorted_wrt R xs \<Longrightarrow> sorted_wrt R (filter P xs)"
  by (induction xs) auto

lemma header_put_ok:
  assumes ok: "header_ok h" and room: "header_room (Suc n) h" and kv: "NUL \<notin> set k" "NUL \<notin> set v"
  shows "\<exists>h'. header_put k v h = Some h' \<and> header_ok h' \<and> header_room n h' \<and>
     header_find h' = (header_find h)(k \<mapsto> v)"
proof -
  let ?al = "\<lparr>al_out = AllocOk, al_fill = NUL\<rparr>" and ?x = "\<lparr>nv_name = k, nv_value = v\<rparr>"
  obtain old h1 where h1: "sorted_remove nv_ops (Some ?x) h = Some (old, h1)" "arr_ok h1"
      "a_capacity h1 = a_capacity h" "elems h1 = filter (\<lambda>e. nv_name e \<noteq> k) (elems h)"
    using header_remove_ok[OF ok, of ?x] room ok by (auto simp: header_room_def header_ok_def arr_ok_def)
  have ord: "nvcmp.ordered (elems h1)" and d: "distinct (map nv_name (elems h))"
    using ok unfolding h1(4) header_ok_def by (auto intro: sorted_wrt_filter_le)
  obtain i h2 where h2: "sorted_insert nv_ops ?al (Some ?x) h1 = Some (None, i, h2)" "arr_ok h2"
      "nvcmp.ins_point ?x (elems h1) i" "elems h2 = insert_nth i ?x (elems h1)"
    using nvcmp.sorted_insert_ok[OF h1(2) ord, of ?al ?x] by auto
  have put: "header_put k v h = Some h2"
    using h1(1) h2(1) kv by (simp add: header_put_def appendHeader_def Let_def)
  have fst: "k \<notin> nv_name ` set (elems h1)" "distinct (map nv_name (elems h1))"
    using d unfolding h1(4) by (auto simp: distinct_map_filter)
  have m: "map nv_name (elems h2) = insert_nth i k (map nv_name (elems h1))"
    unfolding h2(4) insert_nth_def by (simp add: take_map drop_map)
  have d2: "distinct (map nv_name (elems h2))" unfolding m using fst by simp
  have ok2: "header_ok h2"
    using h2 nvcmp.ordered_insert_nth[OF ord h2(3)] d2 by (simp add: header_ok_def)
  have "length (elems h1) \<le> length (elems h)" unfolding h1(4) by simp
  then have "a_size h2 \<le> Suc (a_size h)"
    using h2(2,4) h1(2) ok length_elems[of h2] by (auto simp: header_ok_def)
  moreover have "100 \<le> a_capacity h1 \<or> \<not> isCapacity h1"
    using room h1(2,3,4) ok length_elems[of h1] \<open>length (elems h1) \<le> length (elems h)\<close>
    by (auto simp: header_room_def isCapacity_def header_ok_def arr_ok_def)
  then have "100 \<le> a_capacity h2"
    using sorted_insert_capacity[OF h2(1)] arr_grow_capacity[of ?al h1] by auto
  ultimately have rm: "header_room n h2" using room by (simp add: header_room_def)
  have "header_find h2 k' = Some v' \<longleftrightarrow> ((header_find h)(k \<mapsto> v)) k' = Some v'" for k' v'
    using header_find_iff[OF d2] header_find_iff[OF d] h2(4) h1(4) by auto
  then have "header_find h2 = (header_find h)(k \<mapsto> v)" by (intro ext) (metis not_Some_eq)
  with put ok2 rm show ?thesis by blast
qed

interpretation hdr: keyed_store header_ok header_room header_put header_find
  by unfold_locales (rule header_put_ok)

lemma header_empty [simp]: "header_ok arr_init" "header_find arr_init = Map.empty" "n \<le> 100 \<Longrightarrow> header_room n arr_init"
  by (simp_all add: header_ok_def header_find_def header_room_def) (simp_all add: arr_init_def)

section \<open>Properties\<close>

text \<open>Appending a list of headers, one \<open>appendHeader\<close> each.\<close>

primrec append_all :: "(string \<times> string) list \<Rightarrow> header \<Rightarrow> header option" where
  "append_all [] h = Some h"
| "append_all (kv # kvs) h = do { h' \<leftarrow> header_put (fst kv) (snd kv) h; append_all kvs h' }"

lemma append_all_puts: "append_all kvs h = hdr.puts kvs h"
  by (induction kvs arbitrary: h) (simp_all cong: Option.bind_cong)

text \<open>C31. The headers of a message are a finite map: after at most 100 calls of \<open>appendHeader\<close> on an
  empty list, none of which faults, \<open>getHeader\<close> returns for every name the value appended last under
  exactly that name (the comparison is case sensitive), and nothing for other names.\<close>

theorem headers_are_a_map:
  assumes "length kvs \<le> 100" "\<forall>(k, v)\<in>set kvs. NUL \<notin> set k \<and> NUL \<notin> set v"
  shows "\<exists>h. append_all kvs arr_init = Some h \<and>
    (\<forall>k. NUL \<notin> set k \<longrightarrow>
       getHeader (chars k) h = Some (map_option (\<lambda>v. \<lparr>nv_name = k, nv_value = v\<rparr>) (map_of (rev kvs) k)))"
proof -
  from hdr.puts_ok[of arr_init kvs] assms obtain h where
    "hdr.puts kvs arr_init = Some h" "header_ok h" "header_find h = map_of (rev kvs)" by auto
  then show ?thesis using getHeader_find[of h] by (auto simp: append_all_puts)
qed

theorem headers_are_a_map_witness:
  "\<exists>h. append_all [(''Host'', ''a''), (''Range'', ''x''), (''Host'', ''b'')] arr_init = Some h \<and>
     getHeader (chars ''Host'') h = Some (Some \<lparr>nv_name = ''Host'', nv_value = ''b''\<rparr>) \<and>
     getHeader (chars ''host'') h = Some None"
proof -
  from headers_are_a_map[of "[(''Host'', ''a''), (''Range'', ''x''), (''Host'', ''b'')]"] obtain h where
    h: "append_all [(''Host'', ''a''), (''Range'', ''x''), (''Host'', ''b'')] arr_init = Some h"
      "\<And>k. NUL \<notin> set k \<Longrightarrow> getHeader (chars k) h = Some (map_option (\<lambda>v. \<lparr>nv_name = k, nv_value = v\<rparr>)
         (map_of (rev [(''Host'', ''a''), (''Range'', ''x''), (''Host'', ''b'')]) k))" by auto
  show ?thesis using h(1) h(2)[of "''Host''"] h(2)[of "''host''"] by auto
qed

end
