(* ===== verification/Dfw_HttpUtil.thy ===== *)
theory Dfw_HttpUtil
  imports Dfw_HttpHeader
begin

text \<open>
  \<open>lib/httpd/HttpdUtil.cpp\<close>: \<open>urldecode\<close> and \<open>checkRangeBytes\<close> (the date functions of the file
  are in \<open>Dfw_Time\<close>).  Texts are memory with the terminating NUL; \<open>None\<close> is an access outside.
\<close>

section \<open>urldecode\<close>

definition toLower :: "int \<Rightarrow> int" where
  "toLower c = (if 65 \<le> c \<and> c \<le> 90 then xor c 32 else c)"

definition hex_digit :: "char \<Rightarrow> int" where
  "hex_digit c = (let l = toLower (schar c) in if l \<le> 57 then l - 48 else l - 97 + 10)"

text \<open>\<open>dest[d++] = \<dots>\<close> in an allocation of \<open>n\<close> bytes; \<open>dest\<close> is what is written so far.\<close>

definition put :: "nat \<Rightarrow> string \<Rightarrow> string \<Rightarrow> string option" where
  "put n dest xs = (if length dest + length xs \<le> n then Some (dest @ xs) else None)"

text \<open>The loop on what is left of the text (terminator included): \<open>s + 2 < url_len\<close> after the first
  increment says that more than two bytes follow.  \<open>s\<close> is an \<open>int\<close>: \<open>s + 2\<close> overflows when it reaches
  \<open>2 ^ 31\<close>.\<close>

function urldecode_loop :: "nat \<Rightarrow> string \<Rightarrow> string \<Rightarrow> string option" where
  "urldecode_loop n [] dest = Some dest"
| "urldecode_loop n (c # cs) dest =
     (if c = CHR ''%'' \<and> 2 ^ 31 \<le> n - length cs + 2 then None
      else if c = CHR ''%'' \<and> 2 < length cs then
        (let c2 = cs ! 0; c3 = cs ! 1 in
         if c_isxdigit c2 \<and> c_isxdigit c3
         then do { d \<leftarrow> put n dest [char_of (nat ((16 * hex_digit c2 + hex_digit c3) mod 256))];
                   urldecode_loop n (drop 2 cs) d }
         else do { d \<leftarrow> put n dest [c, c2, c3]; urldecode_loop n (drop 2 cs) d })
      else if c = CHR ''+'' then do { d \<leftarrow> put n dest [SPC]; urldecode_loop n cs d }
      else do { d \<leftarrow> put n dest [c]; urldecode_loop n cs d })"
  by pat_completeness auto
termination by (relation "measure (\<lambda>(n, cs, dest). length cs)") auto

text \<open>\<open>url_len\<close> is an \<open>int\<close>: a negative one is a size that cannot be allocated.\<close>

definition urldecode :: "allocator \<Rightarrow> string \<Rightarrow> string option \<Rightarrow> (rv \<times> string) option" where
  "urldecode al out url =
     (case url of
        None \<Rightarrow> Some (Some (DFW_ERROR, 0), out)
      | Some u \<Rightarrow>
          (let url_len = to_int32 (int (length (cstr u) + 1)) in
           if al_out al = AllocFails \<or> url_len < 0 then Some (Some (DFW_E_NOMEM, 12), out)
           else do { dest \<leftarrow> urldecode_loop (nat url_len) (take (nat url_len) u) [];
                     if NUL \<in> set dest then Some (None, cstr dest) else None }))"

section \<open>checkRangeBytes\<close>

record range_vars =
  rg_range :: string
  rg_accept :: string
  rg_start :: string
  rg_end :: string
  rg_minus :: int

definition nv_text :: "named_value option \<Rightarrow> string" where
  "nv_text o1 = (case o1 of None \<Rightarrow> [] | Some nv \<Rightarrow> nv_value nv)"

text \<open>The text behind \<open>bytes=\<close>; \<open>p\<close> points at it in memory.\<close>

definition range_spec :: "string \<Rightarrow> range_vars \<Rightarrow> rv \<times> range_vars" where
  "range_spec p v =
     (if p = [] then (Some (DFW_ERROR, 0), v)
      else if hd p = CHR ''-'' then (None, v\<lparr>rg_minus := 2, rg_end := tl p\<rparr>)
      else if p = ''0-0,-1'' then (None, v\<lparr>rg_minus := 3\<rparr>)
      else case strstr (tl p) ''-'' of
        None \<Rightarrow> (Some (DFW_ERROR, 0), v)
      | Some i \<Rightarrow>
          (let p2 = i + 2 in
           if p2 = length p then (None, v\<lparr>rg_minus := 4, rg_start := take (p2 - 1) p\<rparr>)
           else (None, v\<lparr>rg_minus := 1, rg_start := take (p2 - 1) p, rg_end := drop p2 p\<rparr>)))"

text \<open>\<open>p = pRange + 6\<close>: one past the \<open>=\<close>, which is not looked at.\<close>

definition range_text :: "range_vars \<Rightarrow> (rv \<times> range_vars) option" where
  "range_text v =
     (let mem = rg_range v @ [NUL] in
      if strcasestr (cstr mem) ''bytes'' \<noteq> Some 0 then Some (Some (DFW_ERROR, 0), v)
      else if length mem \<le> 6 then None
      else Some (range_spec (cstr (drop 6 mem)) v))"

definition checkRangeBytes :: "header \<Rightarrow> bool \<Rightarrow> range_vars \<Rightarrow> (rv \<times> range_vars) option" where
  "checkRangeBytes h isIfRange v =
     do { oIfRange \<leftarrow> getHeader (chars ''If-Range'') h;
          oRange \<leftarrow> getHeader (chars ''Range'') h;
          oAcceptRange \<leftarrow> getHeader (chars ''Accept-Range'') h;
          if oRange = None then Some (None, v\<lparr>rg_minus := 0\<rparr>)
          else if oIfRange \<noteq> None \<and> \<not> isIfRange then Some (None, v\<lparr>rg_minus := 0\<rparr>)
          else let v = v\<lparr>rg_range := nv_text oRange\<rparr>;
                   v = (if oAcceptRange \<noteq> None then v\<lparr>rg_accept := nv_text oAcceptRange\<rparr> else v) in
          if rg_range v = [] then Some (None, v\<lparr>rg_minus := 0\<rparr>)
          else if rg_accept v \<noteq> [] \<and> \<not> text_equals (rg_accept v) ''bytes'' \<and>
                  \<not> text_equals (rg_accept v) ''none''
          then Some (Some (DFW_ERROR, 0), v)
          else range_text v }"

section \<open>Decoding\<close>

lemma xor_32_upper: "65 \<le> c \<Longrightarrow> c \<le> 90 \<Longrightarrow> xor c 32 = c + (32::int)"
proof -
  assume "65 \<le> c" "c \<le> 90"
  then have "c \<in> set [65..90]" by (simp only: set_upto atLeastAtMost_iff)
  moreover have "list_all (\<lambda>c. xor c 32 = c + 32) [65..90::int]" by code_simp
  ultimately show ?thesis by (simp only: list_all_iff)
qed

lemma hex_digit_val:
  assumes "c_isxdigit c"
  shows "hex_digit c = int (hex_val c)" "hex_val c < 16"
proof -
  have s: "uchar c < 128 \<Longrightarrow> schar c = int (uchar c)" by (simp add: schar_def uchar_def)
  have "uchar c < 128" using assms
    by (auto simp: c_isxdigit_def c_isdigit_def)
  from s[OF this] assms show "hex_digit c = int (hex_val c)" "hex_val c < 16"
    by (auto simp: hex_digit_def toLower_def Let_def xor_32_upper hex_val_def c_isxdigit_def c_isdigit_def)
qed

text \<open>What a text encodes: a plain character for itself, \<open>+\<close> for a space, \<open>%xx\<close> for a byte.\<close>

inductive url_encodes :: "string \<Rightarrow> string \<Rightarrow> bool" where
  enc_nil: "url_encodes [] []"
| enc_plain: "url_encodes u s \<Longrightarrow> c \<notin> {CHR ''%'', CHR ''+'', NUL} \<Longrightarrow> url_encodes (c # u) (c # s)"
| enc_plus: "url_encodes u s \<Longrightarrow> url_encodes (CHR ''+'' # u) (SPC # s)"
| enc_hex: "url_encodes u s \<Longrightarrow> c_isxdigit a \<Longrightarrow> c_isxdigit b \<Longrightarrow> hex_val a + hex_val b \<noteq> 0 \<Longrightarrow>
    url_encodes (CHR ''%'' # a # b # u) (char_of (16 * hex_val a + hex_val b) # s)"

code_pred (modes: i \<Rightarrow> i \<Rightarrow> bool) url_encodes .

lemma c_isxdigit_not_nul: "c_isxdigit c \<Longrightarrow> c \<noteq> NUL"
  by (auto simp: c_isxdigit_def c_isdigit_def uchar_def)

lemma char_of_nonzero: "n < (256::nat) \<Longrightarrow> n \<noteq> 0 \<Longrightarrow> char_of n \<noteq> NUL"
proof
  assume "n < 256" "n \<noteq> 0" "char_of n = NUL"
  then have "of_char (char_of n) = (0::nat)" by simp
  with \<open>n < 256\<close> \<open>n \<noteq> 0\<close> show False by simp
qed

lemma url_encodes_facts:
  assumes "url_encodes u s"
  shows "NUL \<notin> set u" "NUL \<notin> set s" "length s \<le> length u"
  using assms
proof (induction rule: url_encodes.induct)
  case (enc_hex u s a b)
  have "16 * hex_val a + hex_val b < 256" "16 * hex_val a + hex_val b \<noteq> 0"
    using enc_hex(2,3,4) hex_digit_val(2)[of a] hex_digit_val(2)[of b] by auto
  from char_of_nonzero[OF this] enc_hex show "NUL \<notin> set (char_of (16 * hex_val a + hex_val b) # s)" by auto
qed (auto dest: c_isxdigit_not_nul)

text \<open>A length whose counter does not overflow.\<close>

definition int_room :: "nat \<Rightarrow> bool" where
  "int_room n \<longleftrightarrow> n + 2 < 2 ^ 31"

lemma urldecode_loop_step:
  assumes "int_room n"
  shows "urldecode_loop n (c # cs) dest =
     (if c = CHR ''%'' \<and> 2 < length cs then
        (let c2 = cs ! 0; c3 = cs ! 1 in
         if c_isxdigit c2 \<and> c_isxdigit c3
         then do { d \<leftarrow> put n dest [char_of (nat ((16 * hex_digit c2 + hex_digit c3) mod 256))];
                   urldecode_loop n (drop 2 cs) d }
         else do { d \<leftarrow> put n dest [c, c2, c3]; urldecode_loop n (drop 2 cs) d })
      else if c = CHR ''+'' then do { d \<leftarrow> put n dest [SPC]; urldecode_loop n cs d }
      else do { d \<leftarrow> put n dest [c]; urldecode_loop n cs d })"
    "\<not> (c = CHR ''%'' \<and> 2 ^ 31 \<le> n - length cs + 2)"
proof -
  have "n - length cs \<le> n" by (rule diff_le_self)
  then show no: "\<not> (c = CHR ''%'' \<and> 2 ^ 31 \<le> n - length cs + 2)" using assms unfolding int_room_def by linarith
  show "urldecode_loop n (c # cs) dest =
     (if c = CHR ''%'' \<and> 2 < length cs then
        (let c2 = cs ! 0; c3 = cs ! 1 in
         if c_isxdigit c2 \<and> c_isxdigit c3
         then do { d \<leftarrow> put n dest [char_of (nat ((16 * hex_digit c2 + hex_digit c3) mod 256))];
                   urldecode_loop n (drop 2 cs) d }
         else do { d \<leftarrow> put n dest [c, c2, c3]; urldecode_loop n (drop 2 cs) d })
      else if c = CHR ''+'' then do { d \<leftarrow> put n dest [SPC]; urldecode_loop n cs d }
      else do { d \<leftarrow> put n dest [c]; urldecode_loop n cs d })"
    by (simp only: urldecode_loop.simps(2) if_not_P[OF no])
qed

declare urldecode_loop.simps(2) [simp del]

lemma urldecode_loop_encodes:
  assumes "url_encodes u s"
  shows "length dest + length s + 1 \<le> n \<Longrightarrow> int_room n \<Longrightarrow> urldecode_loop n (u @ [NUL]) dest = Some (dest @ s @ [NUL])"
  using assms
proof (induction arbitrary: dest rule: url_encodes.induct)
  case (enc_hex u s a b)
  have "(16 * hex_digit a + hex_digit b) mod 256 = int (16 * hex_val a + hex_val b)"
    using enc_hex(2,3) hex_digit_val[of a] hex_digit_val[of b] by simp
  then have "char_of (nat ((16 * hex_digit a + hex_digit b) mod 256)) = (char_of (16 * hex_val a + hex_val b) :: char)"
    by (simp only: nat_int)
  with enc_hex show ?case by (simp add: urldecode_loop_step(1) put_def Let_def)
qed (simp_all add: urldecode_loop_step(1) put_def)

lemma urldecode_loop_total:
  "length dest + length u \<le> n \<Longrightarrow> int_room n \<Longrightarrow> u \<noteq> [] \<Longrightarrow> last u = NUL \<Longrightarrow>
     \<exists>d. urldecode_loop n u dest = Some (d @ [NUL]) \<and> length d < length dest + length u"
proof (induction n u dest rule: urldecode_loop.induct)
  case (2 n c cs dest)
  note step = urldecode_loop_step(1)[OF "2.prems"(2)]
  note ov = urldecode_loop_step(2)[OF "2.prems"(2)]
  show ?case
  proof (cases "c = CHR ''%'' \<and> 2 < length cs")
    case True
    then obtain c2 c3 c4 r where cs: "cs = c2 # c3 # c4 # r"
      by (cases cs; cases "tl cs"; cases "tl (tl cs)") auto
    show ?thesis using 2(1,2)[OF ov True refl refl] 2(5-) True
      by (auto simp: cs step put_def Let_def split: if_splits)
  next
    case False
    show ?thesis
    proof (cases "cs = []")
      case True
      then show ?thesis using 2(5-) by (simp add: step put_def)
    next
      case ne: False
      show ?thesis using 2(3,4)[OF ov False] 2(5-) False ne by (auto simp: step put_def)
    qed
  qed
qed auto

lemma take_terminated: "NUL \<in> set mem \<Longrightarrow> take (length (cstr mem) + 1) mem = cstr mem @ [NUL]"
proof -
  assume "NUL \<in> set mem"
  then obtain a b where "mem = a @ NUL # b" "NUL \<notin> set a" by (meson split_list_first)
  then show ?thesis by simp
qed

lemma nat_Suc_int: "nat (1 + int n) = Suc n"
  by simp

lemma urldecode_encodes:
  assumes "al_out al \<noteq> AllocFails" "url_encodes u s" "length u < 2 ^ 31 - 3"
  shows "urldecode al out (Some (u @ [NUL])) = Some (None, s)"
proof -
  note f = url_encodes_facts[OF assms(2)]
  have "to_int32 (int (length u + 1)) = int (length u + 1)" using assms(3) by (intro to_int32_of_nat) simp
  moreover have "urldecode_loop (length u + 1) (u @ [NUL]) [] = Some (s @ [NUL])"
    using urldecode_loop_encodes[OF assms(2), of "[]" "length u + 1"] f assms(3) by (simp add: int_room_def)
  ultimately show ?thesis using f assms(1) nat_Suc_int[of "length u"] by (auto simp: urldecode_def Let_def)
qed

section \<open>Ranges\<close>

lemma text_bytes: "text_equals ''bytes'' ''bytes''"
  by (simp add: text_equals_def)

lemma strcasestr_prefix: "strcaseeq (take (length n) h) n \<Longrightarrow> length n \<le> length h \<Longrightarrow> strcasestr h n = Some 0"
  unfolding strcasestr_def strcaseeq_def
  by (rule strstr_eqI) (simp_all add: prefix_def take_map[symmetric], metis append_take_drop_id)

lemma range_spec_both:
  assumes "a \<noteq> []" "CHR ''-'' \<notin> set a"
  shows "range_spec (a @ ''-'' @ b) v =
    (if b = [] then (None, v\<lparr>rg_minus := 4, rg_start := a\<rparr>)
     else if a @ ''-'' @ b = ''0-0,-1'' then (None, v\<lparr>rg_minus := 3\<rparr>)
     else (None, v\<lparr>rg_minus := 1, rg_start := a, rg_end := b\<rparr>))"
proof -
  obtain x y where a: "a = x # y" using assms(1) by (cases a) auto
  have "strstr (y @ ''-'' @ b) ''-'' = Some (length y)"
    using assms(2) unfolding a by (auto simp: strstr_single takeWhile_neq_append)
  then show ?thesis using assms(2) unfolding a by (auto simp: range_spec_def Let_def)
qed

lemma range_text_bytes:
  assumes "rg_range v = b @ c # p" "strcaseeq b ''bytes''" "NUL \<notin> set (b @ c # p)"
  shows "range_text v = Some (range_spec p v)"
proof -
  have l: "length b = 5" using strcaseeq_length[OF assms(2)] by simp
  have "strcasestr (cstr ((b @ c # p) @ [NUL])) ''bytes'' = Some 0"
    using assms(2,3) l by (intro strcasestr_prefix) (simp_all add: cstr_append_nul del: append_assoc)
  moreover have "drop 6 ((b @ c # p) @ [NUL]) = p @ [NUL]" using l by simp
  ultimately show ?thesis using assms(1,3) l by (simp add: range_text_def Let_def)
qed

lemma checkRangeBytes_text:
  assumes "header_ok h" "header_find h ''Range'' = Some t" "t \<noteq> []"
    "header_find h ''If-Range'' = None \<or> isIfRange" "header_find h ''Accept-Range'' = None" "rg_accept v = []"
  shows "checkRangeBytes h isIfRange v = range_text (v\<lparr>rg_range := t\<rparr>)"
proof -
  have g: "getHeader (chars k) h = Some (map_option (\<lambda>v. \<lparr>nv_name = k, nv_value = v\<rparr>) (header_find h k))"
    if "k \<in> {''If-Range'', ''Range'', ''Accept-Range''}" for k
    using that by (intro getHeader_find[OF assms(1)]) auto
  show ?thesis
    using assms(2-6) unfolding checkRangeBytes_def by (auto simp: g nv_text_def Let_def simp del: chars_simps)
qed

section \<open>Properties\<close>

text \<open>C33. Whatever a text below \<open>2 ^ 31 - 3\<close> characters encodes (the code's counters are \<open>int\<close>s), in any mixture of plain characters, \<open>+\<close> for spaces and \<open>%xx\<close> escapes in
  upper or lower case, \<open>urldecode\<close> gives back; and for every such terminated text, escapes broken
  or not, the loop ends, all writes are inside the allocation and the result is terminated.\<close>

theorem urldecode_inverts_encoding:
  assumes "al_out al \<noteq> AllocFails"
  shows "(url_encodes u s \<and> length u < 2 ^ 31 - 3 \<longrightarrow> urldecode al out (Some (u @ [NUL])) = Some (None, s)) \<and>
    (NUL \<in> set mem \<and> length (cstr mem) < 2 ^ 31 - 3 \<longrightarrow> (\<exists>d. urldecode al out (Some mem) = Some (None, d) \<and> length d \<le> length (cstr mem)))"
proof (intro conjI impI)
  assume "url_encodes u s \<and> length u < 2 ^ 31 - 3"
  then show "urldecode al out (Some (u @ [NUL])) = Some (None, s)" using urldecode_encodes[OF assms] by blast
next
  assume m: "NUL \<in> set mem \<and> length (cstr mem) < 2 ^ 31 - 3"
  note t = take_terminated[OF conjunct1[OF m]]
  obtain d where d: "urldecode_loop (length (cstr mem) + 1) (cstr mem @ [NUL]) [] = Some (d @ [NUL])"
      "length d < length (cstr mem) + 1"
    using urldecode_loop_total[of "[]" "cstr mem @ [NUL]" "length (cstr mem) + 1"] m by (auto simp: int_room_def)
  moreover have "length (cstr (d @ [NUL])) \<le> length d"
    by (simp add: cstr_def takeWhile_tail length_takeWhile_le)
  moreover have "to_int32 (int (length (cstr mem) + 1)) = int (length (cstr mem) + 1)"
    using m by (intro to_int32_of_nat) simp
  ultimately show "\<exists>d. urldecode al out (Some mem) = Some (None, d) \<and> length d \<le> length (cstr mem)"
    using assms t nat_Suc_int[of "length (cstr mem)"] by (auto simp: urldecode_def Let_def)
qed

theorem urldecode_inverts_encoding_witness:
  "urldecode \<lparr>al_out = AllocOk, al_fill = NUL\<rparr> [] (Some (''a%2F+b'' @ [NUL])) = Some (None, ''a/ b'') \<and>
   (\<exists>d. urldecode \<lparr>al_out = AllocOk, al_fill = NUL\<rparr> [] (Some (''%4'' @ [NUL])) = Some (None, d) \<and> length d \<le> 2)"
proof
  have x: "c_isxdigit CHR ''2''" "c_isxdigit CHR ''F''" "hex_val CHR ''2'' = 2" "hex_val CHR ''F'' = 15"
    by (simp_all add: c_isxdigit_def c_isdigit_def hex_val_def uchar_def)
  have ch: "char_of (47::nat) = CHR ''/''" by (simp add: char_of_eq_iff take_bit_eq_mod)
  have "url_encodes ''b'' ''b''" by (rule enc_plain[OF enc_nil]) simp
  from enc_plain[OF enc_hex[OF enc_plus[OF this] x(1,2)], of "CHR ''a''"] x(3,4) ch
  have "url_encodes ''a%2F+b'' ''a/ b''" by simp
  then have "url_encodes ''a%2F+b'' ''a/ b'' \<and> length ''a%2F+b'' < 2 ^ 31 - 3" by simp
  from urldecode_inverts_encoding[THEN conjunct1, rule_format, OF _ this, of "\<lparr>al_out = AllocOk, al_fill = NUL\<rparr>" "[]"]
  show "urldecode \<lparr>al_out = AllocOk, al_fill = NUL\<rparr> [] (Some (''a%2F+b'' @ [NUL])) = Some (None, ''a/ b'')" by simp
  have c: "cstr (''%4'' @ [NUL]) = ''%4''" by (rule cstr_append_nul) simp
  have "NUL \<in> set (''%4'' @ [NUL]) \<and> length (cstr (''%4'' @ [NUL])) < 2 ^ 31 - 3" unfolding c by simp
  from urldecode_inverts_encoding[THEN conjunct2, rule_format, OF _ this, of "\<lparr>al_out = AllocOk, al_fill = NUL\<rparr>" "[]"]
  show "\<exists>d. urldecode \<lparr>al_out = AllocOk, al_fill = NUL\<rparr> [] (Some (''%4'' @ [NUL])) = Some (None, d) \<and> length d \<le> 2"
    unfolding c by (simp add: numeral_2_eq_2)
qed

text \<open>C34. A request for one range of bytes is understood: with \<open>bytes=a-z\<close> (in any case) the start is \<open>a\<close>, the
  end \<open>z\<close>, and the code says which of them are there (1 both, 2 only the end, 4 only the start);
  but a header that is just \<open>bytes\<close> is read behind its terminator.\<close>

theorem range_header_forms:
  assumes "header_ok h" "header_find h ''If-Range'' = None \<or> isIfRange"
    "header_find h ''Accept-Range'' = None" "rg_accept v = []" "strcaseeq b ''bytes''" "NUL \<notin> set b"
  shows "(header_find h ''Range'' = Some (b @ CHR ''='' # a @ ''-'' @ z) \<and>
      NUL \<notin> set a \<and> NUL \<notin> set z \<and> CHR ''-'' \<notin> set a \<and> a @ ''-'' @ z \<noteq> ''0-0,-1'' \<longrightarrow>
      checkRangeBytes h isIfRange v = Some (None,
        v\<lparr>rg_range := b @ CHR ''='' # a @ ''-'' @ z,
          rg_start := (if a = [] then rg_start v else a),
          rg_end := (if a \<noteq> [] \<and> z = [] then rg_end v else z),
          rg_minus := (if a = [] then 2 else if z = [] then 4 else 1)\<rparr>)) \<and>
    (header_find h ''Range'' = Some b \<longrightarrow> checkRangeBytes h isIfRange v = None)"
proof (intro conjI impI; (elim conjE)?)
  assume f: "header_find h ''Range'' = Some (b @ CHR ''='' # a @ ''-'' @ z)"
    and a: "NUL \<notin> set a" "NUL \<notin> set z" "CHR ''-'' \<notin> set a" "a @ ''-'' @ z \<noteq> ''0-0,-1''"
  let ?v = "v\<lparr>rg_range := b @ CHR ''='' # a @ ''-'' @ z\<rparr>"
  have "checkRangeBytes h isIfRange v = range_text ?v"
    using assms(2-4) by (intro checkRangeBytes_text[OF assms(1) f]) auto
  also have "\<dots> = Some (range_spec (a @ ''-'' @ z) ?v)"
    using assms(5,6) a by (intro range_text_bytes[of _ b "CHR ''=''"]) auto
  finally show "checkRangeBytes h isIfRange v = Some (None,
        v\<lparr>rg_range := b @ CHR ''='' # a @ ''-'' @ z,
          rg_start := (if a = [] then rg_start v else a),
          rg_end := (if a \<noteq> [] \<and> z = [] then rg_end v else z),
          rg_minus := (if a = [] then 2 else if z = [] then 4 else 1)\<rparr>)"
    using range_spec_both[OF _ a(3), of z ?v] a(4) by (cases "a = []") (auto simp: range_spec_def)
next
  assume f: "header_find h ''Range'' = Some b"
  have l: "length b = 5" using strcaseeq_length[OF assms(5)] by simp
  then have "checkRangeBytes h isIfRange v = range_text (v\<lparr>rg_range := b\<rparr>)"
    using assms(2-4) by (intro checkRangeBytes_text[OF assms(1) f]) auto
  moreover have "strcasestr b ''bytes'' = Some 0" using assms(5) l by (intro strcasestr_prefix) simp_all
  ultimately show "checkRangeBytes h isIfRange v = None"
    using assms(6) l by (simp add: range_text_def Let_def)
qed

definition empty_range :: range_vars where
  "empty_range = \<lparr>rg_range = [], rg_accept = [], rg_start = [], rg_end = [], rg_minus = 0\<rparr>"

theorem range_header_forms_witness:
  "(\<exists>h. header_put ''Range'' ''bytes=5-9'' arr_init = Some h \<and> checkRangeBytes h False empty_range =
     Some (None, \<lparr>rg_range = ''bytes=5-9'', rg_accept = [], rg_start = ''5'', rg_end = ''9'', rg_minus = 1\<rparr>)) \<and>
   (\<exists>h. header_put ''Range'' ''bytes'' arr_init = Some h \<and> checkRangeBytes h False empty_range = None)"
proof
  have b: "strcaseeq ''bytes'' ''bytes''" by (rule strcaseeq_refl)
  obtain h where h: "header_put ''Range'' ''bytes=5-9'' arr_init = Some h" "header_ok h"
      "header_find h = [''Range'' \<mapsto> ''bytes=5-9'']"
    using header_put_ok[of arr_init 0 "''Range''" "''bytes=5-9''"] by auto
  show "\<exists>h. header_put ''Range'' ''bytes=5-9'' arr_init = Some h \<and> checkRangeBytes h False empty_range =
     Some (None, \<lparr>rg_range = ''bytes=5-9'', rg_accept = [], rg_start = ''5'', rg_end = ''9'', rg_minus = 1\<rparr>)"
    using range_header_forms[THEN conjunct1, rule_format, OF h(2) _ _ _ b, of False empty_range "''5''" "''9''"] h
    by (auto simp: empty_range_def)
  obtain g where g: "header_put ''Range'' ''bytes'' arr_init = Some g" "header_ok g"
      "header_find g = [''Range'' \<mapsto> ''bytes'']"
    using header_put_ok[of arr_init 0 "''Range''" "''bytes''"] by auto
  show "\<exists>h. header_put ''Range'' ''bytes'' arr_init = Some h \<and> checkRangeBytes h False empty_range = None"
    using range_header_forms[THEN conjunct2, rule_format, OF g(2) _ _ _ b, of False empty_range] g by (auto simp: empty_range_def)
qed

end
