(* ===== verification/Dfw_HttpRequest.thy ===== *)
theory Dfw_HttpRequest
  imports Dfw_HttpUtil
begin

text \<open>
  \<open>lib/httpd/HttpRequest.cpp\<close>: the server's request parser.  \<open>parseRequest\<close> is called with every
  packet; the state goes from \<open>READY\<close> over \<open>HEADER\<close> to \<open>BODY\<close>.  The members of type \<open>String\<close>
  are their contents; what a NULL pointer from an empty \<open>String\<close> does is written out, and a
  result \<open>None\<close> is the dereference of one.
\<close>

section \<open>The state\<close>

abbreviation (input) HTTPD_STATUS_500 :: int where "HTTPD_STATUS_500 \<equiv> 50000"

datatype cstatus = HTTPD_CSTATUS_READY | HTTPD_CSTATUS_HEADER | HTTPD_CSTATUS_BODY

record request =
  rq_list :: header
  rq_line :: string
  rq_cstatus :: cstatus
  rq_buffer :: string
  rq_requestHeaders :: string
  rq_method :: string
  rq_file :: string
  rq_fileExt :: string
  rq_query :: string
  rq_protocol :: string
  rq_version :: string
  rq_request :: string
  rq_host :: string
  rq_userAgent :: string
  rq_connection :: string
  rq_acceptLanguage :: string
  rq_acceptEncoding :: string
  rq_ifModifiedSince :: string
  rq_ifNoneMatch :: string
  rq_ifRange :: string
  rq_bIfRange :: bool
  rq_upgrade :: int
  rq_keepAlive :: bool
  rq_cacheControl :: bool
  rq_maxAge :: "64 word"

definition request_new :: request where
  "request_new =
     \<lparr>rq_list = arr_init, rq_line = [], rq_cstatus = HTTPD_CSTATUS_READY, rq_buffer = [], rq_requestHeaders = [],
      rq_method = [], rq_file = [], rq_fileExt = [], rq_query = [], rq_protocol = [], rq_version = [],
      rq_request = [], rq_host = [], rq_userAgent = [], rq_connection = [], rq_acceptLanguage = [],
      rq_acceptEncoding = [], rq_ifModifiedSince = [], rq_ifNoneMatch = [], rq_ifRange = [], rq_bIfRange = False,
      rq_upgrade = 0, rq_keepAlive = False, rq_cacheControl = False, rq_maxAge = 0\<rparr>"

abbreviation (input) wrong_line :: rv where "wrong_line \<equiv> Some (DFW_ERROR, HTTPD_STATUS_500)"

text \<open>The allocations of these small texts succeed.\<close>

definition heap_ok :: allocator where
  "heap_ok = \<lparr>al_out = AllocOk, al_fill = NUL\<rparr>"

text \<open>The conversion \<open>%s\<close> of \<open>vsnprintf\<close>; the C library prints a NULL pointer as \<open>(null)\<close>.\<close>

definition fmt_s :: "string \<Rightarrow> string" where
  "fmt_s s = (case chars s of None \<Rightarrow> ''(null)'' | Some p \<Rightarrow> cstr p)"

section \<open>The request line\<close>

text \<open>From the decoded target: path, query and extension.  \<open>query\<close> is NULL when it is empty, and
  \<open>strstr\<close> then dereferences it.  \<open>extindex\<close> is an \<open>unsigned\<close>.\<close>

definition request_target :: "string \<Rightarrow> request \<Rightarrow> request option" where
  "request_target sQuery r =
     do { mem \<leftarrow> chars sQuery;
          Some (let query = cstr mem;
                    r1 = r\<lparr>rq_request := query\<rparr>;
                    (path, r2) = (case strstr query ''?'' of
                                    None \<Rightarrow> (query, r1)
                                  | Some q \<Rightarrow> (take q query, r1\<lparr>rq_query := drop (q + 1) query\<rparr>));
                    r3 = r2\<lparr>rq_file := path\<rparr>;
                    extindex = nat (string_lastIndexOf (chars path) (Some ''.'') mod 2 ^ 32)
                in if extindex \<noteq> 2 ^ 32 - 1 then r3\<lparr>rq_fileExt := drop (extindex + 1) path\<rparr> else r3) }"

text \<open>\<open>strstr\<close> for the first blank, \<open>strrchr\<close> for the last, \<open>strstr\<close> for the slash; each must be there, and not
  at the start.\<close>

definition split_at_pos :: "nat option \<Rightarrow> string \<Rightarrow> (string \<times> string) option" where
  "split_at_pos pos buf =
     (case pos of None \<Rightarrow> None | Some i \<Rightarrow> if i = 0 then None else Some (take i buf, drop (i + 1) buf))"

definition request_version :: "string \<Rightarrow> nat \<Rightarrow> request \<Rightarrow> rv \<times> request" where
  "request_version buf test r =
     (case split_at_pos (strstr buf ''/'') buf of
        None \<Rightarrow> (wrong_line, r)
      | Some (proto, ver) \<Rightarrow>
         (let r = r\<lparr>rq_protocol := proto, rq_version := ver,
                    rq_buffer := drop (test + 2) (rq_buffer r), rq_cstatus := HTTPD_CSTATUS_HEADER\<rparr> in
          (None, r\<lparr>rq_line := fmt_s (rq_method r) @ '' '' @ fmt_s (rq_request r) @ '' '' @
                        fmt_s (rq_protocol r) @ ''/'' @ fmt_s (rq_version r)\<rparr>)))"

definition request_words :: "nat \<Rightarrow> request \<Rightarrow> (rv \<times> request) option" where
  "request_words test r =
     (case split_at_pos (strstr (rq_line r) [SPC]) (rq_line r) of
        None \<Rightarrow> Some (wrong_line, r)
      | Some (method, buf) \<Rightarrow>
         (let r = r\<lparr>rq_method := method\<rparr> in
          case split_at_pos (strrchr buf SPC) buf of
            None \<Rightarrow> Some (wrong_line, r)
          | Some (sTest, buf) \<Rightarrow>
              do { d \<leftarrow> urldecode heap_ok [] (chars sTest);
                   if fst d \<noteq> None then Some (fst d, r)
                   else map_option (request_version buf test) (request_target (snd d) r) }))"

definition parseRequestReady :: "request \<Rightarrow> (rv \<times> request) option" where
  "parseRequestReady r =
     (case chars (rq_buffer r) of
        None \<Rightarrow> Some (Some (DFW_E_AGAIN, 0), r)
      | Some mem \<Rightarrow>
       (case strstr (cstr mem) CRLF of
          None \<Rightarrow> Some (Some (DFW_E_AGAIN, 0), r)
        | Some test \<Rightarrow>
           (let r = r\<lparr>rq_line := take test (cstr mem)\<rparr> in
            if rq_line r = [] then Some (wrong_line, r) else request_words test r)))"

section \<open>Header lines\<close>

text \<open>\<open>if( sName.equals(\<dots>) )\<close>: the members a header also sets.  The test of \<open>Cache-Control\<close> asks that
  \<open>max-age\<close> does not occur.\<close>

definition request_member :: "string \<Rightarrow> string \<Rightarrow> request \<Rightarrow> request" where
  "request_member name v r =
     (if text_equals name ''Host'' then r\<lparr>rq_host := v\<rparr>
      else if text_equals name ''User-Agent'' then r\<lparr>rq_userAgent := v\<rparr>
      else if text_equals name ''Connection'' then
        (let r = r\<lparr>rq_connection := v\<rparr> in
         if text_equals v ''Keep-Alive'' then r\<lparr>rq_keepAlive := True\<rparr>
         else if text_equals v ''close'' then r\<lparr>rq_keepAlive := False\<rparr> else r)
      else if text_equals name ''Accept-Language'' then r\<lparr>rq_acceptLanguage := v\<rparr>
      else if text_equals name ''Accept-Encoding'' then r\<lparr>rq_acceptEncoding := v\<rparr>
      else if text_equals name ''If-Modified-Since'' then r\<lparr>rq_ifModifiedSince := v\<rparr>
      else if text_equals name ''If-None-Match'' then r\<lparr>rq_ifNoneMatch := v\<rparr>
      else if text_equals name ''If-Range'' then r\<lparr>rq_ifRange := v\<rparr>
      else if text_equals name ''Cache-Control'' then
        (let r = r\<lparr>rq_cacheControl := True\<rparr>; index = string_indexOf (chars v) (Some ''='') in
         if 0 < index \<and> strstr (cstr v) ''max-age'' = None
         then r\<lparr>rq_maxAge := word_of_int (parseInt (map_option (drop (nat index + 1)) (chars v)) 0)\<rparr> else r)
      else if text_equals name ''Upgrade-Insecure-Requests'' then r\<lparr>rq_upgrade := parseInt (chars v) 0\<rparr>
      else r)"

text \<open>
  One header line.  When the first colon lies behind the line's end, the length \<open>test - buf\<close> is a
  negative number, as a size close to \<open>2 ^ 64\<close>: the allocation in \<open>sVal.set\<close> fails and \<open>sVal\<close>
  stays empty, while \<open>sName\<close> runs over the line's end.
\<close>

definition header_split :: "nat \<Rightarrow> string \<Rightarrow> (string \<times> string) option" where
  "header_split test buf =
     (case strstr buf '':'' of
        None \<Rightarrow> None
      | Some colon \<Rightarrow>
          if colon = 0 then None
          else Some (trim_spec (take colon buf),
                     trim_spec (if colon < test then take (test - (colon + 1)) (drop (colon + 1) buf) else [])))"

definition header_store :: "string \<Rightarrow> string \<Rightarrow> request \<Rightarrow> (rv \<times> request) option" where
  "header_store sName sVal r =
     do { a \<leftarrow> appendHeader heap_ok (chars sName) (chars sVal) (rq_list r);
          Some (case fst a of
                  Some (code, _) \<Rightarrow> (Some (code, HTTPD_STATUS_500), r\<lparr>rq_list := snd a\<rparr>)
                | None \<Rightarrow> (Some (DFW_OK, 0), request_member sName sVal (r\<lparr>rq_list := snd a\<rparr>))) }"

definition parseRequestHeaders :: "request \<Rightarrow> (rv \<times> request) option" where
  "parseRequestHeaders r =
     (case chars (rq_buffer r) of
        None \<Rightarrow> None
      | Some mem \<Rightarrow>
       (case strstr (cstr mem) CRLF of
          None \<Rightarrow> Some (Some (DFW_E_AGAIN, 0), r)
        | Some test \<Rightarrow>
            if test = 0 then Some (None, r\<lparr>rq_buffer := drop 2 (rq_buffer r), rq_cstatus := HTTPD_CSTATUS_BODY\<rparr>)
            else case header_split test (cstr mem) of
              None \<Rightarrow> Some (wrong_line, r)
            | Some (sName, sVal) \<Rightarrow> header_store sName sVal (r\<lparr>rq_buffer := drop (test + 2) (rq_buffer r)\<rparr>)))"

lemma request_member_buffer [simp]:
  "rq_buffer (request_member n v r) = rq_buffer r" "rq_list (request_member n v r) = rq_list r"
  "rq_cstatus (request_member n v r) = rq_cstatus r"
  by (simp_all add: request_member_def Let_def)

text \<open>Every line that is read makes the buffer shorter, so the loop over the lines ends.\<close>

lemma header_store_buffer: "header_store n v r = Some (e, r') \<Longrightarrow> rq_buffer r' = rq_buffer r"
  by (auto simp: header_store_def bind_eq_Some_conv split: option.splits)

lemma parseRequestHeaders_shrinks:
  assumes "parseRequestHeaders r = Some (Some (DFW_OK, e), r')"
  shows "length (rq_buffer r') < length (rq_buffer r)"
proof (cases "rq_buffer r = []")
  case False
  then obtain mem where m: "chars (rq_buffer r) = Some mem" by simp
  with assms obtain test where t: "strstr (cstr mem) CRLF = Some test" "test \<noteq> 0"
    by (auto simp: parseRequestHeaders_def split: option.splits if_splits)
  with assms m obtain n v where "header_split test (cstr mem) = Some (n, v)"
    by (auto simp: parseRequestHeaders_def split: option.splits)
  with assms m t have "rq_buffer r' = drop (test + 2) (rq_buffer r)"
    by (auto simp: parseRequestHeaders_def dest: header_store_buffer)
  with False show ?thesis by simp
qed (use assms in \<open>simp add: parseRequestHeaders_def\<close>)

function header_loop :: "request \<Rightarrow> (rv \<times> request) option" where
  "header_loop r =
     (case parseRequestHeaders r of
        None \<Rightarrow> None
      | Some (None, r') \<Rightarrow> Some (None, r')
      | Some (Some (code, eno), r') \<Rightarrow>
          if code = DFW_OK then header_loop r' else Some (Some (code, eno), r'))"
  by pat_completeness auto
termination
  by (relation "measure (\<lambda>r. length (rq_buffer r))") (auto dest: parseRequestHeaders_shrinks)

declare header_loop.simps [simp del]

section \<open>parseRequest\<close>

definition parseRequest :: "string \<Rightarrow> request \<Rightarrow> (rv \<times> request) option" where
  "parseRequest buf r =
     (if buf = [] then Some (Some (DFW_ERROR, 0), r)
      else let r = r\<lparr>rq_buffer := rq_buffer r @ buf, rq_requestHeaders := rq_requestHeaders r @ buf\<rparr> in
      case rq_cstatus r of
        HTTPD_CSTATUS_READY \<Rightarrow>
          do { p \<leftarrow> parseRequestReady r;
               if fst p \<noteq> None then Some p else header_loop (snd p) }
      | HTTPD_CSTATUS_HEADER \<Rightarrow> header_loop r
      | HTTPD_CSTATUS_BODY \<Rightarrow> Some (None, r))"

end
