(* ===== verification/Dfw_HttpResponse.thy ===== *)
theory Dfw_HttpResponse
  imports Dfw_HttpRequest Dfw_Time
begin

text \<open>
  What the server answers: \<open>lib/httpd/HttpResponse.cpp\<close>, the error pages of \<open>lib/httpd/HttpdSender.cpp\<close> and
  the functions of \<open>lib/httpd/HttpdClient.cpp\<close> that choose and prepare an answer.  Members of type
  \<open>String\<close> are their contents.  The current time and \<open>localtime_r\<close> are parameters.
\<close>

unbundle bit_operations_syntax

section \<open>The response\<close>

text \<open>\<open>m_buffer\<close> holds \<open>DFW_HTTPD_BUFFER\<close> bytes; of it \<open>m_iBufferLen\<close> count.\<close>

abbreviation (input) DFW_HTTPD_BUFFER :: nat where "DFW_HTTPD_BUFFER \<equiv> 102400"

record response =
  rs_list :: header
  rs_status :: int
  rs_sendedSize :: "64 word"
  rs_body :: string
  rs_bKeepAlive :: bool
  rs_date :: string
  rs_server :: string
  rs_lastModified :: string
  rs_eTag :: string
  rs_keepAlive :: string
  rs_connection :: string
  rs_contentType :: string
  rs_fileStatus :: int
  rs_fileSize :: "64 word"
  rs_fileMTime :: int
  rs_fileETag :: string
  rs_fileContentType :: string
  rs_buffer :: string
  rs_bufferLen :: nat
  rs_fileSendLength :: "64 word"
  rs_fileOffset :: "64 word"
  rs_fileSended :: "64 word"
  rs_stream :: string
  rs_streamSended :: nat

text \<open>The constructor sets two members; the numbers of \<open>junk\<close> and its buffer stay as the memory was.\<close>

definition response_new :: "response \<Rightarrow> response" where
  "response_new junk =
     junk\<lparr>rs_list := arr_init, rs_status := 0, rs_body := [], rs_bKeepAlive := False, rs_date := [], rs_server := [],
          rs_lastModified := [], rs_eTag := [], rs_keepAlive := [], rs_connection := [], rs_contentType := [],
          rs_fileETag := [], rs_fileContentType := [], rs_stream := []\<rparr>"

text \<open>The members a header sets instead of the list.\<close>

definition resp_appendHeader :: "string \<Rightarrow> string option \<Rightarrow> response \<Rightarrow> (rv \<times> response) option" where
  "resp_appendHeader name val r =
     (let v = text_set val in
      if text_equals name ''Date'' then Some (None, r\<lparr>rs_date := v\<rparr>)
      else if text_equals name ''Server'' then Some (None, r\<lparr>rs_server := v\<rparr>)
      else if text_equals name ''Last-Modified'' then Some (None, r\<lparr>rs_lastModified := v\<rparr>)
      else if text_equals name ''ETag'' then Some (None, r\<lparr>rs_eTag := v\<rparr>)
      else if text_equals name ''Keep-Alive'' then Some (None, r\<lparr>rs_keepAlive := v\<rparr>)
      else if text_equals name ''Content-Type'' then Some (None, r\<lparr>rs_contentType := v\<rparr>)
      else if text_equals name ''Connection'' then Some (None, r\<lparr>rs_connection := v\<rparr>)
      else do { a \<leftarrow> appendHeader heap_ok (chars name) val (rs_list r); Some (fst a, r\<lparr>rs_list := snd a\<rparr>) })"

section \<open>The text of a response\<close>

definition getStatusMsg :: "int \<Rightarrow> string" where
  "getStatusMsg status =
     (if status = 200 then ''OK''
      else if status = 206 then ''Partial Content''
      else if status = 301 then ''Moved Permanently''
      else if status = 304 then ''Not Modified''
      else if status = 403 then ''Forbidden''
      else if status = 404 then ''Not Found''
      else ''-'')"

definition line_of :: "string \<Rightarrow> string \<Rightarrow> string" where
  "line_of name v = name @ '': '' @ fmt_s v @ CRLF"

text \<open>The loop over the list: elements that are there are printed.\<close>

definition header_lines :: "header \<Rightarrow> string" where
  "header_lines h =
     concat (map (\<lambda>k. case arr_get (int k) h of None \<Rightarrow> [] | Some nv \<Rightarrow> line_of (fmt_s (nv_name nv)) (nv_value nv))
       [0..<a_size h])"

definition resp_defaults :: "(int \<Rightarrow> tm) \<Rightarrow> int \<Rightarrow> response \<Rightarrow> response option" where
  "resp_defaults localtime now r =
     do { d \<leftarrow> (if rs_date r = [] then getDateStringRfc822 localtime now now else Some (rs_date r));
          let r = r\<lparr>rs_date := d\<rparr>;
          let r = (if rs_server r = [] then r\<lparr>rs_server := ''Dframework/1.0.2''\<rparr> else r);
          Some (if rs_lastModified r = [] then r\<lparr>rs_lastModified := rs_date r\<rparr> else r) }"

definition resp_head :: "response \<Rightarrow> string" where
  "resp_head r =
     ''HTTP/1.1 '' @ show_int (rs_status r) @ '' '' @ getStatusMsg (rs_status r) @ CRLF @
     line_of ''Date'' (rs_date r) @ line_of ''Server'' (rs_server r) @ line_of ''Last-Modified'' (rs_lastModified r) @
     (if rs_eTag r = [] then [] else line_of ''ETag'' (rs_eTag r)) @
     header_lines (rs_list r) @
     (if rs_keepAlive r \<noteq> [] then line_of ''Keep-Alive'' (rs_keepAlive r) @ ''Connection: Keep-Alive'' @ CRLF
      else if rs_connection r \<noteq> [] then line_of ''Connection'' (rs_connection r)
      else ''Connection: Close'' @ CRLF) @
     (if rs_contentType r = [] then [] else line_of ''Content-Type'' (rs_contentType r)) @ CRLF"

definition resp_makeStream :: "(int \<Rightarrow> tm) \<Rightarrow> int \<Rightarrow> response \<Rightarrow> response option" where
  "resp_makeStream localtime now r =
     do { r \<leftarrow> resp_defaults localtime now (r\<lparr>rs_sendedSize := 0, rs_streamSended := 0\<rparr>);
          Some (r\<lparr>rs_stream := resp_head r @ rs_body r\<rparr>) }"

section \<open>Choosing an answer\<close>

definition setResponse :: "int \<Rightarrow> bool \<Rightarrow> response \<Rightarrow> (rv \<times> response) option" where
  "setResponse status keepAlive r =
     (if keepAlive then
        do { a \<leftarrow> resp_appendHeader ''Keep-Alive'' (chars ''timeout=2400'') r;
             if fst a \<noteq> None then Some a
             else do { b \<leftarrow> resp_appendHeader ''Connection'' (chars ''Keep-Alive'') (snd a);
                       if fst b \<noteq> None then Some b
                       else Some (None, (snd b)\<lparr>rs_bKeepAlive := True, rs_status := status\<rparr>) } }
      else
        do { a \<leftarrow> resp_appendHeader ''Connection'' (chars ''close'') r;
             if fst a \<noteq> None then Some a
             else Some (None, (snd a)\<lparr>rs_bKeepAlive := False, rs_status := status\<rparr>) })"

definition setResponse_len :: "int \<Rightarrow> 64 word \<Rightarrow> bool \<Rightarrow> response \<Rightarrow> (rv \<times> response) option" where
  "setResponse_len status contentLength keepAlive r =
     do { a \<leftarrow> resp_appendHeader ''Content-Length'' (chars (show_nat (unat contentLength))) r;
          if fst a \<noteq> None then Some a else setResponse status keepAlive (snd a) }"

definition setResponseLocation :: "int \<Rightarrow> 64 word \<Rightarrow> string \<Rightarrow> bool \<Rightarrow> response \<Rightarrow> (rv \<times> response) option" where
  "setResponseLocation status contentLength location keepAlive r =
     do { a \<leftarrow> resp_appendHeader ''Location'' (Some (location @ [NUL])) r;
          if fst a \<noteq> None then Some a else setResponse_len status contentLength keepAlive (snd a) }"

definition html_err :: "int \<Rightarrow> string \<Rightarrow> string" where
  "html_err status title =
     ''<html>'' @ [LF] @ ''<head><title>'' @ show_int status @ '' '' @ title @ ''</title></head>'' @ [LF] @
     ''<body>'' @ [LF] @ ''<h1>'' @ title @ ''</h1>'' @ [LF] @ ''<address><!-- --></address>'' @ [LF] @
     ''</body>'' @ [LF] @ ''</html>'' @ [LF]"

definition html_err_location :: "int \<Rightarrow> string \<Rightarrow> string \<Rightarrow> string" where
  "html_err_location status title location =
     ''<html>'' @ [LF] @ ''<head><title>'' @ show_int status @ '' '' @ title @ ''</title></head>'' @ [LF] @
     ''<body>'' @ [LF] @ ''<h1>'' @ title @ ''</h1>'' @ [LF] @
     ''<p>The document has moved <a href='' @ [DQUOTE] @ location @ [DQUOTE] @ ''>here</a>.</p>'' @ [LF] @
     ''<address><!-- --></address>'' @ [LF] @ ''</body>'' @ [LF] @ ''</html>'' @ [LF]"

definition makeError :: "int \<Rightarrow> string \<Rightarrow> bool \<Rightarrow> response \<Rightarrow> (rv \<times> response) option" where
  "makeError status title keepAlive r =
     (let r = r\<lparr>rs_body := html_err status title\<rparr> in
      if rs_body r = [] then Some (Some (DFW_E_NOMEM, 12), r)
      else setResponse_len status (word_of_nat (length (rs_body r))) keepAlive r)"

definition makeNoBodyError :: "int \<Rightarrow> string \<Rightarrow> bool \<Rightarrow> response \<Rightarrow> (rv \<times> response) option" where
  "makeNoBodyError status title keepAlive r = setResponse_len status 0 keepAlive (r\<lparr>rs_body := []\<rparr>)"

definition makeLocation :: "int \<Rightarrow> string \<Rightarrow> string \<Rightarrow> response \<Rightarrow> (rv \<times> response) option" where
  "makeLocation status title location r =
     (let r = r\<lparr>rs_body := html_err_location status title location\<rparr> in
      if rs_body r = [] then Some (Some (DFW_E_NOMEM, 12), r)
      else setResponseLocation status (word_of_nat (length (rs_body r))) location True r)"

text \<open>The result of the next four: code, \<open>*out\<close> (0 when it is not written) and response.\<close>

definition with_out :: "int \<Rightarrow> rv \<times> response \<Rightarrow> rv \<times> int \<times> response" where
  "with_out status x = (fst x, if fst x = None then status else 0, snd x)"

definition set301Response :: "string \<Rightarrow> response \<Rightarrow> (rv \<times> int \<times> response) option" where
  "set301Response location r = map_option (with_out 301) (makeLocation 301 ''Moved Permanently'' location r)"

definition set304Response :: "response \<Rightarrow> (rv \<times> int \<times> response) option" where
  "set304Response r =
     do { x \<leftarrow> makeNoBodyError 304 ''Not Modified'' True r;
          if fst x \<noteq> None then Some (with_out 304 x)
          else if rs_fileETag (snd x) = [] then Some (with_out 304 x)
          else do { y \<leftarrow> resp_appendHeader ''ETag'' (chars (rs_fileETag (snd x))) (snd x);
                    Some (with_out 304 (None, snd y)) } }"

definition set403Response :: "response \<Rightarrow> (rv \<times> int \<times> response) option" where
  "set403Response r = map_option (with_out 403) (makeError 403 ''Forbidden'' False r)"

definition set404Response :: "response \<Rightarrow> (rv \<times> int \<times> response) option" where
  "set404Response r = map_option (with_out 404) (makeError 404 ''Not Found'' False r)"

section \<open>The file asked for\<close>

record stat =
  st_mode :: "32 word"
  st_size :: int
  st_mtime :: int

abbreviation (input) S_IFDIR :: "32 word" where "S_IFDIR \<equiv> 0x4000"
abbreviation (input) S_IFREG :: "32 word" where "S_IFREG \<equiv> 0x8000"

text \<open>\<open>String::equals(const String&)\<close> of two objects.\<close>

definition text_equals_obj :: "string \<Rightarrow> string \<Rightarrow> bool" where
  "text_equals_obj a b \<longleftrightarrow>
     (a = [] \<and> b = []) \<or> (length a = length b \<and> (if a = [] then True else strcaseeq (cstr b) (cstr a)))"

definition answer_with :: "rv \<Rightarrow> request \<Rightarrow> (rv \<times> int \<times> response) option \<Rightarrow> (rv \<times> int \<times> request \<times> response) option" where
  "answer_with e q x =
     map_option (\<lambda>(e2, out, r). (if e2 \<noteq> None then e2 else e, out, q, r)) x"

text \<open>
  \<open>se_checkLocalFile\<close>, with the outcome \<open>ga\<close> of \<open>getattr\<close>.  The result: the code, \<open>*out\<close>, the request
  and the response.  A directory without a file name reads before the buffer.
\<close>

definition checkDirectory :: "request \<Rightarrow> response \<Rightarrow> (rv \<times> int \<times> request \<times> response) option" where
  "checkDirectory q r =
     (if rq_file q = [] then None
      else answer_with (Some (DFW_OK, 0)) q
             (if last (rq_file q) = CHR ''/'' then set403Response r
              else set301Response (cstr (rq_file q) @ ''/'') r))"

definition file_etag :: "stat \<Rightarrow> string" where
  "file_etag st = [DQUOTE] @ show_hex (nat (st_size st mod 2 ^ 64)) @ ''-'' @ show_hex (nat (st_mtime st mod 2 ^ 64)) @ [DQUOTE]"

definition checkModified :: "(int \<Rightarrow> tm) \<Rightarrow> int \<Rightarrow> stat \<Rightarrow> request \<Rightarrow> bool option" where
  "checkModified localtime now st q =
     (if rq_ifModifiedSince q = [] then Some False
      else do { p \<leftarrow> parseToTime localtime now 0 (chars (rq_ifModifiedSince q));
                Some (fst p = None \<and> snd p \<noteq> 0 \<and> snd p = st_mtime st) })"

definition se_checkLocalFile ::
  "(int \<Rightarrow> tm) \<Rightarrow> int \<Rightarrow> rv \<times> stat \<Rightarrow> request \<Rightarrow> response \<Rightarrow> (rv \<times> int \<times> request \<times> response) option" where
  "se_checkLocalFile localtime now ga q r =
     (case ga of
        (Some (code, eno), _) \<Rightarrow>
          (if code = DFW_E_NOENT then answer_with (Some (DFW_OK, eno)) q (set404Response r)
           else Some (Some (code, eno), 0, q, r))
      | (None, st) \<Rightarrow>
          if st_mode st AND S_IFDIR \<noteq> 0 then checkDirectory q r
          else if st_mode st AND S_IFREG = 0 then answer_with (Some (DFW_OK, 0)) q (set403Response r)
          else
            (let r = r\<lparr>rs_fileStatus := 0, rs_fileSize := word_of_int (st_size st), rs_fileMTime := st_mtime st,
                       rs_fileETag := file_etag st\<rparr> in
             do { m \<leftarrow> checkModified localtime now st q;
                  if m then answer_with (Some (DFW_OK, 0)) q (set304Response r)
                  else Some (None, 0,
                    if rq_ifRange q \<noteq> [] \<and> text_equals_obj (rs_fileETag r) (rq_ifRange q)
                    then q\<lparr>rq_bIfRange := True\<rparr> else q, r) }))"

end
