(* ===== verification/Dfw_Net.thy ===== *)
theory Dfw_Net
  imports Dfw_Retval
begin

text \<open>
  \<open>lib/net/Socket.cpp\<close>: waiting, sending and receiving.  The operating system answers each kind of
  call from a list of its own, so that a statement about all lists is one about everything the
  system can do; when a list is used up the connection is broken.  Every round of the three loops
  takes an answer, so they end.
\<close>

section \<open>Answers of the system\<close>

text \<open>A failure with its errno, or the nonnegative result.\<close>

datatype sysret = SysErr string | SysRet nat

definition linux_errno :: "(string \<times> int) list" where
  "linux_errno =
    [(''EPERM'', 1), (''ENOENT'', 2), (''EINTR'', 4), (''EIO'', 5), (''EBADF'', 9), (''EAGAIN'', 11),
     (''ENOMEM'', 12), (''EFAULT'', 14), (''EINVAL'', 22), (''ENOTTY'', 25), (''ENOSPC'', 28), (''EPIPE'', 32),
     (''EMSGSIZE'', 90), (''ECONNRESET'', 104), (''ENOTCONN'', 107), (''EINPROGRESS'', 115)]"

definition errno_num :: "string \<Rightarrow> int" where
  "errno_num e = (case map_of linux_errno e of Some n \<Rightarrow> n | None \<Rightarrow> 0)"

definition answer :: "sysret list \<Rightarrow> sysret \<times> sysret list" where
  "answer xs = (case xs of [] \<Rightarrow> (SysErr ''EPIPE'', []) | x # xs' \<Rightarrow> (x, xs'))"

text \<open>\<open>Retval::errno_short\<close> and the caller's own code in place of \<open>DFW_ERROR\<close>.\<close>

definition sys_error :: "int \<Rightarrow> string \<Rightarrow> rv" where
  "sys_error code e = (let rno = fst (errno_short e None) in Some (if rno = DFW_ERROR then code else rno, errno_num e))"

section \<open>Waiting\<close>

text \<open>
  The members the loops use, with the answers to \<open>poll\<close>, \<open>send\<close>, \<open>recv\<close> and \<open>ioctl(SIOCOUTQ)\<close>.
  \<open>sk_sent\<close> is what the system has taken over for sending so far, \<open>sk_in\<close> what there is to receive.
\<close>

record sock =
  sk_stop :: bool
  sk_timeout :: int
  sk_polls :: "sysret list"
  sk_sends :: "sysret list"
  sk_recvs :: "sysret list"
  sk_lefts :: "sysret list"
  sk_sent :: string
  sk_in :: string

definition poll_errno :: "string \<Rightarrow> int" where
  "poll_errno e = (if e = ''EINTR'' then DFW_E_INTR else if e = ''EFAULT'' then DFW_E_FAULT
     else if e = ''EINVAL'' then DFW_E_INVAL else if e = ''ENOMEM'' then DFW_E_NOMEM else DFW_E_POLL)"

text \<open>\<open>POLLIN\<close>, \<open>POLLOUT\<close>, \<open>POLLERR\<close>, \<open>POLLHUP\<close>, \<open>POLLNVAL\<close> are the bits 0, 2, 3, 4, 5 of
  \<open>revents\<close>.\<close>

definition revent :: "nat \<Rightarrow> nat \<Rightarrow> bool" where
  "revent revents b \<longleftrightarrow> revents div 2 ^ b mod 2 = 1"

definition poll_events :: "bool \<Rightarrow> nat \<Rightarrow> rv" where
  "poll_events rdwr revents =
     (if revent revents 0 \<and> \<not> rdwr then None
      else if revent revents 2 \<and> rdwr then None
      else if revent revents 3 then Some (DFW_E_POLLERR, 0)
      else if revent revents 4 then Some (DFW_E_POLLHUP, 0)
      else if revent revents 5 then Some (DFW_E_POLLNVAL, 0)
      else Some (DFW_E_POLL, 0))"

text \<open>\<open>wait\<close> polls for a second at a time; a positive answer stands for the events.\<close>

fun wait_loop :: "bool \<Rightarrow> bool \<Rightarrow> int \<Rightarrow> int \<Rightarrow> sysret list \<Rightarrow> rv \<times> sysret list" where
  "wait_loop stop rdwr in_msec waiting [] =
     (if stop then (Some (DFW_ERROR, 0), []) else (Some (poll_errno ''EPIPE'', errno_num ''EPIPE''), []))"
| "wait_loop stop rdwr in_msec waiting (x # xs) =
     (if stop then (Some (DFW_ERROR, 0), x # xs)
      else case x of
        SysErr e \<Rightarrow> (Some (poll_errno e, errno_num e), xs)
      | SysRet r \<Rightarrow>
          if r = 0 then
            (if waiting + 1000 \<ge> in_msec then (Some (DFW_E_TIMEOUT, 0), xs)
             else wait_loop stop rdwr in_msec (waiting + 1000) xs)
          else (poll_events rdwr r, xs))"

definition sock_wait :: "bool \<Rightarrow> 'a sock_scheme \<Rightarrow> rv \<times> 'a sock_scheme" where
  "sock_wait rdwr s =
     (let (e, xs) = wait_loop (sk_stop s) rdwr (sk_timeout s) 0 (sk_polls s) in (e, s\<lparr>sk_polls := xs\<rparr>))"

abbreviation wait_send :: "'a sock_scheme \<Rightarrow> rv \<times> 'a sock_scheme" where "wait_send \<equiv> sock_wait True"
abbreviation wait_recv :: "'a sock_scheme \<Rightarrow> rv \<times> 'a sock_scheme" where "wait_recv \<equiv> sock_wait False"

lemma wait_loop_length: "length (snd (wait_loop st rw m w xs)) \<le> length xs"
  by (induction st rw m w xs rule: wait_loop.induct) (auto split: sysret.splits)

lemma wait_loop_takes: "\<not> stop \<Longrightarrow> xs \<noteq> [] \<Longrightarrow> length (snd (wait_loop stop rw m w xs)) < length xs"
proof (cases xs)
  case (Cons y ys)
  assume "\<not> stop"
  then show ?thesis using wait_loop_length[of stop rw m "w + 1000" ys] Cons by (auto split: sysret.splits)
qed simp

section \<open>Sending\<close>

text \<open>\<open>Net::isInprogress\<close> outside Windows.\<close>

definition isInprogress :: "string \<Rightarrow> bool" where
  "isInprogress e \<longleftrightarrow> e = ''EINPROGRESS''"

text \<open>
  The loop of \<open>send_raw\<close>: \<open>data\<close> is what is left, \<open>offset\<close> what has been taken over.  The system takes
  no more than it is given.  The result: the code, \<open>*o_size\<close> and the socket.
\<close>

function send_loop :: "bool \<Rightarrow> string \<Rightarrow> nat \<Rightarrow> 'a sock_scheme \<Rightarrow> rv \<times> nat \<times> 'a sock_scheme" where
  "send_loop iswait data offset s =
     (if data = [] then (None, offset, s)
      else if sk_stop s then (Some (DFW_ERROR, 0), offset, s)
      else case sk_sends s of
        [] \<Rightarrow> (sys_error DFW_E_WRITE ''EPIPE'', offset, s)
      | SysErr e # xs \<Rightarrow>
          (let s = s\<lparr>sk_sends := xs\<rparr> in
           if isInprogress e then
             (if \<not> iswait then (Some (DFW_E_TIMEOUT, errno_num e), offset, s)
              else let (w, s) = wait_send s in
                   if w = None then send_loop iswait data offset s else (w, offset, s))
           else (sys_error DFW_E_WRITE e, offset, s))
      | SysRet n # xs \<Rightarrow>
          (let s = s\<lparr>sk_sends := xs\<rparr>; k = min n (length data) in
           if 0 < k
           then send_loop iswait (drop k data) (offset + k) (s\<lparr>sk_sent := sk_sent s @ take k data\<rparr>)
           else (Some (DFW_E_DISCONNECT, 0), offset, s)))"
  by pat_completeness auto
termination by (relation "measure (\<lambda>(w, d, k, s). length (sk_sends s))") (auto simp: sock_wait_def split: prod.splits)

declare send_loop.simps [simp del]

definition send_raw :: "bool \<Rightarrow> string \<Rightarrow> 'a sock_scheme \<Rightarrow> rv \<times> nat \<times> 'a sock_scheme" where
  "send_raw iswait data s = send_loop iswait data 0 s"

section \<open>Receiving\<close>

text \<open>\<open>size\<close> is the room left, \<open>o_data\<close> what has been received.\<close>

function recv_loop :: "bool \<Rightarrow> nat \<Rightarrow> string \<Rightarrow> 'a sock_scheme \<Rightarrow> rv \<times> string \<times> 'a sock_scheme" where
  "recv_loop iswait l_size o_data s =
     (if l_size = 0 then (None, o_data, s)
      else if sk_stop s then (Some (DFW_ERROR, 0), o_data, s)
      else case sk_recvs s of
        [] \<Rightarrow> (sys_error DFW_E_RECV ''EPIPE'', o_data, s)
      | SysErr e # xs \<Rightarrow>
          (let s = s\<lparr>sk_recvs := xs\<rparr> in
           if isInprogress e then
             (if \<not> iswait then (Some (DFW_E_AGAIN, errno_num e), o_data, s)
              else let (w, s) = wait_recv s in
                   if w = None then recv_loop iswait l_size o_data s else (w, o_data, s))
           else (sys_error DFW_E_RECV e, o_data, s))
      | SysRet n # xs \<Rightarrow>
          (let s = s\<lparr>sk_recvs := xs\<rparr>; d = take (min n l_size) (sk_in s) in
           if d \<noteq> []
           then recv_loop iswait (l_size - length d) (o_data @ d) (s\<lparr>sk_in := drop (length d) (sk_in s)\<rparr>)
           else (Some (DFW_E_DISCONNECT, 0), o_data, s)))"
  by pat_completeness auto
termination by (relation "measure (\<lambda>(w, n, d, s). length (sk_recvs s))") (auto simp: sock_wait_def split: prod.splits)

declare recv_loop.simps [simp del]

definition recv_raw :: "bool \<Rightarrow> nat \<Rightarrow> 'a sock_scheme \<Rightarrow> rv \<times> string \<times> 'a sock_scheme" where
  "recv_raw iswait sz s = recv_loop iswait sz [] s"

text \<open>\<open>getSendBufferLeftSize\<close>: what the system has taken over and not yet got acknowledged.\<close>

definition left_errno :: "string \<Rightarrow> int" where
  "left_errno e = (if e = ''EBADF'' then DFW_E_BADF
     else if e = ''EFAULT'' \<or> e = ''EINVAL'' \<or> e = ''ENOTTY'' \<or> e = ''ENXIO'' then DFW_E_FAULT else DFW_ERROR)"

definition getSendBufferLeftSize :: "'a sock_scheme \<Rightarrow> rv \<times> nat \<times> 'a sock_scheme" where
  "getSendBufferLeftSize s =
     (case answer (sk_lefts s) of
        (SysErr e, xs) \<Rightarrow> (Some (left_errno e, errno_num e), 0, s\<lparr>sk_lefts := xs\<rparr>)
      | (SysRet n, xs) \<Rightarrow> (None, n, s\<lparr>sk_lefts := xs\<rparr>))"

section \<open>What a sender relies on\<close>

text \<open>
  A sink takes a prefix of what it is offered, says how much, and reports success only when it took
  everything.
\<close>

locale byte_sink =
  fixes send :: "string \<Rightarrow> 's \<Rightarrow> rv \<times> nat \<times> 's"
    and sent :: "'s \<Rightarrow> string"
  assumes send_takes: "send d s = (e, n, s') \<Longrightarrow> n \<le> length d \<and> sent s' = sent s @ take n d"
    and send_all: "send d s = (e, n, s') \<Longrightarrow> e = None \<longleftrightarrow> n = length d"
begin

text \<open>The rest of a text of which \<open>k\<close> bytes are out.\<close>

lemma send_rest:
  assumes "send (drop k d) s = (e, n, s')" "sent s = base @ take k d" "k \<le> length d"
  shows "sent s' = base @ take (k + n) d" "k + n \<le> length d" "e = None \<longleftrightarrow> k + n = length d"
  using send_takes[OF assms(1)] send_all[OF assms(1)] assms(2,3) by (auto simp: take_add)

text \<open>However often it is called with the rest, the sink holds a prefix, all of it in the end.\<close>

primrec retry :: "nat \<Rightarrow> string \<Rightarrow> 's \<Rightarrow> rv \<times> nat \<times> 's" where
  "retry 0 d s = send d s"
| "retry (Suc i) d s = (case retry i d s of (e, n, s') \<Rightarrow>
     if e = None then (e, n, s') else case send (drop n d) s' of (e', n', s'') \<Rightarrow> (e', n + n', s''))"

lemma retry_takes:
  "retry i d s = (e, n, s') \<Longrightarrow> n \<le> length d \<and> sent s' = sent s @ take n d \<and> (e = None \<longleftrightarrow> n = length d)"
proof (induction i arbitrary: e n s')
  case 0
  then show ?case using send_takes send_all by auto
next
  case (Suc i)
  obtain e1 n1 s1 where 1: "retry i d s = (e1, n1, s1)" by (cases "retry i d s")
  note IH = Suc.IH[OF 1]
  show ?case
  proof (cases "e1 = None")
    case True
    with Suc.prems 1 IH show ?thesis by auto
  next
    case False
    obtain e2 n2 s2 where 2: "send (drop n1 d) s1 = (e2, n2, s2)" by (cases "send (drop n1 d) s1")
    show ?thesis using send_rest[OF 2, of "sent s"] IH Suc.prems 1 2 False by auto
  qed
qed

end

lemma send_loop_takes:
  "send_loop w d k s = (e, n, s') \<Longrightarrow>
     k \<le> n \<and> n - k \<le> length d \<and> sk_sent s' = sk_sent s @ take (n - k) d \<and> (e = None \<longleftrightarrow> n - k = length d)"
proof (induction w d k s arbitrary: e n s' rule: send_loop.induct)
  case (1 w d k s)
  show ?case
  proof (cases "d = [] \<or> sk_stop s \<or> sk_sends s = []")
    case True
    with "1.prems" show ?thesis by (subst (asm) send_loop.simps) (auto simp: sys_error_def Let_def split: if_splits)
  next
    case False
    then obtain x xs where x: "sk_sends s = x # xs" "d \<noteq> []" "\<not> sk_stop s" by (cases "sk_sends s") auto
    show ?thesis
    proof (cases x)
      case (SysErr er)
      let ?s = "s\<lparr>sk_sends := xs\<rparr>"
      obtain wr ws where w: "wait_send ?s = (wr, ws)" by (cases "wait_send ?s")
      then have sent: "sk_sent ws = sk_sent s" by (auto simp: sock_wait_def split: prod.splits)
      show ?thesis
      proof (cases "isInprogress er \<and> w \<and> wr = None")
        case True
        with "1.prems" x SysErr w have "send_loop w d k ws = (e, n, s')" by (subst (asm) send_loop.simps) simp
        from "1.IH"(1)[OF x(2,3) x(1) SysErr refl _ _ w[symmetric] refl _ this] True sent show ?thesis by simp
      next
        case no: False
        with "1.prems" x SysErr w sent show ?thesis
          by (subst (asm) send_loop.simps) (auto simp: sys_error_def Let_def split: if_splits)
      qed
    next
      case (SysRet m)
      let ?j = "min m (length d)" and ?s = "s\<lparr>sk_sends := xs\<rparr>"
      show ?thesis
      proof (cases "0 < ?j")
        case True
        let ?s' = "?s\<lparr>sk_sent := sk_sent ?s @ take ?j d\<rparr>"
        from "1.prems" x SysRet True have "send_loop w (drop ?j d) (k + ?j) ?s' = (e, n, s')"
          by (subst (asm) send_loop.simps) (simp add: Let_def)
        from "1.IH"(2)[OF x(2,3) x(1) SysRet refl refl True this]
        have *: "k + ?j \<le> n" "n - (k + ?j) \<le> length d - ?j"
          "sk_sent s' = sk_sent s @ take ?j d @ take (n - (k + ?j)) (drop ?j d)"
          "e = None \<longleftrightarrow> n - (k + ?j) = length d - ?j" by auto
        have "take ?j d @ take (n - (k + ?j)) (drop ?j d) = take (n - k) d"
          using *(1) take_add[of ?j "n - (k + ?j)" d] by simp
        with * show ?thesis by auto
      next
        case False
        with "1.prems" x SysRet show ?thesis by (subst (asm) send_loop.simps) (auto split: if_splits)
      qed
    qed
  qed
qed

section \<open>What the loops leave alone\<close>

lemma wait_frame:
  assumes "sock_wait rw s = (e, s')"
  shows "\<exists>a. s' = s\<lparr>sk_polls := a\<rparr> \<and> length a \<le> length (sk_polls s) \<and> (e = None \<longrightarrow> length a < length (sk_polls s))"
proof -
  obtain w a where w: "wait_loop (sk_stop s) rw (sk_timeout s) 0 (sk_polls s) = (w, a)" by fastforce
  have "w = None \<Longrightarrow> \<not> sk_stop s \<and> sk_polls s \<noteq> []"
    using w by (cases "sk_polls s") (auto split: if_splits)
  then show ?thesis using w assms wait_loop_length[of "sk_stop s" rw "sk_timeout s" 0 "sk_polls s"]
      wait_loop_takes[of "sk_stop s" "sk_polls s" rw "sk_timeout s" 0]
    by (intro exI[of _ a]) (auto simp: sock_wait_def)
qed

lemma send_loop_frame:
  "send_loop w d k s = (e, n, s') \<Longrightarrow>
     \<exists>a b t. s' = s\<lparr>sk_polls := a, sk_sends := b, sk_sent := t\<rparr> \<and> length a \<le> length (sk_polls s) \<and> length b \<le> length (sk_sends s)"
proof (induction w d k s arbitrary: e n s' rule: send_loop.induct)
  case (1 w d k s)
  have same: "\<exists>a b t. s = s\<lparr>sk_polls := a, sk_sends := b, sk_sent := t\<rparr> \<and> length a \<le> length (sk_polls s) \<and> length b \<le> length (sk_sends s)"
    by (rule exI[of _ "sk_polls s"], rule exI[of _ "sk_sends s"], rule exI[of _ "sk_sent s"]) simp
  show ?case
  proof (cases "d = [] \<or> sk_stop s \<or> sk_sends s = []")
    case True
    with "1.prems" same show ?thesis by (subst (asm) send_loop.simps) (auto split: if_splits)
  next
    case False
    then obtain x xs where x: "sk_sends s = x # xs" "d \<noteq> []" "\<not> sk_stop s" by (cases "sk_sends s") auto
    let ?s = "s\<lparr>sk_sends := xs\<rparr>"
    show ?thesis
    proof (cases x)
      case (SysErr er)
      obtain wr ws where w: "wait_send ?s = (wr, ws)" by (cases "wait_send ?s")
      from wait_frame[OF w] obtain a where a: "ws = ?s\<lparr>sk_polls := a\<rparr>" "length a \<le> length (sk_polls s)" by auto
      show ?thesis
      proof (cases "isInprogress er \<and> w \<and> wr = None")
        case True
        with "1.prems" x SysErr w have "send_loop w d k ws = (e, n, s')" by (subst (asm) send_loop.simps) simp
        from "1.IH"(1)[OF x(2,3) x(1) SysErr refl _ _ w[symmetric] refl _ this] True obtain p q t where
          "s' = ws\<lparr>sk_polls := p, sk_sends := q, sk_sent := t\<rparr>" "length p \<le> length (sk_polls ws)" "length q \<le> length (sk_sends ws)"
          by blast
        with a x(1) show ?thesis by (intro exI[of _ p] exI[of _ q] exI[of _ t]) simp
      next
        case no: False
        with "1.prems" x SysErr w have "s' = ?s \<or> s' = ws" by (subst (asm) send_loop.simps) (auto simp: Let_def split: if_splits)
        then show ?thesis
        proof
          assume "s' = ?s"
          then show ?thesis using x(1)
            by (intro exI[of _ "sk_polls s"] exI[of _ xs] exI[of _ "sk_sent s"]) simp
        next
          assume "s' = ws"
          then show ?thesis using a x(1) by (intro exI[of _ a] exI[of _ xs] exI[of _ "sk_sent s"]) simp
        qed
      qed
    next
      case (SysRet m)
      let ?j = "min m (length d)" and ?t = "sk_sent s @ take (min m (length d)) d"
      show ?thesis
      proof (cases "0 < ?j")
        case True
        from "1.prems" x SysRet True have "send_loop w (drop ?j d) (k + ?j) (?s\<lparr>sk_sent := ?t\<rparr>) = (e, n, s')"
          by (subst (asm) send_loop.simps) (simp add: Let_def)
        then have "send_loop w (drop ?j d) (k + ?j) (?s\<lparr>sk_sent := sk_sent ?s @ take ?j d\<rparr>) = (e, n, s')" by simp
        from "1.IH"(2)[OF x(2,3) x(1) SysRet refl refl True this] obtain p q t where
          "s' = s\<lparr>sk_polls := p, sk_sends := q, sk_sent := t\<rparr>" "length p \<le> length (sk_polls s)" "length q \<le> length xs"
          by auto
        with x(1) show ?thesis by (intro exI[of _ p] exI[of _ q] exI[of _ t]) simp
      next
        case False
        with "1.prems" x SysRet have "s' = ?s" by (subst (asm) send_loop.simps) (auto split: if_splits)
        then show ?thesis using x(1)
          by (intro exI[of _ "sk_polls s"] exI[of _ xs] exI[of _ "sk_sent s"]) simp
      qed
    qed
  qed
qed

interpretation sock_sink: byte_sink "send_raw w" sk_sent
  by unfold_locales (use send_loop_takes in \<open>fastforce simp: send_raw_def\<close>)+

end
