(* ===== verification/Dfw_File.thy ===== *)
theory Dfw_File
  imports Dfw_Net
begin

text \<open>
  \<open>lib/io/File.cpp\<close>: the \<open>File\<close> object with its remembered offset over a descriptor with the system's own
  position, and the functions \<open>save\<close> and \<open>contents\<close>.  The answers to \<open>poll\<close>, \<open>lseek64\<close>, \<open>read\<close> and
  \<open>write\<close> are lists as in \<open>Dfw_Net\<close>; a positive answer to \<open>read\<close> or \<open>write\<close> moves at most so many bytes.
\<close>

section \<open>Descriptors\<close>

text \<open>\<open>fl_data\<close> is the file's contents, \<open>fl_pos\<close> the descriptor's position, \<open>fl_offset\<close> the member
  \<open>m_offset\<close> and \<open>fl_timeout\<close> the member \<open>m_uTimeout\<close>.  \<open>fl_errno\<close> is what an earlier call left in
  \<open>errno\<close>; it matters only when an error is reported although the call succeeded.\<close>

record file_obj =
  fl_data :: string
  fl_pos :: nat
  fl_offset :: nat
  fl_timeout :: nat
  fl_errno :: string
  fl_polls :: "sysret list"
  fl_seeks :: "sysret list"
  fl_reads :: "sysret list"
  fl_writes :: "sysret list"

definition file_error :: "string \<Rightarrow> rv" where
  "file_error e = sys_error DFW_ERROR e"

text \<open>\<open>File::isReadable\<close>.\<close>

definition fd_readable :: "file_obj \<Rightarrow> rv \<times> file_obj" where
  "fd_readable f =
     (case answer (fl_polls f) of
        (SysErr e, xs) \<Rightarrow> (Some (poll_errno e, errno_num e), f\<lparr>fl_polls := xs\<rparr>)
      | (SysRet r, xs) \<Rightarrow> (if r = 0 then Some (DFW_E_TIMEOUT, 0) else poll_events False r, f\<lparr>fl_polls := xs\<rparr>))"

text \<open>\<open>(dfw_uint_t)lseek64(\<dots>)\<close> is compared with \<open>(dfw_uint_t)-1\<close>: the position is cut to 32 bits, so one
  congruent to \<open>2 ^ 32 - 1\<close> is taken for an error, after the descriptor has moved.\<close>

definition seek_lost :: "nat \<Rightarrow> bool" where
  "seek_lost pos \<longleftrightarrow> (word_of_nat pos :: 32 word) = - 1"

definition seek_to :: "nat \<Rightarrow> file_obj \<Rightarrow> rv \<times> file_obj" where
  "seek_to pos f =
     (case answer (fl_seeks f) of
        (SysErr e, xs) \<Rightarrow> (file_error e, f\<lparr>fl_seeks := xs\<rparr>)
      | (SysRet _, xs) \<Rightarrow>
          (if seek_lost pos then file_error (fl_errno f) else None, f\<lparr>fl_seeks := xs, fl_pos := pos\<rparr>))"

text \<open>\<open>File::seek(fd, offset)\<close>, \<open>File::lastSeek(fd, offset)\<close>: a seek from the end goes past it.\<close>

definition fd_seek :: "nat \<Rightarrow> file_obj \<Rightarrow> rv \<times> file_obj" where
  "fd_seek off f = seek_to off f"

definition fd_lastSeek :: "nat \<Rightarrow> file_obj \<Rightarrow> rv \<times> file_obj" where
  "fd_lastSeek off f = seek_to (length (fl_data f) + off) f"

text \<open>\<open>::read\<close> at the descriptor's position and \<open>::pread\<close> at a given one.\<close>

definition fd_read :: "nat \<Rightarrow> file_obj \<Rightarrow> (rv \<times> string) \<times> file_obj" where
  "fd_read sz f =
     (case answer (fl_reads f) of
        (SysErr e, xs) \<Rightarrow> ((file_error e, []), f\<lparr>fl_reads := xs\<rparr>)
      | (SysRet n, xs) \<Rightarrow>
          (let d = take (min n sz) (drop (fl_pos f) (fl_data f)) in
           ((None, d), f\<lparr>fl_reads := xs, fl_pos := fl_pos f + length d\<rparr>)))"

definition fd_pread :: "nat \<Rightarrow> nat \<Rightarrow> file_obj \<Rightarrow> (rv \<times> string) \<times> file_obj" where
  "fd_pread sz off f =
     (case answer (fl_reads f) of
        (SysErr e, xs) \<Rightarrow> ((file_error e, []), f\<lparr>fl_reads := xs\<rparr>)
      | (SysRet n, xs) \<Rightarrow> ((None, take (min n sz) (drop off (fl_data f))), f\<lparr>fl_reads := xs\<rparr>))"

text \<open>A write behind the end fills the gap with zeros.\<close>

definition write_at :: "nat \<Rightarrow> string \<Rightarrow> string \<Rightarrow> string" where
  "write_at pos d mem =
     (if d = [] then mem
      else take pos (mem @ replicate (pos - length mem) NUL) @ d @ drop (pos + length d) mem)"

definition fd_put :: "string \<Rightarrow> file_obj \<Rightarrow> file_obj" where
  "fd_put d f = f\<lparr>fl_data := write_at (fl_pos f) d (fl_data f), fl_pos := fl_pos f + length d\<rparr>"

text \<open>\<open>File::write(fd, buf, size)\<close>: the loop goes on when nothing is written.\<close>

function write_loop :: "string \<Rightarrow> file_obj \<Rightarrow> rv \<times> file_obj" where
  "write_loop buf f =
     (case fl_writes f of
        [] \<Rightarrow> (file_error ''EPIPE'', f)
      | SysErr e # xs \<Rightarrow> (file_error e, f\<lparr>fl_writes := xs\<rparr>)
      | SysRet n # xs \<Rightarrow>
          (let d = take n buf; f = fd_put d (f\<lparr>fl_writes := xs\<rparr>); rest = drop n buf in
           if rest = [] then (None, f) else write_loop rest f))"
  by pat_completeness auto
termination by (relation "measure (\<lambda>(b, f). length (fl_writes f))") (auto simp: fd_put_def)

declare write_loop.simps [simp del]

definition fd_write :: "string \<Rightarrow> nat \<Rightarrow> file_obj \<Rightarrow> rv \<times> file_obj" where
  "fd_write buf off f = (case fd_seek off f of (Some e, f) \<Rightarrow> (Some e, f) | (None, f) \<Rightarrow> write_loop buf f)"

section \<open>The object\<close>

definition file_close :: "file_obj \<Rightarrow> file_obj" where
  "file_close f = f\<lparr>fl_offset := 0\<rparr>"

text \<open>A new object, opened on a file with the contents \<open>d\<close>.\<close>

definition file_open :: "string \<Rightarrow> file_obj \<Rightarrow> file_obj" where
  "file_open d f = (file_close f)\<lparr>fl_data := d, fl_pos := 0\<rparr>"

definition file_setTimeout :: "nat \<Rightarrow> bool \<Rightarrow> file_obj \<Rightarrow> file_obj" where
  "file_setTimeout val opened f =
     f\<lparr>fl_timeout := (if fl_timeout f \<noteq> 0 \<and> val = 0 \<and> opened then 10000 else val)\<rparr>"

definition file_seek :: "nat \<Rightarrow> file_obj \<Rightarrow> rv \<times> file_obj" where
  "file_seek off f =
     (if off \<noteq> fl_offset f
      then (case fd_seek off f of (Some e, f) \<Rightarrow> (Some e, f) | (None, f) \<Rightarrow> (None, f\<lparr>fl_offset := off\<rparr>))
      else (None, f))"

definition file_lastSeek :: "nat \<Rightarrow> file_obj \<Rightarrow> rv \<times> file_obj" where
  "file_lastSeek off f =
     (if off \<noteq> fl_offset f
      then (case fd_lastSeek off f of (Some e, f) \<Rightarrow> (Some e, f) | (None, f) \<Rightarrow> (None, f\<lparr>fl_offset := off\<rparr>))
      else (None, f))"

text \<open>The seek and the wait before a read.\<close>

definition file_aim :: "nat \<Rightarrow> file_obj \<Rightarrow> rv \<times> file_obj" where
  "file_aim off f =
     (case if off \<noteq> fl_offset f then file_seek off f else (None, f) of
        (Some e, f) \<Rightarrow> (Some e, f)
      | (None, f) \<Rightarrow> if fl_timeout f \<noteq> 0 then fd_readable f else (None, f))"

definition file_read :: "nat \<Rightarrow> nat \<Rightarrow> file_obj \<Rightarrow> (rv \<times> string) \<times> file_obj" where
  "file_read sz off f =
     (case file_aim off f of
        (Some e, f) \<Rightarrow> ((Some e, []), f)
      | (None, f) \<Rightarrow> fd_read sz f)"

definition file_write :: "string \<Rightarrow> nat \<Rightarrow> file_obj \<Rightarrow> rv \<times> file_obj" where
  "file_write buf off f =
     (case if off \<noteq> fl_offset f then file_seek off f else (None, f) of
        (Some e, f) \<Rightarrow> (Some e, f)
      | (None, f) \<Rightarrow> write_loop buf f)"

section \<open>Whole files\<close>

text \<open>\<open>save\<close> opens with \<open>O_CREAT\<close> only; an answer 0 ends it with success.  \<open>f\<close> is the opened file.\<close>

function save_loop :: "string \<Rightarrow> file_obj \<Rightarrow> rv \<times> file_obj" where
  "save_loop buf f =
     (case fl_writes f of
        [] \<Rightarrow> (file_error ''EPIPE'', f)
      | SysErr e # xs \<Rightarrow> (file_error e, f\<lparr>fl_writes := xs\<rparr>)
      | SysRet n # xs \<Rightarrow>
          (let d = take n buf; f = fd_put d (f\<lparr>fl_writes := xs\<rparr>); rest = drop n buf in
           if d = [] then (None, f) else if rest = [] then (None, f) else save_loop rest f))"
  by pat_completeness auto
termination by (relation "measure (\<lambda>(b, f). length (fl_writes f))") (auto simp: fd_put_def)

declare save_loop.simps [simp del]

definition file_save :: "string \<Rightarrow> string \<Rightarrow> file_obj \<Rightarrow> rv \<times> file_obj" where
  "file_save buf old f = save_loop buf (file_open old f)"

function contents_loop :: "string \<Rightarrow> file_obj \<Rightarrow> rv \<times> string \<times> file_obj" where
  "contents_loop acc f =
     (case fl_reads f of
        [] \<Rightarrow> (file_error ''EPIPE'', acc, f)
      | _ # _ \<Rightarrow>
         (case fd_read 4096 f of
            ((Some e, d), f) \<Rightarrow> (Some e, acc, f)
          | ((None, d), f) \<Rightarrow> if d = [] then (None, acc, f) else contents_loop (acc @ d) f))"
  by pat_completeness auto
termination
  by (relation "measure (\<lambda>(b, f). length (fl_reads f))") (auto simp: fd_read_def answer_def Let_def split: sysret.splits)

declare contents_loop.simps [simp del]

definition file_contents :: "string \<Rightarrow> string \<Rightarrow> file_obj \<Rightarrow> rv \<times> string \<times> file_obj" where
  "file_contents acc d f = contents_loop acc (file_open d f)"

section \<open>Positions\<close>

text \<open>
  Nobody sets \<open>m_offset\<close> after a read, so the object is right about the position only for offsets
  other than the remembered one.  \<open>file_at off\<close>: a read at \<open>off\<close> will start there.
\<close>

definition file_at :: "nat \<Rightarrow> file_obj \<Rightarrow> bool" where
  "file_at off f \<longleftrightarrow> fl_offset f = off \<longrightarrow> fl_pos f = off"

lemma file_at_open [simp]: "file_at off (file_open d f)"
  by (auto simp: file_at_def file_open_def file_close_def)

lemma file_error_not_None [simp]: "file_error e \<noteq> None"
  by (simp add: file_error_def sys_error_def Let_def)

text \<open>The offsets below 4 GiB that a seek can reach, and the first it cannot.\<close>

lemma seek_lost_small: "pos < 2 ^ 32 - 1 \<Longrightarrow> \<not> seek_lost pos"
proof
  assume "pos < 2 ^ 32 - 1" "seek_lost pos"
  have "unat (- 1 :: 32 word) = 2 ^ 32 - 1" by (simp add: unsigned_minus_1_eq_mask mask_eq_exp_minus_1)
  with \<open>seek_lost pos\<close> have "unat (word_of_nat pos :: 32 word) = 2 ^ 32 - 1" by (simp add: seek_lost_def)
  moreover have "unat (word_of_nat pos :: 32 word) = pos" using \<open>pos < 2 ^ 32 - 1\<close> by (simp add: unat_of_nat)
  ultimately show False using \<open>pos < 2 ^ 32 - 1\<close> by simp
qed

lemma seek_4g_fails: "fst (fd_seek (2 ^ 32 - 1) f) \<noteq> None"
proof -
  have "seek_lost (2 ^ 32 - 1)" by (simp add: seek_lost_def)
  then show ?thesis by (simp add: fd_seek_def seek_to_def split: prod.split sysret.split del: not_None_eq)
qed

lemma file_aim_spec:
  assumes "file_aim off f = (e, g)" "file_at off f"
  shows "fl_data g = fl_data f" "fl_reads g = fl_reads f" "file_at off g"
    "e = None \<Longrightarrow> fl_pos g = off \<and> fl_offset g = off"
  using assms
  by (auto simp: file_aim_def file_seek_def fd_seek_def seek_to_def fd_readable_def file_at_def
      split: prod.splits option.splits sysret.splits if_splits)

lemma file_aim_again: "fl_offset f = off \<Longrightarrow> file_aim off f = (e, g) \<Longrightarrow> fl_pos g = fl_pos f \<and> fl_data g = fl_data f"
  by (auto simp: file_aim_def fd_readable_def split: prod.splits option.splits sysret.splits if_splits)

lemma fd_read_spec:
  assumes "fd_read sz f = ((e, d), g)"
  shows "fl_data g = fl_data f" "d = take (length d) (drop (fl_pos f) (fl_data f))" "length d \<le> sz"
    "fl_pos g = fl_pos f + length d" "fl_offset g = fl_offset f" "e \<noteq> None \<Longrightarrow> d = []"
    "length (fl_reads g) \<le> length (fl_reads f)"
    "e = None \<Longrightarrow> fl_reads f \<noteq> [] \<and> length (fl_reads g) < length (fl_reads f)"
    "e = None \<Longrightarrow> SysRet 0 \<notin> set (fl_reads f) \<Longrightarrow> d = [] \<Longrightarrow> sz \<noteq> 0 \<Longrightarrow> length (fl_data f) \<le> fl_pos f"
  using assms
  by (auto simp: fd_read_def answer_def Let_def min_def split: sysret.splits if_splits list.splits)

text \<open>What a read does, and where the object can read next.\<close>

lemma file_read_spec:
  assumes "file_read sz off f = ((e, d), f')" "file_at off f"
  shows "fl_data f' = fl_data f" "d = take (length d) (drop off (fl_data f))" "length d \<le> sz"
    "file_at (off + length d) f'" "e \<noteq> None \<Longrightarrow> d = []"
    "e = None \<Longrightarrow> fl_offset f' = off \<and> fl_pos f' = off + length d"
    "length (fl_reads f') \<le> length (fl_reads f)" "e = None \<Longrightarrow> length (fl_reads f') < length (fl_reads f)"
proof -
  obtain w g where a: "file_aim off f = (w, g)" by fastforce
  note A = file_aim_spec[OF a assms(2)]
  have "fl_data f' = fl_data f \<and> d = take (length d) (drop off (fl_data f)) \<and> length d \<le> sz \<and>
    file_at (off + length d) f' \<and> (e \<noteq> None \<longrightarrow> d = []) \<and> (e = None \<longrightarrow> fl_offset f' = off \<and> fl_pos f' = off + length d) \<and>
    length (fl_reads f') \<le> length (fl_reads f) \<and> (e = None \<longrightarrow> length (fl_reads f') < length (fl_reads f))"
  proof (cases w)
    case (Some x)
    with assms(1) a A show ?thesis by (auto simp: file_read_def)
  next
    case None
    with assms(1) a have r: "fd_read sz g = ((e, d), f')" by (simp add: file_read_def)
    show ?thesis using fd_read_spec(1-8)[OF r] A(1,2) A(4)[OF None] by (auto simp: file_at_def)
  qed
  then show "fl_data f' = fl_data f" "d = take (length d) (drop off (fl_data f))" "length d \<le> sz"
    "file_at (off + length d) f'" "e \<noteq> None \<Longrightarrow> d = []"
    "e = None \<Longrightarrow> fl_offset f' = off \<and> fl_pos f' = off + length d"
    "length (fl_reads f') \<le> length (fl_reads f)" "e = None \<Longrightarrow> length (fl_reads f') < length (fl_reads f)"
    by auto
qed

section \<open>Properties\<close>

text \<open>A \<open>File\<close> reads the bytes at the offset asked for, except when that is the offset of the read
  before: then it goes on behind the bytes read last, because \<open>m_offset\<close> still names the old offset.\<close>

theorem file_reads_offsets:
  assumes "file_at off f" "fst (file_read sz off f) = (None, d)"
    and "fst (file_read sz' off' (snd (file_read sz off f))) = (None, d')"
  shows "d = take (length d) (drop off (fl_data f)) \<and>
    d' = take (length d') (drop (if off' = off then off + length d else off') (fl_data f))"
proof -
  obtain f1 where 1: "file_read sz off f = ((None, d), f1)" using assms(2) by (cases "file_read sz off f") auto
  obtain f2 where 2: "file_read sz' off' f1 = ((None, d'), f2)" using assms(3) 1 by (cases "file_read sz' off' f1") auto
  note spec = file_read_spec[OF 1 assms(1)]
  have p: "fl_offset f1 = off" "fl_pos f1 = off + length d" using spec(6) by simp_all
  show ?thesis
  proof (cases "off' = off")
    case True
    obtain w g where a: "file_aim off f1 = (w, g)" by fastforce
    with 2 True have "w = None" "fd_read sz' g = ((None, d'), f2)" by (auto simp: file_read_def split: option.splits)
    with fd_read_spec(2) file_aim_again[OF p(1) a] p True spec(1,2) show ?thesis by metis
  next
    case False
    then have "file_at off' f1" using p by (simp add: file_at_def)
    from file_read_spec(2)[OF 2 this] spec(1,2) False show ?thesis by simp
  qed
qed

definition demo_file :: file_obj where
  "demo_file = \<lparr>fl_data = ''abcdef'', fl_pos = 0, fl_offset = 0, fl_timeout = 0, fl_errno = [], fl_polls = [], fl_seeks = [SysRet 0, SysRet 0],
     fl_reads = [SysRet 2, SysRet 2, SysRet 9, SysRet 9], fl_writes = [SysRet 1, SysRet 9]\<rparr>"

theorem file_reads_offsets_witness:
  "fst (file_read 2 0 demo_file) = (None, ''ab'') \<and>
   ''cd'' = take 2 (drop (0 + length ''ab'') (fl_data demo_file)) \<and>
   fst (file_read 2 0 (snd (file_read 2 0 demo_file))) = (None, ''cd'')"
proof -
  have "file_at 0 demo_file" by (simp add: file_at_def demo_file_def)
  moreover have "fst (file_read 2 0 demo_file) = (None, ''ab'')"
    "fst (file_read 2 0 (snd (file_read 2 0 demo_file))) = (None, ''cd'')"
    by (simp_all add: file_read_def file_aim_def fd_read_def answer_def demo_file_def)
  ultimately show ?thesis using file_reads_offsets[of 0 demo_file 2 "''ab''" 2 0 "''cd''"]
    by (simp add: demo_file_def)
qed

lemma save_loop_writes:
  "save_loop buf f = (None, f') \<Longrightarrow> SysRet 0 \<notin> set (fl_writes f) \<Longrightarrow> fl_pos f \<le> length (fl_data f) \<Longrightarrow>
   fl_data f' = take (fl_pos f) (fl_data f) @ buf @ drop (fl_pos f + length buf) (fl_data f)"
proof (induction buf f arbitrary: f' rule: save_loop.induct)
  case (1 buf f)
  show ?case
  proof (cases "fl_writes f")
    case Nil
    with "1.prems"(1) show ?thesis by (subst (asm) save_loop.simps) (simp add: file_error_def sys_error_def Let_def)
  next
    case (Cons x xs)
    show ?thesis
    proof (cases x)
      case (SysErr e)
      with "1.prems"(1) Cons show ?thesis
        by (subst (asm) save_loop.simps) (simp add: file_error_def sys_error_def Let_def)
    next
      case (SysRet n)
      let ?g = "fd_put (take n buf) (f\<lparr>fl_writes := xs\<rparr>)"
      have n: "n \<noteq> 0" using "1.prems"(2) Cons SysRet by (cases n) auto
      show ?thesis
      proof (cases "take n buf = [] \<or> drop n buf = []")
        case True
        with "1.prems"(1) Cons SysRet have "f' = ?g" by (subst (asm) save_loop.simps) (auto simp: Let_def split: if_splits)
        then show ?thesis using True n "1.prems"(3) by (cases "buf = []") (auto simp: fd_put_def write_at_def)
      next
        case False
        with "1.prems"(1) Cons SysRet have s: "save_loop (drop n buf) ?g = (None, f')"
          by (subst (asm) save_loop.simps) (simp add: Let_def)
        have l: "n < length buf" using False by simp
        have p: "fl_pos ?g = fl_pos f + n" using l by (simp add: fd_put_def)
        have d: "fl_data ?g = take (fl_pos f) (fl_data f) @ take n buf @ drop (fl_pos f + n) (fl_data f)"
          using False l "1.prems"(3) by (simp add: fd_put_def write_at_def)
        have "fl_data f' = take (fl_pos ?g) (fl_data ?g) @ drop n buf @ drop (fl_pos ?g + length (drop n buf)) (fl_data ?g)"
          using "1.IH"[OF Cons SysRet refl refl refl _ _ s] False "1.prems"(2,3) Cons p d
          by (auto simp: fd_put_def)
        also have "take (fl_pos ?g) (fl_data ?g) = take (fl_pos f) (fl_data f) @ take n buf"
          unfolding p d using "1.prems"(3) l by simp
        also have "drop (fl_pos ?g + length (drop n buf)) (fl_data ?g) = drop (fl_pos f + length buf) (fl_data f)"
          unfolding p d using "1.prems"(3) l by (simp add: add.commute)
        finally show ?thesis by simp
      qed
    qed
  qed
qed

lemma take_rest: "d = take (length d) (drop p xs) \<Longrightarrow> drop p xs = d @ drop (p + length d) xs"
  by (metis add.commute append_take_drop_id drop_drop)

lemma contents_loop_reads:
  "contents_loop acc f = (None, s, f') \<Longrightarrow> SysRet 0 \<notin> set (fl_reads f) \<Longrightarrow> s = acc @ drop (fl_pos f) (fl_data f)"
proof (induction acc f arbitrary: s f' rule: contents_loop.induct)
  case (1 acc f)
  show ?case
  proof (cases "fl_reads f")
    case Nil
    with "1.prems"(1) show ?thesis by (subst (asm) contents_loop.simps) (simp add: file_error_def sys_error_def Let_def)
  next
    case (Cons x xs)
    obtain e d g where r: "fd_read 4096 f = ((e, d), g)" by (metis prod.collapse)
    note sp = fd_read_spec[OF r]
    have rd: "fl_reads g = xs" using r Cons by (auto simp: fd_read_def answer_def Let_def split: sysret.splits)
    show ?thesis
    proof (cases e)
      case (Some a)
      with "1.prems"(1) Cons r show ?thesis by (subst (asm) contents_loop.simps) simp
    next
      case None
      show ?thesis
      proof (cases "d = []")
        case True
        with "1.prems"(1) Cons r None have "s = acc" by (subst (asm) contents_loop.simps) simp
        with sp(9)[OF None "1.prems"(2) True] show ?thesis by simp
      next
        case False
        with "1.prems"(1) Cons r None have c: "contents_loop (acc @ d) g = (None, s, f')"
          by (subst (asm) contents_loop.simps) simp
        have "s = (acc @ d) @ drop (fl_pos g) (fl_data g)"
          using "1.IH"[OF Cons r[symmetric] refl None False c] rd "1.prems"(2) Cons by simp
        then show ?thesis using take_rest[OF sp(2)] sp(1,4) by simp
      qed
    qed
  qed
qed

text \<open>C40. \<open>File::save\<close> and \<open>File::contents\<close>: what is read back after saving is the saved text followed by
  what the old file had behind it, because \<open>save\<close> opens without truncating; only a new or a not longer
  file comes back as it was saved.\<close>

theorem save_then_contents:
  assumes "file_save buf old f = (None, f')" "file_contents acc (fl_data f') g = (None, s, g')"
    and "SysRet 0 \<notin> set (fl_writes f)" "SysRet 0 \<notin> set (fl_reads g)"
  shows "s = acc @ buf @ drop (length buf) old"
  using contents_loop_reads[of acc "file_open (fl_data f') g" s g'] save_loop_writes[of buf "file_open old f" f'] assms
  by (simp add: file_save_def file_contents_def file_open_def file_close_def)

theorem save_then_contents_witness:
  "fst (file_save ''xyz'' ''abcdef'' demo_file) = None \<and>
   fst (snd (file_contents [] (fl_data (snd (file_save ''xyz'' ''abcdef'' demo_file))) demo_file)) = ''xyzdef''"
proof -
  have "\<exists>f'. file_save ''xyz'' ''abcdef'' demo_file = (None, f') \<and> fl_data f' = ''xyzdef''"
    by (simp add: file_save_def save_loop.simps file_open_def file_close_def demo_file_def fd_put_def write_at_def Let_def)
  then obtain f' where f: "file_save ''xyz'' ''abcdef'' demo_file = (None, f')" "fl_data f' = ''xyzdef''" by blast
  have "\<exists>s g'. file_contents [] ''xyzdef'' demo_file = (None, s, g')"
    by (simp add: file_contents_def contents_loop.simps file_open_def file_close_def demo_file_def fd_read_def answer_def Let_def)
  then obtain s g' where g: "file_contents [] ''xyzdef'' demo_file = (None, s, g')" by blast
  have "s = [] @ ''xyz'' @ drop (length ''xyz'') ''abcdef''"
    using g f by (intro save_then_contents[OF f(1), of "[]" demo_file s g']) (auto simp: demo_file_def)
  with f g show ?thesis by simp
qed

end
