(* ===== verification/Dfw_HttpSend.thy ===== *)
theory Dfw_HttpSend
  imports Dfw_HttpResponse Dfw_File
begin

text \<open>
  The server's sending side in \<open>lib/httpd/HttpdClient.cpp\<close>: \<open>sendStream\<close>, the choice of the range and the
  state machine \<open>sendLocalFile\<close> (0 prepare, 1 head, 2 contents, 3 wait for the acknowledgements), the loops
  \<open>sendResponse\<close> and \<open>sendResponseStatus\<close> around them, and the caller in \<open>lib/httpd/HttpdSendLocalFile.cpp\<close>.
  The file is a local one.
\<close>

section \<open>State and surroundings\<close>

text \<open>A connection: the socket, \<open>m_bStop\<close>, \<open>m_bEnableResizeableFile\<close>, request, response, the response's
  open file and \<open>m_ssTime\<close>; \<open>cl_clock\<close> holds the readings of the clock, in milliseconds.\<close>

record client = sock +
  cl_stop :: bool
  cl_resizeable :: bool
  cl_req :: request
  cl_resp :: response
  cl_file :: "file_obj option"
  cl_ssTime :: "64 word"
  cl_clock :: "64 word list"

text \<open>Modules are callbacks: one on opening, one that sees what was read and may change the bytes, not their number.\<close>

record httpd_mod =
  mod_open :: "string \<Rightarrow> rv"
  mod_read :: "nat \<Rightarrow> string \<Rightarrow> rv \<times> string"

text \<open>What the configuration and the file system answer: the host's modules (\<open>None\<close>: no host), \<open>getattr\<close>, the
  outcome of opening, the type of the contents.\<close>

record env =
  ev_localtime :: "int \<Rightarrow> tm"
  ev_now :: int
  ev_mods :: "httpd_mod list option"
  ev_getattr :: "rv \<times> stat"
  ev_open :: "rv \<times> file_obj"
  ev_ctype :: string

abbreviation (input) MOD_OK :: int where "MOD_OK \<equiv> 9000"
abbreviation (input) MOD_AGAIN :: int where "MOD_AGAIN \<equiv> 9001"

primrec mods_open :: "httpd_mod list \<Rightarrow> string \<Rightarrow> rv" where
  "mods_open [] path = None"
| "mods_open (m # ms) path =
     (case mod_open m path of
        None \<Rightarrow> mods_open ms path
      | Some (code, eno) \<Rightarrow>
          if eno = MOD_OK then mods_open ms path
          else if eno = MOD_AGAIN then Some (DFW_E_AGAIN, 11)
          else Some (code, eno))"

primrec mods_read :: "httpd_mod list \<Rightarrow> nat \<Rightarrow> string \<Rightarrow> rv \<times> string" where
  "mods_read [] off buf = (None, buf)"
| "mods_read (m # ms) off buf =
     (case mod_read m off buf of
        (None, buf) \<Rightarrow> mods_read ms off buf
      | (Some (code, eno), buf) \<Rightarrow> if eno = MOD_OK then mods_read ms off buf else (Some (code, eno), buf))"

text \<open>A failing clock reads -1.\<close>

definition currentTimeMillis :: "client \<Rightarrow> 64 word \<times> client" where
  "currentTimeMillis c = (case cl_clock c of [] \<Rightarrow> (-1, c) | t # ts \<Rightarrow> (t, c\<lparr>cl_clock := ts\<rparr>))"

definition on_resp :: "(response \<Rightarrow> response) \<Rightarrow> client \<Rightarrow> client" where
  "on_resp g c = c\<lparr>cl_resp := g (cl_resp c)\<rparr>"

section \<open>The head\<close>

definition stream_done :: "client \<Rightarrow> rv \<times> bool \<times> client" where
  "stream_done c =
     (if length (rs_stream (cl_resp c)) = rs_streamSended (cl_resp c) then (None, True, c)
      else (Some (DFW_E_AGAIN, 0), False, c))"

definition sendStream :: "client \<Rightarrow> rv \<times> bool \<times> client" where
  "sendStream c =
     (let stream = rs_stream (cl_resp c); sended = rs_streamSended (cl_resp c) in
      if length stream \<noteq> sended then
        (case wait_send c of
           (Some e, c) \<Rightarrow> (Some e, False, c)
         | (None, c) \<Rightarrow>
            (case send_raw False (drop sended stream) c of (e, osize, c) \<Rightarrow>
               if e \<noteq> None \<and> osize = 0 then (e, False, c)
               else stream_done (on_resp (\<lambda>r. r\<lparr>rs_sendedSize := rs_sendedSize r + word_of_nat osize,
                                                rs_streamSended := rs_streamSended r + osize\<rparr>) c)))
      else stream_done c)"

definition client_makeStream :: "env \<Rightarrow> client \<Rightarrow> client option" where
  "client_makeStream ev c =
     do { r \<leftarrow> resp_makeStream (ev_localtime ev) (ev_now ev) (cl_resp c); Some (c\<lparr>cl_resp := r\<rparr>) }"

section \<open>The range\<close>

record range_sel =
  sel_status :: int
  sel_start :: "64 word"
  sel_end :: "64 word"
  sel_length :: "64 word"
  sel_size :: "64 word"
  sel_content :: string

definition c_atoll :: "string \<Rightarrow> 64 word" where
  "c_atoll s = word_of_int (clamp64 (c_atoi (cstr s)))"

definition content_range :: "64 word \<Rightarrow> 64 word \<Rightarrow> 64 word \<Rightarrow> string" where
  "content_range s e sz =
     ''bytes '' @ show_nat (unat s) @ ''-'' @ show_nat (unat e) @ ''/'' @ show_nat (unat sz)"

definition partial_sel :: "64 word \<Rightarrow> 64 word \<Rightarrow> 64 word \<Rightarrow> range_sel" where
  "partial_sel s e sz =
     \<lparr>sel_status = 206, sel_start = s, sel_end = e, sel_length = e - s + 1, sel_size = sz,
      sel_content = content_range s e sz\<rparr>"

text \<open>A range end behind the file: cut, or, for files that may grow, the size is asked for again.\<close>

definition range_resize :: "bool \<Rightarrow> rv \<times> stat \<Rightarrow> 64 word \<Rightarrow> 64 word \<Rightarrow> (int \<times> int) + 64 word \<times> 64 word" where
  "range_resize resizeable ga fsize iEnd =
     (if \<not> resizeable then Inr (fsize - 1, fsize)
      else case ga of
        (Some (code, eno), _) \<Rightarrow> Inl (if code = DFW_E_NOENT then (DFW_ERROR, 0) else (code, eno))
      | (None, st) \<Rightarrow> Inr (iEnd, if unat fsize \<noteq> nat (st_size st mod 2 ^ 64) then word_of_int (st_size st) else fsize))"

definition range_select :: "bool \<Rightarrow> rv \<times> stat \<Rightarrow> range_vars \<Rightarrow> 64 word \<Rightarrow> (int \<times> int) + range_sel" where
  "range_select resizeable ga v fsize =
     (if rg_minus v = 0 then
        Inr \<lparr>sel_status = 200, sel_start = 0, sel_end = fsize - 1, sel_length = fsize, sel_size = fsize, sel_content = []\<rparr>
      else if rg_minus v = 1 then
        (let iStart = (if rg_start v = [] then 0 else c_atoll (rg_start v));
             iEnd = (if rg_end v = [] then fsize - 1 else c_atoll (rg_end v)) in
         if fsize \<le> iEnd then
           (case range_resize resizeable ga fsize iEnd of
              Inl e \<Rightarrow> Inl e
            | Inr (iEnd, fsize) \<Rightarrow> Inr (partial_sel iStart iEnd fsize))
         else Inr (partial_sel iStart iEnd fsize))
      else if rg_minus v = 2 then
        (let iStart = (if rg_start v = [] then fsize else fsize - c_atoll (rg_end v)) in
         Inr (partial_sel iStart (fsize - 1) fsize))
      else if rg_minus v = 4 then
        (let iStart = (if rg_start v = [] then 0 else c_atoll (rg_start v)) in
         Inr (partial_sel iStart (fsize - 1) fsize))
      else Inl (DFW_ERROR, 0))"

text \<open>The two checks behind the switch.\<close>

definition range_check :: "range_sel \<Rightarrow> bool" where
  "range_check s \<longleftrightarrow> \<not> sel_end s < sel_start s \<and> \<not> sel_size s \<le> sel_start s"

section \<open>Preparing a file\<close>

text \<open>The headers of the answer, in the code's order; the first error ends it.\<close>

primrec append_list :: "(string \<times> string) list \<Rightarrow> response \<Rightarrow> (rv \<times> response) option" where
  "append_list [] r = Some (None, r)"
| "append_list (kv # kvs) r =
     do { a \<leftarrow> resp_appendHeader (fst kv) (chars (snd kv)) r;
          if fst a \<noteq> None then Some a else append_list kvs (snd a) }"

definition opt_header :: "string \<Rightarrow> string \<Rightarrow> (string \<times> string) list" where
  "opt_header name v = (if v = [] then [] else [(name, v)])"

definition ready_headers :: "env \<Rightarrow> string \<Rightarrow> range_sel \<Rightarrow> request \<Rightarrow> response \<Rightarrow> (rv \<times> response) option" where
  "ready_headers ev sModify s q r =
     do { a \<leftarrow> setResponse_len (sel_status s) (sel_length s) (rq_keepAlive q) r;
          if fst a \<noteq> None then Some a
          else append_list ([(''Accept-Ranges'', ''bytes'')] @ opt_header ''Content-Range'' (sel_content s) @
                 opt_header ''Content-Type'' (rs_fileContentType r) @ opt_header ''ETag'' (rs_fileETag r) @
                 [(''Last-Modified'', sModify)]) (snd a) }"

text \<open>The head is made, and sent as far as the socket takes it.\<close>

definition ready_head :: "env \<Rightarrow> client \<Rightarrow> (rv \<times> client) option" where
  "ready_head ev c =
     do { c \<leftarrow> client_makeStream ev c;
          let (e, iscomplete, c) = sendStream c;
          Some (e, on_resp (\<lambda>r. r\<lparr>rs_fileStatus := (if e \<noteq> None then 1 else 2)\<rparr>) c) }"

text \<open>From the checks on, with the range chosen.\<close>

definition ready_send :: "env \<Rightarrow> string \<Rightarrow> range_sel \<Rightarrow> client \<Rightarrow> (rv \<times> client) option" where
  "ready_send ev sModify s c =
     (let c = on_resp (\<lambda>r. r\<lparr>rs_fileSize := sel_size s\<rparr>) c in
      if \<not> range_check s then Some (Some (DFW_ERROR, 0), c)
      else do { a \<leftarrow> ready_headers ev sModify s (cl_req c) (cl_resp c);
                let c = c\<lparr>cl_resp := snd a\<rparr>;
                if fst a \<noteq> None then Some (fst a, c)
                else ready_head ev
                       (on_resp (\<lambda>r. r\<lparr>rs_body := [], rs_bufferLen := 0, rs_fileSendLength := sel_length s,
                                        rs_fileOffset := sel_start s, rs_fileSended := 0\<rparr>) c) })"

definition range_vars_new :: range_vars where
  "range_vars_new = \<lparr>rg_range = [], rg_accept = [], rg_start = [], rg_end = [], rg_minus = 0\<rparr>"

text \<open>The range the request asks for, or the error: \<open>checkRangeBytes\<close> and the switch.\<close>

definition requested_range :: "env \<Rightarrow> client \<Rightarrow> ((int \<times> int) + range_sel) option" where
  "requested_range ev c =
     do { k \<leftarrow> checkRangeBytes (rq_list (cl_req c)) (rq_bIfRange (cl_req c)) range_vars_new;
          Some (case fst k of
                  Some e \<Rightarrow> Inl e
                | None \<Rightarrow> range_select (cl_resizeable c) (ev_getattr ev) (snd k) (rs_fileSize (cl_resp c))) }"

definition opened :: "env \<Rightarrow> client \<Rightarrow> client" where
  "opened ev c = on_resp (\<lambda>r. r\<lparr>rs_fileContentType := ev_ctype ev\<rparr>) (c\<lparr>cl_file := Some (snd (ev_open ev))\<rparr>)"

definition sendLocalFile_ready :: "env \<Rightarrow> client \<Rightarrow> (rv \<times> client) option" where
  "sendLocalFile_ready ev c =
     (case ev_mods ev of
        None \<Rightarrow> Some (Some (DFW_ERROR, 0), c)
      | Some ms \<Rightarrow>
         (case mods_open ms (rq_file (cl_req c)) of
            Some e \<Rightarrow> Some (Some e, c)
          | None \<Rightarrow>
             (case fst (ev_open ev) of
                Some e \<Rightarrow> Some (Some e, c\<lparr>cl_file := None\<rparr>)
              | None \<Rightarrow>
                 do { sModify \<leftarrow> getDateStringRfc822 (ev_localtime ev) (ev_now ev) (rs_fileMTime (cl_resp c));
                      x \<leftarrow> requested_range ev (opened ev c);
                      case x of Inl e \<Rightarrow> Some (Some e, opened ev c) | Inr s \<Rightarrow> ready_send ev sModify s (opened ev c) })))"

section \<open>The contents\<close>

abbreviation (input) MAX_BUFFER :: nat where "MAX_BUFFER \<equiv> 102400"

text \<open>\<open>memcpy\<close> into the start of \<open>m_buffer\<close>.\<close>

definition buffer_put :: "string \<Rightarrow> response \<Rightarrow> response" where
  "buffer_put d r = r\<lparr>rs_buffer := d @ drop (length d) (rs_buffer r)\<rparr>"

text \<open>How much to read: a buffer, or what is left of the range.\<close>

definition readable_size :: "response \<Rightarrow> nat" where
  "readable_size r =
     (let thiz_length = rs_fileSendLength r - rs_fileSended r in
      if word_of_nat MAX_BUFFER > thiz_length then unat thiz_length else MAX_BUFFER)"

text \<open>Fill \<open>fbuf\<close>: from the file when nothing is buffered.  An error comes with the client, else the bytes to send.\<close>

definition contents_fill :: "env \<Rightarrow> client \<Rightarrow> rv \<times> string \<times> client" where
  "contents_fill ev c =
     (let r = cl_resp c in
      if rs_bufferLen r = 0 then
        (let fileOffset = unat (rs_fileOffset r) in
         case cl_file c of
           None \<Rightarrow> (Some (DFW_ERROR, 0), [], c)
         | Some f \<Rightarrow>
            (case file_read (readable_size r) fileOffset f of
               ((Some e, _), f) \<Rightarrow> (Some e, [], c\<lparr>cl_file := Some f\<rparr>)
             | ((None, fbuf), f) \<Rightarrow>
                (let c = c\<lparr>cl_file := Some f\<rparr> in
                 if fbuf = [] then (Some (DFW_ERROR, 0), [], c)
                 else
                  (let c = on_resp (\<lambda>r. r\<lparr>rs_bufferLen := length fbuf,
                                          rs_fileOffset := rs_fileOffset r + word_of_nat (length fbuf)\<rparr>) c in
                   case ev_mods ev of
                     None \<Rightarrow> (Some (DFW_ERROR, 0), [], on_resp (buffer_put fbuf) c)
                   | Some ms \<Rightarrow>
                      (case mods_read ms fileOffset fbuf of
                         (Some e, fbuf) \<Rightarrow> (Some e, [], on_resp (buffer_put fbuf) c)
                       | (None, fbuf) \<Rightarrow> (None, fbuf, c))))))
      else (None, take (rs_bufferLen r) (rs_buffer r), c))"

text \<open>The members after \<open>osize\<close> of the bytes have gone out.\<close>

definition note_sent :: "string \<Rightarrow> nat \<Rightarrow> response \<Rightarrow> response" where
  "note_sent fbuf osize r =
     (let r = (if osize > 0
               then r\<lparr>rs_sendedSize := rs_sendedSize r + word_of_nat osize,
                      rs_fileSended := rs_fileSended r + word_of_nat osize,
                      rs_bufferLen := length fbuf - osize\<rparr>
               else r\<lparr>rs_bufferLen := length fbuf\<rparr>);
          r = (if rs_bufferLen r > 0 then buffer_put (drop osize fbuf) r else r) in
      if \<not> rs_fileSended r < rs_fileSendLength r then r\<lparr>rs_fileStatus := 3\<rparr> else r)"

definition contents_send :: "string \<Rightarrow> client \<Rightarrow> rv \<times> client" where
  "contents_send fbuf c =
     (case send_raw False fbuf c of (e, osize, c) \<Rightarrow>
        (case currentTimeMillis (on_resp (note_sent fbuf osize) c) of (now, c) \<Rightarrow>
           (if e \<noteq> None then e else Some (DFW_T_CONTINUE, 0), c\<lparr>cl_ssTime := now\<rparr>)))"

section \<open>sendLocalFile\<close>

text \<open>The result \<open>None\<close> for the code means that the answer has been sent.\<close>

definition send_contents :: "env \<Rightarrow> client \<Rightarrow> rv \<times> client" where
  "send_contents ev c =
     (if text_equals (rq_method (cl_req c)) ''HEAD''
      then (Some (DFW_T_CONTINUE, 0), on_resp (\<lambda>r. r\<lparr>rs_fileStatus := 3\<rparr>) c)
      else case wait_send c of
        (Some e, c) \<Rightarrow> (Some e, c)
      | (None, c) \<Rightarrow>
          (case contents_fill ev c of
             (Some e, _, c) \<Rightarrow> (Some e, c)
           | (None, fbuf, c) \<Rightarrow> contents_send fbuf c))"

definition send_wait_acks :: "client \<Rightarrow> rv \<times> client" where
  "send_wait_acks c =
     (case getSendBufferLeftSize c of
        (Some e, _, c) \<Rightarrow> (Some e, c)
      | (None, leftsize, c) \<Rightarrow> if leftsize > 0 then (Some (DFW_E_AGAIN, 11), c) else (None, c))"

definition sendLocalFile :: "env \<Rightarrow> client \<Rightarrow> (rv \<times> client) option" where
  "sendLocalFile ev c =
     (if cl_stop c then Some (Some (DFW_ERROR, 0), c)
      else if rs_fileStatus (cl_resp c) = 0 then
        do { x \<leftarrow> sendLocalFile_ready ev c;
             Some (if fst x \<noteq> None then x else (Some (DFW_T_CONTINUE, 0), snd x)) }
      else if rs_fileStatus (cl_resp c) = 1 then
        Some (case sendStream c of (e, iscomplete, c) \<Rightarrow>
                if e \<noteq> None then (e, c)
                else (Some (DFW_T_CONTINUE, 0), on_resp (\<lambda>r. r\<lparr>rs_fileStatus := 2\<rparr>) c))
      else if rs_fileStatus (cl_resp c) = 2 then Some (send_contents ev c)
      else if rs_fileStatus (cl_resp c) = 3 then Some (send_wait_acks c)
      else Some (Some (DFW_ERROR, 0), c))"

section \<open>The loops around\<close>

definition goes_on :: "rv \<Rightarrow> bool" where
  "goes_on e \<longleftrightarrow> (case e of None \<Rightarrow> False | Some (code, _) \<Rightarrow> code = DFW_E_AGAIN \<or> code = DFW_E_TIMEOUT)"

text \<open>\<open>1000 * MAX_TIMEOUT\<close> and \<open>1000 * 60\<close> milliseconds, compared without sign.\<close>

partial_function (option) send_file_loop :: "env \<Rightarrow> client \<Rightarrow> (rv \<times> client) option" where
  "send_file_loop ev c =
     (if cl_stop c then Some (Some (DFW_ERROR, 0), c)
      else case currentTimeMillis c of (now, c) \<Rightarrow>
        if now - cl_ssTime c > 7200000 then Some (Some (DFW_E_TIMEOUT, 0), c)
        else do { x \<leftarrow> sendLocalFile ev c;
                  if goes_on (fst x) \<or> map_option fst (fst x) = Some DFW_T_CONTINUE
                  then send_file_loop ev (snd x) else Some x })"

partial_function (option) send_status_loop :: "64 word \<Rightarrow> client \<Rightarrow> (rv \<times> client) option" where
  "send_status_loop s_time c =
     (if cl_stop c then Some (Some (DFW_ERROR, 0), c)
      else case currentTimeMillis c of (now, c) \<Rightarrow>
        if now - s_time > 60000 then Some (Some (DFW_E_TIMEOUT, 0), c)
        else case sendStream c of (e, full, c) \<Rightarrow>
          if goes_on e then send_status_loop s_time c else Some (e, c))"

definition sendResponseStatus :: "env \<Rightarrow> client \<Rightarrow> (rv \<times> client) option" where
  "sendResponseStatus ev c =
     do { c \<leftarrow> client_makeStream ev c;
          let (s_time, c) = currentTimeMillis c;
          send_status_loop s_time c }"

definition sendResponse :: "env \<Rightarrow> client \<Rightarrow> (rv \<times> client) option" where
  "sendResponse ev c =
     do { k \<leftarrow> se_checkLocalFile (ev_localtime ev) (ev_now ev) (ev_getattr ev) (cl_req c) (cl_resp c);
          case k of (e, out, q, r) \<Rightarrow>
            (let c = c\<lparr>cl_req := q, cl_resp := r\<rparr> in
             if e \<noteq> None then
               do { x \<leftarrow> sendResponseStatus ev c;
                    Some (if fst x \<noteq> None then x
                          else (if map_option fst e = Some DFW_OK then None else e, snd x)) }
             else (let (now, c) = currentTimeMillis c in send_file_loop ev (c\<lparr>cl_ssTime := now\<rparr>))) }"

section \<open>Sending from the poll thread\<close>

text \<open>
  What \<open>HttpdSendLocalFile::sendPackets\<close> does with a client whose socket is writable: \<open>Keep\<close> it in the
  poll set, \<open>Drop\<close> it, which ends the connection, or hand it on after a complete answer.
\<close>

datatype poll_outcome = Keep | Drop | Complete

definition localfile_poll :: "env \<Rightarrow> client \<Rightarrow> (poll_outcome \<times> client) option" where
  "localfile_poll ev c =
     do { x \<leftarrow> sendLocalFile ev c;
          Some (case fst x of
                  None \<Rightarrow> (Complete, snd x)
                | Some (code, _) \<Rightarrow> (if code = DFW_E_AGAIN then Keep else Drop, snd x)) }"

text \<open>\<open>n\<close> rounds of the poll thread at most, until the client is dropped or complete.\<close>

primrec localfile_rounds :: "nat \<Rightarrow> env \<Rightarrow> client \<Rightarrow> (poll_outcome \<times> client) option" where
  "localfile_rounds 0 ev c = Some (Keep, c)"
| "localfile_rounds (Suc n) ev c =
     do { x \<leftarrow> localfile_poll ev c; if fst x = Keep then localfile_rounds n ev (snd x) else Some x }"

end
