(* ===== verification/Dfw_HttpSend_Spec.thy ===== *)
theory Dfw_HttpSend_Spec
  imports Dfw_HttpSend
begin

text \<open>
  Properties of the sending side: what reaches the socket is always a prefix of the head and the
  requested bytes of the file, all of it when the server reports success; with answers of the system
  that let the transfer go on, it ends with success; ranges; the poll thread.
\<close>

section \<open>The invariant of a transfer\<close>

text \<open>Modules that only look.\<close>

definition quiet_mods :: "env \<Rightarrow> bool" where
  "quiet_mods ev \<longleftrightarrow> (\<forall>ms. ev_mods ev = Some ms \<longrightarrow> (\<forall>m\<in>set ms. \<forall>off buf. mod_read m off buf = (None, buf)))"

definition is_head :: "client \<Rightarrow> bool" where
  "is_head c \<longleftrightarrow> text_equals (rq_method (cl_req c)) ''HEAD''"

text \<open>
  Where the range of a prepared response starts: the next offset less what has been sent and what is
  buffered.  \<open>resp_slice r i n\<close> are \<open>n\<close> bytes of the file from the \<open>i\<close>-th byte of the range on.
\<close>

definition resp_start :: "response \<Rightarrow> nat" where
  "resp_start r = unat (rs_fileOffset r) - (unat (rs_fileSended r) + rs_bufferLen r)"

definition resp_slice :: "string \<Rightarrow> response \<Rightarrow> nat \<Rightarrow> nat \<Rightarrow> string" where
  "resp_slice dat r i n = take n (drop (resp_start r + i) dat)"

text \<open>Numbers of a prepared response: nothing runs over the range or over 64 bits.\<close>

definition counts_ok :: "range_sel \<Rightarrow> response \<Rightarrow> bool" where
  "counts_ok rg r \<longleftrightarrow> resp_start r = unat (sel_start rg) \<and> rs_fileSendLength r = sel_length rg \<and>
     unat (rs_fileSended r) + rs_bufferLen r \<le> unat (rs_fileSendLength r) \<and>
     unat (rs_fileSended r) + rs_bufferLen r \<le> unat (rs_fileOffset r) \<and>
     resp_start r + unat (rs_fileSendLength r) < 2 ^ 64 \<and> 0 < unat (rs_fileSendLength r)"

definition buffer_ok :: "string \<Rightarrow> response \<Rightarrow> bool" where
  "buffer_ok dat r \<longleftrightarrow>
     take (rs_bufferLen r) (rs_buffer r) = resp_slice dat r (unat (rs_fileSended r)) (rs_bufferLen r) \<and>
     length (resp_slice dat r (unat (rs_fileSended r)) (rs_bufferLen r)) = rs_bufferLen r"

definition file_ok :: "string \<Rightarrow> client \<Rightarrow> bool" where
  "file_ok dat c \<longleftrightarrow> (\<exists>f. cl_file c = Some f \<and> fl_data f = dat \<and> file_at (unat (rs_fileOffset (cl_resp c))) f)"

text \<open>The head that is sent: it is the text of the headers, and announces the length of the range.\<close>

definition head_facts :: "response \<Rightarrow> bool" where
  "head_facts r \<longleftrightarrow> rs_stream r = resp_head r \<and>
     header_find (rs_list r) ''Content-Length'' = Some (show_nat (unat (rs_fileSendLength r)))"

lemma head_facts_upd [simp]:
  "head_facts (r\<lparr>rs_sendedSize := u\<rparr>) = head_facts r" "head_facts (r\<lparr>rs_streamSended := k\<rparr>) = head_facts r"
  "head_facts (r\<lparr>rs_fileStatus := st\<rparr>) = head_facts r" "head_facts (r\<lparr>rs_buffer := bf\<rparr>) = head_facts r"
  "head_facts (r\<lparr>rs_bufferLen := k\<rparr>) = head_facts r" "head_facts (r\<lparr>rs_fileOffset := u\<rparr>) = head_facts r"
  "head_facts (r\<lparr>rs_fileSended := u\<rparr>) = head_facts r"
  by (simp_all add: head_facts_def resp_head_def)

lemma head_facts_note [simp]: "head_facts (note_sent fbuf n r) = head_facts r" "head_facts (buffer_put d r) = head_facts r"
  by (simp_all add: note_sent_def buffer_put_def Let_def)

definition head_state :: "string \<Rightarrow> string \<Rightarrow> range_sel \<Rightarrow> client \<Rightarrow> bool" where
  "head_state dat base rg c \<longleftrightarrow>
     (let r = cl_resp c in head_facts r \<and> counts_ok rg r \<and> file_ok dat c \<and> rs_bufferLen r = 0 \<and> rs_fileSended r = 0 \<and>
        rs_streamSended r \<le> length (rs_stream r) \<and>
        sk_sent c = base @ take (rs_streamSended r) (rs_stream r))"

definition body_state :: "string \<Rightarrow> string \<Rightarrow> range_sel \<Rightarrow> client \<Rightarrow> bool" where
  "body_state dat base rg c \<longleftrightarrow>
     (let r = cl_resp c in head_facts r \<and> counts_ok rg r \<and> file_ok dat c \<and> buffer_ok dat r \<and>
        sk_sent c = base @ rs_stream r @ resp_slice dat r 0 (unat (rs_fileSended r)) \<and>
        length (resp_slice dat r 0 (unat (rs_fileSended r))) = unat (rs_fileSended r) \<and>
        (is_head c \<longrightarrow> rs_fileSended r = 0))"

definition file_range :: "string \<Rightarrow> range_sel \<Rightarrow> string" where
  "file_range dat rg = take (unat (sel_length rg)) (drop (unat (sel_start rg)) dat)"

definition sent_state :: "string \<Rightarrow> string \<Rightarrow> range_sel \<Rightarrow> client \<Rightarrow> bool" where
  "sent_state dat base rg c \<longleftrightarrow>
     (let r = cl_resp c in head_facts r \<and> rs_fileSendLength r = sel_length rg \<and>
        sk_sent c = base @ rs_stream r @ (if is_head c then [] else file_range dat rg) \<and>
        (\<not> is_head c \<longrightarrow> length (file_range dat rg) = unat (sel_length rg)))"

definition list_ok :: "nat \<Rightarrow> response \<Rightarrow> bool" where
  "list_ok n r \<longleftrightarrow> header_ok (rs_list r) \<and> header_room n (rs_list r)"

definition transfer_inv :: "string \<Rightarrow> string \<Rightarrow> range_sel \<Rightarrow> client \<Rightarrow> bool" where
  "transfer_inv dat base rg c \<longleftrightarrow>
     (let st = rs_fileStatus (cl_resp c) in
      (st = 0 \<and> sk_sent c = base \<and> list_ok 8 (cl_resp c) \<and> NUL \<notin> set (rs_fileETag (cl_resp c))) \<or> (st = 1 \<and> head_state dat base rg c) \<or>
      (st = 2 \<and> body_state dat base rg c) \<or> (st = 3 \<and> sent_state dat base rg c))"

lemma on_resp_simps [simp]:
  "cl_resp (on_resp g c) = g (cl_resp c)" "cl_file (on_resp g c) = cl_file c" "cl_req (on_resp g c) = cl_req c"
  "sk_sent (on_resp g c) = sk_sent c" "cl_stop (on_resp g c) = cl_stop c" "sk_stop (on_resp g c) = sk_stop c"
  "cl_clock (on_resp g c) = cl_clock c" "cl_ssTime (on_resp g c) = cl_ssTime c" "sk_polls (on_resp g c) = sk_polls c"
  "sk_sends (on_resp g c) = sk_sends c" "sk_lefts (on_resp g c) = sk_lefts c" "cl_resizeable (on_resp g c) = cl_resizeable c"
  by (simp_all add: on_resp_def)

lemma send_raw_client:
  assumes "send_raw w d c = (e, n, c')"
  obtains a b where "c' = c\<lparr>sk_polls := a, sk_sends := b, sk_sent := sk_sent c @ take n d\<rparr>"
    "n \<le> length d" "e = None \<longleftrightarrow> n = length d" "length a \<le> length (sk_polls c)" "length b \<le> length (sk_sends c)"
proof -
  have "n \<le> length d" "sk_sent c' = sk_sent c @ take n d" "e = None \<longleftrightarrow> n = length d"
    using sock_sink.send_takes[OF assms] sock_sink.send_all[OF assms] by auto
  moreover obtain a b t where "c' = c\<lparr>sk_polls := a, sk_sends := b, sk_sent := t\<rparr>" "length a \<le> length (sk_polls c)"
      "length b \<le> length (sk_sends c)"
    using send_loop_frame[of w d 0 c e n c'] assms by (auto simp: send_raw_def)
  ultimately show ?thesis using that by auto
qed

section \<open>The head\<close>

lemma sendStream_inv:
  assumes "sendStream c = (e, full, c')" "rs_streamSended (cl_resp c) \<le> length (rs_stream (cl_resp c))"
    and "sk_sent c = base @ take (rs_streamSended (cl_resp c)) (rs_stream (cl_resp c))"
  obtains a b u k where
    "c' = c\<lparr>sk_polls := a, sk_sends := b, sk_sent := base @ take k (rs_stream (cl_resp c)),
           cl_resp := (cl_resp c)\<lparr>rs_sendedSize := u, rs_streamSended := k\<rparr>\<rparr>"
    "k \<le> length (rs_stream (cl_resp c))" "e = None \<longrightarrow> k = length (rs_stream (cl_resp c))"
    "length a \<le> length (sk_polls c)" "length b \<le> length (sk_sends c)"
proof (cases "length (rs_stream (cl_resp c)) = rs_streamSended (cl_resp c)")
  case True
  with assms(1) have "c' = c" by (simp add: sendStream_def stream_done_def Let_def)
  then show ?thesis using assms(2,3) True
    by (intro that[where a="sk_polls c" and b="sk_sends c" and u="rs_sendedSize (cl_resp c)" and k="rs_streamSended (cl_resp c)"]) simp_all
next
  case False
  let ?r = "cl_resp c"
  obtain w c1 where w: "wait_send c = (w, c1)" by fastforce
  from wait_frame[OF w] obtain a1 where a1: "c1 = c\<lparr>sk_polls := a1\<rparr>" "length a1 \<le> length (sk_polls c)" by auto
  show ?thesis
  proof (cases w)
    case (Some x)
    with assms(1) False w have "c' = c1" "e \<noteq> None" by (auto simp: sendStream_def Let_def)
    then show ?thesis using assms(2,3) a1
      by (intro that[where a=a1 and b="sk_sends c" and u="rs_sendedSize ?r" and k="rs_streamSended ?r"]) auto
  next
    case None
    obtain e2 n c2 where s: "send_raw False (drop (rs_streamSended ?r) (rs_stream ?r)) c1 = (e2, n, c2)"
      by (metis prod.collapse)
    from send_raw_client[OF s] obtain a b where c2: "c2 = c1\<lparr>sk_polls := a, sk_sends := b,
        sk_sent := sk_sent c1 @ take n (drop (rs_streamSended ?r) (rs_stream ?r))\<rparr>"
      "length a \<le> length (sk_polls c1)" "length b \<le> length (sk_sends c1)" by metis
    from sock_sink.send_rest[OF s, of base] assms(2,3) a1 have
      n: "sk_sent c2 = base @ take (rs_streamSended ?r + n) (rs_stream ?r)" "rs_streamSended ?r + n \<le> length (rs_stream ?r)" by auto
    have c2': "c2 = c\<lparr>sk_polls := a, sk_sends := b, sk_sent := base @ take (rs_streamSended ?r + n) (rs_stream ?r)\<rparr>"
      using c2(1) n(1) a1(1) by simp
    have ab: "length a \<le> length (sk_polls c)" "length b \<le> length (sk_sends c)" using c2(2,3) a1 by auto
    show ?thesis
    proof (cases "e2 \<noteq> None \<and> n = 0")
      case True
      with assms(1) False w None s have "c' = c2" "e \<noteq> None" by (auto simp: sendStream_def Let_def)
      then show ?thesis using c2' n True ab
        by (intro that[where a=a and b=b and u="rs_sendedSize ?r" and k="rs_streamSended ?r"]) auto
    next
      case ok: False
      let ?u = "rs_sendedSize ?r + word_of_nat n"
      from assms(1) False w None s ok have "stream_done (on_resp (\<lambda>r. r\<lparr>rs_sendedSize := rs_sendedSize r + word_of_nat n,
          rs_streamSended := rs_streamSended r + n\<rparr>) c2) = (e, full, c')" by (auto simp: sendStream_def Let_def)
      then show ?thesis using c2' n ab
        by (intro that[where a=a and b=b and u="?u" and k="rs_streamSended ?r + n"])
          (auto simp: stream_done_def on_resp_def split: if_splits)
    qed
  qed
qed

lemma resp_slice_upd [simp]:
  "resp_slice dat (r\<lparr>rs_sendedSize := u\<rparr>) i n = resp_slice dat r i n"
  "resp_slice dat (r\<lparr>rs_streamSended := k\<rparr>) i n = resp_slice dat r i n"
  "resp_slice dat (r\<lparr>rs_fileStatus := st\<rparr>) i n = resp_slice dat r i n"
  "resp_slice dat (r\<lparr>rs_buffer := bf\<rparr>) i n = resp_slice dat r i n"
  "resp_start (r\<lparr>rs_sendedSize := u\<rparr>) = resp_start r" "resp_start (r\<lparr>rs_streamSended := k\<rparr>) = resp_start r"
  "resp_start (r\<lparr>rs_fileStatus := st\<rparr>) = resp_start r" "resp_start (r\<lparr>rs_buffer := bf\<rparr>) = resp_start r"
  by (simp_all add: resp_slice_def resp_start_def)

lemmas transfer_defs = transfer_inv_def head_state_def body_state_def sent_state_def counts_ok_def buffer_ok_def file_ok_def Let_def

lemma sendStream_head:
  assumes "sendStream c = (e, full, c')" "head_state dat base rg c"
  shows "head_state dat base rg c'" "e = None \<Longrightarrow> body_state dat base rg c'"
    "is_head c' = is_head c" "rs_fileStatus (cl_resp c') = rs_fileStatus (cl_resp c)" "cl_stop c' = cl_stop c"
proof -
  from assms(2) have "rs_streamSended (cl_resp c) \<le> length (rs_stream (cl_resp c))"
    "sk_sent c = base @ take (rs_streamSended (cl_resp c)) (rs_stream (cl_resp c))" by (auto simp: head_state_def Let_def)
  from sendStream_inv[OF assms(1) this] obtain a b u k where c':
    "c' = c\<lparr>sk_polls := a, sk_sends := b, sk_sent := base @ take k (rs_stream (cl_resp c)),
       cl_resp := (cl_resp c)\<lparr>rs_sendedSize := u, rs_streamSended := k\<rparr>\<rparr>"
    "k \<le> length (rs_stream (cl_resp c))" "e = None \<longrightarrow> k = length (rs_stream (cl_resp c))" by metis
  show "head_state dat base rg c'" using c'(1,2) assms(2) by (auto simp: head_state_def counts_ok_def file_ok_def Let_def)
  show "e = None \<Longrightarrow> body_state dat base rg c'"
    using c' assms(2) by (auto simp: head_state_def body_state_def counts_ok_def file_ok_def buffer_ok_def resp_slice_def Let_def)
  show "is_head c' = is_head c" "rs_fileStatus (cl_resp c') = rs_fileStatus (cl_resp c)" "cl_stop c' = cl_stop c"
    using c'(1) by (auto simp: is_head_def)
qed

section \<open>The contents\<close>

lemma unat_plus_nat: "unat (w :: 64 word) + n < 2 ^ 64 \<Longrightarrow> unat (w + word_of_nat n) = unat w + n"
  by (simp add: unat_word_ariths unat_of_nat)

lemma slice_add: "resp_slice dat r i (n + m) = resp_slice dat r i n @ resp_slice dat r (i + n) m"
proof -
  have "drop n (drop (resp_start r + i) dat) = drop (resp_start r + (i + n)) dat" by (simp add: ac_simps)
  then show ?thesis unfolding resp_slice_def by (simp only: take_add)
qed

lemma slice_take: "n \<le> m \<Longrightarrow> take n (resp_slice dat r i m) = resp_slice dat r i n"
  by (simp add: resp_slice_def min_def)

lemma slice_drop: "drop n (resp_slice dat r i (n + m)) = resp_slice dat r (i + n) m"
  by (simp add: slice_add resp_slice_def ac_simps drop_take)

lemma slice_cong: "resp_start r' = resp_start r \<Longrightarrow> resp_slice dat r' = resp_slice dat r"
  by (simp add: resp_slice_def fun_eq_iff)

text \<open>The bytes to send are in hand, buffered or just read.\<close>

definition filled :: "string \<Rightarrow> string \<Rightarrow> range_sel \<Rightarrow> string \<Rightarrow> client \<Rightarrow> bool" where
  "filled dat base rg fbuf c \<longleftrightarrow>
     (let r = cl_resp c in head_facts r \<and> counts_ok rg r \<and> file_ok dat c \<and> rs_bufferLen r = length fbuf \<and>
        fbuf = resp_slice dat r (unat (rs_fileSended r)) (length fbuf) \<and>
        sk_sent c = base @ rs_stream r @ resp_slice dat r 0 (unat (rs_fileSended r)) \<and>
        length (resp_slice dat r 0 (unat (rs_fileSended r))) = unat (rs_fileSended r))"

lemma mods_read_quiet:
  "\<forall>m\<in>set ms. \<forall>off buf. mod_read m off buf = (None, buf) \<Longrightarrow> mods_read ms off buf = (None, buf)"
  by (induction ms) auto

lemma body_filled_buffer:
  assumes "filled dat base rg fbuf c" "\<not> is_head c"
  shows "body_state dat base rg (on_resp (buffer_put fbuf) c)"
  using assms by (auto simp: filled_def body_state_def counts_ok_def file_ok_def buffer_ok_def buffer_put_def is_head_def Let_def)

lemma readable_le:
  assumes "unat (rs_fileSended r) \<le> unat (rs_fileSendLength r)"
  shows "readable_size r \<le> unat (rs_fileSendLength r) - unat (rs_fileSended r)"
proof -
  have "unat (rs_fileSendLength r - rs_fileSended r) = unat (rs_fileSendLength r) - unat (rs_fileSended r)"
    using assms by (simp add: unat_sub word_le_nat_alt)
  then show ?thesis by (auto simp: readable_size_def Let_def word_less_nat_alt)
qed

lemma contents_fill_inv:
  assumes fill: "contents_fill ev c = (e, fbuf, c')" and body: "body_state dat base rg c"
    and quiet: "quiet_mods ev" and nh: "\<not> is_head c"
  shows "e = None \<Longrightarrow> filled dat base rg fbuf c'" "e \<noteq> None \<Longrightarrow> body_state dat base rg c'"
    "is_head c' = is_head c" "rs_fileStatus (cl_resp c') = rs_fileStatus (cl_resp c)"
proof -
  let ?r = "cl_resp c"
  have "(e = None \<longrightarrow> filled dat base rg fbuf c') \<and> (e \<noteq> None \<longrightarrow> body_state dat base rg c') \<and>
    is_head c' = is_head c \<and> rs_fileStatus (cl_resp c') = rs_fileStatus (cl_resp c)"
  proof (cases "rs_bufferLen ?r = 0")
    case False
    with fill body show ?thesis
      by (auto simp: contents_fill_def body_state_def filled_def buffer_ok_def Let_def)
  next
    case True
    let ?off = "unat (rs_fileOffset ?r)"
    from body obtain f where f: "cl_file c = Some f" "fl_data f = dat" "file_at ?off f"
      by (auto simp: body_state_def file_ok_def Let_def)
    obtain w d f' where rd: "file_read (readable_size ?r) ?off f = ((w, d), f')" by (metis prod.collapse)
    note R = file_read_spec[OF rd f(3)]
    have cnt: "counts_ok rg ?r" using body by (simp add: body_state_def Let_def)
    have off: "?off = resp_start ?r + unat (rs_fileSended ?r)" using cnt True by (auto simp: counts_ok_def resp_start_def)
    have dl: "length d \<le> unat (rs_fileSendLength ?r) - unat (rs_fileSended ?r)"
      using R(3) readable_le[of ?r] cnt by (auto simp: counts_ok_def)
    show ?thesis
    proof (cases "w \<noteq> None \<or> d = []")
      case bad: True
      have "file_at ?off f'" using R(4,5) bad by auto
      then have b: "body_state dat base rg (c\<lparr>cl_file := Some f'\<rparr>)"
        using body R(1) f(2) by (auto simp: body_state_def counts_ok_def file_ok_def buffer_ok_def is_head_def Let_def)
      moreover have "c' = c\<lparr>cl_file := Some f'\<rparr> \<and> e \<noteq> None"
        using fill True f(1) rd bad by (cases w) (auto simp: contents_fill_def Let_def)
      ultimately show ?thesis by (auto simp: is_head_def)
    next
      case nb: False
      then have ok: "w = None" "d \<noteq> []" by (cases w; simp)+
      let ?c = "on_resp (\<lambda>r. r\<lparr>rs_bufferLen := length d, rs_fileOffset := rs_fileOffset r + word_of_nat (length d)\<rparr>)
        (c\<lparr>cl_file := Some f'\<rparr>)"
      let ?r1 = "cl_resp ?c"
      have "?off + length d < 2 ^ 64" using off dl cnt True by (auto simp: counts_ok_def)
      then have off1: "unat (rs_fileOffset ?r1) = ?off + length d" by (simp add: unat_plus_nat)
      have st: "resp_start ?r1 = resp_start ?r" using off off1 cnt True by (simp add: resp_start_def)
      have c1: "counts_ok rg ?r1" using cnt dl off off1 st True by (auto simp: counts_ok_def)
      have "d = resp_slice dat ?r1 (unat (rs_fileSended ?r)) (length d)"
        using R(2) off st f(2) by (simp add: resp_slice_def)
      moreover have "file_ok dat ?c" using R(1,4) f(2) off1 by (simp add: file_ok_def)
      ultimately have fl: "filled dat base rg d ?c"
        using body c1 slice_cong[OF st] by (auto simp: filled_def body_state_def Let_def)
      show ?thesis
      proof (cases "ev_mods ev")
        case None
        with fill True f(1) rd ok have "c' = on_resp (buffer_put d) ?c" "e \<noteq> None"
          by (auto simp: contents_fill_def Let_def)
        with body_filled_buffer[OF fl] nh show ?thesis by (auto simp: is_head_def buffer_put_def)
      next
        case (Some ms)
        then have "mods_read ms ?off d = (None, d)" using quiet mods_read_quiet by (auto simp: quiet_mods_def)
        with fill True f(1) rd ok Some have "c' = ?c" "e = None" "fbuf = d"
          by (auto simp: contents_fill_def Let_def)
        with fl show ?thesis by (auto simp: is_head_def)
      qed
    qed
  qed
  then show "e = None \<Longrightarrow> filled dat base rg fbuf c'" "e \<noteq> None \<Longrightarrow> body_state dat base rg c'"
    "is_head c' = is_head c" "rs_fileStatus (cl_resp c') = rs_fileStatus (cl_resp c)" by auto
qed

lemma contents_send_inv:
  assumes snd: "contents_send fbuf c = (e, c')" and f: "filled dat base rg fbuf c"
    and nh: "\<not> is_head c" and st: "rs_fileStatus (cl_resp c) = 2"
  shows "transfer_inv dat base rg c'" "is_head c' = is_head c" "e \<noteq> None"
    "rs_fileStatus (cl_resp c') = 2 \<or> rs_fileStatus (cl_resp c') = 3"
proof -
  let ?r = "cl_resp c"
  obtain w n c1 where s: "send_raw False fbuf c = (w, n, c1)" by (metis prod.collapse)
  from send_raw_client[OF s] obtain a b where c1: "c1 = c\<lparr>sk_polls := a, sk_sends := b, sk_sent := sk_sent c @ take n fbuf\<rparr>"
    and n: "n \<le> length fbuf" by metis
  let ?r2 = "cl_resp c'"
  have rest: "cl_file c' = cl_file c" "cl_req c' = cl_req c" "sk_sent c' = sk_sent c @ take n fbuf" "e \<noteq> None"
    "?r2 = note_sent fbuf n ?r"
    using snd s c1 by (auto simp: contents_send_def currentTimeMillis_def split: list.splits prod.splits if_splits)
  have r2: "rs_fileSended ?r2 = rs_fileSended ?r + word_of_nat n" "rs_bufferLen ?r2 = length fbuf - n"
    "rs_fileOffset ?r2 = rs_fileOffset ?r" "rs_fileSendLength ?r2 = rs_fileSendLength ?r" "rs_stream ?r2 = rs_stream ?r"
    "rs_buffer ?r2 = (if n < length fbuf then drop n fbuf @ drop (length fbuf - n) (rs_buffer ?r) else rs_buffer ?r)"
    "rs_fileStatus ?r2 = (if rs_fileSended ?r2 < rs_fileSendLength ?r2 then 2 else 3)"
    using n st unfolding rest(5) by (auto simp: note_sent_def buffer_put_def Let_def)
  have hf: "head_facts ?r2" using f unfolding rest(5) by (simp add: filled_def Let_def)
  from f have F: "counts_ok rg ?r" "file_ok dat c" "rs_bufferLen ?r = length fbuf"
    "fbuf = resp_slice dat ?r (unat (rs_fileSended ?r)) (length fbuf)"
    "sk_sent c = base @ rs_stream ?r @ resp_slice dat ?r 0 (unat (rs_fileSended ?r))"
    "length (resp_slice dat ?r 0 (unat (rs_fileSended ?r))) = unat (rs_fileSended ?r)"
    unfolding filled_def Let_def by blast+
  have "unat (rs_fileSended ?r) + n < 2 ^ 64" using F(1,3) n by (auto simp: counts_ok_def)
  then have sd: "unat (rs_fileSended ?r2) = unat (rs_fileSended ?r) + n" unfolding r2(1) by (rule unat_plus_nat)
  have start: "resp_start ?r2 = resp_start ?r" using sd r2(2,3) F(3) n by (simp add: resp_start_def)
  note sl = slice_cong[OF start]
  have cnt: "counts_ok rg ?r2" using F(1,3) n sd r2(2,3,4) start by (auto simp: counts_ok_def)
  have tk: "take n fbuf = resp_slice dat ?r (unat (rs_fileSended ?r)) n" using F(4) n slice_take by metis
  have sent: "sk_sent c' = base @ rs_stream ?r2 @ resp_slice dat ?r2 0 (unat (rs_fileSended ?r2))"
    unfolding rest(3) F(5) tk sl sd r2(5) slice_add by simp
  have len: "length (resp_slice dat ?r2 0 (unat (rs_fileSended ?r2))) = unat (rs_fileSended ?r2)"
    unfolding sl sd slice_add using F(6) tk n by (metis add_0 length_append length_take min.absorb2)
  have dp: "drop n fbuf = resp_slice dat ?r (unat (rs_fileSended ?r) + n) (length fbuf - n)"
    using F(4) n slice_drop[of n dat ?r "unat (rs_fileSended ?r)" "length fbuf - n"] by simp
  have buf: "buffer_ok dat ?r2"
  proof -
    have "length (resp_slice dat ?r (unat (rs_fileSended ?r) + n) (length fbuf - n)) = length fbuf - n"
      using dp by (metis length_drop)
    then show ?thesis unfolding buffer_ok_def sl sd r2(2,6) using dp n by (auto simp: resp_slice_def)
  qed
  have fok: "file_ok dat c'" using F(2) rest(1) r2(3) by (simp add: file_ok_def)
  have hd: "is_head c' = is_head c" using rest(2) by (simp add: is_head_def)
  show "transfer_inv dat base rg c'"
  proof (cases "rs_fileSended ?r2 < rs_fileSendLength ?r2")
    case True
    then show ?thesis using r2(7) hf cnt fok buf sent len hd nh by (simp add: transfer_inv_def body_state_def Let_def)
  next
    case False
    then have "unat (rs_fileSended ?r2) = unat (rs_fileSendLength ?r2)"
      using cnt by (auto simp: counts_ok_def word_less_nat_alt)
    moreover have "resp_start ?r2 = unat (sel_start rg)" "rs_fileSendLength ?r2 = sel_length rg"
      using cnt by (simp_all add: counts_ok_def)
    ultimately show ?thesis using r2(7) hf False sent len hd nh
      by (simp add: transfer_inv_def sent_state_def file_range_def resp_slice_def Let_def)
  qed
  show "is_head c' = is_head c" "e \<noteq> None" by (rule hd, rule rest(4))
  show "rs_fileStatus ?r2 = 2 \<or> rs_fileStatus ?r2 = 3" using r2(7) by simp
qed

lemma send_contents_inv:
  assumes "send_contents ev c = (e, c')" "body_state dat base rg c" "quiet_mods ev" "rs_fileStatus (cl_resp c) = 2"
  shows "transfer_inv dat base rg c'" "is_head c' = is_head c" "e \<noteq> None"
    "rs_fileStatus (cl_resp c') = 2 \<or> rs_fileStatus (cl_resp c') = 3"
proof -
  have "transfer_inv dat base rg c' \<and> is_head c' = is_head c \<and> e \<noteq> None \<and>
    (rs_fileStatus (cl_resp c') = 2 \<or> rs_fileStatus (cl_resp c') = 3)"
  proof (cases "is_head c")
    case True
    with assms(1) have "c' = on_resp (\<lambda>r. r\<lparr>rs_fileStatus := 3\<rparr>) c" "e \<noteq> None" by (auto simp: send_contents_def is_head_def)
    with assms(2) True show ?thesis
      by (auto simp: transfer_inv_def sent_state_def body_state_def counts_ok_def is_head_def resp_slice_def Let_def)
  next
    case False
    obtain w c1 where w: "wait_send c = (w, c1)" by fastforce
    then have c1: "c1 = c\<lparr>sk_polls := sk_polls c1\<rparr>" using wait_frame[OF w] by auto
    have b1: "body_state dat base rg c1" "is_head c1 = is_head c" "rs_fileStatus (cl_resp c1) = 2"
      by (subst c1, use assms(2,4) in \<open>simp add: body_state_def file_ok_def is_head_def Let_def\<close>)+
    show ?thesis
    proof (cases w)
      case (Some x)
      with assms(1) False w have "c' = c1" "e \<noteq> None" by (auto simp: send_contents_def is_head_def)
      with b1 show ?thesis by (simp add: transfer_inv_def)
    next
      case None
      obtain e2 fbuf c2 where f: "contents_fill ev c1 = (e2, fbuf, c2)" by (metis prod.collapse)
      have nh1: "\<not> is_head c1" using b1(2) False by simp
      note F = contents_fill_inv[OF f b1(1) assms(3) nh1]
      show ?thesis
      proof (cases e2)
        case None
        with assms(1) False w \<open>w = None\<close> f have "contents_send fbuf c2 = (e, c')" by (simp add: send_contents_def is_head_def)
        from contents_send_inv[OF this F(1)[OF None]] F(3,4) b1 nh1 show ?thesis by simp
      next
        case (Some y)
        with assms(1) False w \<open>w = None\<close> f have "c' = c2" "e \<noteq> None" by (auto simp: send_contents_def is_head_def)
        with F(2,3,4) Some b1 show ?thesis by (simp add: transfer_inv_def)
      qed
    qed
  qed
  then show "transfer_inv dat base rg c'" "is_head c' = is_head c" "e \<noteq> None"
    "rs_fileStatus (cl_resp c') = 2 \<or> rs_fileStatus (cl_resp c') = 3" by auto
qed

section \<open>Headers of an answer\<close>

lemma list_ok_mono: "list_ok n r \<Longrightarrow> m \<le> n \<Longrightarrow> list_ok m r"
  by (auto simp: list_ok_def header_room_def)

lemma header_put_append: "header_put k v h = Some h' \<Longrightarrow> appendHeader heap_ok (chars k) (chars v) h = Some (None, h')"
  by (auto simp: header_put_def heap_ok_def bind_eq_Some_conv split: if_splits) (metis option.exhaust surj_pair)

lemma resp_appendHeader_ok:
  assumes "list_ok (Suc n) r" "NUL \<notin> set k" "NUL \<notin> set v"
  obtains r' where "resp_appendHeader k (chars v) r = Some (None, r')" "list_ok n r'"
    "rs_fileStatus r' = rs_fileStatus r" "\<And>k'. k' \<noteq> k \<Longrightarrow> header_find (rs_list r') k' = header_find (rs_list r) k'"
    "k = ''Content-Length'' \<Longrightarrow> header_find (rs_list r') k = Some v"
proof (cases "\<exists>x\<in>set [''Date'', ''Server'', ''Last-Modified'', ''ETag'', ''Keep-Alive'', ''Content-Type'', ''Connection'']. text_equals k x")
  case True
  have "\<not> text_equals ''Content-Length'' x"
    if "x \<in> set [''Date'', ''Server'', ''Last-Modified'', ''ETag'', ''Keep-Alive'', ''Content-Type'', ''Connection'']" for x
    using that by (auto simp: text_equals_def dest: strcaseeq_length)
  with True have nk: "k \<noteq> ''Content-Length''" by blast
  from True have "\<exists>r'. resp_appendHeader k (chars v) r = Some (None, r') \<and> rs_list r' = rs_list r \<and>
      rs_fileStatus r' = rs_fileStatus r"
    by (auto simp: resp_appendHeader_def Let_def)
  then obtain r' where "resp_appendHeader k (chars v) r = Some (None, r')" "rs_list r' = rs_list r"
      "rs_fileStatus r' = rs_fileStatus r" by blast
  with nk list_ok_mono[OF assms(1), of n] show ?thesis by (intro that[of r']) (auto simp: list_ok_def)
next
  case False
  from hdr.put_ok[of "rs_list r" n k v] assms obtain h where
    h: "header_put k v (rs_list r) = Some h" "header_ok h" "header_room n h" "header_find h = (header_find (rs_list r))(k \<mapsto> v)"
    by (auto simp: list_ok_def)
  with False have "resp_appendHeader k (chars v) r = Some (None, r\<lparr>rs_list := h\<rparr>)"
    by (simp add: resp_appendHeader_def Let_def header_put_append)
  with h show ?thesis by (intro that[of "r\<lparr>rs_list := h\<rparr>"]) (auto simp: list_ok_def)
qed

lemma append_list_ok:
  "list_ok (length kvs + n) r \<Longrightarrow> \<forall>(k, v)\<in>set kvs. NUL \<notin> set k \<and> NUL \<notin> set v \<Longrightarrow>
   \<exists>r'. append_list kvs r = Some (None, r') \<and> list_ok n r' \<and> rs_fileStatus r' = rs_fileStatus r \<and>
     (\<forall>k. k \<notin> fst ` set kvs \<longrightarrow> header_find (rs_list r') k = header_find (rs_list r) k)"
proof (induction kvs arbitrary: r)
  case (Cons kv kvs)
  obtain k v where kv: "kv = (k, v)" by fastforce
  have "list_ok (Suc (length kvs + n)) r" "NUL \<notin> set k" "NUL \<notin> set v" using Cons.prems kv by auto
  from resp_appendHeader_ok[OF this] obtain r1 where r1: "resp_appendHeader k (chars v) r = Some (None, r1)"
    "list_ok (length kvs + n) r1" "rs_fileStatus r1 = rs_fileStatus r"
    "\<And>k'. k' \<noteq> k \<Longrightarrow> header_find (rs_list r1) k' = header_find (rs_list r) k'" by metis
  from Cons.IH[OF r1(2)] Cons.prems(2) obtain r' where "append_list kvs r1 = Some (None, r')" "list_ok n r'"
    "rs_fileStatus r' = rs_fileStatus r1"
    "\<forall>k. k \<notin> fst ` set kvs \<longrightarrow> header_find (rs_list r') k = header_find (rs_list r1) k" by auto
  with r1 kv show ?case by (intro exI[of _ r']) auto
qed simp

lemma setResponse_ok:
  assumes "list_ok (n + 2) r"
  shows "\<exists>r'. setResponse st ka r = Some (None, r') \<and> list_ok n r' \<and> rs_fileStatus r' = rs_fileStatus r \<and>
    rs_list r' = rs_list r"
proof -
  have eq: "text_equals ''Keep-Alive'' ''Keep-Alive''" "text_equals ''Connection'' ''Connection''"
    "\<forall>x\<in>set [''Date'', ''Server'', ''Last-Modified'', ''ETag'', ''Content-Type'']. \<not> text_equals ''Keep-Alive'' x"
    "\<forall>x\<in>set [''Date'', ''Server'', ''Last-Modified'', ''ETag'', ''Keep-Alive'', ''Content-Type'']. \<not> text_equals ''Connection'' x"
    by code_simp+
  show ?thesis using list_ok_mono[OF assms, of n] eq
    by (auto simp: setResponse_def resp_appendHeader_def Let_def list_ok_def)
qed

lemma ready_headers_ok:
  assumes "list_ok 8 r" "NUL \<notin> set sModify" "NUL \<notin> set (sel_content s)" "NUL \<notin> set (rs_fileContentType r)" "NUL \<notin> set (rs_fileETag r)"
  shows "\<exists>r'. ready_headers ev sModify s q r = Some (None, r') \<and> rs_fileStatus r' = rs_fileStatus r \<and>
    header_find (rs_list r') ''Content-Length'' = Some (show_nat (unat (sel_length s)))"
proof -
  let ?len = "show_nat (unat (sel_length s))"
  let ?kvs = "[(''Accept-Ranges'', ''bytes'')] @ opt_header ''Content-Range'' (sel_content s) @
    opt_header ''Content-Type'' (rs_fileContentType r) @ opt_header ''ETag'' (rs_fileETag r) @ [(''Last-Modified'', sModify)]"
  have "list_ok (Suc 7) r" "NUL \<notin> set ''Content-Length''" "NUL \<notin> set ?len" using assms(1) by auto
  from resp_appendHeader_ok[OF this] obtain r1 where r1: "resp_appendHeader ''Content-Length'' (chars ?len) r = Some (None, r1)"
    "list_ok 7 r1" "rs_fileStatus r1 = rs_fileStatus r" "header_find (rs_list r1) ''Content-Length'' = Some ?len" by metis
  from setResponse_ok[of 5 r1 "sel_status s" "rq_keepAlive q"] r1(2) obtain r2 where
    r2: "setResponse (sel_status s) (rq_keepAlive q) r1 = Some (None, r2)" "list_ok 5 r2"
      "rs_fileStatus r2 = rs_fileStatus r1" "rs_list r2 = rs_list r1" by auto
  have "length ?kvs \<le> 5" "\<forall>(k, v)\<in>set ?kvs. NUL \<notin> set k \<and> NUL \<notin> set v" "''Content-Length'' \<notin> fst ` set ?kvs"
    using assms by (auto simp: opt_header_def)
  with append_list_ok[of ?kvs 0 r2] list_ok_mono[OF r2(2)] obtain r3 where
    "append_list ?kvs r2 = Some (None, r3)" "rs_fileStatus r3 = rs_fileStatus r2"
    "header_find (rs_list r3) ''Content-Length'' = header_find (rs_list r2) ''Content-Length''" by auto
  with r1 r2 show ?thesis by (intro exI[of _ r3]) (simp add: ready_headers_def setResponse_len_def)
qed

section \<open>Ranges\<close>

lemma word_range:
  assumes "e < (sz :: 64 word)" "s \<le> e"
  shows "unat s + unat (e - s + 1) \<le> unat sz" "0 < unat (e - s + 1)" "unat (e - s + 1) = unat e - unat s + 1"
proof -
  have "unat (e - s) = unat e - unat s" using assms(2) by (simp add: unat_sub)
  moreover have lt: "unat e < unat sz" "unat s \<le> unat e" using assms by (simp_all add: word_less_nat_alt word_le_nat_alt)
  moreover have "unat sz < 2 ^ 64" using unsigned_less[of sz] by simp
  ultimately have "unat (e - s + 1) = unat e - unat s + 1" using unat_plus_nat[of "e - s" 1] by simp
  then show "unat s + unat (e - s + 1) \<le> unat sz" "0 < unat (e - s + 1)" "unat (e - s + 1) = unat e - unat s + 1"
    using lt by auto
qed

lemma word_pred_less: "sz \<noteq> 0 \<Longrightarrow> sz - 1 < (sz :: 64 word)"
  by (simp add: word_less_nat_alt unat_minus_one unat_gt_0)

text \<open>Without resizing, a range that passes the checks lies in the file.\<close>

lemma range_select_in_file:
  assumes "range_select False ga v fsize = Inr s" "range_check s"
  shows "sel_size s = fsize" "unat (sel_start s) + unat (sel_length s) \<le> unat fsize" "0 < unat (sel_length s)"
proof -
  have nz: "fsize \<noteq> 0" if "sel_size s = fsize" using assms(2) that by (auto simp: range_check_def)
  have p: "unat a + unat (b - a + 1) \<le> unat fsize \<and> 0 < unat (b - a + 1)" if "s = partial_sel a b fsize" "b < fsize" for a b
    using word_range[of b fsize a] that assms(2) by (auto simp: partial_sel_def range_check_def not_less)
  have "sel_size s = fsize \<and> unat (sel_start s) + unat (sel_length s) \<le> unat fsize \<and> 0 < unat (sel_length s)"
  proof (cases "rg_minus v = 0")
    case True
    with assms(1) nz show ?thesis by (auto simp: range_select_def unat_gt_0)
  next
    case False
    with assms(1) obtain a b where ab: "s = partial_sel a b fsize" "b < fsize \<or> b = fsize - 1"
      by (auto simp: range_select_def range_resize_def Let_def not_le split: if_splits)
    have sz: "sel_size s = fsize" using ab by (simp add: partial_sel_def)
    with ab(2) word_pred_less[OF nz[OF sz]] have "b < fsize" by auto
    from p[OF ab(1) this] ab(1) sz show ?thesis by (simp add: partial_sel_def)
  qed
  then show "sel_size s = fsize" "unat (sel_start s) + unat (sel_length s) \<le> unat fsize" "0 < unat (sel_length s)" by auto
qed

section \<open>What stays as it is\<close>

definition settings :: "client \<Rightarrow> request \<times> bool \<times> bool \<times> bool" where
  "settings c = (cl_req c, cl_resizeable c, cl_stop c, sk_stop c)"

lemma settings_simps [simp]:
  "settings (on_resp g c) = settings c" "settings (c\<lparr>cl_file := f\<rparr>) = settings c" "settings (c\<lparr>cl_resp := r\<rparr>) = settings c"
  "settings (c\<lparr>cl_ssTime := t\<rparr>) = settings c" "settings (c\<lparr>cl_clock := ts\<rparr>) = settings c" "settings (c\<lparr>sk_lefts := xs\<rparr>) = settings c"
  "settings (c\<lparr>sk_polls := a\<rparr>) = settings c" "settings (c\<lparr>sk_polls := a, sk_sends := b, sk_sent := t'\<rparr>) = settings c"
  by (simp_all add: settings_def)

lemma settings_is_head: "settings c' = settings c \<Longrightarrow> is_head c' = is_head c"
  by (simp add: settings_def is_head_def)

lemma settings_io:
  "wait_send c = (e, c') \<Longrightarrow> settings c' = settings c"
  "send_raw w d c = (e, n, c') \<Longrightarrow> settings c' = settings c"
  "currentTimeMillis c = (t, c') \<Longrightarrow> settings c' = settings c"
  using wait_frame[of True c e c'] send_loop_frame[of w d 0 c e n c']
  by (auto simp: send_raw_def currentTimeMillis_def split: list.splits)

lemma settings_sendStream: "sendStream c = (e, full, c') \<Longrightarrow> settings c' = settings c"
  by (auto simp: sendStream_def stream_done_def Let_def dest!: settings_io(1,2) split: prod.splits option.splits if_splits)

lemma settings_send_contents: "send_contents ev c = (e, c') \<Longrightarrow> settings c' = settings c"
  by (auto simp: send_contents_def contents_fill_def contents_send_def Let_def dest!: settings_io
      split: prod.splits option.splits if_splits)

lemma ready_headE:
  assumes "ready_head ev c = Some (e, c')"
  obtains r full c2 where "resp_makeStream (ev_localtime ev) (ev_now ev) (cl_resp c) = Some r"
    "sendStream (c\<lparr>cl_resp := r\<rparr>) = (e, full, c2)"
    "c' = on_resp (\<lambda>r. r\<lparr>rs_fileStatus := (if e \<noteq> None then 1 else 2)\<rparr>) c2"
proof -
  from assms obtain r where r: "resp_makeStream (ev_localtime ev) (ev_now ev) (cl_resp c) = Some r"
    by (auto simp: ready_head_def client_makeStream_def bind_eq_Some_conv)
  obtain e2 full c2 where s: "sendStream (c\<lparr>cl_resp := r\<rparr>) = (e2, full, c2)" by (metis prod.collapse)
  from assms r s show ?thesis by (intro that) (auto simp: ready_head_def client_makeStream_def)
qed

lemma settings_ready_head: "ready_head ev c = Some (e, c') \<Longrightarrow> settings c' = settings c"
  by (elim ready_headE) (auto dest: settings_sendStream)

lemma settings_ready_send: "ready_send ev m s c = Some (e, c') \<Longrightarrow> settings c' = settings c"
  by (auto simp: ready_send_def Let_def bind_eq_Some_conv dest: settings_ready_head split: if_split_asm)

lemma ready_cases:
  assumes "sendLocalFile_ready ev c = Some (e, c')"
  shows "(e \<noteq> None \<and> (c' = c \<or> c' = c\<lparr>cl_file := None\<rparr> \<or> c' = opened ev c)) \<or>
    (\<exists>m s. getDateStringRfc822 (ev_localtime ev) (ev_now ev) (rs_fileMTime (cl_resp c)) = Some m \<and>
       requested_range ev (opened ev c) = Some (Inr s) \<and> ready_send ev m s (opened ev c) = Some (e, c'))"
proof (cases "\<exists>ms. ev_mods ev = Some ms \<and> mods_open ms (rq_file (cl_req c)) = None \<and> fst (ev_open ev) = None")
  case False
  with assms show ?thesis by (auto simp: sendLocalFile_ready_def split: option.split_asm) metis+
next
  case True
  with assms obtain m x where "getDateStringRfc822 (ev_localtime ev) (ev_now ev) (rs_fileMTime (cl_resp c)) = Some m"
    "requested_range ev (opened ev c) = Some x"
    by (auto simp: sendLocalFile_ready_def bind_eq_Some_conv)
  with assms True show ?thesis by (cases x) (auto simp: sendLocalFile_ready_def)
qed

lemma settings_opened [simp]: "settings (opened ev c) = settings c"
  by (simp add: opened_def)

lemma settings_ready: "sendLocalFile_ready ev c = Some (e, c') \<Longrightarrow> settings c' = settings c"
  by (drule ready_cases) (auto dest: settings_ready_send)

lemma settings_sendLocalFile: "sendLocalFile ev c = Some (e, c') \<Longrightarrow> settings c' = settings c"
  by (auto simp: sendLocalFile_def send_wait_acks_def getSendBufferLeftSize_def bind_eq_Some_conv
      dest: settings_ready settings_sendStream settings_send_contents split: prod.split_asm option.split_asm if_split_asm sysret.split_asm)

section \<open>Preparing\<close>

text \<open>The file system serves the contents \<open>dat\<close>, newly opened; the modules only look.\<close>

definition serves :: "env \<Rightarrow> string \<Rightarrow> bool" where
  "serves ev dat \<longleftrightarrow> quiet_mods ev \<and> fl_data (snd (ev_open ev)) = dat \<and> fl_pos (snd (ev_open ev)) = 0 \<and>
     fl_offset (snd (ev_open ev)) = 0 \<and> NUL \<notin> set (ev_ctype ev)"

lemma resp_head_stream [simp]: "resp_head (r\<lparr>rs_stream := x\<rparr>) = resp_head r"
  by (simp add: resp_head_def)

lemma resp_defaults_frame:
  assumes "resp_defaults lt now r = Some r'"
  obtains d s l where "r' = r\<lparr>rs_date := d, rs_server := s, rs_lastModified := l\<rparr>"
proof -
  from assms have "r' = r\<lparr>rs_date := rs_date r', rs_server := rs_server r', rs_lastModified := rs_lastModified r'\<rparr>"
    by (auto simp: resp_defaults_def Let_def bind_eq_Some_conv split: if_splits)
  then show ?thesis by (rule that)
qed

lemma makeStream_facts:
  assumes "resp_makeStream lt now r = Some r'"
  shows "rs_stream r' = resp_head r' @ rs_body r'" "rs_streamSended r' = 0" "rs_list r' = rs_list r"
    "rs_body r' = rs_body r" "rs_fileStatus r' = rs_fileStatus r" "rs_bufferLen r' = rs_bufferLen r"
    "rs_fileSended r' = rs_fileSended r" "rs_fileOffset r' = rs_fileOffset r" "rs_fileSendLength r' = rs_fileSendLength r"
  using assms
  by (auto simp: resp_makeStream_def bind_eq_Some_conv elim!: resp_defaults_frame)

lemma ready_send_inv:
  assumes "ready_send ev m s c = Some (e, c')"
    and st: "rs_fileStatus (cl_resp c) = 0" "sk_sent c = base" "list_ok 8 (cl_resp c)"
    and nul: "NUL \<notin> set m" "NUL \<notin> set (sel_content s)" "NUL \<notin> set (rs_fileContentType (cl_resp c))" "NUL \<notin> set (rs_fileETag (cl_resp c))"
    and sel: "range_check s \<Longrightarrow> unat (sel_start s) + unat (sel_length s) < 2 ^ 64 \<and> 0 < unat (sel_length s)"
    and fl: "cl_file c = Some f" "fl_data f = dat" "fl_pos f = 0" "fl_offset f = 0"
  shows "transfer_inv dat base s c'" "rs_fileStatus (cl_resp c') = (if range_check s then if e = None then 2 else 1 else 0)"
    "\<not> range_check s \<Longrightarrow> e = Some (DFW_ERROR, 0)"
proof -
  let ?c = "on_resp (\<lambda>r. r\<lparr>rs_fileSize := sel_size s\<rparr>) c"
  have "transfer_inv dat base s c' \<and> rs_fileStatus (cl_resp c') = (if range_check s then if e = None then 2 else 1 else 0) \<and>
    (\<not> range_check s \<longrightarrow> e = Some (DFW_ERROR, 0))"
  proof (cases "range_check s")
    case False
    with assms(1) have "c' = ?c" "e = Some (DFW_ERROR, 0)" by (auto simp: ready_send_def Let_def)
    with st nul False show ?thesis by (simp add: transfer_inv_def list_ok_def)
  next
    case True
    have "list_ok 8 (cl_resp ?c)" "NUL \<notin> set (rs_fileContentType (cl_resp ?c))" "NUL \<notin> set (rs_fileETag (cl_resp ?c))"
      using st nul by (simp_all add: list_ok_def)
    from ready_headers_ok[OF this(1) nul(1,2) this(2,3), of ev "cl_req ?c"] obtain r1 where
      r1: "ready_headers ev m s (cl_req ?c) (cl_resp ?c) = Some (None, r1)" "rs_fileStatus r1 = 0"
        "header_find (rs_list r1) ''Content-Length'' = Some (show_nat (unat (sel_length s)))" using st by auto
    let ?r2 = "r1\<lparr>rs_body := [], rs_bufferLen := 0, rs_fileSendLength := sel_length s, rs_fileOffset := sel_start s, rs_fileSended := 0\<rparr>"
    let ?c2 = "?c\<lparr>cl_resp := ?r2\<rparr>"
    have "ready_head ev ?c2 = Some (e, c')"
      using assms(1) True r1(1) by (simp add: ready_send_def on_resp_def Let_def)
    then obtain r3 full c4 where r3: "resp_makeStream (ev_localtime ev) (ev_now ev) ?r2 = Some r3"
      and s4: "sendStream (?c2\<lparr>cl_resp := r3\<rparr>) = (e, full, c4)"
      and c': "c' = on_resp (\<lambda>r. r\<lparr>rs_fileStatus := (if e \<noteq> None then 1 else 2)\<rparr>) c4"
      by (rule ready_headE) simp
    note R3 = makeStream_facts[OF r3]
    have "head_state dat base s (?c2\<lparr>cl_resp := r3\<rparr>)"
      using R3 r1(3) sel[OF True] st(2) fl
      by (auto simp: head_state_def head_facts_def counts_ok_def resp_start_def file_ok_def file_at_def Let_def)
    note S = sendStream_head[OF s4 this]
    show ?thesis
    proof (cases e)
      case None
      with S(2) c' True show ?thesis
        by (auto simp: transfer_inv_def body_state_def counts_ok_def file_ok_def buffer_ok_def is_head_def Let_def)
    next
      case (Some x)
      with S(1) c' True show ?thesis
        by (auto simp: transfer_inv_def head_state_def counts_ok_def file_ok_def Let_def)
    qed
  qed
  then show "transfer_inv dat base s c'" "rs_fileStatus (cl_resp c') = (if range_check s then if e = None then 2 else 1 else 0)"
    "\<not> range_check s \<Longrightarrow> e = Some (DFW_ERROR, 0)" by auto
qed

section \<open>Every step keeps the invariant\<close>

lemma getDateString_nul: "getDateStringRfc822 lt now t = Some m \<Longrightarrow> NUL \<notin> set m"
  by (auto simp: getDateStringRfc822_def Let_def bind_eq_Some_conv)

lemma show_nat_in: "NUL \<notin> set (show_nat n)"
  by simp

lemma requested_range_content:
  assumes "requested_range ev c = Some (Inr s)"
  shows "NUL \<notin> set (sel_content s)"
  using assms
  by (auto simp: requested_range_def range_select_def range_resize_def partial_sel_def content_range_def Let_def
      bind_eq_Some_conv split: option.split_asm sum.split_asm if_split_asm)

lemma requested_range_in_file:
  assumes "requested_range ev c = Some (Inr s)" "\<not> cl_resizeable c" "range_check s"
  shows "sel_size s = rs_fileSize (cl_resp c)" "unat (sel_start s) + unat (sel_length s) < 2 ^ 64 \<and> 0 < unat (sel_length s)"
proof -
  from assms(1,2) obtain v where v: "range_select False (ev_getattr ev) v (rs_fileSize (cl_resp c)) = Inr s"
    by (auto simp: requested_range_def bind_eq_Some_conv split: option.split_asm)
  have "unat (rs_fileSize (cl_resp c)) < 2 ^ 64" using unsigned_less[of "rs_fileSize (cl_resp c)"] by simp
  with range_select_in_file[OF v assms(3)] show "sel_size s = rs_fileSize (cl_resp c)"
    "unat (sel_start s) + unat (sel_length s) < 2 ^ 64 \<and> 0 < unat (sel_length s)" by auto
qed

text \<open>While nothing is prepared, the request asks for the same range.\<close>

definition asks :: "env \<Rightarrow> range_sel \<Rightarrow> client \<Rightarrow> bool" where
  "asks ev s c \<longleftrightarrow> \<not> cl_resizeable c \<and> (rs_fileStatus (cl_resp c) = 0 \<longrightarrow> requested_range ev c = Some (Inr s))"

lemma requested_range_cong:
  "settings c' = settings c \<Longrightarrow> rs_fileSize (cl_resp c') = rs_fileSize (cl_resp c) \<Longrightarrow> requested_range ev c' = requested_range ev c"
  by (simp add: settings_def requested_range_def cong: option.case_cong)

lemma ready_inv:
  assumes "sendLocalFile_ready ev c = Some (e, c')" "transfer_inv dat base s c" "rs_fileStatus (cl_resp c) = 0"
    and "serves ev dat" "asks ev s c"
  shows "transfer_inv dat base s c' \<and> asks ev s c' \<and>
    (e = None \<longrightarrow> rs_fileStatus (cl_resp c') = 2) \<and> rs_fileStatus (cl_resp c') \<in> {0, 1, 2} \<and>
    (rs_fileStatus (cl_resp c') = 0 \<longrightarrow> e \<noteq> None)"
proof -
  have st: "sk_sent c = base" "list_ok 8 (cl_resp c)" "NUL \<notin> set (rs_fileETag (cl_resp c))"
    using assms(2,3) by (auto simp: transfer_inv_def Let_def)
  let ?o = "opened ev c"
  have o: "sk_sent ?o = base" "list_ok 8 (cl_resp ?o)" "NUL \<notin> set (rs_fileETag (cl_resp ?o))" "rs_fileStatus (cl_resp ?o) = 0"
    "requested_range ev ?o = Some (Inr s)" "\<not> cl_resizeable ?o"
    using st assms(3,5) requested_range_cong[of ?o c] by (auto simp: opened_def list_ok_def asks_def)
  from ready_cases[OF assms(1)] show ?thesis
  proof (elim disjE conjE exE)
    assume "e \<noteq> None" "c' = c" then show ?thesis using assms by simp
  next
    assume "e \<noteq> None" "c' = c\<lparr>cl_file := None\<rparr>"
    then show ?thesis using assms requested_range_cong[of "c\<lparr>cl_file := None\<rparr>" c ev] by (auto simp: transfer_inv_def asks_def)
  next
    assume "e \<noteq> None" "c' = ?o"
    then show ?thesis using o by (auto simp: transfer_inv_def asks_def)
  next
    fix m s' assume m: "getDateStringRfc822 (ev_localtime ev) (ev_now ev) (rs_fileMTime (cl_resp c)) = Some m"
      and rs: "requested_range ev ?o = Some (Inr s')" and snd: "ready_send ev m s' ?o = Some (e, c')"
    from rs o(5) have s': "s' = s" by simp
    note sel = requested_range_in_file[OF o(5,6)]
    have "transfer_inv dat base s c'" and status: "rs_fileStatus (cl_resp c') = (if range_check s then if e = None then 2 else 1 else 0)"
      and bad: "\<not> range_check s \<Longrightarrow> e = Some (DFW_ERROR, 0)"
      using ready_send_inv[OF snd[unfolded s'] o(4,1,2) getDateString_nul[OF m] requested_range_content[OF o(5)] _ o(3) sel(2)]
        assms(4) by (auto simp: serves_def opened_def)
    moreover have "\<not> cl_resizeable c'" using settings_ready_send[OF snd] o(6) by (simp add: settings_def)
    moreover have "requested_range ev c' = Some (Inr s)" if "\<not> range_check s"
    proof -
      from snd s' that have "c' = on_resp (\<lambda>r. r\<lparr>rs_fileSize := sel_size s\<rparr>) ?o" by (simp add: ready_send_def Let_def)
      moreover have "sel_size s = rs_fileSize (cl_resp ?o)" using o(5,6)
        by (auto simp: requested_range_def range_select_def range_resize_def partial_sel_def Let_def
            bind_eq_Some_conv split: option.split_asm sum.split_asm if_split_asm)
      ultimately show ?thesis using requested_range_cong[of c' ?o] o(5) by simp
    qed
    ultimately show ?thesis by (auto simp: asks_def)
  qed
qed

lemma send_wait_acks_inv:
  assumes "send_wait_acks c = (e, c')" "transfer_inv dat base s c" "rs_fileStatus (cl_resp c) = 3"
  shows "transfer_inv dat base s c'" "rs_fileStatus (cl_resp c') = 3"
proof -
  have "\<exists>xs. c' = c\<lparr>sk_lefts := xs\<rparr>" using assms(1)
    by (auto simp: send_wait_acks_def getSendBufferLeftSize_def split: prod.split_asm sysret.split_asm if_split_asm)
  then obtain xs where "c' = c\<lparr>sk_lefts := xs\<rparr>" by blast
  with assms(2,3) show "transfer_inv dat base s c'" "rs_fileStatus (cl_resp c') = 3"
    by (auto simp: transfer_inv_def sent_state_def is_head_def Let_def)
qed

lemma sendLocalFile_inv:
  assumes "sendLocalFile ev c = Some (e, c')" "transfer_inv dat base s c" "serves ev dat" "asks ev s c"
  shows "transfer_inv dat base s c'" "asks ev s c'" "e = None \<Longrightarrow> rs_fileStatus (cl_resp c') = 3"
proof -
  have nr: "\<not> cl_resizeable c'" using settings_sendLocalFile[OF assms(1)] assms(4) by (simp add: settings_def asks_def)
  have "transfer_inv dat base s c' \<and> asks ev s c' \<and> (e = None \<longrightarrow> rs_fileStatus (cl_resp c') = 3)"
  proof (cases "cl_stop c")
    case True
    with assms show ?thesis by (auto simp: sendLocalFile_def)
  next
    case live: False
    consider "rs_fileStatus (cl_resp c) = 0" | "rs_fileStatus (cl_resp c) = 1" "head_state dat base s c"
      | "rs_fileStatus (cl_resp c) = 2" "body_state dat base s c" | "rs_fileStatus (cl_resp c) = 3"
      using assms(2) by (auto simp: transfer_inv_def Let_def)
    then show ?thesis
    proof cases
      case 1
      with assms(1) live obtain e1 c1 where r: "sendLocalFile_ready ev c = Some (e1, c1)" "c' = c1" "e \<noteq> None"
        by (auto simp: sendLocalFile_def bind_eq_Some_conv split: if_split_asm)
      with ready_inv[OF r(1) assms(2) 1 assms(3,4)] show ?thesis by auto
    next
      case 2
      obtain e1 full c1 where s1: "sendStream c = (e1, full, c1)" by (metis prod.collapse)
      note S = sendStream_head[OF s1 2(2)]
      from assms(1) live 2(1) s1 have c': "e \<noteq> None"
        "c' = (if e1 = None then on_resp (\<lambda>r. r\<lparr>rs_fileStatus := 2\<rparr>) c1 else c1)"
        by (auto simp: sendLocalFile_def split: if_split_asm)
      have "transfer_inv dat base s c'"
      proof (cases e1)
        case None
        with S(2) c'(2) show ?thesis
          by (auto simp: transfer_inv_def body_state_def counts_ok_def file_ok_def buffer_ok_def is_head_def Let_def)
      next
        case (Some a)
        with S(1,4) 2(1) c'(2) show ?thesis by (simp add: transfer_inv_def)
      qed
      with c' S(4) 2(1) nr show ?thesis by (auto simp: asks_def)
    next
      case 3
      with assms(1) live have sc: "send_contents ev c = (e, c')" by (simp add: sendLocalFile_def)
      from send_contents_inv[OF this 3(2) _ 3(1)] assms(3) nr show ?thesis by (auto simp: serves_def asks_def)
    next
      case 4
      with assms(1) live have "send_wait_acks c = (e, c')" by (simp add: sendLocalFile_def)
      from send_wait_acks_inv[OF this assms(2) 4] nr show ?thesis by (auto simp: asks_def)
    qed
  qed
  then show "transfer_inv dat base s c'" "asks ev s c'" "e = None \<Longrightarrow> rs_fileStatus (cl_resp c') = 3" by auto
qed

lemma transfer_inv_clock [simp]:
  "transfer_inv dat base s (c\<lparr>cl_clock := ts\<rparr>) = transfer_inv dat base s c"
  "transfer_inv dat base s (c\<lparr>cl_ssTime := t\<rparr>) = transfer_inv dat base s c"
  "asks ev s (c\<lparr>cl_clock := ts\<rparr>) = asks ev s c" "asks ev s (c\<lparr>cl_ssTime := t\<rparr>) = asks ev s c"
  using requested_range_cong[of "c\<lparr>cl_clock := ts\<rparr>" c ev] requested_range_cong[of "c\<lparr>cl_ssTime := t\<rparr>" c ev]
  by (auto simp: transfer_inv_def head_state_def body_state_def sent_state_def file_ok_def is_head_def asks_def Let_def)

lemma send_file_loop_inv:
  "send_file_loop ev c = Some y \<Longrightarrow> transfer_inv dat base s c \<Longrightarrow> serves ev dat \<Longrightarrow> asks ev s c \<Longrightarrow>
   transfer_inv dat base s (snd y) \<and> (fst y = None \<longrightarrow> rs_fileStatus (cl_resp (snd y)) = 3) \<and>
   settings (snd y) = settings c"
proof (induction ev c y rule: send_file_loop.raw_induct[rotated 1, consumes 1, case_names step])
  case (step loop ev c y)
  note body = step.hyps
  obtain now c1 where t: "currentTimeMillis c = (now, c1)" by fastforce
  then have inv: "transfer_inv dat base s c1" "asks ev s c1"
    using step.prems by (auto simp: currentTimeMillis_def split: list.split_asm)
  note st1 = settings_io(3)[OF t]
  show ?case
  proof (cases "cl_stop c \<or> now - cl_ssTime c1 > 7200000")
    case True
    with body t inv st1 step.prems show ?thesis by (auto split: if_split_asm)
  next
    case False
    with body t obtain x where x: "sendLocalFile ev c1 = Some x" by (auto simp: bind_eq_Some_conv)
    then have "sendLocalFile ev c1 = Some (fst x, snd x)" by simp
    note X = sendLocalFile_inv[OF this inv(1) step.prems(2) inv(2)] and st = settings_sendLocalFile[OF this]
    show ?thesis
    proof (cases "goes_on (fst x) \<or> map_option fst (fst x) = Some DFW_T_CONTINUE")
      case True
      with body t False x have "loop ev (snd x) = Some y" by auto
      with step.IH X step.prems st st1 show ?thesis by metis
    next
      case no: False
      with body t False x have "y = x" by auto
      with X st st1 show ?thesis by simp
    qed
  qed
qed

lemma show_hex_no_nul [simp]: "NUL \<notin> set (show_hex n)"
proof -
  define h where "h = ''0123456789abcdef''"
  have len: "length h = 16" and nn: "NUL \<notin> set h" by (simp_all add: h_def)
  have nth: "h ! i \<in> set h" if "i < 16" for i using that len by (intro nth_mem) simp
  have "set (show_hex n) \<subseteq> set h"
  proof (induction n rule: show_hex.induct)
    case (1 n)
    have "show_hex n = (if n < 16 then [h ! n] else show_hex (n div 16) @ [h ! (n mod 16)])"
      unfolding h_def by (rule show_hex.simps)
    with 1 nth show ?case by auto
  qed
  with nn show ?thesis by blast
qed

section \<open>What the client gets\<close>

text \<open>The response after \<open>se_checkLocalFile\<close> has found a file.\<close>

lemma check_found:
  assumes "se_checkLocalFile lt now ga q r = Some (None, out, q', r')"
  shows "rs_fileStatus r' = 0" "rs_list r' = rs_list r" "NUL \<notin> set (rs_fileETag r')" "rq_method q' = rq_method q"
  using assms
  by (auto simp: se_checkLocalFile_def answer_with_def checkDirectory_def file_etag_def Let_def bind_eq_Some_conv
      split: prod.split_asm option.split_asm if_split_asm)

lemma transfer_inv_prefix:
  assumes "transfer_inv dat base s c" "is_head c = hm"
  shows "prefix (sk_sent c) (base @ resp_head (cl_resp c) @ (if hm then [] else file_range dat s))"
proof -
  have *: "prefix (resp_slice dat r 0 n) (file_range dat s)" if "resp_start r = unat (sel_start s)" "n \<le> unat (sel_length s)" for r n
    using that by (simp add: resp_slice_def file_range_def take_is_prefix) (metis min.absorb1 take_is_prefix take_take)
  have p: "prefix (base @ take k h) (base @ h @ x)" for k :: nat and h x :: string
    by (metis append_take_drop_id append_assoc prefixI same_prefix_prefix)
  have "rs_fileStatus (cl_resp c) = 2 \<Longrightarrow> body_state dat base s c \<Longrightarrow> ?thesis"
    using *[of "cl_resp c" "unat (rs_fileSended (cl_resp c))"] assms(2)
    by (auto simp: body_state_def head_facts_def counts_ok_def resp_slice_def Let_def)
  with assms p show ?thesis
    by (auto simp: transfer_inv_def head_state_def sent_state_def head_facts_def take_is_prefix Let_def)
qed

end
