(* ===== verification/Dfw_HttpServe_Spec.thy ===== *)
theory Dfw_HttpServe_Spec
  imports Dfw_HttpSend_Spec
begin

text \<open>
  The server's answers end to end: what a client receives, and that the transfer ends when the system
  lets it go on.
\<close>

section \<open>A system that lets the transfer go on\<close>

text \<open>
  \<open>n\<close> answers of each kind: the socket is writable, takes at least a byte, nothing is left
  unacknowledged at the end; the clock does not go back and does not run two hours ahead.
\<close>

definition polls_ok :: "sysret list \<Rightarrow> bool" where
  "polls_ok xs \<longleftrightarrow> (\<forall>x\<in>set xs. \<exists>k>0. x = SysRet k \<and> revent k 2)"

definition moves_ok :: "sysret list \<Rightarrow> bool" where
  "moves_ok xs \<longleftrightarrow> (\<forall>x\<in>set xs. \<exists>k>0. x = SysRet k)"

definition clock_ok :: "64 word \<Rightarrow> 64 word list \<Rightarrow> bool" where
  "clock_ok t ts \<longleftrightarrow> sorted_wrt (\<lambda>u v. v - u \<le> 7200000) (t # ts)"

definition net_ok :: "nat \<Rightarrow> client \<Rightarrow> bool" where
  "net_ok n c \<longleftrightarrow> \<not> cl_stop c \<and> \<not> sk_stop c \<and> polls_ok (sk_polls c) \<and> n \<le> length (sk_polls c) \<and>
     moves_ok (sk_sends c) \<and> n \<le> length (sk_sends c) \<and> (\<exists>xs. sk_lefts c = SysRet 0 # xs)"

definition disk_ok :: "nat \<Rightarrow> file_obj \<Rightarrow> bool" where
  "disk_ok n f \<longleftrightarrow> fl_timeout f = 0 \<and> n \<le> length (fl_seeks f) \<and> (\<forall>x\<in>set (fl_seeks f). \<exists>k. x = SysRet k) \<and>
     moves_ok (fl_reads f) \<and> n \<le> length (fl_reads f)"

lemma wait_good:
  assumes "polls_ok (sk_polls c)" "sk_polls c \<noteq> []" "\<not> sk_stop c"
  shows "wait_send c = (None, c\<lparr>sk_polls := tl (sk_polls c)\<rparr>)"
proof -
  obtain x xs where x: "sk_polls c = x # xs" using assms(2) by (cases "sk_polls c") auto
  with assms(1) obtain k where "k > 0" "x = SysRet k" "revent k 2" by (auto simp: polls_ok_def)
  with x assms(3) show ?thesis by (simp add: sock_wait_def poll_events_def)
qed

lemma send_loop_good:
  "moves_ok (sk_sends c) \<Longrightarrow> length d \<le> length (sk_sends c) \<Longrightarrow> \<not> sk_stop c \<Longrightarrow>
   \<exists>xs. send_loop w d k c = (None, k + length d, c\<lparr>sk_sends := xs, sk_sent := sk_sent c @ d\<rparr>) \<and>
     moves_ok xs \<and> length (sk_sends c) - length d \<le> length xs"
proof (induction "length d" arbitrary: d k c rule: less_induct)
  case less
  show ?case
  proof (cases "d = []")
    case True
    with less.prems show ?thesis
      by (subst send_loop.simps) (auto intro!: exI[of _ "sk_sends c"])
  next
    case False
    then obtain x xs where x: "sk_sends c = x # xs" using less.prems(2) by (cases "sk_sends c") auto
    with less.prems(1) obtain j where j: "j > 0" "x = SysRet j" by (auto simp: moves_ok_def)
    let ?m = "min j (length d)" and ?c = "c\<lparr>sk_sends := xs, sk_sent := sk_sent c @ take (min j (length d)) d\<rparr>"
    have m: "0 < ?m" "?m \<le> length d" using j False by auto
    have eq: "send_loop w d k c = send_loop w (drop ?m d) (k + ?m) ?c"
      using False less.prems(3) x j m by (subst send_loop.simps) (simp add: Let_def)
    have "moves_ok (sk_sends ?c)" "length (drop ?m d) \<le> length (sk_sends ?c)" "\<not> sk_stop ?c" "length (drop ?m d) < length d"
      using less.prems x m by (auto simp: moves_ok_def)
    from less.hyps[OF this(4) this(1-3), of "k + ?m"] obtain ys where
      ys: "send_loop w (drop ?m d) (k + ?m) ?c = (None, k + ?m + length (drop ?m d),
             ?c\<lparr>sk_sends := ys, sk_sent := sk_sent ?c @ drop ?m d\<rparr>)"
        "moves_ok ys" "length (sk_sends ?c) - length (drop ?m d) \<le> length ys" by blast
    have "sk_sent ?c @ drop ?m d = sk_sent c @ d" by simp
    moreover have "length (sk_sends c) - length d \<le> length ys"
      using ys(3) x False j by (cases d) (auto simp: min_def split: if_split_asm)
    ultimately show ?thesis using eq ys(1,2) m x by (intro exI[of _ ys]) auto
  qed
qed

lemma file_read_good:
  assumes "disk_ok (Suc n) f" "file_at off f" "0 < sz" "off < length (fl_data f)" "\<not> seek_lost off"
  obtains d f' where "file_read sz off f = ((None, d), f')" "d \<noteq> []" "disk_ok n f'"
proof -
  obtain x xs where x: "fl_seeks f = SysRet x # xs" using assms(1) by (cases "fl_seeks f") (auto simp: disk_ok_def)
  obtain y ys where y: "fl_reads f = SysRet y # ys" "0 < y" using assms(1) by (cases "fl_reads f") (auto simp: disk_ok_def moves_ok_def)
  let ?g = "if off \<noteq> fl_offset f then f\<lparr>fl_seeks := xs, fl_pos := off, fl_offset := off\<rparr> else f"
  have aim: "file_aim off f = (None, ?g)" using assms(1,5) x
    by (auto simp: file_aim_def file_seek_def fd_seek_def seek_to_def answer_def disk_ok_def)
  have g: "fl_pos ?g = off" "fl_data ?g = fl_data f" "fl_reads ?g = SysRet y # ys" using assms(2) y by (auto simp: file_at_def)
  let ?d = "take (min y sz) (drop off (fl_data f))"
  have "file_read sz off f = ((None, ?d), ?g\<lparr>fl_reads := ys, fl_pos := off + length ?d\<rparr>)"
    using aim g by (simp only: file_read_def fd_read_def answer_def Let_def) (simp del: length_take length_drop)
  moreover have "?d \<noteq> []" using assms(3,4) y by simp
  moreover have "disk_ok n (?g\<lparr>fl_reads := ys, fl_pos := off + length ?d\<rparr>)"
    using assms(1) x y by (auto simp: disk_ok_def moves_ok_def)
  ultimately show ?thesis by (rule that)
qed

text \<open>The offsets of a range that can be sought: \<open>File::seek\<close> fails at one congruent to \<open>2 ^ 32 - 1\<close>.\<close>

definition seekable :: "range_sel \<Rightarrow> bool" where
  "seekable s \<longleftrightarrow> (\<forall>k < unat (sel_length s). \<not> seek_lost (unat (sel_start s) + k))"

lemma seekableD: "seekable s \<Longrightarrow> k < unat (sel_length s) \<Longrightarrow> \<not> seek_lost (unat (sel_start s) + k)"
  by (simp add: seekable_def)

lemma seekable_below: "unat (sel_start s) + unat (sel_length s) < 2 ^ 32 \<Longrightarrow> seekable s"
  unfolding seekable_def by (intro allI impI seek_lost_small) linarith

section \<open>Progress\<close>

lemma net_ok_mono: "net_ok n c \<Longrightarrow> m \<le> n \<Longrightarrow> net_ok m c"
  by (auto simp: net_ok_def)

lemma disk_ok_mono: "disk_ok n f \<Longrightarrow> m \<le> n \<Longrightarrow> disk_ok m f"
  by (auto simp: disk_ok_def)

lemma readable_pos: "rs_fileSended r < rs_fileSendLength r \<Longrightarrow> 0 < readable_size r"
  by (auto simp: readable_size_def Let_def unat_gt_0)

lemma contents_send_good:
  assumes "moves_ok (sk_sends c)" "length fbuf \<le> length (sk_sends c)" "\<not> sk_stop c" "fbuf \<noteq> []" "cl_clock c = t # ts"
  obtains xs where "contents_send fbuf c = (Some (DFW_T_CONTINUE, 0),
      c\<lparr>sk_sends := xs, sk_sent := sk_sent c @ fbuf, cl_resp := note_sent fbuf (length fbuf) (cl_resp c), cl_clock := ts, cl_ssTime := t\<rparr>)"
    "moves_ok xs" "length (sk_sends c) - length fbuf \<le> length xs"
proof -
  from send_loop_good[OF assms(1-3), of False 0] obtain xs where
    xs: "send_raw False fbuf c = (None, length fbuf, c\<lparr>sk_sends := xs, sk_sent := sk_sent c @ fbuf\<rparr>)"
      "moves_ok xs" "length (sk_sends c) - length fbuf \<le> length xs"
    by (auto simp: send_raw_def)
  with assms(5) show ?thesis by (intro that[of xs]) (auto simp: contents_send_def on_resp_def currentTimeMillis_def)
qed

lemma contents_progress:
  assumes body: "body_state dat base s c" and st: "rs_fileStatus (cl_resp c) = 2" "\<not> is_head c" "rs_bufferLen (cl_resp c) = 0"
    and ev: "quiet_mods ev" "ev_mods ev = Some ms"
    and n: "n = unat (sel_length s) - unat (rs_fileSended (cl_resp c))" "0 < n"
    and ok: "net_ok n c" "cl_file c = Some f" "disk_ok n f" "cl_clock c = t # ts"
    and dat: "unat (sel_start s) + unat (sel_length s) \<le> length dat" "seekable s"
  obtains k c1 f1 where "send_contents ev c = (Some (DFW_T_CONTINUE, 0), c1)" "0 < k" "k \<le> n" "net_ok (n - k) c1"
    "cl_file c1 = Some f1" "disk_ok (n - k) f1" "rs_bufferLen (cl_resp c1) = 0"
    "unat (sel_length s) - unat (rs_fileSended (cl_resp c1)) = n - k" "cl_clock c1 = ts" "cl_ssTime c1 = t"
    "rs_fileStatus (cl_resp c1) = (if n = k then 3 else 2)"
proof -
  let ?r = "cl_resp c" and ?c0 = "c\<lparr>sk_polls := tl (sk_polls c)\<rparr>"
  have cnt: "counts_ok s ?r" using body by (simp add: body_state_def Let_def)
  from body ok(2) have f: "fl_data f = dat" "file_at (unat (rs_fileOffset ?r)) f" by (auto simp: body_state_def file_ok_def Let_def)
  have off: "unat (rs_fileOffset ?r) = unat (sel_start s) + unat (rs_fileSended ?r)"
    using cnt st(3) by (auto simp: counts_ok_def resp_start_def)
  have lt: "rs_fileSended ?r < rs_fileSendLength ?r" using n cnt by (auto simp: counts_ok_def word_less_nat_alt)
  have "sk_polls c \<noteq> []" using ok(1) n(2) by (auto simp: net_ok_def)
  with ok(1) have w: "wait_send c = (None, ?c0)" by (intro wait_good) (simp_all add: net_ok_def)
  have dk: "disk_ok (Suc (n - 1)) f" using ok(3) n(2) by simp
  have sk: "\<not> seek_lost (unat (rs_fileOffset ?r))" using dat(2) n unfolding off by (intro seekableD) simp_all
  from file_read_good[OF dk f(2) readable_pos[OF lt] _ sk] off dat(1) n f(1) obtain d f1 where
    d: "file_read (readable_size ?r) (unat (rs_fileOffset ?r)) f = ((None, d), f1)" "d \<noteq> []" "disk_ok (n - 1) f1"
    by auto
  let ?c1 = "on_resp (\<lambda>r. r\<lparr>rs_bufferLen := length d, rs_fileOffset := rs_fileOffset r + word_of_nat (length d)\<rparr>) (?c0\<lparr>cl_file := Some f1\<rparr>)"
  have fill: "contents_fill ev ?c0 = (None, d, ?c1)"
    using d(1,2) st(3) ok(2) ev mods_read_quiet[of ms] by (simp add: contents_fill_def quiet_mods_def Let_def)
  have "length d \<le> readable_size ?r" using file_read_spec(3)[OF d(1) f(2)] .
  also have "\<dots> \<le> n" using readable_le[of ?r] cnt n(1) by (auto simp: counts_ok_def)
  finally have k: "0 < length d" "length d \<le> n" using d(2) by auto
  have "moves_ok (sk_sends ?c1)" "length d \<le> length (sk_sends ?c1)" "\<not> sk_stop ?c1" "cl_clock ?c1 = t # ts"
    using ok k by (auto simp: net_ok_def)
  from contents_send_good[OF this(1-3) d(2) this(4)] obtain xs where
    xs: "contents_send d ?c1 = (Some (DFW_T_CONTINUE, 0), ?c1\<lparr>sk_sends := xs, sk_sent := sk_sent ?c1 @ d,
        cl_resp := note_sent d (length d) (cl_resp ?c1), cl_clock := ts, cl_ssTime := t\<rparr>)"
      "moves_ok xs" "length (sk_sends ?c1) - length d \<le> length xs" by blast
  let ?c2 = "?c1\<lparr>sk_sends := xs, sk_sent := sk_sent ?c1 @ d, cl_resp := note_sent d (length d) (cl_resp ?c1), cl_clock := ts, cl_ssTime := t\<rparr>"
  have snd: "send_contents ev c = (Some (DFW_T_CONTINUE, 0), ?c2)"
    using w fill xs(1) st(2) by (simp add: send_contents_def is_head_def)
  have pol: "polls_ok (tl (sk_polls c))" "n - 1 \<le> length (tl (sk_polls c))" using ok(1)
    by (cases "sk_polls c"; auto simp: net_ok_def polls_ok_def)+
  have pl: "n - length d \<le> length (tl (sk_polls c))" using pol(2) k by linarith
  have net: "net_ok (n - length d) ?c2" using ok(1) pol(1) pl xs(2,3) k by (auto simp: net_ok_def simp del: length_tl)
  have sd: "unat (rs_fileSended (cl_resp ?c2)) = unat (rs_fileSended ?r) + length d"
    using k n cnt by (auto simp: note_sent_def Let_def counts_ok_def intro!: unat_plus_nat)
  have r2: "rs_bufferLen (cl_resp ?c2) = 0" "rs_fileSendLength (cl_resp ?c2) = sel_length s"
      "rs_fileStatus (cl_resp ?c2) = (if rs_fileSended (cl_resp ?c2) < rs_fileSendLength (cl_resp ?c2) then 2 else 3)"
    using st cnt k by (auto simp: note_sent_def counts_ok_def Let_def)
  have stat: "rs_fileStatus (cl_resp ?c2) = (if n = length d then 3 else 2)"
    using r2(2,3) sd n k by (auto simp: word_less_nat_alt)
  have "disk_ok (n - length d) f1" by (rule disk_ok_mono[OF d(3)]) (use k in linarith)
  from that[OF snd k net _ this r2(1) _ _ _ stat] sd n show ?thesis by simp
qed

text \<open>The last round, when everything has been handed to the system.\<close>

lemma final_round:
  assumes "rs_fileStatus (cl_resp c) = 3" "\<not> cl_stop c" "sk_lefts c = SysRet 0 # xs" "cl_clock c = t # ts" "clock_ok (cl_ssTime c) (t # ts)"
  shows "\<exists>c'. send_file_loop ev c = Some (None, c')"
  using assms
  by (subst send_file_loop.simps)
    (simp add: currentTimeMillis_def clock_ok_def sendLocalFile_def send_wait_acks_def getSendBufferLeftSize_def
      answer_def goes_on_def not_less)

lemma body_completes:
  "body_state dat base s c \<Longrightarrow> rs_fileStatus (cl_resp c) = 2 \<Longrightarrow> \<not> is_head c \<Longrightarrow> rs_bufferLen (cl_resp c) = 0 \<Longrightarrow>
   n = unat (sel_length s) - unat (rs_fileSended (cl_resp c)) \<Longrightarrow> 0 < n \<Longrightarrow>
   net_ok n c \<Longrightarrow> cl_file c = Some f \<Longrightarrow> disk_ok n f \<Longrightarrow> clock_ok (cl_ssTime c) (cl_clock c) \<Longrightarrow> 2 * n + 1 \<le> length (cl_clock c) \<Longrightarrow>
   quiet_mods ev \<Longrightarrow> ev_mods ev = Some ms \<Longrightarrow> unat (sel_start s) + unat (sel_length s) \<le> length dat \<Longrightarrow> seekable s \<Longrightarrow>
   \<exists>c'. send_file_loop ev c = Some (None, c')"
proof (induction n arbitrary: c f rule: less_induct)
  case (less n)
  obtain t1 t2 t3 ts where ts: "cl_clock c = t1 # t2 # t3 # ts"
    using less.prems(6,11) by (cases "cl_clock c"; cases "tl (cl_clock c)"; cases "tl (tl (cl_clock c))") auto
  let ?c = "c\<lparr>cl_clock := t2 # t3 # ts\<rparr>"
  have b: "body_state dat base s ?c" "\<not> is_head ?c" "net_ok n ?c"
    using less.prems by (simp_all add: body_state_def file_ok_def is_head_def net_ok_def Let_def)
  have clk: "t1 - cl_ssTime c \<le> 7200000" "clock_ok t2 (t3 # ts)" using less.prems(10) ts by (simp_all add: clock_ok_def)
  have e: "rs_fileStatus (cl_resp ?c) = 2" "rs_bufferLen (cl_resp ?c) = 0" "cl_file ?c = Some f" "cl_clock ?c = t2 # t3 # ts"
    "n = unat (sel_length s) - unat (rs_fileSended (cl_resp ?c))" using less.prems by simp_all
  from contents_progress[OF b(1) e(1) b(2) e(2) less.prems(12,13) e(5) less.prems(6) b(3) e(3) less.prems(9) e(4) less.prems(14,15)]
  obtain k c1 f1 where c1: "send_contents ev ?c = (Some (DFW_T_CONTINUE, 0), c1)" "0 < k" "k \<le> n" "net_ok (n - k) c1"
    "cl_file c1 = Some f1" "disk_ok (n - k) f1" "rs_bufferLen (cl_resp c1) = 0"
    "unat (sel_length s) - unat (rs_fileSended (cl_resp c1)) = n - k" "cl_clock c1 = t3 # ts" "cl_ssTime c1 = t2"
    "rs_fileStatus (cl_resp c1) = (if n = k then 3 else 2)" .
  have "\<not> t1 - cl_ssTime c > 7200000" using clk(1) by (simp only: not_less)
  then have step: "send_file_loop ev c = send_file_loop ev c1"
    using ts c1(1) less.prems(2,7)
    by (subst send_file_loop.simps) (simp add: currentTimeMillis_def sendLocalFile_def net_ok_def)
  show ?case
  proof (cases "n = k")
    case True
    with final_round[of c1] c1 clk(2) step show ?thesis by (auto simp: net_ok_def)
  next
    case False
    from send_contents_inv(1,2)[OF c1(1) b(1) less.prems(12)] less.prems(2) have
      i: "transfer_inv dat base s c1" "is_head c1 = is_head ?c" by auto
    have "body_state dat base s c1" using i(1) c1(11) False by (simp add: transfer_inv_def Let_def)
    moreover have "rs_fileStatus (cl_resp c1) = 2" "\<not> is_head c1" "n - k = unat (sel_length s) - unat (rs_fileSended (cl_resp c1))"
      "clock_ok (cl_ssTime c1) (cl_clock c1)" "2 * (n - k) + 1 \<le> length (cl_clock c1)" "0 < n - k" "n - k < n"
      using less.prems(11) ts c1 False clk(2) i(2) b(2) by simp_all
    ultimately have "\<exists>c'. send_file_loop ev c1 = Some (None, c')"
      using less.IH[of "n - k" c1 f1] less.prems(12-) c1(4-7) by blast
    with step show ?thesis by simp
  qed
qed

section \<open>The head, in one go\<close>

text \<open>The response as it goes out, for the range \<open>s\<close>.\<close>

definition prepared :: "env \<Rightarrow> range_sel \<Rightarrow> client \<Rightarrow> response option" where
  "prepared ev s c =
     do { m \<leftarrow> getDateStringRfc822 (ev_localtime ev) (ev_now ev) (rs_fileMTime (cl_resp c));
          a \<leftarrow> ready_headers ev m s (cl_req c) ((cl_resp c)\<lparr>rs_fileContentType := ev_ctype ev, rs_fileSize := sel_size s\<rparr>);
          if fst a \<noteq> None then None
          else resp_makeStream (ev_localtime ev) (ev_now ev)
                 ((snd a)\<lparr>rs_body := [], rs_bufferLen := 0, rs_fileSendLength := sel_length s,
                           rs_fileOffset := sel_start s, rs_fileSended := 0\<rparr>) }"

lemma sendStream_good:
  assumes "net_ok (Suc (length (rs_stream (cl_resp c)) + n)) c" "rs_streamSended (cl_resp c) = 0"
  shows "\<exists>c' a b u k t. sendStream c = (None, True, c') \<and> net_ok n c' \<and>
    c' = c\<lparr>sk_polls := a, sk_sends := b, sk_sent := t, cl_resp := (cl_resp c)\<lparr>rs_sendedSize := u, rs_streamSended := k\<rparr>\<rparr>"
proof (cases "rs_stream (cl_resp c) = []")
  case True
  with assms have "sendStream c = (None, True, c)" "net_ok n c"
    by (simp_all add: sendStream_def stream_done_def net_ok_mono)
  then show ?thesis
    by (intro exI[of _ c] exI[of _ "sk_polls c"] exI[of _ "sk_sends c"] exI[of _ "rs_sendedSize (cl_resp c)"]
        exI[of _ "rs_streamSended (cl_resp c)"] exI[of _ "sk_sent c"]) simp
next
  case False
  let ?d = "rs_stream (cl_resp c)" and ?c = "c\<lparr>sk_polls := tl (sk_polls c)\<rparr>"
  have "sk_polls c \<noteq> []" using assms(1) by (auto simp: net_ok_def)
  with assms(1) have w: "wait_send c = (None, ?c)" by (intro wait_good) (simp_all add: net_ok_def)
  have "moves_ok (sk_sends ?c)" "length ?d \<le> length (sk_sends ?c)" "\<not> sk_stop ?c" using assms(1) by (auto simp: net_ok_def)
  from send_loop_good[OF this, of False 0] obtain xs where
    xs: "send_loop False ?d 0 ?c = (None, length ?d, ?c\<lparr>sk_sends := xs, sk_sent := sk_sent ?c @ ?d\<rparr>)" "moves_ok xs"
      "length (sk_sends c) - length ?d \<le> length xs" by auto
  let ?c' = "?c\<lparr>sk_sends := xs, sk_sent := sk_sent c @ ?d,
    cl_resp := (cl_resp c)\<lparr>rs_sendedSize := rs_sendedSize (cl_resp c) + word_of_nat (length ?d), rs_streamSended := length ?d\<rparr>\<rparr>"
  have "sendStream c = (None, True, ?c')"
    using False w xs(1) assms(2) by (simp add: sendStream_def stream_done_def send_raw_def on_resp_def Let_def)
  moreover have "n \<le> length (tl (sk_polls c))" "polls_ok (tl (sk_polls c))" "n \<le> length xs"
    using assms(1) xs(3) by (cases "sk_polls c"; auto simp: net_ok_def polls_ok_def)+
  then have "net_ok n ?c'" using assms(1) xs(2) by (auto simp: net_ok_def)
  ultimately show ?thesis
    by (intro exI[of _ ?c'] exI[of _ "tl (sk_polls c)"] exI[of _ xs]
        exI[of _ "rs_sendedSize (cl_resp c) + word_of_nat (length ?d)"] exI[of _ "length ?d"] exI[of _ "sk_sent c @ ?d"]) simp
qed

lemma first_round:
  assumes pre: "prepared ev s c = Some r" "rs_fileStatus (cl_resp c) = 0" "range_check s"
    and ev: "ev_mods ev = Some ms" "mods_open ms (rq_file (cl_req c)) = None" "fst (ev_open ev) = None"
    and rng: "requested_range ev c = Some (Inr s)"
    and net: "net_ok (Suc (length (rs_stream r) + n)) c"
  obtains c1 where "sendLocalFile ev c = Some (Some (DFW_T_CONTINUE, 0), c1)" "rs_fileStatus (cl_resp c1) = 2"
    "net_ok n c1" "cl_file c1 = Some (snd (ev_open ev))" "rs_bufferLen (cl_resp c1) = 0" "rs_fileSended (cl_resp c1) = 0"
    "cl_clock c1 = cl_clock c" "cl_ssTime c1 = cl_ssTime c" "settings c1 = settings c"
proof -
  let ?o = "opened ev c"
  let ?R = "(cl_resp c)\<lparr>rs_fileContentType := ev_ctype ev, rs_fileSize := sel_size s\<rparr>"
  from pre(1) obtain m r1 where m: "getDateStringRfc822 (ev_localtime ev) (ev_now ev) (rs_fileMTime (cl_resp c)) = Some m"
    and h: "ready_headers ev m s (cl_req c) ?R = Some (None, r1)"
    and r: "resp_makeStream (ev_localtime ev) (ev_now ev)
       (r1\<lparr>rs_body := [], rs_bufferLen := 0, rs_fileSendLength := sel_length s, rs_fileOffset := sel_start s, rs_fileSended := 0\<rparr>) = Some r"
    by (auto simp: prepared_def bind_eq_Some_conv simp del: not_None_eq split: if_split_asm)
  have q: "requested_range ev ?o = Some (Inr s)" using requested_range_cong[of ?o c ev] rng by (simp add: opened_def)
  let ?c = "?o\<lparr>cl_resp := r\<rparr>"
  have "net_ok (Suc (length (rs_stream (cl_resp ?c)) + n)) ?c" using net by (simp add: net_ok_def opened_def on_resp_def)
  moreover have "rs_streamSended (cl_resp ?c) = 0" using makeStream_facts(2)[OF r] by simp
  ultimately obtain c2 a b u k t where c2: "sendStream ?c = (None, True, c2)" "net_ok n c2"
    "c2 = ?c\<lparr>sk_polls := a, sk_sends := b, sk_sent := t, cl_resp := (cl_resp ?c)\<lparr>rs_sendedSize := u, rs_streamSended := k\<rparr>\<rparr>"
    using sendStream_good[of ?c n] by blast
  let ?c1 = "on_resp (\<lambda>r. r\<lparr>rs_fileStatus := 2\<rparr>) c2"
  have "ready_send ev m s ?o = Some (None, ?c1)"
    using pre(3) h r c2(1) by (simp add: ready_send_def ready_head_def client_makeStream_def on_resp_def opened_def Let_def)
  then have "sendLocalFile_ready ev c = Some (None, ?c1)"
    using ev m q by (simp add: sendLocalFile_ready_def)
  then have "sendLocalFile ev c = Some (Some (DFW_T_CONTINUE, 0), ?c1)"
    using net pre(2) by (simp add: sendLocalFile_def net_ok_def)
  moreover have "net_ok n ?c1" using c2(2) by (simp add: net_ok_def)
  ultimately show ?thesis
    using makeStream_facts(6,7)[OF r] c2(3) by (intro that[of ?c1]) (simp_all add: opened_def settings_def)
qed

section \<open>Answers\<close>

text \<open>A found file: the answer starts with nothing sent and an empty header list.\<close>

lemma sendResponse_found:
  assumes "se_checkLocalFile (ev_localtime ev) (ev_now ev) (ev_getattr ev) (cl_req c) (cl_resp c) = Some (None, out, q, r)"
    and "cl_clock c = t # ts"
  shows "sendResponse ev c = send_file_loop ev (c\<lparr>cl_req := q, cl_resp := r, cl_clock := ts, cl_ssTime := t\<rparr>)"
  using assms by (simp add: sendResponse_def currentTimeMillis_def)

lemma found_start:
  assumes found: "se_checkLocalFile lt now ga (cl_req c) (cl_resp c) = Some (None, out, q, r)"
    and "\<not> cl_resizeable c" "rs_list (cl_resp c) = arr_init" "requested_range ev (c\<lparr>cl_req := q, cl_resp := r\<rparr>) = Some (Inr s)"
  shows "transfer_inv dat (sk_sent c) s (c\<lparr>cl_req := q, cl_resp := r\<rparr>)" "asks ev s (c\<lparr>cl_req := q, cl_resp := r\<rparr>)"
    "is_head (c\<lparr>cl_req := q, cl_resp := r\<rparr>) = is_head c"
  using check_found[OF found] assms(2-4) by (simp_all add: transfer_inv_def list_ok_def asks_def is_head_def)

lemma send_file_answer:
  assumes "send_file_loop ev c1 = Some (e, c')" "transfer_inv dat base s c1" "asks ev s c1" "serves ev dat" "is_head c1 = hm"
  shows "prefix (sk_sent c') (base @ resp_head (cl_resp c') @ (if hm then [] else file_range dat s))"
    "e = None \<Longrightarrow> sk_sent c' = base @ resp_head (cl_resp c') @ (if hm then [] else file_range dat s) \<and>
       header_find (rs_list (cl_resp c')) ''Content-Length'' = Some (show_nat (unat (sel_length s))) \<and>
       (\<not> hm \<longrightarrow> length (file_range dat s) = unat (sel_length s))"
proof -
  from send_file_loop_inv[OF assms(1,2,4,3)] have
    e: "transfer_inv dat base s c'" "e = None \<Longrightarrow> rs_fileStatus (cl_resp c') = 3" "settings c' = settings c1" by auto
  have hd: "is_head c' = hm" using settings_is_head[OF e(3)] assms(5) by simp
  show "prefix (sk_sent c') (base @ resp_head (cl_resp c') @ (if hm then [] else file_range dat s))"
    by (rule transfer_inv_prefix[OF e(1) hd])
  show "e = None \<Longrightarrow> sk_sent c' = base @ resp_head (cl_resp c') @ (if hm then [] else file_range dat s) \<and>
       header_find (rs_list (cl_resp c')) ''Content-Length'' = Some (show_nat (unat (sel_length s))) \<and>
       (\<not> hm \<longrightarrow> length (file_range dat s) = unat (sel_length s))"
    using e(1,2) hd by (auto simp: transfer_inv_def sent_state_def head_facts_def Let_def)
qed

lemma loop_step:
  assumes "cl_clock c = t # ts" "t - cl_ssTime c \<le> 7200000" "\<not> cl_stop c"
    and "sendLocalFile ev (c\<lparr>cl_clock := ts\<rparr>) = Some (Some (DFW_T_CONTINUE, 0), c1)"
  shows "send_file_loop ev c = send_file_loop ev c1"
proof -
  have "\<not> t - cl_ssTime c > 7200000" using assms(2) by (simp only: not_less)
  then show ?thesis using assms by (subst send_file_loop.simps) (simp add: currentTimeMillis_def)
qed

lemma transfer_runs:
  assumes start: "transfer_inv dat base s c" "asks ev s c" "serves ev dat" "rs_fileStatus (cl_resp c) = 0"
    and ev: "ev_mods ev = Some ms" "mods_open ms (rq_file (cl_req c)) = None" "fst (ev_open ev) = None"
    and sel: "range_check s" "unat (sel_start s) + unat (sel_length s) \<le> length dat" "seekable s"
    and pre: "prepared ev s c = Some r"
    and net: "net_ok (Suc (length (rs_stream r) + unat (sel_length s))) c"
    and disk: "disk_ok (unat (sel_length s)) (snd (ev_open ev))"
    and clk: "clock_ok (cl_ssTime c) (cl_clock c)" "2 * unat (sel_length s) + 3 \<le> length (cl_clock c)"
  shows "\<exists>c'. send_file_loop ev c = Some (None, c')"
proof -
  obtain t1 t2 t3 ts where ts: "cl_clock c = t1 # t2 # t3 # ts"
    using clk(2) by (cases "cl_clock c"; cases "tl (cl_clock c)"; cases "tl (tl (cl_clock c))") auto
  let ?c = "c\<lparr>cl_clock := t2 # t3 # ts\<rparr>"
  have rng: "requested_range ev ?c = Some (Inr s)" "\<not> cl_resizeable ?c"
    using start(2,4) requested_range_cong[of ?c c ev] by (auto simp: asks_def)
  have "prepared ev s ?c = Some r" "net_ok (Suc (length (rs_stream r) + unat (sel_length s))) ?c"
    using pre net by (simp_all add: prepared_def net_ok_def)
  from first_round[OF this(1) _ sel(1) ev(1) _ ev(3) rng(1) this(2)] start(4) ev(2) obtain c1 where
    c1: "sendLocalFile ev ?c = Some (Some (DFW_T_CONTINUE, 0), c1)" "rs_fileStatus (cl_resp c1) = 2"
    "net_ok (unat (sel_length s)) c1" "cl_file c1 = Some (snd (ev_open ev))" "rs_bufferLen (cl_resp c1) = 0" "rs_fileSended (cl_resp c1) = 0"
    "cl_clock c1 = t2 # t3 # ts" "cl_ssTime c1 = cl_ssTime c" "settings c1 = settings ?c" by auto
  have k: "t1 - cl_ssTime c \<le> 7200000" "t2 - cl_ssTime c \<le> 7200000" "clock_ok (cl_ssTime c) (t2 # t3 # ts)" "clock_ok (cl_ssTime c) (t3 # ts)"
    using clk(1) ts by (simp_all add: clock_ok_def)
  have one: "send_file_loop ev c = send_file_loop ev c1"
    using loop_step[OF ts k(1) _ c1(1)] net by (simp add: net_ok_def)
  have "transfer_inv dat base s c1" using sendLocalFile_inv(1)[OF c1(1)] start(1,2,3) by simp
  then have body: "body_state dat base s c1" using c1(2) by (simp add: transfer_inv_def Let_def)
  have live: "\<not> cl_stop c1" "\<exists>xs. sk_lefts c1 = SysRet 0 # xs" using c1(3) by (auto simp: net_ok_def)
  show ?thesis
  proof (cases "is_head c1")
    case True
    let ?c2 = "on_resp (\<lambda>r. r\<lparr>rs_fileStatus := 3\<rparr>) (c1\<lparr>cl_clock := t3 # ts\<rparr>)"
    have "sendLocalFile ev (c1\<lparr>cl_clock := t3 # ts\<rparr>) = Some (Some (DFW_T_CONTINUE, 0), ?c2)"
      using True live(1) c1(2) by (simp add: sendLocalFile_def send_contents_def is_head_def)
    from loop_step[OF c1(7) _ live(1) this] k(2) c1(8) have "send_file_loop ev c1 = send_file_loop ev ?c2" by simp
    moreover have "\<exists>c'. send_file_loop ev ?c2 = Some (None, c')"
      using live k(4) c1(8) by (auto intro!: final_round)
    ultimately show ?thesis using one by simp
  next
    case False
    have n: "0 < unat (sel_length s)" "unat (sel_length s) = unat (sel_length s) - unat (rs_fileSended (cl_resp c1))"
      using requested_range_in_file(2)[OF rng sel(1)] c1(6) by simp_all
    have "clock_ok (cl_ssTime c1) (cl_clock c1)" "2 * unat (sel_length s) + 1 \<le> length (cl_clock c1)"
      using k(3) c1(7,8) clk(2) ts by simp_all
    from body_completes[OF body c1(2) False c1(5) n(2,1) c1(3,4) disk this _ ev(1) sel(2,3)] start(3) one show ?thesis
      by (simp add: serves_def)
  qed
qed

section \<open>An example\<close>

definition demo_tm :: tm where
  "demo_tm = \<lparr>tm_sec = 5, tm_min = 4, tm_hour = 3, tm_mday = 1, tm_mon = 0, tm_year = 100, tm_wday = 6, tm_yday = 0,
     tm_isdst = 0, tm_gmtoff = 0, tm_zone = ''GMT''\<rparr>"

definition demo_env :: "string \<Rightarrow> env" where
  "demo_env d =
     \<lparr>ev_localtime = (\<lambda>t. demo_tm), ev_now = 1, ev_mods = Some [],
      ev_getattr = (None, \<lparr>st_mode = S_IFREG, st_size = int (length d), st_mtime = 1\<rparr>),
      ev_open = (None, \<lparr>fl_data = d, fl_pos = 0, fl_offset = 0, fl_timeout = 0, fl_errno = [], fl_polls = [],
        fl_seeks = replicate (length d) (SysRet 0), fl_reads = replicate (length d) (SysRet 2), fl_writes = []\<rparr>),
      ev_ctype = ''text/plain''\<rparr>"

definition demo_resp :: response where
  "demo_resp =
     \<lparr>rs_list = arr_init, rs_status = 0, rs_sendedSize = 0, rs_body = [], rs_bKeepAlive = False, rs_date = [],
      rs_server = [], rs_lastModified = [], rs_eTag = [], rs_keepAlive = [], rs_connection = [], rs_contentType = [],
      rs_fileStatus = 0, rs_fileSize = 0, rs_fileMTime = 0, rs_fileETag = [], rs_fileContentType = [], rs_buffer = [],
      rs_bufferLen = 0, rs_fileSendLength = 0, rs_fileOffset = 0, rs_fileSended = 0, rs_stream = [], rs_streamSended = 0\<rparr>"

text \<open>A client with \<open>n\<close> answers of the socket, and the request \<open>q\<close>.\<close>

definition demo_client :: "nat \<Rightarrow> request \<Rightarrow> client" where
  "demo_client n q =
     \<lparr>sk_stop = False, sk_timeout = 1000, sk_polls = replicate n (SysRet 4), sk_sends = replicate n (SysRet 3), sk_recvs = [],
      sk_lefts = [SysRet 0], sk_sent = [], sk_in = [], cl_stop = False, cl_resizeable = False, cl_req = q,
      cl_resp = demo_resp, cl_file = None, cl_ssTime = 0, cl_clock = replicate 20 0\<rparr>"

lemma demo_found:
  "rq_ifModifiedSince q = [] \<Longrightarrow> rq_ifRange q = [] \<Longrightarrow>
   se_checkLocalFile (ev_localtime (demo_env d)) (ev_now (demo_env d)) (ev_getattr (demo_env d)) (cl_req (demo_client n q))
     (cl_resp (demo_client n q)) =
   Some (None, 0, q, demo_resp\<lparr>rs_fileSize := word_of_nat (length d), rs_fileMTime := 1,
     rs_fileETag := file_etag \<lparr>st_mode = S_IFREG, st_size = int (length d), st_mtime = 1\<rparr>\<rparr>)"
  by (simp add: se_checkLocalFile_def demo_env_def demo_client_def checkModified_def demo_resp_def)

lemma demo_serves: "serves (demo_env d) d"
  by (simp add: serves_def quiet_mods_def demo_env_def)

lemma demo_date: "getDateStringRfc822 (\<lambda>t. demo_tm) now t \<noteq> None"
  by (simp add: getDateStringRfc822_def time_local_def time_fields_def demo_tm_def table_def WEEK_DAYS_def SHORT_MONTHS_def Let_def)

lemma prepared_defined:
  assumes "list_ok 8 (cl_resp c)" "NUL \<notin> set (sel_content s)" "NUL \<notin> set (ev_ctype ev)" "NUL \<notin> set (rs_fileETag (cl_resp c))"
    and "\<And>t. getDateStringRfc822 (ev_localtime ev) (ev_now ev) t \<noteq> None"
  obtains r where "prepared ev s c = Some r"
proof -
  obtain m where m: "getDateStringRfc822 (ev_localtime ev) (ev_now ev) (rs_fileMTime (cl_resp c)) = Some m" using assms(5) by blast
  let ?r = "(cl_resp c)\<lparr>rs_fileContentType := ev_ctype ev, rs_fileSize := sel_size s\<rparr>"
  from ready_headers_ok[of ?r m s ev "cl_req c"] assms(1-4) getDateString_nul[OF m] obtain r' where
    h: "ready_headers ev m s (cl_req c) ?r = Some (None, r')" by (auto simp: list_ok_def)
  have "\<exists>r. resp_makeStream (ev_localtime ev) (ev_now ev) r1 = Some r" for r1
    using assms(5)[of "ev_now ev"] by (auto simp: resp_makeStream_def resp_defaults_def Let_def)
  with m h that show ?thesis by (auto simp: prepared_def)
qed

definition demo_request :: "string \<Rightarrow> request" where
  "demo_request m = request_new\<lparr>rq_method := m, rq_file := ''/a''\<rparr>"

lemma demo_request_whole:
  "cl_req c = demo_request m \<Longrightarrow>
   requested_range ev c = Some (Inr \<lparr>sel_status = 200, sel_start = 0, sel_end = rs_fileSize (cl_resp c) - 1,
     sel_length = rs_fileSize (cl_resp c), sel_size = rs_fileSize (cl_resp c), sel_content = []\<rparr>)"
proof -
  assume c: "cl_req c = demo_request m"
  have g: "getHeader (chars k) arr_init = Some None" if "NUL \<notin> set k" for k
    using getHeader_find[of arr_init k] that by simp
  show ?thesis using c
    by (simp add: requested_range_def checkRangeBytes_def demo_request_def request_new_def g range_select_def range_vars_new_def
        del: chars_simps)
qed

section \<open>Properties\<close>

text \<open>C10. What a client receives when a local file is found and its range chosen: at every moment, whatever the
  socket and the file did, a prefix of the head followed by the bytes of the range (none for \<open>HEAD\<close>); and when the server reports
  success, all of it, with a \<open>Content-Length\<close> that is the length of the range.\<close>

theorem response_is_head_and_range:
  assumes "se_checkLocalFile (ev_localtime ev) (ev_now ev) (ev_getattr ev) (cl_req c) (cl_resp c) = Some (None, out, q, r)"
    and "serves ev dat" "\<not> cl_resizeable c" "rs_list (cl_resp c) = arr_init"
    and "requested_range ev (c\<lparr>cl_req := q, cl_resp := r\<rparr>) = Some (Inr s)"
    and "sendResponse ev c = Some (e, c')"
  shows "prefix (sk_sent c') (sk_sent c @ resp_head (cl_resp c') @ (if is_head c then [] else file_range dat s)) \<and>
    (e = None \<longrightarrow>
       sk_sent c' = sk_sent c @ resp_head (cl_resp c') @ (if is_head c then [] else file_range dat s) \<and>
       header_find (rs_list (cl_resp c')) ''Content-Length'' = Some (show_nat (unat (sel_length s))) \<and>
       (\<not> is_head c \<longrightarrow> length (file_range dat s) = unat (sel_length s)))"
proof -
  let ?c = "c\<lparr>cl_req := q, cl_resp := r\<rparr>"
  note S = found_start[OF assms(1,3,4,5)]
  obtain t c1 where t: "currentTimeMillis ?c = (t, c1)" by fastforce
  then have "\<exists>ts. c1 = ?c\<lparr>cl_clock := ts\<rparr>"
    by (auto simp: currentTimeMillis_def split: list.split_asm intro: exI[of _ "cl_clock c"])
  then obtain ts where c1: "c1 = ?c\<lparr>cl_clock := ts\<rparr>" by blast
  have run: "send_file_loop ev (c1\<lparr>cl_ssTime := t\<rparr>) = Some (e, c')"
    using assms(1,6) t by (simp add: sendResponse_def)
  have "transfer_inv dat (sk_sent c) s (c1\<lparr>cl_ssTime := t\<rparr>)" "asks ev s (c1\<lparr>cl_ssTime := t\<rparr>)"
    "is_head (c1\<lparr>cl_ssTime := t\<rparr>) = is_head c" using S c1 by (simp_all add: is_head_def)
  from send_file_answer[OF run this(1,2) assms(2) this(3)] show ?thesis by blast
qed

text \<open>C11. A transfer that the system lets go on ends, and with success: the file found, opened and long enough, the range inside it
  and without an offset congruent to \<open>2 ^ 32 - 1\<close> (at which \<open>File::seek\<close> takes its success for an error), every \<open>poll\<close> finding the socket writable, every \<open>send\<close> and \<open>read\<close> moving a byte at least, and the clock
  not running ahead two hours, \<open>sendResponse\<close> returns after at most as many calls as the answer has bytes.\<close>

theorem transfer_completes:
  assumes "se_checkLocalFile (ev_localtime ev) (ev_now ev) (ev_getattr ev) (cl_req c) (cl_resp c) = Some (None, out, q, r)"
    and "serves ev dat" "\<not> cl_resizeable c" "rs_list (cl_resp c) = arr_init"
    and "requested_range ev (c\<lparr>cl_req := q, cl_resp := r\<rparr>) = Some (Inr s)" "range_check s"
    and "unat (sel_start s) + unat (sel_length s) \<le> length dat" "seekable s"
    and "ev_mods ev = Some ms" "mods_open ms (rq_file q) = None" "fst (ev_open ev) = None"
    and "prepared ev s (c\<lparr>cl_req := q, cl_resp := r\<rparr>) = Some r1"
    and "net_ok (Suc (length (rs_stream r1) + unat (sel_length s))) c"
    and "disk_ok (unat (sel_length s)) (snd (ev_open ev))"
    and "cl_clock c = t # ts" "clock_ok t ts" "2 * unat (sel_length s) + 3 \<le> length ts"
  shows "\<exists>c'. sendResponse ev c = Some (None, c') \<and>
    sk_sent c' = sk_sent c @ resp_head (cl_resp c') @ (if is_head c then [] else file_range dat s)"
proof -
  let ?c = "c\<lparr>cl_req := q, cl_resp := r\<rparr>" and ?c1 = "c\<lparr>cl_req := q, cl_resp := r, cl_clock := ts, cl_ssTime := t\<rparr>"
  note S = found_start[OF assms(1,3,4,5)]
  have i: "transfer_inv dat (sk_sent c) s ?c1" "asks ev s ?c1" "is_head ?c1 = is_head c" using S by (simp_all add: is_head_def)
  have "prepared ev s ?c1 = Some r1" "net_ok (Suc (length (rs_stream r1) + unat (sel_length s))) ?c1"
    using assms(12,13) by (simp_all add: prepared_def net_ok_def)
  from transfer_runs[OF i(1,2) assms(2) _ assms(9) _ assms(11,6,7,8) this assms(14)] check_found(1)[OF assms(1)] assms(10,16,17)
  obtain c' where run: "send_file_loop ev ?c1 = Some (None, c')" by auto
  with send_file_answer(2)[OF run i(1,2) assms(2) i(3)] sendResponse_found[OF assms(1,15)] show ?thesis by auto
qed

lemma demo_net: "k \<le> n \<Longrightarrow> net_ok k (demo_client n q)"
  by (simp add: demo_client_def net_ok_def polls_ok_def moves_ok_def revent_def)

lemma demo_disk: "disk_ok (length d) (snd (ev_open (demo_env d)))"
  by (simp add: demo_env_def disk_ok_def moves_ok_def)

lemma demo_clock: "cl_clock (demo_client n q) = 0 # replicate 19 0" "clock_ok 0 (replicate k 0)"
proof -
  show "cl_clock (demo_client n q) = 0 # replicate 19 0" by (simp add: demo_client_def numeral_eq_Suc)
  show "clock_ok 0 (replicate k 0)" unfolding clock_ok_def by (induction k) (auto simp: sorted_wrt_iff_nth_less nth_Cons')
qed

lemma demo_prepared:
  "prepared ev s ((demo_client n q)\<lparr>cl_req := q', cl_resp := r\<rparr>) = prepared ev s ((demo_client 0 q)\<lparr>cl_req := q', cl_resp := r\<rparr>)"
  by (simp add: prepared_def)

definition demo_sel :: range_sel where
  "demo_sel = \<lparr>sel_status = 200, sel_start = 0, sel_end = 4, sel_length = 5, sel_size = 5, sel_content = []\<rparr>"

definition demo_ready :: response where
  "demo_ready = demo_resp\<lparr>rs_fileSize := 5, rs_fileMTime := 1,
     rs_fileETag := file_etag \<lparr>st_mode = S_IFREG, st_size = 5, st_mtime = 1\<rparr>\<rparr>"

lemma demo_hello:
  "se_checkLocalFile (ev_localtime (demo_env ''hello'')) (ev_now (demo_env ''hello'')) (ev_getattr (demo_env ''hello''))
     (cl_req (demo_client n (demo_request m))) (cl_resp (demo_client n (demo_request m))) = Some (None, 0, demo_request m, demo_ready)"
  "requested_range (demo_env ''hello'') ((demo_client n (demo_request m))\<lparr>cl_req := demo_request m, cl_resp := demo_ready\<rparr>) = Some (Inr demo_sel)"
  "range_check demo_sel" "unat (sel_start demo_sel) + unat (sel_length demo_sel) \<le> length ''hello''"
  "disk_ok (unat (sel_length demo_sel)) (snd (ev_open (demo_env ''hello'')))" "file_range ''hello'' demo_sel = ''hello''"
  "seekable demo_sel"
proof -
  have "rq_ifModifiedSince (demo_request m) = []" "rq_ifRange (demo_request m) = []"
    by (simp_all add: demo_request_def request_new_def)
  from demo_found[OF this, of "''hello''"] show "se_checkLocalFile (ev_localtime (demo_env ''hello'')) (ev_now (demo_env ''hello''))
      (ev_getattr (demo_env ''hello'')) (cl_req (demo_client n (demo_request m))) (cl_resp (demo_client n (demo_request m))) =
      Some (None, 0, demo_request m, demo_ready)" by (simp add: demo_ready_def)
  show "requested_range (demo_env ''hello'') ((demo_client n (demo_request m))\<lparr>cl_req := demo_request m, cl_resp := demo_ready\<rparr>) =
      Some (Inr demo_sel)"
    by (subst demo_request_whole) (simp_all add: demo_sel_def demo_ready_def)
  show "disk_ok (unat (sel_length demo_sel)) (snd (ev_open (demo_env ''hello'')))"
  proof -
    have "unat (sel_length demo_sel) = length ''hello''" by (simp add: demo_sel_def)
    with demo_disk[of "''hello''"] show ?thesis by (simp only:)
  qed
  show "seekable demo_sel" by (rule seekable_below) (simp add: demo_sel_def)
qed (simp_all add: demo_sel_def range_check_def file_range_def)

lemma demo_head:
  "\<exists>r. \<forall>n. prepared (demo_env ''hello'') demo_sel
    ((demo_client n (demo_request m))\<lparr>cl_req := demo_request m, cl_resp := demo_ready\<rparr>) = Some r"
proof -
  let ?c = "(demo_client 0 (demo_request m))\<lparr>cl_req := demo_request m, cl_resp := demo_ready\<rparr>"
  have "list_ok 8 (cl_resp ?c)" "NUL \<notin> set (sel_content demo_sel)" "NUL \<notin> set (ev_ctype (demo_env ''hello''))"
    by (simp_all add: list_ok_def demo_ready_def demo_resp_def demo_sel_def demo_env_def)
  moreover have "NUL \<notin> set (rs_fileETag (cl_resp ?c))" using check_found(3)[OF demo_hello(1)] by simp
  moreover have "getDateStringRfc822 (ev_localtime (demo_env ''hello'')) (ev_now (demo_env ''hello'')) t \<noteq> None" for t
    using demo_date by (simp add: demo_env_def)
  ultimately obtain r where "prepared (demo_env ''hello'') demo_sel ?c = Some r" by (rule prepared_defined)
  then have "prepared (demo_env ''hello'') demo_sel
      ((demo_client n (demo_request m))\<lparr>cl_req := demo_request m, cl_resp := demo_ready\<rparr>) = Some r" for n
    using demo_prepared by metis
  then show ?thesis by blast
qed

lemma demo_run: "\<exists>n c'. sendResponse (demo_env ''hello'') (demo_client n (demo_request m)) = Some (None, c')"
proof -
  obtain r where r: "\<And>n. prepared (demo_env ''hello'') demo_sel
    ((demo_client n (demo_request m))\<lparr>cl_req := demo_request m, cl_resp := demo_ready\<rparr>) = Some r" using demo_head by blast
  let ?n = "Suc (length (rs_stream r) + unat (sel_length demo_sel))"
  let ?c = "demo_client ?n (demo_request m)"
  let ?c1 = "?c\<lparr>cl_req := demo_request m, cl_resp := demo_ready, cl_clock := replicate 19 0, cl_ssTime := 0\<rparr>"
  have "\<not> cl_resizeable ?c" "rs_list (cl_resp ?c) = arr_init" by (simp_all add: demo_client_def demo_resp_def)
  note S = found_start[OF demo_hello(1) this demo_hello(2)]
  have "\<exists>c'. send_file_loop (demo_env ''hello'') ?c1 = Some (None, c')"
  proof (rule transfer_runs[where base="sk_sent ?c" and dat="''hello''" and s=demo_sel and ms="[]" and r=r])
    show "transfer_inv ''hello'' (sk_sent ?c) demo_sel ?c1" "asks (demo_env ''hello'') demo_sel ?c1" using S by simp_all
    show "prepared (demo_env ''hello'') demo_sel ?c1 = Some r" using r[of ?n] by (simp add: prepared_def)
    show "net_ok ?n ?c1" using demo_net[of ?n ?n "demo_request m"] by (simp add: net_ok_def)
    show "clock_ok (cl_ssTime ?c1) (cl_clock ?c1)" "2 * unat (sel_length demo_sel) + 3 \<le> length (cl_clock ?c1)"
      using demo_clock(2)[of 19] by (simp_all add: demo_sel_def)
    show "ev_mods (demo_env ''hello'') = Some []" "fst (ev_open (demo_env ''hello'')) = None" "mods_open [] (rq_file (cl_req ?c1)) = None"
      "rs_fileStatus (cl_resp ?c1) = 0" by (simp_all add: demo_env_def demo_ready_def demo_resp_def)
  qed (rule demo_serves demo_hello)+
  with sendResponse_found[OF demo_hello(1) demo_clock(1)] show ?thesis by (intro exI[of _ ?n]) simp
qed

theorem response_is_head_and_range_witness:
  "\<exists>n c'. sendResponse (demo_env ''hello'') (demo_client n (demo_request ''HEAD'')) = Some (None, c') \<and>
     sk_sent c' = resp_head (cl_resp c') \<and> header_find (rs_list (cl_resp c')) ''Content-Length'' = Some ''5''"
proof -
  obtain n c' where run: "sendResponse (demo_env ''hello'') (demo_client n (demo_request ''HEAD'')) = Some (None, c')"
    using demo_run by blast
  have "is_head (demo_client n (demo_request ''HEAD''))" by (simp add: is_head_def demo_client_def demo_request_def) code_simp
  moreover have "show_nat (unat (sel_length demo_sel)) = ''5''" by (simp add: demo_sel_def) code_simp
  moreover have c: "\<not> cl_resizeable (demo_client n (demo_request ''HEAD''))" "rs_list (cl_resp (demo_client n (demo_request ''HEAD''))) = arr_init"
    "sk_sent (demo_client n (demo_request ''HEAD'')) = []" by (simp_all add: demo_client_def demo_resp_def)
  ultimately show ?thesis using run response_is_head_and_range[OF demo_hello(1) demo_serves c(1,2) demo_hello(2) run] by auto
qed

theorem transfer_completes_witness:
  "\<exists>n c'. sendResponse (demo_env ''hello'') (demo_client n (demo_request ''GET'')) = Some (None, c') \<and>
     sk_sent c' = resp_head (cl_resp c') @ ''hello''"
proof -
  obtain r where r: "\<And>n. prepared (demo_env ''hello'') demo_sel
    ((demo_client n (demo_request ''GET''))\<lparr>cl_req := demo_request ''GET'', cl_resp := demo_ready\<rparr>) = Some r" using demo_head by blast
  let ?n = "Suc (length (rs_stream r) + unat (sel_length demo_sel))"
  let ?c = "demo_client ?n (demo_request ''GET'')"
  have "\<exists>c'. sendResponse (demo_env ''hello'') ?c = Some (None, c') \<and>
      sk_sent c' = sk_sent ?c @ resp_head (cl_resp c') @ (if is_head ?c then [] else file_range ''hello'' demo_sel)"
    using demo_hello(2) r[of ?n] demo_net[of ?n ?n] demo_clock
    by (intro transfer_completes[OF demo_hello(1) demo_serves, where ms="[]" and t=0 and ts="replicate 19 0"] demo_hello(3-5,7))
      (simp_all add: demo_client_def demo_resp_def demo_env_def demo_sel_def)
  moreover have "\<not> is_head ?c" by (simp add: is_head_def demo_client_def demo_request_def) code_simp
  moreover have "sk_sent ?c = []" by (simp add: demo_client_def)
  ultimately obtain c' where "sendResponse (demo_env ''hello'') ?c = Some (None, c')" "sk_sent c' = resp_head (cl_resp c') @ ''hello''"
    using demo_hello(6) by auto
  then show ?thesis by blast
qed

end
