(* ===== verification/Dfw_HttpRange_Spec.thy ===== *)
theory Dfw_HttpRange_Spec
  imports Dfw_HttpServe_Spec
begin

text \<open>
  The ranges a request can ask for, those the server refuses, and the poll thread.
\<close>

section \<open>Ranges asked for\<close>

text \<open>The range of a request, from the header on.\<close>

lemma requested_rangeE:
  assumes "requested_range ev c = Some (Inr s)" "\<not> cl_resizeable c"
  obtains v where "checkRangeBytes (rq_list (cl_req c)) (rq_bIfRange (cl_req c)) range_vars_new = Some (None, v)"
    "range_select False (ev_getattr ev) v (rs_fileSize (cl_resp c)) = Inr s"
proof -
  from assms obtain k where "checkRangeBytes (rq_list (cl_req c)) (rq_bIfRange (cl_req c)) range_vars_new = Some k"
    "(case fst k of Some e \<Rightarrow> Inl e | None \<Rightarrow> range_select (cl_resizeable c) (ev_getattr ev) (snd k) (rs_fileSize (cl_resp c))) = Inr s"
    unfolding requested_range_def bind_eq_Some_conv by auto
  with assms(2) show ?thesis by (cases k; cases "fst k") (auto intro: that)
qed

lemma range_spec_suffix: "range_spec p v = (e, v') \<Longrightarrow> rg_minus v' = 2 \<Longrightarrow> rg_start v' = rg_start v"
  by (auto simp: range_spec_def Let_def split: if_split_asm option.split_asm)

lemma range_text_suffix: "range_text v = Some (e, v') \<Longrightarrow> rg_minus v' = 2 \<Longrightarrow> rg_start v' = rg_start v"
  by (auto simp: range_text_def Let_def dest: range_spec_suffix split: if_split_asm)

lemma suffix_without_start:
  assumes "checkRangeBytes h b range_vars_new = Some (None, v)" "rg_minus v = 2"
  shows "rg_start v = []"
proof -
  from assms consider "v = range_vars_new\<lparr>rg_minus := 0\<rparr>" | "\<exists>t. v = range_vars_new\<lparr>rg_range := t, rg_minus := 0\<rparr>"
    | "\<exists>t a. v = range_vars_new\<lparr>rg_range := t, rg_accept := a, rg_minus := 0\<rparr>"
    | w where "range_text w = Some (None, v)" "rg_start w = rg_start range_vars_new"
    unfolding checkRangeBytes_def Let_def bind_eq_Some_conv by (auto split: if_split_asm)
  then show ?thesis using assms(2) range_text_suffix by cases (auto simp: range_vars_new_def)
qed

lemma range_refused:
  assumes "range_select False ga v fsize = Inr s" "fsize = 0 \<or> rg_minus v = 2 \<and> rg_start v = []"
  shows "\<not> range_check s"
  using assms
  by (auto simp: range_select_def range_resize_def partial_sel_def range_check_def Let_def split: if_split_asm)

text \<open>A range that fails the checks ends the answer before anything is sent.\<close>

lemma refused_sends_nothing:
  assumes "send_file_loop ev c = Some (e, c')" "rs_fileStatus (cl_resp c) = 0"
    and "requested_range ev c = Some (Inr s)" "\<not> range_check s" "\<forall>ms. ev_mods ev = Some ms \<longrightarrow> mods_open ms (rq_file (cl_req c)) = None"
    and "fst (ev_open ev) = None"
  shows "e \<noteq> None \<and> sk_sent c' = sk_sent c"
proof -
  obtain now c1 where t: "currentTimeMillis c = (now, c1)" by fastforce
  then obtain ts where c1: "c1 = c\<lparr>cl_clock := ts\<rparr>"
    by (auto simp: currentTimeMillis_def split: list.split_asm intro: that[of "cl_clock c"])
  show ?thesis
  proof (cases "cl_stop c \<or> now - cl_ssTime c1 > 7200000")
    case True
    with assms(1) t c1 show ?thesis by (subst (asm) send_file_loop.simps) (auto split: if_split_asm)
  next
    case False
    with assms(1) t obtain x where x: "sendLocalFile ev c1 = Some x"
      by (subst (asm) send_file_loop.simps) (auto simp: bind_eq_Some_conv)
    have "sendLocalFile ev c1 = do { x \<leftarrow> sendLocalFile_ready ev c1;
        Some (if fst x \<noteq> None then x else (Some (DFW_T_CONTINUE, 0), snd x)) }"
      using False c1 assms(2) by (simp add: sendLocalFile_def)
    with x obtain y where y: "sendLocalFile_ready ev c1 = Some y"
      "x = (if fst y \<noteq> None then y else (Some (DFW_T_CONTINUE, 0), snd y))"
      by (cases "sendLocalFile_ready ev c1") (auto split: if_split_asm)
    have rng: "requested_range ev (opened ev c1) = Some (Inr s)"
      using assms(3) c1 requested_range_cong[of "opened ev c1" c ev] by (simp add: opened_def)
    have "fst y \<noteq> None \<and> \<not> (goes_on (fst y) \<or> map_option fst (fst y) = Some DFW_T_CONTINUE) \<and> sk_sent (snd y) = sk_sent c"
      using y(1) rng c1 assms(4,5,6)
      by (auto simp: sendLocalFile_ready_def bind_eq_Some_conv ready_send_def goes_on_def opened_def Let_def
          split: option.split_asm)
    then show ?thesis using assms(1) t False x y(2)
      by (subst (asm) send_file_loop.simps) (auto split: if_split_asm)
  qed
qed

section \<open>Properties\<close>

lemma c_atoll_show_nat: "n < 2 ^ 63 \<Longrightarrow> c_atoll (show_nat n) = word_of_nat n"
  by (simp add: c_atoll_def c_atoi_show_nat clamp64_id)

lemma dash_not_digit: "CHR ''-'' \<notin> set (show_nat n)" "CHR '','' \<notin> set (show_nat n)"
  using show_nat_digits[of n] by (force simp: c_isdigit_def uchar_def)+

lemma range_header_numbers:
  assumes "header_ok h" "header_find h ''If-Range'' = None" "header_find h ''Accept-Range'' = None"
    and "header_find h ''Range'' = Some (''bytes='' @ show_nat i @ ''-'' @ (case j of None \<Rightarrow> [] | Some k \<Rightarrow> show_nat k))"
  obtains v where "checkRangeBytes h b range_vars_new = Some (None, v)" "rg_start v = show_nat i"
    "j = None \<longrightarrow> rg_minus v = 4" "\<And>k. j = Some k \<Longrightarrow> rg_minus v = 1 \<and> rg_end v = show_nat k"
proof -
  let ?z = "case j of None \<Rightarrow> [] | Some k \<Rightarrow> show_nat k"
  let ?v = "range_vars_new\<lparr>rg_range := ''bytes='' @ show_nat i @ ''-'' @ ?z\<rparr>"
  have "checkRangeBytes h b range_vars_new = range_text ?v"
    using assms by (intro checkRangeBytes_text) (auto simp: range_vars_new_def)
  also have "\<dots> = Some (range_spec (show_nat i @ ''-'' @ ?z) ?v)"
    by (intro range_text_bytes[of _ "''bytes''" "CHR ''=''"] strcaseeq_refl) (auto split: option.splits)
  finally have c: "checkRangeBytes h b range_vars_new = Some (range_spec (show_nat i @ ''-'' @ ?z) ?v)" .
  have "CHR '','' \<notin> set (show_nat i @ ''-'' @ ?z)" using dash_not_digit(2) by (auto split: option.splits)
  then have "show_nat i @ ''-'' @ ?z \<noteq> ''0-0,-1''" by (metis (no_types, lifting) list.set_intros(1,2))
  with c range_spec_both[of "show_nat i" ?z ?v] dash_not_digit(1) show ?thesis
    by (intro that[of "snd (range_spec (show_nat i @ ''-'' @ ?z) ?v)"]) (auto split: option.splits)
qed

lemma select_numbers:
  assumes "rg_start v = show_nat i" "j = None \<longrightarrow> rg_minus v = 4" "\<And>k. j = Some k \<Longrightarrow> rg_minus v = 1 \<and> rg_end v = show_nat k"
    and "i < unat sz" "case j of None \<Rightarrow> True | Some k \<Rightarrow> i \<le> k \<and> k < 2 ^ 63" "unat sz < 2 ^ 63"
    and l: "l = (case j of None \<Rightarrow> unat sz - 1 | Some k \<Rightarrow> min k (unat sz - 1))"
  shows "range_select False ga v sz = Inr (partial_sel (word_of_nat i) (word_of_nat l) sz)"
proof -
  have i: "i < 2 ^ 63" "l < 2 ^ 63" using assms(4,6) l by (auto split: option.splits)
  have sz: "sz \<noteq> 0" "sz - 1 = word_of_nat (unat sz - 1)" using assms(4)
    by (auto simp: of_nat_diff)
  show ?thesis
  proof (cases j)
    case None
    with assms(1,2) l sz i show ?thesis by (simp add: range_select_def c_atoll_show_nat Let_def)
  next
    case (Some k)
    have k: "k < 2 ^ 63" using assms(5) Some by simp
    then have "sz \<le> word_of_nat k \<longleftrightarrow> unat sz \<le> k" by (simp add: word_le_nat_alt unat_of_nat)
    moreover have "0 < unat sz" using assms(4) by simp
    ultimately show ?thesis using Some assms(1,3) l sz i k
      by (simp add: range_select_def range_resize_def c_atoll_show_nat Let_def min_def)
  qed
qed

text \<open>C28. A request for the bytes \<open>i-j\<close> or \<open>i-\<close> of a file selects them, status 206: from \<open>i\<close> to \<open>j\<close> or the last byte of the file,
  whichever comes first, and announces just that in \<open>Content-Range\<close>.\<close>

theorem range_request_selects:
  assumes "header_ok (rq_list (cl_req c))" "header_find (rq_list (cl_req c)) ''If-Range'' = None"
    "header_find (rq_list (cl_req c)) ''Accept-Range'' = None"
    and "header_find (rq_list (cl_req c)) ''Range'' =
           Some (''bytes='' @ show_nat i @ ''-'' @ (case j of None \<Rightarrow> [] | Some k \<Rightarrow> show_nat k))"
    and "\<not> cl_resizeable c" "n = unat (rs_fileSize (cl_resp c))" "i < n" "n < 2 ^ 63"
    and "case j of None \<Rightarrow> True | Some k \<Rightarrow> i \<le> k \<and> k < 2 ^ 63"
    and "l = (case j of None \<Rightarrow> n - 1 | Some k \<Rightarrow> min k (n - 1))"
  shows "\<exists>s. requested_range ev c = Some (Inr s) \<and> range_check s \<and> sel_status s = 206 \<and>
    unat (sel_length s) = l - i + 1 \<and> file_range dat s = take (l - i + 1) (drop i dat) \<and>
    sel_content s = ''bytes '' @ show_nat i @ ''-'' @ show_nat l @ ''/'' @ show_nat n"
proof -
  let ?sz = "rs_fileSize (cl_resp c)" and ?s = "partial_sel (word_of_nat i) (word_of_nat l) (rs_fileSize (cl_resp c))"
  from range_header_numbers[OF assms(1-4), of "rq_bIfRange (cl_req c)"] obtain v where v:
    "checkRangeBytes (rq_list (cl_req c)) (rq_bIfRange (cl_req c)) range_vars_new = Some (None, v)" "rg_start v = show_nat i"
    "j = None \<longrightarrow> rg_minus v = 4" "\<And>k. j = Some k \<Longrightarrow> rg_minus v = 1 \<and> rg_end v = show_nat k" by blast
  have "range_select False (ev_getattr ev) v ?sz = Inr ?s"
    using assms(6-10) by (intro select_numbers[OF v(2-4)]) auto
  then have rng: "requested_range ev c = Some (Inr ?s)" using v(1) assms(5) by (simp add: requested_range_def)
  have l: "i \<le> l" "l < n" using assms(7,9,10) by (auto split: option.splits)
  have u: "unat (word_of_nat i :: 64 word) = i" "unat (word_of_nat l :: 64 word) = l" using l assms(8) by (simp_all add: unat_of_nat)
  have "range_check ?s" using l u assms(6) by (simp add: range_check_def partial_sel_def word_less_nat_alt word_le_nat_alt)
  moreover have "unat (sel_length ?s) = l - i + 1"
    using word_range(3)[of "word_of_nat l" ?sz "word_of_nat i"] l u assms(6)
    by (simp add: partial_sel_def word_less_nat_alt word_le_nat_alt)
  ultimately show ?thesis using rng u assms(6)
    by (intro exI[of _ ?s]) (simp add: file_range_def, simp add: partial_sel_def content_range_def)
qed

theorem range_request_selects_witness:
  "\<exists>h s. header_put ''Range'' ''bytes=1-3'' arr_init = Some h \<and>
     requested_range (demo_env ''hello'') ((demo_client 0 ((demo_request ''GET'')\<lparr>rq_list := h\<rparr>))\<lparr>cl_resp := demo_ready\<rparr>) = Some (Inr s) \<and>
     file_range ''hello'' s = ''ell'' \<and> sel_content s = ''bytes 1-3/5''"
proof -
  obtain h where h: "header_put ''Range'' ''bytes=1-3'' arr_init = Some h" "header_ok h"
      "header_find h = [''Range'' \<mapsto> ''bytes=1-3'']"
    using header_put_ok[of arr_init 0 "''Range''" "''bytes=1-3''"] by auto
  let ?c = "(demo_client 0 ((demo_request ''GET'')\<lparr>rq_list := h\<rparr>))\<lparr>cl_resp := demo_ready\<rparr>"
  have n: "show_nat 1 = ''1''" "show_nat 3 = ''3''" "show_nat 5 = ''5''" by code_simp+
  have "\<exists>s. requested_range (demo_env ''hello'') ?c = Some (Inr s) \<and> range_check s \<and> sel_status s = 206 \<and>
    unat (sel_length s) = 3 - 1 + 1 \<and> file_range ''hello'' s = take (3 - 1 + 1) (drop 1 ''hello'') \<and>
    sel_content s = ''bytes '' @ show_nat 1 @ ''-'' @ show_nat 3 @ ''/'' @ show_nat 5"
    using h n by (intro range_request_selects[where j="Some 3"]) (simp_all add: demo_client_def demo_ready_def)
  then show ?thesis using h(1) n by auto
qed

text \<open>The last \<open>z\<close> bytes of a file (\<open>bytes=-z\<close>) and the whole of an empty file are never served: the server looks for the
  wrong one of the two texts and takes the size of the file for the start, which its own check then refuses; it reports an error and
  sends nothing, not even a status line.\<close>

theorem suffix_and_empty_refused:
  assumes "se_checkLocalFile (ev_localtime ev) (ev_now ev) (ev_getattr ev) (cl_req c) (cl_resp c) = Some (None, out, q, r)"
    and "\<not> cl_resizeable c" "checkRangeBytes (rq_list q) (rq_bIfRange q) range_vars_new = Some (None, v)"
    and "rg_minus v = 2 \<or> rg_minus v = 0 \<and> rs_fileSize r = 0"
    and "ev_mods ev = Some ms" "mods_open ms (rq_file q) = None" "fst (ev_open ev) = None"
    and "sendResponse ev c = Some (e, c')"
  shows "e \<noteq> None \<and> sk_sent c' = sk_sent c"
proof -
  let ?c = "c\<lparr>cl_req := q, cl_resp := r\<rparr>"
  obtain t c1 where t: "currentTimeMillis ?c = (t, c1)" by fastforce
  then obtain ts where c1: "c1 = ?c\<lparr>cl_clock := ts\<rparr>"
    by (auto simp: currentTimeMillis_def split: list.split_asm intro: that[of "cl_clock c"])
  have run: "send_file_loop ev (c1\<lparr>cl_ssTime := t\<rparr>) = Some (e, c')" using assms(1,8) t by (simp add: sendResponse_def)
  obtain s where s: "range_select False (ev_getattr ev) v (rs_fileSize r) = Inr s"
    using assms(4) by (auto simp: range_select_def Let_def)
  have "\<not> range_check s"
    using range_refused[OF s] suffix_without_start[OF assms(3)] assms(4) by auto
  moreover have "requested_range ev (c1\<lparr>cl_ssTime := t\<rparr>) = Some (Inr s)"
    using assms(2,3) s c1 by (simp add: requested_range_def)
  ultimately show ?thesis
    using refused_sends_nothing[OF run, of s] check_found(1)[OF assms(1)] assms(5-7) c1 by simp
qed

theorem suffix_and_empty_refused_witness:
  "\<exists>e c'. sendResponse (demo_env []) (demo_client 9 (demo_request ''GET'')) = Some (e, c') \<and> e \<noteq> None \<and> sk_sent c' = []"
proof -
  let ?ev = "demo_env []" and ?q = "demo_request ''GET''"
  let ?r = "demo_resp\<lparr>rs_fileSize := word_of_nat (length ([]::string)), rs_fileMTime := 1,
     rs_fileETag := file_etag \<lparr>st_mode = S_IFREG, st_size = int (length ([]::string)), st_mtime = 1\<rparr>\<rparr>"
  let ?c = "(demo_client 9 ?q)\<lparr>cl_req := ?q, cl_resp := ?r, cl_clock := replicate 19 0, cl_ssTime := 0\<rparr>"
  let ?c1 = "?c\<lparr>cl_clock := replicate 18 0\<rparr>"
  have q: "rq_ifModifiedSince ?q = []" "rq_ifRange ?q = []" by (simp_all add: demo_request_def request_new_def)
  note found = demo_found[OF q, of "[]" 9]
  have whole: "checkRangeBytes (rq_list ?q) (rq_bIfRange ?q) range_vars_new = Some (None, range_vars_new\<lparr>rg_minus := 0\<rparr>)"
    using getHeader_find[of arr_init] by (simp add: checkRangeBytes_def demo_request_def request_new_def del: chars_simps)
  have rng: "requested_range ?ev (opened ?ev ?c1) = Some (Inr \<lparr>sel_status = 200, sel_start = 0, sel_end = - 1, sel_length = 0, sel_size = 0, sel_content = []\<rparr>)"
    by (subst demo_request_whole) (simp_all add: opened_def)
  have ok: "fst (ev_open ?ev) = None" "ev_mods ?ev = Some []" by (simp_all add: demo_env_def)
  obtain m where m: "getDateStringRfc822 (ev_localtime ?ev) (ev_now ?ev) (rs_fileMTime (cl_resp ?c1)) = Some m"
    using demo_date by (auto simp: demo_env_def)
  have "\<exists>c'. sendLocalFile_ready ?ev ?c1 = Some (Some (DFW_ERROR, 0), c')"
    using rng m ok by (simp add: sendLocalFile_ready_def ready_send_def range_check_def Let_def)
  then obtain c' where "sendLocalFile ?ev ?c1 = Some (Some (DFW_ERROR, 0), c')"
    by (auto simp: sendLocalFile_def demo_client_def demo_resp_def)
  moreover have "currentTimeMillis ?c = (0, ?c1)" by (simp add: currentTimeMillis_def numeral_eq_Suc)
  ultimately have "send_file_loop ?ev ?c = Some (Some (DFW_ERROR, 0), c')"
    by (subst send_file_loop.simps) (simp add: goes_on_def demo_client_def)
  then have run: "sendResponse ?ev (demo_client 9 ?q) = Some (Some (DFW_ERROR, 0), c')"
    using sendResponse_found[OF found demo_clock(1)] by simp
  have "\<not> cl_resizeable (demo_client 9 ?q)" by (simp add: demo_client_def)
  from suffix_and_empty_refused[OF found this whole _ ok(2) _ ok(1) run] run show ?thesis
    by (auto simp: demo_client_def)
qed

section \<open>The poll thread\<close>

text \<open>A client in the poll set has nothing out but a part of the head.\<close>

definition poll_state :: "string \<Rightarrow> client \<Rightarrow> bool" where
  "poll_state base c \<longleftrightarrow>
     (let r = cl_resp c in
      (rs_fileStatus r = 0 \<and> sk_sent c = base) \<or>
      (rs_fileStatus r = 1 \<and> rs_stream r = resp_head r \<and> rs_streamSended r \<le> length (rs_stream r) \<and>
         sk_sent c = base @ take (rs_streamSended r) (rs_stream r)))"

lemma resp_head_upd [simp]:
  "resp_head (r\<lparr>rs_sendedSize := u\<rparr>) = resp_head r" "resp_head (r\<lparr>rs_streamSended := k\<rparr>) = resp_head r"
  "resp_head (r\<lparr>rs_fileStatus := st\<rparr>) = resp_head r"
  by (simp_all add: resp_head_def)

lemma poll_stream:
  assumes "sendStream c = (e, full, c')" "rs_stream (cl_resp c) = resp_head (cl_resp c)"
    and "rs_streamSended (cl_resp c) \<le> length (rs_stream (cl_resp c))"
    and "sk_sent c = base @ take (rs_streamSended (cl_resp c)) (rs_stream (cl_resp c))"
  shows "rs_stream (cl_resp c') = resp_head (cl_resp c')" "rs_streamSended (cl_resp c') \<le> length (rs_stream (cl_resp c'))"
    "sk_sent c' = base @ take (rs_streamSended (cl_resp c')) (rs_stream (cl_resp c'))"
    "rs_fileStatus (cl_resp c') = rs_fileStatus (cl_resp c)"
proof -
  from sendStream_inv[OF assms(1,3,4)] obtain a b u k where c':
    "c' = c\<lparr>sk_polls := a, sk_sends := b, sk_sent := base @ take k (rs_stream (cl_resp c)),
       cl_resp := (cl_resp c)\<lparr>rs_sendedSize := u, rs_streamSended := k\<rparr>\<rparr>" "k \<le> length (rs_stream (cl_resp c))" by metis
  show "rs_stream (cl_resp c') = resp_head (cl_resp c')" unfolding c'(1) using assms(2) by simp
  show "rs_streamSended (cl_resp c') \<le> length (rs_stream (cl_resp c'))"
    "sk_sent c' = base @ take (rs_streamSended (cl_resp c')) (rs_stream (cl_resp c'))"
    "rs_fileStatus (cl_resp c') = rs_fileStatus (cl_resp c)" unfolding c'(1) using c'(2) by simp_all
qed

lemma take_prefix: "xs = base @ take k ys \<Longrightarrow> prefix xs (base @ ys)"
  by (metis append_take_drop_id append_assoc prefixI)

lemma appendHeader_status:
  assumes "resp_appendHeader k v r = Some a"
  shows "rs_fileStatus (snd a) = rs_fileStatus r"
  using assms unfolding resp_appendHeader_def Let_def
  by (simp only: bind_eq_Some_conv split: if_split_asm)
    ((elim exE conjE)?, drule option.inject[THEN iffD1], hypsubst, simp (no_asm))+

lemma append_list_status: "append_list kvs r = Some a \<Longrightarrow> rs_fileStatus (snd a) = rs_fileStatus r"
proof (induction kvs arbitrary: r)
  case (Cons kv kvs)
  then obtain b where b: "resp_appendHeader (fst kv) (chars (snd kv)) r = Some b"
    by (cases "resp_appendHeader (fst kv) (chars (snd kv)) r") auto
  with Cons appendHeader_status[OF b] show ?case by (auto split: if_split_asm)
qed auto

lemma setResponse_status: "setResponse st k r = Some a \<Longrightarrow> rs_fileStatus (snd a) = rs_fileStatus r"
  unfolding setResponse_def bind_eq_Some_conv
  by (simp only: bind_eq_Some_conv split: if_split_asm) (auto dest!: appendHeader_status split: if_split_asm)

lemma ready_headers_status:
  assumes "ready_headers ev m s q r = Some a"
  shows "rs_fileStatus (snd a) = rs_fileStatus r"
proof -
  obtain b where b: "setResponse_len (sel_status s) (sel_length s) (rq_keepAlive q) r = Some b"
    using assms by (cases "setResponse_len (sel_status s) (sel_length s) (rq_keepAlive q) r") (auto simp: ready_headers_def)
  then obtain d where "resp_appendHeader ''Content-Length'' (chars (show_nat (unat (sel_length s)))) r = Some d"
    "(if fst d \<noteq> None then Some d else setResponse (sel_status s) (rq_keepAlive q) (snd d)) = Some b"
    unfolding setResponse_len_def bind_eq_Some_conv by blast
  with appendHeader_status[of _ _ r d] setResponse_status[of _ _ "snd d" b] have "rs_fileStatus (snd b) = rs_fileStatus r"
    by (auto split: if_split_asm)
  with assms b append_list_status[of _ "snd b" a] show ?thesis
    by (auto simp: ready_headers_def simp del: append_list.simps append_Cons split: if_split_asm)
qed

lemma poll_ready:
  assumes "sendLocalFile_ready ev c = Some (e, c')" "rs_fileStatus (cl_resp c) = 0"
  shows "prefix (sk_sent c') (sk_sent c @ resp_head (cl_resp c'))" "e \<noteq> None \<Longrightarrow> poll_state (sk_sent c) c'"
proof -
  have start: "poll_state (sk_sent c) d" if "d \<in> {c, c\<lparr>cl_file := None\<rparr>, opened ev c}" for d
    using that assms(2) by (auto simp: poll_state_def opened_def)
  have sent: "sk_sent (opened ev c) = sk_sent c" by (simp add: opened_def)
  have "prefix (sk_sent c') (sk_sent c @ resp_head (cl_resp c')) \<and> (e \<noteq> None \<longrightarrow> poll_state (sk_sent c) c')"
    using ready_cases[OF assms(1)]
  proof (elim disjE conjE exE)
    fix m s assume snd: "ready_send ev m s (opened ev c) = Some (e, c')"
    let ?c = "on_resp (\<lambda>r. r\<lparr>rs_fileSize := sel_size s\<rparr>) (opened ev c)"
    show ?thesis
    proof (cases "range_check s")
      case False
      with snd have "c' = ?c" by (simp add: ready_send_def Let_def)
      with assms(2) show ?thesis by (simp add: poll_state_def opened_def)
    next
      case True
      with snd obtain a where a: "ready_headers ev m s (cl_req ?c) (cl_resp ?c) = Some a"
        by (auto simp: ready_send_def bind_eq_Some_conv Let_def)
      have st: "rs_fileStatus (snd a) = 0" using ready_headers_status[OF a] assms(2) by (simp add: opened_def)
      show ?thesis
      proof (cases "fst a = None")
        case False
        with snd True a have "c' = ?c\<lparr>cl_resp := snd a\<rparr>" by (simp add: ready_send_def Let_def)
        with st show ?thesis by (simp add: poll_state_def opened_def)
      next
        case None: True
        let ?r = "(snd a)\<lparr>rs_body := [], rs_bufferLen := 0, rs_fileSendLength := sel_length s, rs_fileOffset := sel_start s, rs_fileSended := 0\<rparr>"
        from snd True a None have "ready_head ev (?c\<lparr>cl_resp := ?r\<rparr>) = Some (e, c')" by (simp add: ready_send_def on_resp_def Let_def)
        then obtain r3 full c4 where r3: "resp_makeStream (ev_localtime ev) (ev_now ev) ?r = Some r3"
          and s4: "sendStream (?c\<lparr>cl_resp := r3\<rparr>) = (e, full, c4)"
          and c': "c' = on_resp (\<lambda>r. r\<lparr>rs_fileStatus := (if e \<noteq> None then 1 else 2)\<rparr>) c4" by (rule ready_headE) simp
        from poll_stream[OF s4, of "sk_sent c"] makeStream_facts(1,2,4)[OF r3] have
          "rs_stream (cl_resp c4) = resp_head (cl_resp c4)" "rs_streamSended (cl_resp c4) \<le> length (rs_stream (cl_resp c4))"
          "sk_sent c4 = sk_sent c @ take (rs_streamSended (cl_resp c4)) (rs_stream (cl_resp c4))" by (simp_all add: opened_def)
        then show ?thesis using c' take_prefix[of "sk_sent c4"] by (auto simp: poll_state_def Let_def)
      qed
    qed
  qed (use start sent in simp_all)
  then show "prefix (sk_sent c') (sk_sent c @ resp_head (cl_resp c'))" "e \<noteq> None \<Longrightarrow> poll_state (sk_sent c) c'" by auto
qed

lemma localfile_poll_state:
  assumes "localfile_poll ev c = Some (p, c')" "poll_state base c"
  shows "p \<noteq> Complete" "prefix (sk_sent c') (base @ resp_head (cl_resp c'))" "p = Keep \<Longrightarrow> poll_state base c'"
proof -
  have pre: "prefix (sk_sent d) (base @ resp_head (cl_resp d))" if "poll_state base d" for d
    using that take_prefix[of "sk_sent d"] by (auto simp: poll_state_def Let_def)
  from assms(1) obtain y where y: "sendLocalFile ev c = Some y" by (cases "sendLocalFile ev c") (auto simp: localfile_poll_def)
  define e where "e = fst y"
  have x: "sendLocalFile ev c = Some (e, c')"
    and p: "p = (case e of None \<Rightarrow> Complete | Some (code, _) \<Rightarrow> if code = DFW_E_AGAIN then Keep else Drop)"
    using assms(1) y by (cases y; auto simp: localfile_poll_def e_def split: option.split_asm prod.split_asm)+
  have "e \<noteq> None \<and> prefix (sk_sent c') (base @ resp_head (cl_resp c')) \<and> (p = Keep \<longrightarrow> poll_state base c')"
  proof (cases "cl_stop c")
    case True
    with x pre[OF assms(2)] p show ?thesis by (auto simp: sendLocalFile_def)
  next
    case live: False
    show ?thesis
    proof (cases "rs_fileStatus (cl_resp c) = 0")
      case True
      with assms(2) have b: "base = sk_sent c" by (simp add: poll_state_def Let_def)
      from x live True obtain z where z: "sendLocalFile_ready ev c = Some z"
        by (cases "sendLocalFile_ready ev c") (auto simp: sendLocalFile_def)
      obtain e1 c1 where e1: "z = (e1, c1)" by fastforce
      have e: "c' = c1" "e = (if e1 \<noteq> None then e1 else Some (DFW_T_CONTINUE, 0))"
        using x live True z e1 by (auto simp: sendLocalFile_def split: if_split_asm)
      from z e1 have r: "sendLocalFile_ready ev c = Some (e1, c1)" by simp
      from poll_ready[OF r True] e b p show ?thesis by (cases e1) auto
    next
      case False
      with assms(2) have st: "rs_fileStatus (cl_resp c) = 1" "rs_stream (cl_resp c) = resp_head (cl_resp c)"
        "rs_streamSended (cl_resp c) \<le> length (rs_stream (cl_resp c))"
        "sk_sent c = base @ take (rs_streamSended (cl_resp c)) (rs_stream (cl_resp c))" by (auto simp: poll_state_def Let_def)
      obtain e1 full c1 where s1: "sendStream c = (e1, full, c1)" by (metis prod.collapse)
      note S = poll_stream[OF s1 st(2-4)]
      have "poll_state base c1" using S st(1) by (simp add: poll_state_def Let_def)
      moreover have "e = (if e1 \<noteq> None then e1 else Some (DFW_T_CONTINUE, 0))"
        "c' = (if e1 \<noteq> None then c1 else on_resp (\<lambda>r. r\<lparr>rs_fileStatus := 2\<rparr>) c1)"
        using x live st(1) s1 by (auto simp: sendLocalFile_def split: if_split_asm)
      ultimately show ?thesis using pre[of c1] p by (cases e1) auto
    qed
  qed
  then show "p \<noteq> Complete" "prefix (sk_sent c') (base @ resp_head (cl_resp c'))" "p = Keep \<Longrightarrow> poll_state base c'"
    using p by (auto split: if_split_asm)
qed

text \<open>C29. In the poll mode, the default of the server, no file is ever delivered: \<open>HttpdSendLocalFile\<close> takes the code
  \<open>DFW_T_CONTINUE\<close>, with which \<open>sendLocalFile\<close> asks to be called again, for an error, so that every client is
  dropped with a part of the head, at most all of it, and never counts as complete.\<close>

theorem poll_mode_never_delivers:
  assumes "rs_fileStatus (cl_resp c) = 0" "localfile_rounds n ev c = Some (p, c')"
  shows "p \<noteq> Complete \<and> prefix (sk_sent c') (sk_sent c @ resp_head (cl_resp c'))"
proof -
  have "poll_state (sk_sent c) c" using assms(1) by (simp add: poll_state_def)
  moreover have "poll_state base c \<Longrightarrow> localfile_rounds n ev c = Some (p, c') \<Longrightarrow>
      p \<noteq> Complete \<and> prefix (sk_sent c') (base @ resp_head (cl_resp c'))" for base
  proof (induction n arbitrary: c)
    case 0
    then show ?case using take_prefix[of "sk_sent c"] by (auto simp: poll_state_def Let_def)
  next
    case (Suc n)
    then obtain z where z: "localfile_poll ev c = Some z" by (cases "localfile_poll ev c") auto
    obtain p1 c1 where "z = (p1, c1)" by fastforce
    with z Suc.prems(2) have p1: "localfile_poll ev c = Some (p1, c1)"
      "(if p1 = Keep then localfile_rounds n ev c1 else Some (p1, c1)) = Some (p, c')" by (simp_all split: if_split_asm)
    from localfile_poll_state[OF p1(1) Suc.prems(1)] p1(2) Suc.IH[of c1] show ?case by (auto split: if_split_asm)
  qed
  ultimately show ?thesis using assms(2) by blast
qed

theorem poll_mode_never_delivers_witness:
  "\<exists>n c'. localfile_rounds 3 (demo_env ''hello'') ((demo_client n (demo_request ''GET''))\<lparr>cl_resp := demo_ready\<rparr>) = Some (Drop, c') \<and>
     prefix (sk_sent c') (resp_head (cl_resp c'))"
proof -
  obtain r where r: "\<And>n. prepared (demo_env ''hello'') demo_sel
    ((demo_client n (demo_request ''GET''))\<lparr>cl_req := demo_request ''GET'', cl_resp := demo_ready\<rparr>) = Some r" using demo_head by blast
  let ?n = "Suc (length (rs_stream r) + 0)"
  let ?c = "(demo_client ?n (demo_request ''GET''))\<lparr>cl_req := demo_request ''GET'', cl_resp := demo_ready\<rparr>"
  have "rs_fileStatus (cl_resp ?c) = 0" "ev_mods (demo_env ''hello'') = Some []" "mods_open [] (rq_file (cl_req ?c)) = None"
    "fst (ev_open (demo_env ''hello'')) = None" by (simp_all add: demo_ready_def demo_resp_def demo_env_def)
  moreover have "net_ok ?n ?c" using demo_net[of ?n ?n "demo_request ''GET''"] by (simp add: net_ok_def)
  ultimately obtain c1 where "sendLocalFile (demo_env ''hello'') ?c = Some (Some (DFW_T_CONTINUE, 0), c1)"
    using first_round[OF r _ demo_hello(3) _ _ _ demo_hello(2)] by metis
  then have run: "localfile_rounds 3 (demo_env ''hello'') ?c = Some (Drop, c1)"
    by (simp add: localfile_poll_def numeral_eq_Suc)
  have "?c = (demo_client ?n (demo_request ''GET''))\<lparr>cl_resp := demo_ready\<rparr>" "sk_sent ?c = []" by (simp_all add: demo_client_def)
  moreover have "rs_fileStatus (cl_resp ?c) = 0" by (simp add: demo_ready_def demo_resp_def)
  ultimately show ?thesis using poll_mode_never_delivers[OF _ run] run by (intro exI[of _ ?n] exI[of _ c1]) simp
qed

end
