(* ===== verification/Dfw_HttpBody.thy ===== *)
theory Dfw_HttpBody
  imports Dfw_Text Dfw_Retval
begin

text \<open>
  Reading a response's contents: \<open>lib/http/IHttpReader.cpp\<close> (blocks of a fixed size, plain
  reads) and \<open>lib/http/HttpChunked.cpp\<close> (the chunked transfer coding).  The listener's callback
  \<open>HttpConnection::onResponse\<close> is a parameter \<open>on\<close> that gets a block and its own state \<open>'c\<close>; the
  socket is a parameter too.  Fault and non-termination are \<open>None\<close>.
\<close>

section \<open>Regrouping into blocks\<close>

text \<open>
  The loop of \<open>procBlocks\<close> and \<open>procChunkedBlocks\<close>.  \<open>acc\<close> is the reader's buffer, \<open>data\<close> what is left
  of the argument, \<open>fin\<close> what is handed over at the end (the only difference of the two).  The
  room in the block is computed in \<open>size_t\<close>.
\<close>

definition block_room :: "int \<Rightarrow> string \<Rightarrow> nat" where
  "block_room b acc = nat ((b - int (length acc)) mod 2 ^ 64)"

partial_function (option) block_loop ::
  "(string \<Rightarrow> 'c \<Rightarrow> rv \<times> 'c) \<Rightarrow> (string \<Rightarrow> 'c \<Rightarrow> rv \<times> 'c) \<Rightarrow> int \<Rightarrow> bool \<Rightarrow> string \<Rightarrow> string \<Rightarrow> 'c \<Rightarrow>
   (rv \<times> string \<times> 'c) option" where
  "block_loop on fin b isended data acc c =
     (if block_room b acc > length data then
        (if isended
         then (case fin acc c of (Some e, c') \<Rightarrow> Some (Some e, acc, c') | (None, c') \<Rightarrow> Some (None, [], c'))
         else Some (None, acc @ data, c))
      else (let acc' = acc @ take (block_room b acc) data in
            case on acc' c of
              (Some e, c') \<Rightarrow> Some (Some e, acc', c')
            | (None, c') \<Rightarrow> block_loop on fin b isended (drop (block_room b acc) data) [] c'))"

record round =
  rd_readerBuffer :: string
  rd_chunkedBuffer :: string
  rd_block :: string
  rd_recvLength :: "64 word"
  rd_contentLength :: "64 word"

text \<open>\<open>b\<close> is the query's block size.\<close>

definition procBlocks :: "(string \<Rightarrow> 'c \<Rightarrow> rv \<times> 'c) \<Rightarrow> int \<Rightarrow> string \<Rightarrow> bool \<Rightarrow> round \<times> 'c \<Rightarrow> (rv \<times> round \<times> 'c) option" where
  "procBlocks on b buffer isended st =
     (let rd = (fst st)\<lparr>rd_recvLength := rd_recvLength (fst st) + word_of_nat (length buffer)\<rparr> in
      if b = 0 then Some (let (e, c) = on buffer (snd st) in (e, rd, c))
      else do { x \<leftarrow> block_loop on on b isended buffer (rd_readerBuffer rd) (snd st);
                Some (fst x, rd\<lparr>rd_readerBuffer := fst (snd x)\<rparr>, snd (snd x)) })"

definition readLastBlocks :: "(string \<Rightarrow> 'c \<Rightarrow> rv \<times> 'c) \<Rightarrow> int \<Rightarrow> round \<times> 'c \<Rightarrow> (rv \<times> round \<times> 'c) option" where
  "readLastBlocks on b st =
     (if rd_recvLength (fst st) = rd_contentLength (fst st) then procBlocks on b [] True st
      else Some (Some (DFW_ERROR, 0), fst st, snd st))"

text \<open>At the end the chunked reader hands over what is buffered and then an empty block.\<close>

definition chunked_end :: "(string \<Rightarrow> 'c \<Rightarrow> rv \<times> 'c) \<Rightarrow> string \<Rightarrow> 'c \<Rightarrow> rv \<times> 'c" where
  "chunked_end on acc c = (case on acc c of (Some e, c') \<Rightarrow> (Some e, c') | (None, c') \<Rightarrow> on [] c')"

text \<open>The buffer is the reader's own member \<open>m_sChunkedBuffer\<close>, kept in \<open>rd_block\<close>; the round has
  another one of the same name.\<close>

definition procChunkedBlocks :: "(string \<Rightarrow> 'c \<Rightarrow> rv \<times> 'c) \<Rightarrow> int \<Rightarrow> string \<Rightarrow> bool \<Rightarrow> round \<times> 'c \<Rightarrow> (rv \<times> round \<times> 'c) option" where
  "procChunkedBlocks on b buffer isended st =
     (let rd = (fst st)\<lparr>rd_recvLength := rd_recvLength (fst st) + word_of_nat (length buffer)\<rparr> in
      if b = 0 \<and> \<not> isended then Some (let (e, c) = on buffer (snd st) in (e, rd, c))
      else do { x \<leftarrow> block_loop on (chunked_end on) b isended buffer (rd_block rd) (snd st);
                Some (fst x, rd\<lparr>rd_block := fst (snd x)\<rparr>, snd (snd x)) })"

section \<open>Chunks\<close>

text \<open>\<open>strstr\<close> on memory: it stops at a match or at a NUL, and runs out of the memory otherwise.\<close>

definition mem_strstr :: "string \<Rightarrow> string \<Rightarrow> nat option option" where
  "mem_strstr mem needle =
     (case strstr (cstr mem) needle of
        Some i \<Rightarrow> Some (Some i)
      | None \<Rightarrow> if NUL \<in> set mem then Some None else None)"

text \<open>\<open>size_t val = strtol(buf, NULL, 16)\<close>: a negative number becomes a huge one.\<close>

definition chunk_size :: "string \<Rightarrow> nat" where
  "chunk_size buf = nat (clamp64 (c_strtol16 (cstr buf)) mod 2 ^ 64)"

datatype chunk_head = HeadMissing | HeadLast | HeadTooLong | HeadPartial | HeadChunk nat nat nat

text \<open>
  The header of the chunk at \<open>buf\<close> (memory up to the end of the allocation), \<open>l_size\<close> bytes of which
  are input.  \<open>HeadChunk len val savelen\<close>: header length, data length, bytes to skip.
\<close>

definition chunk_head :: "string \<Rightarrow> nat \<Rightarrow> chunk_head option" where
  "chunk_head buf l_size =
     (if l_size = 0 then Some HeadMissing
      else do { pnt \<leftarrow> mem_strstr buf CRLF;
        case pnt of
          None \<Rightarrow> Some HeadMissing
        | Some p \<Rightarrow>
           (let val = chunk_size buf; len = p + 2; savelen = (len + val + 2) mod 2 ^ 64 in
            Some (if val = 0 \<and> take 1 buf = ''0'' then HeadLast
                  else if len > 6 then HeadTooLong
                  else if savelen > l_size then HeadPartial
                  else HeadChunk len val savelen)) })"

text \<open>
  The loop of \<open>parseChunkedBlocks\<close>.  The result: the code, how the loop was left (\<open>True\<close> for the label
  \<open>END\<close>), the bytes consumed and the state.
\<close>

partial_function (option) chunk_blocks_loop ::
  "(string \<Rightarrow> bool \<Rightarrow> 'st \<Rightarrow> (rv \<times> 'st) option) \<Rightarrow> string \<Rightarrow> nat \<Rightarrow> nat \<Rightarrow> 'st \<Rightarrow> (rv \<times> bool \<times> nat \<times> 'st) option" where
  "chunk_blocks_loop proc buf l_size r_size st =
     do { h \<leftarrow> chunk_head buf l_size;
          case h of
            HeadMissing \<Rightarrow> Some (None, True, r_size, st)
          | HeadPartial \<Rightarrow> Some (None, True, r_size, st)
          | HeadTooLong \<Rightarrow> Some (Some (DFW_E_HTTP_CHUNKED, 0), False, r_size, st)
          | HeadLast \<Rightarrow> do { x \<leftarrow> proc [] True st;
                             Some (if fst x \<noteq> None then fst x else Some (DFW_T_CHUNKED_END, 0), False, r_size, snd x) }
          | HeadChunk len val savelen \<Rightarrow>
              do { d \<leftarrow> ptr_read (Some buf) len val;
                   x \<leftarrow> proc d False st;
                   if fst x \<noteq> None then Some (fst x, False, r_size, snd x)
                   else chunk_blocks_loop proc (drop savelen buf) (l_size - savelen) (r_size + savelen) (snd x) } }"

text \<open>At \<open>END\<close> the rest is moved to the front of the memory.\<close>

definition parseChunkedBlocks ::
  "(string \<Rightarrow> bool \<Rightarrow> 'st \<Rightarrow> (rv \<times> 'st) option) \<Rightarrow> string \<Rightarrow> nat \<Rightarrow> 'st \<Rightarrow> (rv \<times> nat \<times> string \<times> 'st) option" where
  "parseChunkedBlocks proc mem t_size st =
     do { x \<leftarrow> chunk_blocks_loop proc mem t_size 0 st;
          case x of (e, atend, r_size, st') \<Rightarrow>
            if atend
            then Some (e, r_size, take (t_size - r_size) (drop r_size mem) @ drop (t_size - r_size) mem, st')
            else Some (e, 0, mem, st') }"

section \<open>Reading into a caller's buffer\<close>

text \<open>\<open>procChunkedRead\<close>: the data goes through \<open>m_sChunkedBuffer\<close>; what fits goes out.\<close>

definition procChunkedRead :: "nat \<Rightarrow> string \<Rightarrow> round \<Rightarrow> string \<times> round" where
  "procChunkedRead sz ibuffer rd =
     (if ibuffer = [] then ([], rd)
      else let cb = rd_chunkedBuffer rd @ ibuffer;
               rd = rd\<lparr>rd_recvLength := rd_recvLength rd + word_of_nat (length ibuffer)\<rparr> in
           if length cb \<le> sz then (cb, rd\<lparr>rd_chunkedBuffer := []\<rparr>)
           else (take sz cb, rd\<lparr>rd_chunkedBuffer := drop sz cb\<rparr>))"

text \<open>\<open>out\<close> is what has been written to the caller's buffer of \<open>sz\<close> bytes.\<close>

partial_function (option) chunk_read_loop ::
  "nat \<Rightarrow> string \<Rightarrow> nat \<Rightarrow> string \<Rightarrow> nat \<Rightarrow> round \<Rightarrow> (rv \<times> string \<times> nat \<times> round) option" where
  "chunk_read_loop sz buf l_size out r_size rd =
     do { h \<leftarrow> chunk_head buf l_size;
          case h of
            HeadMissing \<Rightarrow> Some (None, out, r_size, rd)
          | HeadPartial \<Rightarrow> Some (None, out, r_size, rd)
          | HeadTooLong \<Rightarrow> Some (Some (DFW_E_HTTP_CHUNKED, 0), out, r_size, rd)
          | HeadLast \<Rightarrow> Some (Some (DFW_T_CHUNKED_END, 0), out, r_size, rd)
          | HeadChunk len val savelen \<Rightarrow>
              do { d \<leftarrow> ptr_read (Some buf) len val;
                   let x = procChunkedRead (sz - length out) d rd;
                   chunk_read_loop sz (drop savelen buf) (l_size - savelen) (out @ fst x) (r_size + savelen) (snd x) } }"

definition parseChunkedRead :: "nat \<Rightarrow> string \<Rightarrow> nat \<Rightarrow> round \<Rightarrow> (rv \<times> string \<times> nat \<times> string \<times> round) option" where
  "parseChunkedRead sz mem isize rd =
     do { x \<leftarrow> chunk_read_loop sz mem isize [] 0 rd;
          case x of (e, out, r_size, rd') \<Rightarrow>
            Some (e, out, r_size, take (isize - r_size) (drop r_size mem) @ drop (isize - r_size) mem, rd') }"

section \<open>IHttpReader::read\<close>

text \<open>
  \<open>wait\<close> and \<open>recv n\<close> are the socket's \<open>wait_recv\<close> and \<open>recv\<close> (at most \<open>n\<close> bytes); \<open>out\<close> is what
  the caller's buffer holds so far.
\<close>

partial_function (option) read_loop ::
  "('s \<Rightarrow> rv \<times> 's) \<Rightarrow> (nat \<Rightarrow> 's \<Rightarrow> (rv \<times> string) \<times> 's) \<Rightarrow> nat \<Rightarrow> string \<Rightarrow> round \<Rightarrow> 's \<Rightarrow>
   (rv \<times> string \<times> round \<times> 's) option" where
  "read_loop wait recv b_size out rd sk =
     (if b_size = 0 then Some (None, out, rd, sk)
      else case wait sk of
        (Some e, sk1) \<Rightarrow> Some (Some e, out, rd, sk1)
      | (None, sk1) \<Rightarrow>
          (case recv b_size sk1 of ((e, d), sk2) \<Rightarrow>
             if e \<noteq> None \<and> d = [] then Some (e, out, rd, sk2)
             else if d \<noteq> [] then
               read_loop wait recv (b_size - length d) (out @ d)
                 (rd\<lparr>rd_recvLength := rd_recvLength rd + word_of_nat (length d)\<rparr>) sk2
             else Some (None, out, rd, sk2)))"

definition http_read ::
  "('s \<Rightarrow> rv \<times> 's) \<Rightarrow> (nat \<Rightarrow> 's \<Rightarrow> (rv \<times> string) \<times> 's) \<Rightarrow> nat \<Rightarrow> round \<Rightarrow> 's \<Rightarrow>
   (rv \<times> string \<times> round \<times> 's) option" where
  "http_read wait recv s rd sk =
     (let buf = rd_readerBuffer rd in
      if buf = [] then read_loop wait recv s [] rd sk
      else if s \<le> length buf then Some (None, take s buf, rd\<lparr>rd_readerBuffer := drop s buf\<rparr>, sk)
      else let rd = rd\<lparr>rd_readerBuffer := []\<rparr> in
           if rd_recvLength rd = rd_contentLength rd then Some (None, buf, rd, sk)
           else read_loop wait recv (s - length buf) buf rd sk)"

end
