(* ===== verification/Dfw_HttpClient.thy ===== *)
theory Dfw_HttpClient
  imports Dfw_Net Dfw_HttpBody Dfw_HttpHeader Dfw_Uri Dfw_HttpRequest
begin

text \<open>
  The client's side of a response: \<open>lib/http/HttpRound.cpp\<close> (the lines of the head), the reading part of
  \<open>lib/http/HttpConnection.cpp\<close>, and the loops \<open>readBlocks\<close> of \<open>IHttpReader.cpp\<close> and \<open>HttpChunked.cpp\<close>.
  The socket is that of \<open>Dfw_Net\<close>.  Parameters: the listener, and \<open>tparse\<close>, what \<open>Time::parse\<close> (\<open>sscanf\<close>
  and \<open>mktime\<close> of the C library) leaves in \<open>*out\<close>.  The regular expressions are written out as the
  matches PCRE documents for them.  Every round of a loop waits once, so the number of the answers to
  \<open>poll\<close> bounds it.
\<close>

section \<open>The round\<close>

text \<open>The members of \<open>HttpRound\<close> the readers share are in \<open>hr_rd\<close>.\<close>

record http_round =
  hr_majorVersion :: int
  hr_minorVersion :: int
  hr_status :: int
  hr_statusMsg :: string
  hr_contentTypeLine :: string
  hr_contentType :: string
  hr_contentSubType :: string
  hr_charset :: string
  hr_chunked :: bool
  hr_lastModified :: "64 word"
  hr_date :: "64 word"
  hr_expires :: "64 word"
  hr_keepAlive :: bool
  hr_location :: string
  hr_server :: string
  hr_useSpecialStatusCode :: bool
  hr_recvBuffer :: string
  hr_lineBuffer :: string
  hr_onRecvContents :: bool
  hr_header :: header
  hr_rd :: round

definition http_round_new :: http_round where
  "http_round_new =
     \<lparr>hr_majorVersion = 0, hr_minorVersion = 0, hr_status = 0, hr_statusMsg = [], hr_contentTypeLine = [],
      hr_contentType = [], hr_contentSubType = [], hr_charset = [], hr_chunked = False, hr_lastModified = 0, hr_date = 0,
      hr_expires = 0, hr_keepAlive = False, hr_location = [], hr_server = [], hr_useSpecialStatusCode = True,
      hr_recvBuffer = [], hr_lineBuffer = [], hr_onRecvContents = True, hr_header = arr_init,
      hr_rd = \<lparr>rd_readerBuffer = [], rd_chunkedBuffer = [], rd_block = [], rd_recvLength = 0, rd_contentLength = 0\<rparr>\<rparr>"

section \<open>Lines\<close>

definition round_readLine :: "http_round \<Rightarrow> rv \<times> http_round" where
  "round_readLine r =
     (let r = r\<lparr>hr_lineBuffer := []\<rparr> in
      if hr_recvBuffer r = [] then (Some (DFW_ERROR, 0), r)
      else case strstr (cstr (hr_recvBuffer r)) CRLF of
        None \<Rightarrow> (Some (DFW_ERROR, 0), r)
      | Some n \<Rightarrow> (None, r\<lparr>hr_lineBuffer := take n (hr_recvBuffer r), hr_recvBuffer := drop (n + 2) (hr_recvBuffer r)\<rparr>))"

text \<open>\<open>^HTTP/([0-9]+)\.([0-9]+) ([0-9]+)\<close>: the groups and the length of the match.\<close>

definition re_status :: "string \<Rightarrow> (string \<times> string \<times> string \<times> nat) option" where
  "re_status s =
     (if \<not> prefix ''HTTP/'' s then None
      else let s1 = drop 5 s; a = takeWhile c_isdigit s1; s2 = drop (length a) s1 in
           if a = [] \<or> take 1 s2 \<noteq> ''.'' then None
           else let s3 = drop 1 s2; b = takeWhile c_isdigit s3; s4 = drop (length b) s3 in
                if b = [] \<or> take 1 s4 \<noteq> '' '' then None
                else let c = takeWhile c_isdigit (drop 1 s4) in
                     if c = [] then None else Some (a, b, c, 7 + length a + length b + length c))"

definition parseStatusLine :: "http_round \<Rightarrow> (rv \<times> http_round) option" where
  "parseStatusLine r =
     (let line = hr_lineBuffer r in
      if line = [] then Some (Some (DFW_E_INVAL, 0), r)
      else case re_status (cstr line) of
        None \<Rightarrow> Some (Some (DFW_E_REGEXP_NOT_MATCH, 0), r)
      | Some (m1, m2, m3, n) \<Rightarrow>
          do { r_maj \<leftarrow> getMatchString line 1 m1;
               r_min \<leftarrow> getMatchString line 2 m2;
               r_status \<leftarrow> getMatchString line 3 m3;
               Some (None, r\<lparr>hr_majorVersion := parseInt (chars r_maj) 0, hr_minorVersion := parseInt (chars r_min) 0,
                             hr_status := parseInt (chars r_status) 0, hr_statusMsg := cstr (drop n line)\<rparr>) })"

section \<open>Content types\<close>

definition c_isalnum :: "char \<Rightarrow> bool" where
  "c_isalnum c \<longleftrightarrow> c_isdigit c \<or> c_isupper c \<or> c_islower c"

definition charset_char :: "char \<Rightarrow> bool" where
  "charset_char c \<longleftrightarrow> c_isalnum c \<or> c_isspace c \<or> c = CHR ''-'' \<or> c = CHR ''_'' \<or> c = DQUOTE \<or> c = CHR 0x27"

text \<open>A word between blanks, with the rest; then the character \<open>c\<close>.\<close>

definition blank_word :: "string \<Rightarrow> string \<times> string" where
  "blank_word s = (let s1 = dropWhile c_isspace s; a = takeWhile c_isalnum s1 in
     (a, dropWhile c_isspace (drop (length a) s1)))"

text \<open>\<open>^[\s]*([a-zA-Z0-9]*)[\s]*/[\s]*([a-zA-Z0-9]*)[\s]*;[\s]*([a-zA-Z0-9]*)[\s]*=([a-zA-Z0-9-_"'\s]*)\<close>.\<close>

definition re_ctype_param :: "string \<Rightarrow> (string \<times> string \<times> string \<times> string) option" where
  "re_ctype_param s =
     (let (a, s1) = blank_word s in
      if take 1 s1 \<noteq> ''/'' then None
      else let (b, s2) = blank_word (drop 1 s1) in
           if take 1 s2 \<noteq> '';'' then None
           else let (c, s3) = blank_word (drop 1 s2) in
                if take 1 s3 \<noteq> ''='' then None else Some (a, b, c, takeWhile charset_char (drop 1 s3)))"

text \<open>\<open>^[\s]*([a-zA-Z0-9]*)/([a-zA-Z0-9]*)[\s]*\<close>.\<close>

definition re_ctype :: "string \<Rightarrow> (string \<times> string) option" where
  "re_ctype s =
     (let s1 = dropWhile c_isspace s; a = takeWhile c_isalnum s1; s2 = drop (length a) s1 in
      if take 1 s2 \<noteq> ''/'' then None else Some (a, takeWhile c_isalnum (drop 1 s2)))"

definition parseContentType :: "string \<Rightarrow> http_round \<Rightarrow> http_round option" where
  "parseContentType str r =
     (let r = r\<lparr>hr_contentTypeLine := cstr str\<rparr>; str = cstr str in
      if str = [] then Some r
      else case re_ctype_param str of
        Some (m1, m2, m3, m4) \<Rightarrow>
          do { t \<leftarrow> getMatchString str 1 m1;
               st \<leftarrow> getMatchString str 2 m2;
               ctype \<leftarrow> getMatchString str 3 m3;
               cs \<leftarrow> getMatchString str 4 m4;
               Some (r\<lparr>hr_contentType := t, hr_contentSubType := st, hr_charset := cs\<rparr>) }
      | None \<Rightarrow>
          (case re_ctype str of
             Some (m1, m2) \<Rightarrow>
               do { t \<leftarrow> getMatchString str 1 m1;
                    st \<leftarrow> getMatchString str 2 m2;
                    Some (r\<lparr>hr_contentType := t, hr_contentSubType := st\<rparr>) }
           | None \<Rightarrow> Some r))"

section \<open>Header lines\<close>

text \<open>\<open>Time::parse\<close> on an empty value hands NULL to \<open>sscanf\<close>.\<close>

definition time_member :: "('t \<Rightarrow> string \<Rightarrow> 't) \<Rightarrow> string \<Rightarrow> 't \<Rightarrow> 't option" where
  "time_member tparse value old = (if value = [] then None else Some (tparse old value))"

definition patchHeader :: "(64 word \<Rightarrow> string \<Rightarrow> 64 word) \<Rightarrow> string \<Rightarrow> string \<Rightarrow> http_round \<Rightarrow> http_round option" where
  "patchHeader tparse name value r =
     (if text_equals name ''Transfer-Encoding''
      then Some (if text_equals value ''chunked'' then r\<lparr>hr_chunked := True\<rparr> else r)
      else if text_equals name ''Content-Type'' then parseContentType value r
      else if text_equals name ''Last-Modified''
      then do { t \<leftarrow> time_member tparse value (hr_lastModified r); Some (r\<lparr>hr_lastModified := t\<rparr>) }
      else if text_equals name ''Date''
      then do { t \<leftarrow> time_member tparse value (hr_date r); Some (r\<lparr>hr_date := t\<rparr>) }
      else if text_equals name ''Expires''
      then do { t \<leftarrow> time_member tparse value (hr_expires r); Some (r\<lparr>hr_expires := t\<rparr>) }
      else if text_equals name ''Connection'' then Some (r\<lparr>hr_keepAlive := text_equals value ''Keep-Alive''\<rparr>)
      else if text_equals name ''Keep-Alive'' then Some r
      else if text_equals name ''Content-Length''
      then Some (r\<lparr>hr_rd := (hr_rd r)\<lparr>rd_contentLength := word_of_int (parseLong (chars value) 0)\<rparr>\<rparr>)
      else if text_equals name ''Location'' then Some (r\<lparr>hr_location := value\<rparr>)
      else if text_equals name ''Server'' then Some (r\<lparr>hr_server := value\<rparr>)
      else Some r)"

text \<open>The value is taken from the second character behind the colon.\<close>

definition parseHeaderLine :: "(64 word \<Rightarrow> string \<Rightarrow> 64 word) \<Rightarrow> http_round \<Rightarrow> (rv \<times> http_round) option" where
  "parseHeaderLine tparse r =
     (let line = hr_lineBuffer r in
      if line = [] then None
      else case strstr (cstr line) '':'' of
        None \<Rightarrow> Some (Some (DFW_ERROR, 0), r)
      | Some depth \<Rightarrow>
          (let name = take depth line;
               value = (if length line > depth + 1 then cstr (drop (depth + 2) line) else []) in
           do { r \<leftarrow> patchHeader tparse name value r;
                a \<leftarrow> appendHeader heap_ok (chars name) (chars value) (hr_header r);
                Some (None, r\<lparr>hr_header := snd a\<rparr>) }))"

section \<open>What recv leaves of the socket\<close>

lemma recv_loop_polls:
  "recv_loop False n d s = (e, d', s') \<Longrightarrow> sk_polls s' = sk_polls s \<and> sk_stop s' = sk_stop s \<and> length (sk_recvs s') \<le> length (sk_recvs s)"
proof (induction False n d s arbitrary: e d' s' rule: recv_loop.induct)
  case (1 n d s)
  show ?case
  proof (cases "n = 0 \<or> sk_stop s \<or> sk_recvs s = []")
    case True
    with "1.prems" show ?thesis by (subst (asm) recv_loop.simps) (auto simp: sys_error_def Let_def split: if_splits)
  next
    case False
    then obtain x xs where x: "sk_recvs s = x # xs" "n \<noteq> 0" "\<not> sk_stop s" by (cases "sk_recvs s") auto
    show ?thesis
    proof (cases x)
      case (SysErr er)
      with "1.prems" x have "s' = s\<lparr>sk_recvs := xs\<rparr>"
        by (subst (asm) recv_loop.simps) (auto simp: sys_error_def Let_def split: if_splits)
      with x show ?thesis by simp
    next
      case (SysRet m)
      let ?s = "s\<lparr>sk_recvs := xs\<rparr>" and ?d = "take (min m n) (sk_in s)"
      show ?thesis
      proof (cases "?d = []")
        case True
        with "1.prems" x SysRet have "s' = ?s"
          by (subst (asm) recv_loop.simps) (simp add: Let_def del: take_eq_Nil take_eq_Nil2)
        with x show ?thesis by simp
      next
        case no: False
        let ?s' = "?s\<lparr>sk_in := drop (length ?d) (sk_in ?s)\<rparr>"
        from "1.prems" x SysRet no have "recv_loop False (n - length ?d) (d @ ?d) ?s' = (e, d', s')"
          by (subst (asm) recv_loop.simps) (simp add: Let_def)
        from "1.hyps"(2)[OF x(2,3) x(1) SysRet refl _ _ this] no x(1) show ?thesis by simp
      qed
    qed
  qed
qed

lemma wait_recv_less: "wait_recv s = (None, s') \<Longrightarrow> length (sk_polls s') < length (sk_polls s)"
  using wait_frame[of False s None s'] by auto

lemma recv_raw_polls: "recv_raw False n s = (e, d, s') \<Longrightarrow> sk_polls s' = sk_polls s"
  using recv_loop_polls[of n "[]" s e d s'] by (simp add: recv_raw_def)

lemmas recv_step_less = wait_recv_less recv_raw_polls

section \<open>Reading a line from the connection\<close>

abbreviation (input) LINE_MAX :: nat where "LINE_MAX \<equiv> 51200"

text \<open>\<open>buf\<close> is what has been received since the call.  A \<open>recv\<close> that fills the buffer returns no code at
  all, and that is taken for an error.\<close>

function line_loop :: "string \<Rightarrow> http_round \<Rightarrow> 'a sock_scheme \<Rightarrow> rv \<times> http_round \<times> 'a sock_scheme" where
  "line_loop buf r s =
     (case wait_recv s of
        (Some e, s1) \<Rightarrow> (Some e, r, s1)
      | (None, s1) \<Rightarrow>
         (case recv_raw False (LINE_MAX - length buf) s1 of
            (None, _, s2) \<Rightarrow> (Some (DFW_ERROR, 0), r, s2)
          | (Some (status, eno), d, s2) \<Rightarrow>
              if status \<noteq> 0 \<and> status \<noteq> DFW_E_AGAIN \<and> status \<noteq> DFW_E_DISCONNECT then (Some (status, eno), r, s2)
              else if d = [] \<and> status = DFW_E_AGAIN then line_loop buf r s2
              else if status = DFW_E_DISCONNECT then (Some (DFW_E_DISCONNECT, 0), r, s2)
              else if strstr (cstr (buf @ d)) CRLF = None then line_loop (buf @ d) r s2
              else (let (e, r) = round_readLine (r\<lparr>hr_recvBuffer := hr_recvBuffer r @ buf @ d\<rparr>) in (e, r, s2))))"
  by pat_completeness auto
termination
  by (relation "measure (\<lambda>(b, r, s). length (sk_polls s))") (auto dest!: recv_step_less[OF sym] recv_raw_polls[OF sym])

declare line_loop.simps [simp del]

definition conn_readLine :: "http_round \<Rightarrow> 'a sock_scheme \<Rightarrow> rv \<times> http_round \<times> 'a sock_scheme" where
  "conn_readLine r s =
     (case round_readLine r of (None, r) \<Rightarrow> (None, r, s) | (Some e, r) \<Rightarrow> line_loop [] r s)"

section \<open>The head of a response\<close>

lemma line_loop_less: "line_loop buf r s = (e, r', s') \<Longrightarrow> e = None \<Longrightarrow> length (sk_polls s') < length (sk_polls s)"
proof (induction buf r s arbitrary: e r' s' rule: line_loop.induct)
  case (1 buf r s)
  obtain w s1 where w: "wait_recv s = (w, s1)" by (cases "wait_recv s")
  obtain x d s2 where x: "recv_raw False (LINE_MAX - length buf) s1 = (x, d, s2)" by (cases "recv_raw False (LINE_MAX - length buf) s1")
  show ?case
  proof (cases "w = None \<and> x \<noteq> None")
    case True
    then obtain status eno where st: "x = Some (status, eno)" "w = None" by auto
    from w st(2) have less: "length (sk_polls s1) < length (sk_polls s)" "sk_polls s2 = sk_polls s1"
      using wait_recv_less recv_raw_polls[OF x] by auto
    note ih = "1.IH"[OF w[symmetric] st(2) x[symmetric] st(1) refl]
    from "1.prems"(1) have "(if status \<noteq> 0 \<and> status \<noteq> DFW_E_AGAIN \<and> status \<noteq> DFW_E_DISCONNECT then (Some (status, eno), r, s2)
              else if d = [] \<and> status = DFW_E_AGAIN then line_loop buf r s2
              else if status = DFW_E_DISCONNECT then (Some (DFW_E_DISCONNECT, 0), r, s2)
              else if strstr (cstr (buf @ d)) CRLF = None then line_loop (buf @ d) r s2
              else (let (e, r) = round_readLine (r\<lparr>hr_recvBuffer := hr_recvBuffer r @ buf @ d\<rparr>) in (e, r, s2))) = (e, r', s')"
      by (subst (asm) line_loop.simps) (simp only: w x st prod.case option.case)
    then show ?thesis using ih "1.prems"(2) less by (fastforce split: if_split_asm prod.splits)
  next
    case False
    then show ?thesis using "1.prems" w x by (subst (asm) line_loop.simps) (auto split: option.splits)
  qed
qed

lemma round_readLine_less:
  assumes "round_readLine r = (e, r')"
  shows "length (hr_recvBuffer r') \<le> length (hr_recvBuffer r)"
    and "e = None \<Longrightarrow> length (hr_recvBuffer r') < length (hr_recvBuffer r)"
  using assms by (auto simp: round_readLine_def Let_def split: if_splits option.splits)

definition head_measure :: "(http_round \<times> 'a sock_scheme) rel" where
  "head_measure = measures [\<lambda>(r, s). length (sk_polls s), \<lambda>(r, s). length (hr_recvBuffer r)]"

lemma conn_readLine_less:
  assumes "conn_readLine r s = (None, r', s')"
  shows "((r', s'), (r, s)) \<in> head_measure"
proof -
  obtain e r1 where r1: "round_readLine r = (e, r1)" by (cases "round_readLine r")
  then show ?thesis using assms round_readLine_less[OF r1] line_loop_less[of "[]" r1 s None r' s']
    by (cases e) (auto simp: conn_readLine_def head_measure_def)
qed

lemma patchHeader_recv: "patchHeader tparse n v r = Some r' \<Longrightarrow> hr_recvBuffer r' = hr_recvBuffer r"
  by (auto simp: patchHeader_def parseContentType_def Let_def bind_eq_Some_conv split: if_splits option.splits)

lemma parseHeaderLine_recv: "parseHeaderLine tparse r = Some (e, r') \<Longrightarrow> hr_recvBuffer r' = hr_recvBuffer r"
  by (auto simp: parseHeaderLine_def Let_def bind_eq_Some_conv dest: patchHeader_recv split: if_splits option.splits)

text \<open>What \<open>parseHeaderLine\<close> returns is not looked at; the loop has no way out to the lines behind it,
  which would choose a character set.\<close>

function readResponseHeader ::
  "(64 word \<Rightarrow> string \<Rightarrow> 64 word) \<Rightarrow> http_round \<Rightarrow> 'a sock_scheme \<Rightarrow> (rv \<times> http_round \<times> 'a sock_scheme) option" where
  "readResponseHeader tparse r s =
     (case conn_readLine r s of
        (Some e, r1, s1) \<Rightarrow> Some (Some e, r1, s1)
      | (None, r1, s1) \<Rightarrow>
          if hr_lineBuffer r1 = [] then Some (None, r1, s1)
          else (case parseHeaderLine tparse r1 of
                  None \<Rightarrow> None
                | Some (_, r2) \<Rightarrow> readResponseHeader tparse r2 s1))"
  by pat_completeness auto
termination
  by (relation "inv_image head_measure snd")
    (auto simp: head_measure_def dest!: conn_readLine_less[OF sym] parseHeaderLine_recv)

declare readResponseHeader.simps [simp del]

section \<open>The listener\<close>

record 'c listener =
  ls_status :: "int \<Rightarrow> 'c \<Rightarrow> rv \<times> 'c"
  ls_response :: "string \<Rightarrow> 'c \<Rightarrow> rv \<times> 'c"
  ls_complete :: "'c \<Rightarrow> rv \<times> 'c"
  ls_error :: "rv \<Rightarrow> 'c \<Rightarrow> rv \<times> 'c"

text \<open>\<open>HttpConnection::onResponse\<close>; the reading buffer of \<open>HttpQuery::onResponse\<close> is never set.\<close>

definition conn_onResponse :: "bool \<Rightarrow> 'c listener option \<Rightarrow> string \<Rightarrow> 'c \<Rightarrow> rv \<times> 'c" where
  "conn_onResponse onRecv lst b c =
     (if \<not> onRecv then (None, c)
      else case lst of None \<Rightarrow> (None, c) | Some l \<Rightarrow> ls_response l b c)"

definition special_status :: "int \<Rightarrow> bool" where
  "special_status st \<longleftrightarrow> st \<in> {100, 101, 102, 300, 301, 302, 303, 305, 307, 308, 401}"

definition call_status :: "'c listener option \<Rightarrow> http_round \<Rightarrow> 'c \<Rightarrow> rv \<times> 'c" where
  "call_status lst r c =
     (case lst of
        None \<Rightarrow> (None, c)
      | Some l \<Rightarrow> if hr_useSpecialStatusCode r \<and> special_status (hr_status r) then (None, c)
                  else ls_status l (hr_status r) c)"

definition readStatusAndHeader ::
  "(64 word \<Rightarrow> string \<Rightarrow> 64 word) \<Rightarrow> 'c listener option \<Rightarrow> http_round \<Rightarrow> 'c \<Rightarrow> 'a sock_scheme \<Rightarrow>
   (rv \<times> http_round \<times> 'c \<times> 'a sock_scheme) option" where
  "readStatusAndHeader tparse lst r c s =
     (case conn_readLine r s of
        (Some e, r, s) \<Rightarrow> Some (Some e, r, c, s)
      | (None, r, s) \<Rightarrow>
          do { x \<leftarrow> parseStatusLine r;
               if fst x \<noteq> None then Some (fst x, snd x, c, s)
               else do { y \<leftarrow> readResponseHeader tparse (snd x) s;
                         case y of (e, r, s) \<Rightarrow>
                           Some (if e \<noteq> None then (e, r, c, s)
                                 else let (e, c) = call_status lst r c in (e, r, c, s)) } })"

section \<open>The contents in blocks\<close>

text \<open>\<open>reset\<close> hands the reader what has been received behind the head.  A reader's own chunk buffer is empty.\<close>

definition reader_reset :: "http_round \<Rightarrow> http_round" where
  "reader_reset r =
     (let rd = (hr_rd r)\<lparr>rd_block := []\<rparr> in
      if rd_recvLength rd = 0
      then r\<lparr>hr_rd := rd\<lparr>rd_recvLength := word_of_nat (length (hr_recvBuffer r)), rd_readerBuffer := hr_recvBuffer r\<rparr>, hr_recvBuffer := []\<rparr>
      else r\<lparr>hr_rd := rd\<rparr>)"

abbreviation (input) HTTPSOCKET_MAX :: nat where "HTTPSOCKET_MAX \<equiv> 61440"
abbreviation (input) HTTPSOCKET_MAX2 :: nat where "HTTPSOCKET_MAX2 \<equiv> 61472"

text \<open>The loop of \<open>IHttpReader::readBlocks\<close>.  The variable \<open>retval\<close> is reused: behind \<open>procBlocks\<close> it holds
  what \<open>readLastBlocks\<close> returned, no longer what \<open>recv\<close> did.\<close>

function read_blocks_loop ::
  "(string \<Rightarrow> 'c \<Rightarrow> rv \<times> 'c) \<Rightarrow> int \<Rightarrow> round \<times> 'c \<Rightarrow> 'a sock_scheme \<Rightarrow> (rv \<times> (round \<times> 'c) \<times> 'a sock_scheme) option" where
  "read_blocks_loop on b st s =
     (case wait_recv s of
        (Some e, s1) \<Rightarrow> Some (Some e, st, s1)
      | (None, s1) \<Rightarrow>
         (case recv_raw False HTTPSOCKET_MAX s1 of (e, d, s2) \<Rightarrow>
            if e \<noteq> None \<and> fst (the e) \<noteq> DFW_E_AGAIN \<and> fst (the e) \<noteq> DFW_E_DISCONNECT
            then map_option (\<lambda>(e', st'). (e', st', s2)) (readLastBlocks on b st)
            else if d = [] \<and> e \<noteq> None \<and> fst (the e) = DFW_E_AGAIN
            then (case readLastBlocks on b st of
                    None \<Rightarrow> None
                  | Some (e', st') \<Rightarrow> if e' = None then Some (None, st', s2) else read_blocks_loop on b st' s2)
            else if d \<noteq> []
            then (case procBlocks on b d False st of
                    None \<Rightarrow> None
                  | Some (e1, st1) \<Rightarrow>
                      if e1 \<noteq> None then Some (e1, st1, s2)
                      else (case readLastBlocks on b st1 of
                              None \<Rightarrow> None
                            | Some (e2, st2) \<Rightarrow>
                                if e2 = None then Some (None, st2, s2)
                                else if fst (the e2) = DFW_E_DISCONNECT then Some (e2, st2, s2)
                                else read_blocks_loop on b st2 s2))
            else if e \<noteq> None \<and> fst (the e) = DFW_E_DISCONNECT then Some (e, st, s2)
            else read_blocks_loop on b st s2))"
  by pat_completeness auto
termination
  by (relation "measure (\<lambda>(on, b, st, s). length (sk_polls s))") (auto dest!: recv_step_less[OF sym] recv_raw_polls[OF sym])

declare read_blocks_loop.simps [simp del]

definition reader_readBlocks ::
  "(string \<Rightarrow> 'c \<Rightarrow> rv \<times> 'c) \<Rightarrow> int \<Rightarrow> round \<times> 'c \<Rightarrow> 'a sock_scheme \<Rightarrow> (rv \<times> (round \<times> 'c) \<times> 'a sock_scheme) option" where
  "reader_readBlocks on b st s =
     do { x \<leftarrow> readLastBlocks on b st;
          if fst x = None then Some (None, snd x, s) else read_blocks_loop on b (snd x) s }"

section \<open>Chunked contents\<close>

text \<open>The buffer is an array on the stack, not initialised: \<open>junk\<close>, \<open>HTTPSOCKET_MAX2\<close> bytes.  A write behind it
  is a fault.\<close>

definition stack_write :: "nat \<Rightarrow> string \<Rightarrow> string \<Rightarrow> string option" where
  "stack_write off d mem =
     (if off + length d \<le> length mem then Some (take off mem @ d @ drop (off + length d) mem) else None)"

text \<open>What is left from the head goes first.  The result: a code that ends it all, or the buffer, how much of it counts
  and the room in it.\<close>

partial_function (option) chunked_rest ::
  "(string \<Rightarrow> bool \<Rightarrow> round \<times> 'c \<Rightarrow> (rv \<times> round \<times> 'c) option) \<Rightarrow> string \<Rightarrow> nat \<Rightarrow> nat \<Rightarrow> round \<times> 'c \<Rightarrow>
   (rv \<times> (string \<times> nat \<times> nat) \<times> round \<times> 'c) option" where
  "chunked_rest proc mem offset sz st =
     (let p = rd_readerBuffer (fst st); r_size = (if length p > sz then sz else length p); last = (\<not> length p > sz) in
      if p = [] then Some (None, (mem, offset, sz), st)
      else do { mem \<leftarrow> stack_write offset (take r_size p) mem;
                x \<leftarrow> parseChunkedBlocks proc mem (offset + r_size) ((fst st)\<lparr>rd_readerBuffer := drop r_size p\<rparr>, snd st);
                case x of (e, o_size, mem, st) \<Rightarrow>
                  if e \<noteq> None then Some (e, (mem, offset + r_size, sz), st)
                  else (let offset = offset + r_size - o_size; sz = HTTPSOCKET_MAX - offset in
                        if last then Some (None, (mem, offset, sz), st)
                        else chunked_rest proc mem offset sz st) })"

text \<open>Behind the parser the room is computed from what has been consumed, not from what is still in the buffer.\<close>

definition next_room :: "nat \<Rightarrow> nat" where
  "next_room o_size = nat ((int HTTPSOCKET_MAX - int o_size) mod 2 ^ 64)"

function chunked_loop ::
  "(string \<Rightarrow> bool \<Rightarrow> 'st \<Rightarrow> (rv \<times> 'st) option) \<Rightarrow> string \<Rightarrow> nat \<Rightarrow> nat \<Rightarrow> 'st \<Rightarrow> 'a sock_scheme \<Rightarrow>
   (rv \<times> 'st \<times> 'a sock_scheme) option" where
  "chunked_loop proc mem offset sz st s =
     (case wait_recv s of
        (Some e, s1) \<Rightarrow> Some (Some e, st, s1)
      | (None, s1) \<Rightarrow>
         (case (if sz > 0 then recv_raw False sz s1 else (None, [], s1)) of (e, d, s2) \<Rightarrow>
            (case stack_write offset d mem of
               None \<Rightarrow> None
             | Some mem1 \<Rightarrow>
                 (let status = (case e of None \<Rightarrow> 0 | Some (code, _) \<Rightarrow> code) in
                  if status \<noteq> 0 \<and> status \<noteq> DFW_E_AGAIN \<and> status \<noteq> DFW_E_DISCONNECT then Some (e, st, s2)
                  else if status = DFW_E_AGAIN \<and> d = [] then chunked_loop proc mem1 offset sz st s2
                  else (case parseChunkedBlocks proc mem1 (offset + length d) st of
                          None \<Rightarrow> None
                        | Some (ps, o_size, mem2, st2) \<Rightarrow>
                            if ps \<noteq> None then Some (ps, st2, s2)
                            else if status = DFW_E_DISCONNECT then Some (e, st2, s2)
                            else chunked_loop proc mem2 (offset + length d - o_size) (next_room o_size) st2 s2)))))"
  by pat_completeness auto
termination
  by (relation "measure (\<lambda>(p, m, off, sz, st, s). length (sk_polls s))")
    (auto dest!: recv_step_less[OF sym] recv_raw_polls[OF sym] split: if_splits)

declare chunked_loop.simps [simp del]

definition chunked_readBlocks ::
  "string \<Rightarrow> (string \<Rightarrow> 'c \<Rightarrow> rv \<times> 'c) \<Rightarrow> int \<Rightarrow> round \<times> 'c \<Rightarrow> 'a sock_scheme \<Rightarrow> (rv \<times> (round \<times> 'c) \<times> 'a sock_scheme) option" where
  "chunked_readBlocks junk on b st s =
     do { x \<leftarrow> chunked_rest (procChunkedBlocks on b) junk 0 HTTPSOCKET_MAX st;
          case x of (e, (mem, offset, sz), st) \<Rightarrow>
            if e \<noteq> None then Some (e, st, s) else chunked_loop (procChunkedBlocks on b) mem offset sz st s }"

section \<open>A response\<close>

text \<open>\<open>method\<close> and \<open>b\<close> are the query's method and block size; \<open>strlen\<close> of an empty method reads NULL.\<close>

definition response_real ::
  "string \<Rightarrow> string \<Rightarrow> int \<Rightarrow> 'c listener option \<Rightarrow> http_round \<Rightarrow> 'c \<Rightarrow> 'a sock_scheme \<Rightarrow>
   (rv \<times> http_round \<times> 'c \<times> 'a sock_scheme) option" where
  "response_real junk method b lst r c s =
     (if method = [] then None
      else if cstr method = ''HEAD'' then Some (None, r, c, s)
      else if hr_chunked r then
        (let r = reader_reset r in
         do { x \<leftarrow> chunked_readBlocks junk (conn_onResponse (hr_onRecvContents r) lst) b (hr_rd r, c) s;
              case x of (e, (rd, c), s) \<Rightarrow>
                Some (if map_option fst e = Some DFW_T_CHUNKED_END then None else e, r\<lparr>hr_rd := rd\<rparr>, c, s) })
      else if rd_contentLength (hr_rd r) = 0 then Some (None, r, c, s)
      else
        (let r = reader_reset r in
         do { x \<leftarrow> reader_readBlocks (conn_onResponse (hr_onRecvContents r) lst) b (hr_rd r, c) s;
              case x of (e, (rd, c), s) \<Rightarrow> Some (e, r\<lparr>hr_rd := rd\<rparr>, c, s) }))"

definition conn_response ::
  "string \<Rightarrow> string \<Rightarrow> int \<Rightarrow> 'c listener option \<Rightarrow> bool \<Rightarrow> http_round \<Rightarrow> 'c \<Rightarrow> 'a sock_scheme \<Rightarrow>
   (rv \<times> http_round \<times> 'c \<times> 'a sock_scheme) option" where
  "conn_response junk method b lst bComplete r c s =
     do { x \<leftarrow> response_real junk method b lst (r\<lparr>hr_onRecvContents := bComplete\<rparr>) c s;
          case x of (e, r, c, s) \<Rightarrow>
            Some (if e \<noteq> None
                  then (if map_option fst e = Some DFW_T_CHUNKED_END then (None, r, c, s)
                        else (e, r, (case lst of None \<Rightarrow> c | Some l \<Rightarrow> snd (ls_error l e c)), s))
                  else if bComplete
                  then (case lst of None \<Rightarrow> (None, r, c, s) | Some l \<Rightarrow> (let (e, c) = ls_complete l c in (e, r, c, s)))
                  else (None, r, c, s)) }"

end
