(* ===== verification/Dfw_HttpBody_Spec.thy ===== *)
theory Dfw_HttpBody_Spec
  imports Dfw_HttpBody
begin

text \<open>
  The readers of response contents: regrouping keeps the bytes, the chunk parser inverts the chunked
  coding, and the ways in which a server can make them fail.
\<close>

section \<open>Blocks\<close>

text \<open>A listener that collects its blocks.\<close>

definition collect :: "string \<Rightarrow> string list \<Rightarrow> rv \<times> string list" where
  "collect d c = (None, c @ [d])"

lemma block_room_pos:
  "0 < b \<Longrightarrow> b < 2 ^ 63 \<Longrightarrow> int (length acc) < b \<Longrightarrow> block_room b acc = nat b - length acc"
  by (simp add: block_room_def nat_diff_distrib)

lemma block_loop_end:
  assumes "0 < b" "b < 2 ^ 63" "int (length acc) < b"
  shows "block_loop on fin b True [] acc c =
    (case fin acc c of (Some e, c') \<Rightarrow> Some (Some e, acc, c') | (None, c') \<Rightarrow> Some (None, [], c'))"
proof -
  have "length ([]::string) < block_room b acc" unfolding block_room_pos[OF assms] using assms(3) by simp
  then show ?thesis by (subst block_loop.simps) simp
qed

text \<open>A listener that accepts every block and notes it: what the properties need of one.\<close>

locale block_log =
  fixes on :: "string \<Rightarrow> 'e list \<Rightarrow> rv \<times> 'e list"
    and ev :: "string \<Rightarrow> 'e"
  assumes on_logs: "on d c = (None, c @ [ev d])"
begin

lemma block_loop_log:
  assumes b: "0 < b" "b < 2 ^ 63"
  shows "int (length acc) < b \<Longrightarrow>
    \<exists>acc' bs. block_loop on fin b False data acc c = Some (None, acc', c @ map ev bs) \<and>
      concat bs @ acc' = acc @ data \<and> int (length acc') < b \<and> (\<forall>x\<in>set bs. int (length x) = b)"
proof (induction "length data" arbitrary: data acc c rule: less_induct)
  case less
  have r: "block_room b acc = nat b - length acc" using block_room_pos[OF b less.prems] .
  show ?case
  proof (cases "length data < block_room b acc")
    case True
    then have "block_loop on fin b False data acc c = Some (None, acc @ data, c)"
      by (subst block_loop.simps) simp
    moreover have "int (length (acc @ data)) < b" using True r by simp
    ultimately show ?thesis by (intro exI[of _ "acc @ data"] exI[of _ "[]"]) simp
  next
    case False
    let ?x = "acc @ take (block_room b acc) data" and ?d = "drop (block_room b acc) data"
    have "block_loop on fin b False data acc c = block_loop on fin b False ?d [] (c @ [ev ?x])"
      using False by (subst block_loop.simps) (simp add: on_logs Let_def)
    moreover have "length ?d < length data" using False r less.prems by simp
    then obtain acc' bs where "block_loop on fin b False ?d [] (c @ [ev ?x]) = Some (None, acc', (c @ [ev ?x]) @ map ev bs)"
      "concat bs @ acc' = ?d" "int (length acc') < b" "\<forall>x\<in>set bs. int (length x) = b"
      using less.hyps[of ?d "[]" "c @ [ev ?x]"] b(1) by auto
    moreover have "int (length ?x) = b" using False r less.prems by simp
    ultimately show ?thesis by (intro exI[of _ acc'] exI[of _ "?x # bs"]) simp
  qed
qed

end

interpretation coll: block_log collect id
  by unfold_locales (simp add: collect_def)

text \<open>With block size 0 and nothing buffered the final call of the chunked reader has no room and no data:
  it hands over empty blocks for ever.\<close>

lemma block_loop_zero_diverges:
  assumes "\<And>d c. fst (on d c) = None"
  shows "block_loop on fin 0 True [] [] c = None"
proof (rule ccontr)
  assume "block_loop on fin 0 True [] [] c \<noteq> None"
  then obtain r where r: "block_loop on fin 0 True [] [] c = Some r" by auto
  have "\<not> ((\<forall>d c. fst (on d c) = None) \<and> (0::int) = 0 \<and> True \<and> [] = ([]::string) \<and> [] = ([]::string))"
  proof (rule block_loop.raw_induct[where P = "\<lambda>on fin b e data acc c r.
      \<not> ((\<forall>d c. fst (on d c) = None) \<and> b = 0 \<and> e \<and> data = [] \<and> acc = [])", OF _ r])
    fix f :: "(string \<Rightarrow> 'a \<Rightarrow> rv \<times> 'a) \<Rightarrow> (string \<Rightarrow> 'a \<Rightarrow> rv \<times> 'a) \<Rightarrow> int \<Rightarrow> bool \<Rightarrow> string \<Rightarrow> string \<Rightarrow> 'a \<Rightarrow>
      (rv \<times> string \<times> 'a) option"
    fix on :: "string \<Rightarrow> 'a \<Rightarrow> rv \<times> 'a" and fin :: "string \<Rightarrow> 'a \<Rightarrow> rv \<times> 'a" and b e data acc c r
    assume IH: "\<And>on fin b e data acc c r. f on fin b e data acc c = Some r \<Longrightarrow>
        \<not> ((\<forall>d c. fst (on d c) = None) \<and> b = 0 \<and> e \<and> data = [] \<and> acc = [])"
    assume eq: "(if block_room b acc > length data then
          (if e then (case fin acc c of (Some e, c') \<Rightarrow> Some (Some e, acc, c') | (None, c') \<Rightarrow> Some (None, [], c'))
           else Some (None, acc @ data, c))
        else (let acc' = acc @ take (block_room b acc) data in
              case on acc' c of
                (Some e, c') \<Rightarrow> Some (Some e, acc', c')
              | (None, c') \<Rightarrow> f on fin b e (drop (block_room b acc) data) [] c')) = Some r"
    show "\<not> ((\<forall>d c. fst (on d c) = None) \<and> b = 0 \<and> e \<and> data = [] \<and> acc = [])"
    proof
      assume h: "(\<forall>d c. fst (on d c) = None) \<and> b = 0 \<and> e \<and> data = [] \<and> acc = []"
      obtain c' where "on [] c = (None, c')" using h by (metis prod.collapse)
      with eq h have "f on fin b e [] [] c' = Some r" by (simp add: block_room_def)
      with IH h show False by blast
    qed
  qed
  then show False using assms by simp
qed

section \<open>Chunk headers\<close>

lemma hex_char:
  assumes "d < 16"
  shows "c_isxdigit (''0123456789abcdef'' ! d) \<and> hex_val (''0123456789abcdef'' ! d) = d \<and>
    ''0123456789abcdef'' ! d \<notin> {CHR ''x'', CHR ''X'', NUL, CR}"
proof -
  have "list_all (\<lambda>d. c_isxdigit (''0123456789abcdef'' ! d) \<and> hex_val (''0123456789abcdef'' ! d) = d \<and>
    ''0123456789abcdef'' ! d \<notin> {CHR ''x'', CHR ''X'', NUL, CR}) [0..<16]" by code_simp
  then have "\<forall>d\<in>{0..<16}. c_isxdigit (''0123456789abcdef'' ! d) \<and> hex_val (''0123456789abcdef'' ! d) = d \<and>
    ''0123456789abcdef'' ! d \<notin> {CHR ''x'', CHR ''X'', NUL, CR}" by (simp only: list_all_iff set_upt)
  then show ?thesis by (rule bspec) (use assms in simp)
qed

lemma show_hex_chars: "c \<in> set (show_hex n) \<Longrightarrow> c_isxdigit c \<and> c \<notin> {CHR ''x'', CHR ''X'', NUL, CR}"
proof (induction n rule: show_hex.induct)
  case (1 n)
  show ?case
  proof (cases "n < 16")
    case True
    then show ?thesis using 1(2) hex_char[of n] by (subst (asm) show_hex.simps) simp
  next
    case False
    then have "c \<in> set (show_hex (n div 16)) \<or> c = ''0123456789abcdef'' ! (n mod 16)"
      using 1(2) by (subst (asm) show_hex.simps) auto
    then show ?thesis using 1(1)[OF False] hex_char[of "n mod 16"] by auto
  qed
qed

lemma hex_run_digits: "\<forall>c\<in>set a. c_isxdigit c \<Longrightarrow> hex_run acc (a @ b) = hex_run (hex_run acc a) b"
  by (induction a arbitrary: acc) auto

lemma hex_run_show_hex: "hex_run 0 (show_hex n) = n"
proof (induction n rule: show_hex.induct)
  case (1 n)
  show ?case
  proof (cases "n < 16")
    case True
    then show ?thesis using hex_char[of n] by (subst show_hex.simps) simp
  next
    case False
    have "hex_run 0 (show_hex n) = hex_run (hex_run 0 (show_hex (n div 16))) [''0123456789abcdef'' ! (n mod 16)]"
      using False show_hex_chars by (subst show_hex.simps) (simp add: hex_run_digits)
    then show ?thesis using 1[OF False] hex_char[of "n mod 16"] by simp
  qed
qed

lemma show_hex_ne [simp]: "show_hex n \<noteq> []"
  by (subst show_hex.simps) simp

lemma show_hex_length: "n < 16 ^ Suc k \<Longrightarrow> length (show_hex n) \<le> Suc k"
proof (induction k arbitrary: n)
  case 0
  then show ?case by (subst show_hex.simps) simp
next
  case (Suc k)
  then have "n div 16 < 16 ^ Suc k" by (simp add: less_mult_imp_div_less)
  with Suc.IH have "length (show_hex (n div 16)) \<le> Suc k" by blast
  then show ?case by (subst show_hex.simps) simp
qed

lemma strip_0x_id: "\<forall>c\<in>set a. c \<noteq> CHR ''x'' \<and> c \<noteq> CHR ''X'' \<Longrightarrow> strip_0x (a @ CR # r) = a @ CR # r"
  by (cases a; cases "tl a") (auto simp: strip_0x_def split: list.splits)

lemma strtol_show_hex: "c_strtol16 (show_hex n @ CR # r) = int n"
proof -
  obtain h t where s: "show_hex n = h # t" by (cases "show_hex n") auto
  then have "c_isxdigit h" using show_hex_chars[of h n] by simp
  then have "\<not> c_isspace h" "h \<noteq> CHR ''-''" "h \<noteq> CHR ''+''"
    by (auto simp: c_isxdigit_def c_isdigit_def c_isspace_def uchar_def)
  then have "split_sign (show_hex n @ CR # r) = (False, show_hex n @ CR # r)"
    by (simp add: s split_sign_def)
  moreover have "strip_0x (show_hex n @ CR # r) = show_hex n @ CR # r"
    using show_hex_chars by (intro strip_0x_id) blast
  moreover have "hex_run 0 (show_hex n @ CR # r) = n"
    using show_hex_chars by (simp add: hex_run_digits hex_run_show_hex) (simp add: c_isxdigit_def c_isdigit_def uchar_def)
  ultimately show ?thesis by (simp add: c_strtol16_def)
qed

text \<open>The chunked coding: the length in hexadecimal, the data, and a last chunk of length 0.\<close>

definition chunk :: "string \<Rightarrow> string" where
  "chunk d = show_hex (length d) @ CRLF @ d @ CRLF"

lemma chunk_head_chunk:
  assumes "0 < length d" "length d < 65536" "length (chunk d) \<le> l_size"
  shows "chunk_head (chunk d @ rest) l_size =
    Some (HeadChunk (length (show_hex (length d)) + 2) (length d) (length (chunk d)))"
proof -
  let ?h = "show_hex (length d)" and ?n = "length d"
  have nc: "NUL \<notin> set ?h" "CR \<notin> set ?h" using show_hex_chars by blast+
  have l: "length ?h \<le> 4" using show_hex_length[of ?n 3] assms(2) by simp
  have c: "cstr (chunk d @ rest) = ?h @ CR # LF # cstr (d @ CRLF @ rest)"
    using cstr_append_clean[OF nc(1), of "CR # LF # d @ CRLF @ rest"] by (simp add: chunk_def cstr_def)
  have "mem_strstr (chunk d @ rest) CRLF = Some (Some (length ?h))"
    by (simp add: mem_strstr_def c strstr_crlf[OF nc(2)])
  moreover have "chunk_size (chunk d @ rest) = ?n"
    unfolding chunk_size_def c strtol_show_hex using assms(2) by (simp add: clamp64_id)
  moreover have "(length ?h + 2 + ?n + 2) mod 2 ^ 64 = length (chunk d)"
    using l assms(2) by (simp add: chunk_def)
  ultimately show ?thesis using assms(1,3) l by (simp add: chunk_head_def Let_def chunk_def)
qed

lemma chunk_head_last:
  assumes "0 < l_size"
  shows "chunk_head (''0'' @ CRLF @ rest) l_size = Some HeadLast"
proof -
  have c: "cstr (''0'' @ CRLF @ rest) = ''0'' @ CR # LF # cstr rest" by (simp add: cstr_def)
  have "mem_strstr (''0'' @ CRLF @ rest) CRLF = Some (Some 1)"
    unfolding mem_strstr_def c using strstr_crlf[of "''0''" "cstr rest"] by simp
  moreover have "show_hex 0 = ''0''" by (subst show_hex.simps) simp
  then have "chunk_size (''0'' @ CRLF @ rest) = 0"
    unfolding chunk_size_def c using strtol_show_hex[of 0 "LF # cstr rest"] by (simp add: clamp64_id)
  ultimately show ?thesis using assms by (simp add: chunk_head_def Let_def)
qed

lemma ptr_read_chunk: "ptr_read (Some (chunk d @ rest)) (length (show_hex (length d)) + 2) (length d) = Some d"
  by (simp add: ptr_read_def chunk_def)

section \<open>Feeding\<close>

text \<open>Both block writers on a state whose buffer is shorter than a block.\<close>

primrec feed_blocks :: "int \<Rightarrow> string list \<Rightarrow> round \<times> string list \<Rightarrow> (round \<times> string list) option" where
  "feed_blocks b [] st = Some st"
| "feed_blocks b (p # ps) st = do { x \<leftarrow> procBlocks collect b p False st; feed_blocks b ps (snd x) }"

lemma feed_blocks_ok:
  assumes b: "0 < b" "b < 2 ^ 63"
  shows "int (length (rd_readerBuffer rd)) < b \<Longrightarrow>
    \<exists>rd' bs. feed_blocks b ps (rd, c) = Some (rd', c @ bs) \<and>
      concat bs @ rd_readerBuffer rd' = rd_readerBuffer rd @ concat ps \<and> int (length (rd_readerBuffer rd')) < b \<and>
      (\<forall>x\<in>set bs. int (length x) = b) \<and> rd_contentLength rd' = rd_contentLength rd \<and>
      rd_recvLength rd' = rd_recvLength rd + word_of_nat (length (concat ps))"
proof (induction ps arbitrary: rd c)
  case (Cons p ps)
  from coll.block_loop_log[OF b Cons.prems, of collect p c] obtain acc bs1 where
    l: "block_loop collect collect b False p (rd_readerBuffer rd) c = Some (None, acc, c @ bs1)"
      "concat bs1 @ acc = rd_readerBuffer rd @ p" "int (length acc) < b" "\<forall>x\<in>set bs1. int (length x) = b"
    unfolding list.map_id by blast
  let ?rd = "rd\<lparr>rd_recvLength := rd_recvLength rd + word_of_nat (length p), rd_readerBuffer := acc\<rparr>"
  have "procBlocks collect b p False (rd, c) = Some (None, ?rd, c @ bs1)"
    using b(1) l(1) by (simp add: procBlocks_def Let_def)
  moreover have "int (length (rd_readerBuffer ?rd)) < b" using l(3) by simp
  from Cons.IH[OF this, of "c @ bs1"] obtain rd' bs where
    r: "feed_blocks b ps (?rd, c @ bs1) = Some (rd', (c @ bs1) @ bs)"
      "concat bs @ rd_readerBuffer rd' = acc @ concat ps" "int (length (rd_readerBuffer rd')) < b"
      "\<forall>x\<in>set bs. int (length x) = b" "rd_contentLength rd' = rd_contentLength rd"
      "rd_recvLength rd' = rd_recvLength rd + word_of_nat (length p) + word_of_nat (length (concat ps))" by auto
  moreover have "concat (bs1 @ bs) @ rd_readerBuffer rd' = rd_readerBuffer rd @ concat (p # ps)"
    using l(2) r(2) by simp
  ultimately show ?case using l(4)
    by (intro exI[of _ rd'] exI[of _ "bs1 @ bs"]) (auto simp: add.assoc)
qed simp

context block_log begin

lemma procChunkedBlocks_data:
  assumes "0 < b" "b < 2 ^ 63" "int (length (rd_block rd)) < b"
  shows "\<exists>rd' bs. procChunkedBlocks on b d False (rd, c) = Some (None, rd', c @ map ev bs) \<and>
    concat bs @ rd_block rd' = rd_block rd @ d \<and> int (length (rd_block rd')) < b \<and> (\<forall>x\<in>set bs. int (length x) = b)"
  using block_loop_log[OF assms(1,2), of "rd_block rd" "chunked_end on" d c] assms
  by (auto simp: procChunkedBlocks_def Let_def)

lemma procChunkedBlocks_end:
  assumes "0 < b" "b < 2 ^ 63" "int (length (rd_block rd)) < b"
  shows "\<exists>rd'. procChunkedBlocks on b [] True (rd, c) = Some (None, rd', c @ [ev (rd_block rd), ev []])"
  using block_loop_end[OF assms, of on "chunked_end on" c] assms
  by (simp add: procChunkedBlocks_def Let_def chunked_end_def on_logs)

lemma chunk_blocks_loop_ok:
  assumes b: "0 < b" "b < 2 ^ 63"
  shows "\<forall>d\<in>set ds. 0 < length d \<and> length d < 65536 \<Longrightarrow> length (concat (map chunk ds)) < l_size \<Longrightarrow>
    int (length (rd_block rd)) < b \<Longrightarrow>
    \<exists>rd' bs l n. chunk_blocks_loop (procChunkedBlocks on b) (concat (map chunk ds) @ ''0'' @ CRLF @ rest) l_size r_size (rd, c) =
        Some (Some (DFW_T_CHUNKED_END, 0), False, n, rd', c @ map ev bs @ [ev l, ev []]) \<and>
      concat bs @ l = rd_block rd @ concat ds \<and> int (length l) < b \<and> (\<forall>x\<in>set bs. int (length x) = b)"
proof (induction ds arbitrary: l_size r_size rd c)
  case Nil
  have "chunk_head (''0'' @ CRLF @ rest) l_size = Some HeadLast" using Nil(2) by (intro chunk_head_last) simp
  moreover obtain rd' where "procChunkedBlocks on b [] True (rd, c) = Some (None, rd', c @ [ev (rd_block rd), ev []])"
    using procChunkedBlocks_end[OF b Nil(3)] by blast
  ultimately have "chunk_blocks_loop (procChunkedBlocks on b) (''0'' @ CRLF @ rest) l_size r_size (rd, c) =
     Some (Some (DFW_T_CHUNKED_END, 0), False, r_size, rd', c @ map ev [] @ [ev (rd_block rd), ev []])"
    by (subst chunk_blocks_loop.simps) (simp del: append_Cons append.simps)
  then show ?case using Nil(3) by fastforce
next
  case (Cons d ds)
  let ?rest = "concat (map chunk ds) @ ''0'' @ CRLF @ rest"
  have d: "0 < length d" "length d < 65536" "length (chunk d) \<le> l_size" using Cons.prems by auto
  obtain rd1 bs1 where p: "procChunkedBlocks on b d False (rd, c) = Some (None, rd1, c @ map ev bs1)"
    "concat bs1 @ rd_block rd1 = rd_block rd @ d" "int (length (rd_block rd1)) < b" "\<forall>x\<in>set bs1. int (length x) = b"
    using procChunkedBlocks_data[OF b Cons.prems(3)] by blast
  have step: "chunk_blocks_loop (procChunkedBlocks on b) (chunk d @ ?rest) l_size r_size (rd, c) =
      chunk_blocks_loop (procChunkedBlocks on b) ?rest (l_size - length (chunk d)) (r_size + length (chunk d)) (rd1, c @ map ev bs1)"
    by (subst chunk_blocks_loop.simps) (simp add: chunk_head_chunk[OF d] ptr_read_chunk[simplified] p(1))
  have len: "length (concat (map chunk ds)) < l_size - length (chunk d)" using Cons.prems(2) by simp
  have pre: "\<forall>d\<in>set ds. 0 < length d \<and> length d < 65536" using Cons.prems(1) by simp
  from Cons.IH[OF pre len p(3), of "r_size + length (chunk d)" "c @ map ev bs1"] obtain rd' bs l n where
    r: "chunk_blocks_loop (procChunkedBlocks on b) ?rest (l_size - length (chunk d)) (r_size + length (chunk d)) (rd1, c @ map ev bs1) =
        Some (Some (DFW_T_CHUNKED_END, 0), False, n, rd', (c @ map ev bs1) @ map ev bs @ [ev l, ev []])"
      "concat bs @ l = rd_block rd1 @ concat ds" "int (length l) < b" "\<forall>x\<in>set bs. int (length x) = b"
    by (elim exE conjE) (rule that)
  have "concat (bs1 @ bs) @ l = rd_block rd @ concat (d # ds)" using p(2) r(2) by simp
  moreover have "\<forall>x\<in>set (bs1 @ bs). int (length x) = b" using p(4) r(4) by auto
  moreover have "chunk_blocks_loop (procChunkedBlocks on b) (concat (map chunk (d # ds)) @ ''0'' @ CRLF @ rest) l_size r_size (rd, c) =
        Some (Some (DFW_T_CHUNKED_END, 0), False, n, rd', c @ map ev (bs1 @ bs) @ [ev l, ev []])"
    using step r(1) by simp
  ultimately show ?case using r(3) by (intro exI conjI)
qed

end

section \<open>Properties\<close>

text \<open>C26. The chunk parser inverts the chunked coding and regroups it: from any chunks of up to 65535 bytes,
  whatever bytes they hold, followed by the last chunk, all in one buffer, the listener gets blocks of
  exactly the block size, then what is left over, then an empty block, and their bytes in order are
  the chunks' data.\<close>

theorem chunked_decode_encode:
  assumes "0 < b" "b < 2 ^ 63" "\<forall>d\<in>set ds. 0 < length d \<and> length d < 65536"
    and "t_size = length (concat (map chunk ds)) + 5" "int (length (rd_block rd)) < b"
  shows "\<exists>rd' bs l. parseChunkedBlocks (procChunkedBlocks collect b)
        (concat (map chunk ds) @ ''0'' @ CRLF @ CRLF @ junk) t_size (rd, c) =
      Some (Some (DFW_T_CHUNKED_END, 0), 0, concat (map chunk ds) @ ''0'' @ CRLF @ CRLF @ junk, rd', c @ bs @ [l, []]) \<and>
    concat bs @ l = rd_block rd @ concat ds \<and> int (length l) < b \<and> (\<forall>x\<in>set bs. int (length x) = b)"
proof -
  have "length (concat (map chunk ds)) < t_size" using assms(4) by simp
  from coll.chunk_blocks_loop_ok[OF assms(1,2,3) this assms(5), of "CRLF @ junk" 0 c] show ?thesis
    unfolding parseChunkedBlocks_def by (elim exE conjE) (simp del: append_Cons append.simps)
qed

definition round_new :: round where
  "round_new = \<lparr>rd_readerBuffer = [], rd_chunkedBuffer = [], rd_block = [], rd_recvLength = 0, rd_contentLength = 0\<rparr>"

theorem chunked_decode_encode_witness:
  "\<exists>rd' bs l. parseChunkedBlocks (procChunkedBlocks collect 2)
        (concat (map chunk [''abc'', ''de'']) @ ''0'' @ CRLF @ CRLF @ []) 20 (round_new, []) =
      Some (Some (DFW_T_CHUNKED_END, 0), 0, concat (map chunk [''abc'', ''de'']) @ ''0'' @ CRLF @ CRLF @ [], rd', [] @ bs @ [l, []]) \<and>
    concat bs @ l = rd_block round_new @ concat [''abc'', ''de''] \<and> int (length l) < 2 \<and> (\<forall>x\<in>set bs. int (length x) = 2)"
proof -
  have "show_hex (Suc (Suc (Suc 0))) = ''3''" "show_hex (Suc (Suc 0)) = ''2''" by (subst show_hex.simps; simp)+
  then show ?thesis
    by (intro chunked_decode_encode) (simp_all add: chunk_def round_new_def)
qed

text \<open>A chunk length that is negative makes the reader leave its buffer: \<open>-5\<close> becomes a size of
  \<open>2 ^ 64 - 5\<close>, the bytes to skip wrap around to 1 and pass the check against the bytes received, and
  that many bytes behind the header are handed on.\<close>

theorem negative_chunk_overreads:
  assumes "length mem < 2 ^ 63" "mem = ''-5'' @ CRLF @ rest" "0 < t_size"
  shows "parseChunkedBlocks proc mem t_size st = None \<and> parseChunkedRead sz mem t_size rd = None"
proof -
  have c: "cstr mem = ''-5'' @ CR # LF # cstr rest" by (simp add: assms(2) cstr_def)
  have "mem_strstr mem CRLF = Some (Some 2)"
    unfolding mem_strstr_def c using strstr_crlf[of "''-5''" "cstr rest"] by simp
  moreover have "c_strtol16 (cstr mem) = -5"
    unfolding c by (simp add: c_strtol16_def split_sign_def c_isspace_def uchar_def strip_0x_def c_isxdigit_def
        c_isdigit_def hex_val_def split: list.splits)
  then have "chunk_size mem = 2 ^ 64 - 5" by (simp add: chunk_size_def clamp64_def)
  ultimately have h: "chunk_head mem t_size = Some (HeadChunk 4 (2 ^ 64 - 5) 1)"
    using assms(3) by (simp add: chunk_head_def Let_def)
  have p: "ptr_read (Some mem) 4 (2 ^ 64 - 5) = None" using assms(1) by (simp add: ptr_read_def)
  have "chunk_blocks_loop proc mem t_size 0 st = None"
    by (subst chunk_blocks_loop.simps) (simp add: h p[simplified])
  moreover have "chunk_read_loop sz mem t_size [] 0 rd = None"
    by (subst chunk_read_loop.simps) (simp add: h p[simplified])
  ultimately show ?thesis by (simp add: parseChunkedBlocks_def parseChunkedRead_def)
qed

theorem negative_chunk_overreads_witness:
  "parseChunkedBlocks (procChunkedBlocks collect 2) (''-5'' @ CRLF @ ''abc'') 7 (round_new, []) = None \<and>
   parseChunkedRead 10 (''-5'' @ CRLF @ ''abc'') 7 round_new = None"
  by (rule negative_chunk_overreads) simp_all

text \<open>A query with block size 0, which hands every chunk on as it comes, never gets out of the last one:
  no room and no data, and the loop delivers empty blocks for ever, unless the listener reports an
  error.  With a positive block size the last chunk ends with the rest and an empty block.\<close>

theorem last_chunk_block_size_zero:
  "((\<forall>d c. fst (on d c) = None) \<longrightarrow> procChunkedBlocks on 0 [] True (round_new, c) = None) \<and>
   (0 < b \<and> b < 2 ^ 63 \<and> int (length (rd_block rd)) < b \<longrightarrow>
      (\<exists>rd'. procChunkedBlocks collect b [] True (rd, c') = Some (None, rd', c' @ [rd_block rd, []])))"
  using block_loop_zero_diverges[of on "chunked_end on" c] coll.procChunkedBlocks_end[of b rd c']
  by (simp add: procChunkedBlocks_def Let_def round_new_def)

theorem last_chunk_block_size_zero_witness:
  "procChunkedBlocks collect 0 [] True (round_new, []) = None \<and>
   (\<exists>rd'. procChunkedBlocks collect 4 [] True (round_new\<lparr>rd_block := ''abc''\<rparr>, []) = Some (None, rd', [] @ [''abc'', []]))"
  using last_chunk_block_size_zero[THEN conjunct1, rule_format, of collect "[]"]
    last_chunk_block_size_zero[THEN conjunct2, rule_format, of 4 "round_new\<lparr>rd_block := ''abc''\<rparr>" "[]"]
  by (simp add: collect_def)

text \<open>C30. However a response's contents are split into packets, the listener gets blocks of exactly the
  block size whose bytes in order are the contents, and once the announced length has arrived
  \<open>readLastBlocks\<close> hands over the rest.  The packet with the head may have brought some contents, which
  wait in the reader's buffer, but fewer than a block: with a block or more there, the room
  \<open>b_size - length\<close> wraps around and everything comes as one block at the end.\<close>

theorem packets_are_regrouped:
  assumes "0 < b" "b < 2 ^ 63" "rd_contentLength rd = word_of_nat (length (rd_readerBuffer rd @ concat ps))"
    and "rd_recvLength rd = word_of_nat (length (rd_readerBuffer rd))" "int (length (rd_readerBuffer rd)) < b"
  shows "\<exists>rd' rd'' bs l. feed_blocks b ps (rd, []) = Some (rd', bs) \<and>
    readLastBlocks collect b (rd', bs) = Some (None, rd'', bs @ [l]) \<and> rd_readerBuffer rd'' = [] \<and>
    concat bs @ l = rd_readerBuffer rd @ concat ps \<and> int (length l) < b \<and> (\<forall>x\<in>set bs. int (length x) = b)"
proof -
  obtain rd' bs where f: "feed_blocks b ps (rd, []) = Some (rd', bs)"
     "concat bs @ rd_readerBuffer rd' = rd_readerBuffer rd @ concat ps"
     "int (length (rd_readerBuffer rd')) < b" "\<forall>x\<in>set bs. int (length x) = b" "rd_recvLength rd' = rd_contentLength rd'"
    using feed_blocks_ok[OF assms(1,2,5), of ps "[]"] assms(3,4) by auto
  let ?l = "rd_readerBuffer rd'"
  have "block_loop collect collect b True [] ?l bs = Some (None, [], bs @ [?l])"
    using block_loop_end[OF assms(1,2) f(3), of collect collect bs] by (simp add: collect_def)
  then have "readLastBlocks collect b (rd', bs) = Some (None, rd'\<lparr>rd_readerBuffer := []\<rparr>, bs @ [?l])"
    using f(5) assms(1) by (simp add: readLastBlocks_def procBlocks_def Let_def)
  then show ?thesis using f
    by (intro exI[of _ rd'] exI[of _ "rd'\<lparr>rd_readerBuffer := []\<rparr>"] exI[of _ bs] exI[of _ ?l]) simp
qed

theorem packets_are_regrouped_witness:
  "\<exists>rd' rd'' bs l.
    feed_blocks 2 [''bcd'', ''e''] (round_new\<lparr>rd_contentLength := 5, rd_recvLength := 1, rd_readerBuffer := ''a''\<rparr>, []) = Some (rd', bs) \<and>
    readLastBlocks collect 2 (rd', bs) = Some (None, rd'', bs @ [l]) \<and> rd_readerBuffer rd'' = [] \<and>
    concat bs @ l = ''abcde'' \<and> int (length l) < 2 \<and> (\<forall>x\<in>set bs. int (length x) = 2)"
proof -
  let ?rd = "round_new\<lparr>rd_contentLength := 5, rd_recvLength := 1, rd_readerBuffer := ''a''\<rparr>"
  have "rd_contentLength ?rd = word_of_nat (length (rd_readerBuffer ?rd @ concat [''bcd'', ''e'']))"
    "rd_recvLength ?rd = word_of_nat (length (rd_readerBuffer ?rd))" "int (length (rd_readerBuffer ?rd)) < 2" by simp_all
  from packets_are_regrouped[OF _ _ this] show ?thesis by simp
qed

end
