(* ===== verification/Dfw_HttpClient_Spec.thy ===== *)
theory Dfw_HttpClient_Spec
  imports Dfw_HttpClient Dfw_HttpBody_Spec Dfw_HttpServe_Spec
begin

text \<open>
  The client reads what is sent to it: the head whatever packets it comes in, the contents in blocks, and what
  this server answers.  And where it fails: a head of 51200 bytes in one packet, dates without a value, chunks
  larger than the room left for them.
\<close>

section \<open>A connection with packets to come\<close>

text \<open>
  \<open>poll\<close> finds a packet, \<open>recv\<close> gets it in any pieces, and then nothing more for the moment.
\<close>

primrec sock_queue :: "string list \<Rightarrow> 'a sock_scheme \<Rightarrow> bool" where
  "sock_queue [] s \<longleftrightarrow> \<not> sk_stop s"
| "sock_queue (p # ps) s \<longleftrightarrow> \<not> sk_stop s \<and> p \<noteq> [] \<and>
     (\<exists>k polls ks recvs rest. sk_polls s = SysRet k # polls \<and> 0 < k \<and> revent k 0 \<and>
        sk_recvs s = map SysRet ks @ SysErr ''EAGAIN'' # recvs \<and> (\<forall>k\<in>set ks. 0 < k) \<and> sum_list ks = length p \<and>
        sk_in s = p @ rest \<and> sock_queue ps (s\<lparr>sk_polls := polls, sk_recvs := recvs, sk_in := rest\<rparr>))"

lemma again: "sys_error DFW_E_RECV ''EAGAIN'' = Some (DFW_E_AGAIN, 11)"
  by (simp add: sys_error_def errno_short_def errno_num_def linux_errno_def) code_simp

lemma recv_loop_packet:
  "sum_list ks = length p \<Longrightarrow> \<forall>k\<in>set ks. 0 < k \<Longrightarrow> length p < n \<Longrightarrow> \<not> sk_stop s \<Longrightarrow>
   sk_recvs s = map SysRet ks @ SysErr ''EAGAIN'' # recvs \<Longrightarrow> sk_in s = p @ rest \<Longrightarrow>
   recv_loop False n d s = (Some (DFW_E_AGAIN, 11), d @ p, s\<lparr>sk_recvs := recvs, sk_in := rest\<rparr>)"
proof (induction ks arbitrary: n d p s)
  case Nil
  then show ?case by (subst recv_loop.simps) (simp add: isInprogress_def again)
next
  case (Cons k ks)
  let ?s = "s\<lparr>sk_recvs := map SysRet ks @ SysErr ''EAGAIN'' # recvs, sk_in := drop k p @ rest\<rparr>"
  have k: "0 < k" "k \<le> length p" "k < n" using Cons.prems by auto
  have t: "take (min k n) (p @ rest) = take k p" "take k p \<noteq> []" "length (take k p) = k"
    using k by (auto simp: min_absorb1)
  have "recv_loop False n d s = recv_loop False (n - k) (d @ take k p) ?s"
    using Cons.prems(4,5,6) k t
    by (subst recv_loop.simps) (simp add: Let_def del: take_eq_Nil take_eq_Nil2 take_append length_take)
  also have "\<dots> = (Some (DFW_E_AGAIN, 11), (d @ take k p) @ drop k p, ?s\<lparr>sk_recvs := recvs, sk_in := rest\<rparr>)"
    using Cons.prems k by (intro Cons.IH) auto
  finally show ?case by simp
qed

lemma queue_step:
  assumes "sock_queue (p # ps) s"
  obtains s1 s2 where "wait_recv s = (None, s1)" "\<And>n. length p < n \<Longrightarrow> recv_raw False n s1 = (Some (DFW_E_AGAIN, 11), p, s2)"
    "sock_queue ps s2"
proof -
  from assms obtain k polls ks recvs rest where
    k: "sk_polls s = SysRet k # polls" "0 < k" "revent k 0" "sk_recvs s = map SysRet ks @ SysErr ''EAGAIN'' # recvs"
      "\<forall>k\<in>set ks. 0 < k" "sum_list ks = length p" "sk_in s = p @ rest" "\<not> sk_stop s"
      "sock_queue ps (s\<lparr>sk_polls := polls, sk_recvs := recvs, sk_in := rest\<rparr>)" by auto
  have "wait_recv s = (None, s\<lparr>sk_polls := polls\<rparr>)"
    using k by (simp add: sock_wait_def poll_events_def)
  moreover have "recv_raw False n (s\<lparr>sk_polls := polls\<rparr>) = (Some (DFW_E_AGAIN, 11), p, s\<lparr>sk_polls := polls, sk_recvs := recvs, sk_in := rest\<rparr>)"
    if "length p < n" for n
    using recv_loop_packet[OF k(6,5) that, of "s\<lparr>sk_polls := polls\<rparr>" recvs rest "[]"] k by (simp add: recv_raw_def)
  ultimately show ?thesis using k(9) by (rule that)
qed

lemma queue_nonempty: "sock_queue ps s \<Longrightarrow> p \<in> set ps \<Longrightarrow> p \<noteq> []"
  by (induction ps arbitrary: s) auto

section \<open>Lines\<close>

text \<open>Packets \<open>qs\<close> that hold the rest of the head: none but the last ends in a carriage return, nor does what is
  buffered.\<close>

definition calm :: "string \<Rightarrow> string list \<Rightarrow> bool" where
  "calm R qs \<longleftrightarrow> (qs \<noteq> [] \<longrightarrow> R = [] \<or> last R \<noteq> CR) \<and> (\<forall>q\<in>set (butlast qs). q \<noteq> [] \<longrightarrow> last q \<noteq> CR)"

lemma calm_tl: "calm R (q # qs) \<Longrightarrow> calm R' qs \<longleftrightarrow> (qs \<noteq> [] \<longrightarrow> R' = [] \<or> last R' \<noteq> CR)"
  by (cases qs) (auto simp: calm_def)

lemma first_packet:
  assumes "p @ c = L @ CRLF @ T" "c = [] \<or> p = [] \<or> last p \<noteq> CR"
  obtains (short) L' where "L = p @ L'" "c = L' @ CRLF @ T" | (whole) p' where "p = L @ CRLF @ p'" "T = p' @ c"
proof -
  consider "length p \<le> length L" | "length p = Suc (length L)" | "length L + 2 \<le> length p" by linarith
  then show ?thesis
  proof cases
    case 1
    with assms(1) have "prefix p L" by (metis prefixI prefix_length_prefix)
    then obtain L' where "L = p @ L'" by (auto simp: prefix_def)
    with assms(1) show ?thesis by (intro short) auto
  next
    case 2
    then have "take (Suc (length L)) (p @ c) = p" by simp
    with assms(1) have "p = L @ [CR]" by simp
    with assms show ?thesis by auto
  next
    case 3
    then have "p = take (length L + 2) p @ drop (length L + 2) p" "take (length L + 2) p = take (length L + 2) (p @ c)" by simp_all
    moreover have "take (length L + 2) (p @ c) = L @ CRLF" using assms(1) by simp
    ultimately have p: "p = (L @ CRLF) @ drop (length L + 2) p" by metis
    then have "((L @ CRLF) @ drop (length L + 2) p) @ c = L @ CRLF @ T" using assms(1) by simp
    then have "T = drop (length L + 2) p @ c" by simp
    with p show ?thesis by (intro whole[of "drop (length L + 2) p"]) (simp_all only: append_assoc)
  qed
qed

lemma round_readLine_hit:
  assumes "CR \<notin> set L" "NUL \<notin> set L" "hr_recvBuffer r = L @ CRLF @ T"
  shows "round_readLine r = (None, r\<lparr>hr_lineBuffer := L, hr_recvBuffer := T\<rparr>)"
proof -
  have c: "cstr (L @ CRLF @ T) = L @ CR # LF # cstr T" using assms(2) by (simp add: cstr_append_clean) (simp add: cstr_def)
  have "strstr (cstr (L @ CRLF @ T)) CRLF = Some (length L)" unfolding c by (rule strstr_crlf[OF assms(1)])
  then show ?thesis using assms(3) by (simp add: round_readLine_def)
qed

lemma strstr_no_cr: "CR \<notin> set a \<Longrightarrow> strstr a CRLF = None"
  by (induction a) auto

lemma line_loop_ok:
  "sock_queue (qs @ bs) s \<Longrightarrow> hr_recvBuffer r @ buf @ concat qs = L @ CRLF @ T \<Longrightarrow> prefix (hr_recvBuffer r @ buf) L \<Longrightarrow>
   CR \<notin> set L \<Longrightarrow> NUL \<notin> set L \<Longrightarrow> calm buf qs \<Longrightarrow> \<forall>q\<in>set qs. length L + length q < LINE_MAX \<Longrightarrow>
   \<exists>R' qs' s'. line_loop buf r s = (None, r\<lparr>hr_lineBuffer := L, hr_recvBuffer := R'\<rparr>, s') \<and> R' @ concat qs' = T \<and>
     calm R' qs' \<and> suffix qs' qs \<and> sock_queue (qs' @ bs) s'"
proof (induction qs arbitrary: buf s)
  case Nil
  then have "length (L @ CRLF @ T) \<le> length L" using prefix_length_le[OF Nil(3)] by (metis append_Nil2 concat.simps(1))
  then show ?case by simp
next
  case (Cons q qs)
  from Cons.prems(1) have "sock_queue (q # (qs @ bs)) s" by simp
  then obtain s1 s2 where st: "wait_recv s = (None, s1)" "\<And>n. length q < n \<Longrightarrow> recv_raw False n s1 = (Some (DFW_E_AGAIN, 11), q, s2)"
    "sock_queue (qs @ bs) s2" by (rule queue_step) blast
  have qn: "q \<noteq> []" using Cons.prems(1) by simp
  obtain L0 where L: "L = hr_recvBuffer r @ buf @ L0" using Cons.prems(3) by (auto simp: prefix_def)
  with Cons.prems(2) have q: "q @ concat qs = L0 @ CRLF @ T" by simp
  have lim: "length buf + length q < LINE_MAX" using Cons.prems(7) L by auto
  then have rc: "recv_raw False (LINE_MAX - length buf) s1 = (Some (DFW_E_AGAIN, 11), q, s2)" by (intro st(2)) linarith
  have lastq: "concat qs = [] \<or> q = [] \<or> last q \<noteq> CR"
    using Cons.prems(6) by (cases qs) (auto simp: calm_def)
  have eq: "line_loop buf r s =
      (if strstr (cstr (buf @ q)) CRLF = None then line_loop (buf @ q) r s2
       else (let (e, r) = round_readLine (r\<lparr>hr_recvBuffer := hr_recvBuffer r @ buf @ q\<rparr>) in (e, r, s2)))"
    using qn by (subst line_loop.simps) (simp add: st(1) rc)
  from q lastq show ?case
  proof (cases rule: first_packet)
    case (short L')
    then have nx: "CR \<notin> set (buf @ q)" "NUL \<notin> set (buf @ q)" using Cons.prems(4,5) L by auto
    then have "line_loop buf r s = line_loop (buf @ q) r s2" using eq strstr_no_cr[OF nx(1)] by simp
    moreover have "last (buf @ q) \<noteq> CR" using nx(1) qn last_in_set[of "buf @ q"] by (metis append_is_Nil_conv)
    then have cm: "calm (buf @ q) qs" using calm_tl[OF Cons.prems(6)] by simp
    moreover have "\<exists>R' qs' s'. line_loop (buf @ q) r s2 = (None, r\<lparr>hr_lineBuffer := L, hr_recvBuffer := R'\<rparr>, s') \<and> R' @ concat qs' = T \<and>
       calm R' qs' \<and> suffix qs' qs \<and> sock_queue (qs' @ bs) s'"
      by (intro Cons.IH) (use Cons.prems(4,5,7) st(3) short L cm in auto)
    ultimately show ?thesis by (metis suffix_ConsI)
  next
    case (whole q')
    let ?r = "r\<lparr>hr_recvBuffer := hr_recvBuffer r @ buf @ q\<rparr>"
    have "hr_recvBuffer ?r = L @ CRLF @ q'" using whole L by simp
    from round_readLine_hit[OF Cons.prems(4,5) this] have rl: "round_readLine ?r = (None, r\<lparr>hr_lineBuffer := L, hr_recvBuffer := q'\<rparr>)" by simp
    have "NUL \<notin> set (buf @ L0)" "CR \<notin> set (buf @ L0)" using Cons.prems(4,5) L by auto
    then have "strstr (cstr ((buf @ L0) @ CRLF @ q')) CRLF = Some (length (buf @ L0))"
      using cstr_append_clean[of "buf @ L0" "CRLF @ q'"] strstr_crlf[of "buf @ L0" "cstr q'"] by (simp add: cstr_def)
    then have "line_loop buf r s = (None, r\<lparr>hr_lineBuffer := L, hr_recvBuffer := q'\<rparr>, s2)" using eq rl whole by simp
    moreover have "calm q' qs"
    proof -
      have "q' = [] \<or> last q' = last q" using whole(1) by simp
      moreover have "qs \<noteq> [] \<longrightarrow> last q \<noteq> CR" using Cons.prems(6) qn by (auto simp: calm_def)
      ultimately show ?thesis using Cons.prems(6) by (auto simp: calm_tl[of buf q qs])
    qed
    moreover have "suffix qs (q # qs)" by (simp add: suffix_ConsI)
    ultimately show ?thesis using whole(2) st(3) by auto
  qed
qed

lemma conn_readLine_ok:
  assumes "sock_queue (qs @ bs) s" "hr_recvBuffer r @ concat qs = L @ CRLF @ T" "CR \<notin> set L" "NUL \<notin> set L"
    "calm (hr_recvBuffer r) qs" "\<forall>q\<in>set qs. length L + length q < LINE_MAX"
  shows "\<exists>R' qs' s'. conn_readLine r s = (None, r\<lparr>hr_lineBuffer := L, hr_recvBuffer := R'\<rparr>, s') \<and> R' @ concat qs' = T \<and>
     calm R' qs' \<and> suffix qs' qs \<and> sock_queue (qs' @ bs) s'"
proof -
  have "concat qs = [] \<or> hr_recvBuffer r = [] \<or> last (hr_recvBuffer r) \<noteq> CR"
    using assms(5) by (cases qs) (auto simp: calm_def)
  from assms(2) this show ?thesis
  proof (cases rule: first_packet)
    case (short L')
    then have nx: "CR \<notin> set (hr_recvBuffer r)" "NUL \<notin> set (hr_recvBuffer r)" using assms(3,4) by auto
    let ?r = "r\<lparr>hr_lineBuffer := []\<rparr>"
    have "round_readLine r = (Some (DFW_ERROR, 0), ?r)"
      using nx strstr_no_cr[OF nx(1)] by (simp add: round_readLine_def Let_def)
    moreover have "calm [] qs" using assms(5) by (simp add: calm_def)
    with line_loop_ok[of qs bs s ?r "[]" L T] assms short obtain R' qs' s' where
      "line_loop [] ?r s = (None, ?r\<lparr>hr_lineBuffer := L, hr_recvBuffer := R'\<rparr>, s')" "R' @ concat qs' = T"
      "calm R' qs'" "suffix qs' qs" "sock_queue (qs' @ bs) s'" by auto
    ultimately show ?thesis by (simp add: conn_readLine_def) blast
  next
    case (whole R')
    from round_readLine_hit[OF assms(3,4) whole(1)] have
      "conn_readLine r s = (None, r\<lparr>hr_lineBuffer := L, hr_recvBuffer := R'\<rparr>, s)" by (simp add: conn_readLine_def)
    moreover have "calm R' qs" using assms(5) whole(1) by (auto simp: calm_def)
    ultimately show ?thesis using whole(2) assms(1) by blast
  qed
qed

section \<open>Header lines\<close>

text \<open>Dates have a value, and a content type has none or is long enough for its groups to be found.\<close>

definition header_safe :: "string \<times> string \<Rightarrow> bool" where
  "header_safe kv \<longleftrightarrow>
     (text_equals (fst kv) ''Last-Modified'' \<or> text_equals (fst kv) ''Date'' \<or> text_equals (fst kv) ''Expires'' \<longrightarrow> snd kv \<noteq> []) \<and>
     (text_equals (fst kv) ''Content-Type'' \<longrightarrow> snd kv = [] \<or> 8 < length (snd kv))"

definition header_clean :: "string \<times> string \<Rightarrow> bool" where
  "header_clean kv \<longleftrightarrow> set (fst kv) \<inter> {NUL, CR, CHR '':''} = {} \<and> set (snd kv) \<inter> {NUL, CR} = {} \<and> header_safe kv"

definition header_line :: "string \<times> string \<Rightarrow> string" where
  "header_line kv = fst kv @ '': '' @ snd kv"

text \<open>What a header does to the announced length, and to the chunked flag.\<close>

definition length_step :: "64 word \<Rightarrow> string \<times> string \<Rightarrow> 64 word" where
  "length_step w kv = (if text_equals (fst kv) ''Content-Length'' then word_of_int (parseLong (chars (snd kv)) 0) else w)"

definition says_chunked :: "string \<times> string \<Rightarrow> bool" where
  "says_chunked kv \<longleftrightarrow> text_equals (fst kv) ''Transfer-Encoding'' \<and> text_equals (snd kv) ''chunked''"

text \<open>The round after some headers, as far as the contents and the listener depend on it.\<close>

definition after_headers :: "(string \<times> string) list \<Rightarrow> http_round \<Rightarrow> http_round \<Rightarrow> bool" where
  "after_headers kvs r r' \<longleftrightarrow>
     hr_status r' = hr_status r \<and> hr_statusMsg r' = hr_statusMsg r \<and> hr_useSpecialStatusCode r' = hr_useSpecialStatusCode r \<and>
     hr_chunked r' = (hr_chunked r \<or> (\<exists>kv\<in>set kvs. says_chunked kv)) \<and>
     hr_rd r' = (hr_rd r)\<lparr>rd_contentLength := foldl length_step (rd_contentLength (hr_rd r)) kvs\<rparr> \<and>
     header_find (hr_header r') = header_find (hr_header r) ++ map_of (rev kvs)"

lemma text_equals_length: "text_equals s lit \<Longrightarrow> length (cstr s) = length lit"
  by (auto simp: text_equals_def dest: strcaseeq_length split: if_splits)

lemma text_equals_other: "text_equals s a \<Longrightarrow> length a \<noteq> length b \<Longrightarrow> \<not> text_equals s b"
  using text_equals_length by metis

lemma getMatchString_some: "2 * i < length v \<Longrightarrow> getMatchString v i g = Some g"
  by (simp add: getMatchString_def getMatch_def text_set_n_def ptr_read_def)

lemma parseContentType_ok:
  assumes "v = [] \<or> 8 < length v" "NUL \<notin> set v"
  obtains r' where "parseContentType v r = Some r'" "hr_rd r' = hr_rd r" "hr_chunked r' = hr_chunked r" "hr_header r' = hr_header r"
    "hr_recvBuffer r' = hr_recvBuffer r" "hr_status r' = hr_status r" "hr_statusMsg r' = hr_statusMsg r"
    "hr_useSpecialStatusCode r' = hr_useSpecialStatusCode r"
proof -
  have "\<exists>r'. parseContentType v r = Some r' \<and> hr_rd r' = hr_rd r \<and> hr_chunked r' = hr_chunked r \<and> hr_header r' = hr_header r \<and>
    hr_recvBuffer r' = hr_recvBuffer r \<and> hr_status r' = hr_status r \<and> hr_statusMsg r' = hr_statusMsg r \<and>
    hr_useSpecialStatusCode r' = hr_useSpecialStatusCode r"
    using assms by (auto simp: parseContentType_def getMatchString_some Let_def split: option.splits)
  then show ?thesis using that by blast
qed

lemma patchHeader_ok:
  assumes "header_safe (k, v)" "NUL \<notin> set v"
  shows "\<exists>r'. patchHeader tparse k v r = Some r' \<and> hr_rd r' = (hr_rd r)\<lparr>rd_contentLength := length_step (rd_contentLength (hr_rd r)) (k, v)\<rparr> \<and>
    hr_chunked r' = (hr_chunked r \<or> says_chunked (k, v)) \<and> hr_header r' = hr_header r \<and> hr_recvBuffer r' = hr_recvBuffer r \<and>
    hr_status r' = hr_status r \<and> hr_statusMsg r' = hr_statusMsg r \<and> hr_useSpecialStatusCode r' = hr_useSpecialStatusCode r"
proof (cases "text_equals k ''Content-Length''")
  case True
  then have "\<not> text_equals k ''Transfer-Encoding''" "\<not> text_equals k ''Content-Type''" "\<not> text_equals k ''Last-Modified''"
    "\<not> text_equals k ''Date''" "\<not> text_equals k ''Expires''" "\<not> text_equals k ''Connection''" "\<not> text_equals k ''Keep-Alive''"
    by (rule text_equals_other; simp)+
  then show ?thesis using True by (simp add: patchHeader_def length_step_def says_chunked_def)
next
  case False
  then have l: "length_step w (k, v) = w" for w by (simp add: length_step_def)
  show ?thesis
  proof (cases "text_equals k ''Transfer-Encoding''")
    case True
    then show ?thesis by (simp add: patchHeader_def l says_chunked_def)
  next
    case te: False
    show ?thesis
    proof (cases "text_equals k ''Content-Type''")
      case True
      with assms parseContentType_ok[of v r] obtain r' where "parseContentType v r = Some r'" "hr_rd r' = hr_rd r" "hr_chunked r' = hr_chunked r"
        "hr_header r' = hr_header r" "hr_recvBuffer r' = hr_recvBuffer r" "hr_status r' = hr_status r" "hr_statusMsg r' = hr_statusMsg r"
        "hr_useSpecialStatusCode r' = hr_useSpecialStatusCode r" by (auto simp: header_safe_def)
      then show ?thesis using te True by (simp add: patchHeader_def l says_chunked_def)
    next
      case ct: False
      then show ?thesis using te False assms(1)
        by (simp add: patchHeader_def l says_chunked_def time_member_def header_safe_def)
    qed
  qed
qed

lemma parseHeaderLine_ok:
  assumes "header_clean (k, v)" "hr_lineBuffer r = header_line (k, v)" "header_ok (hr_header r)" "header_room (Suc n) (hr_header r)"
  shows "\<exists>r'. parseHeaderLine tparse r = Some (None, r') \<and> after_headers [(k, v)] r r' \<and> hr_recvBuffer r' = hr_recvBuffer r \<and>
    header_ok (hr_header r') \<and> header_room n (hr_header r')"
proof -
  have kv: "NUL \<notin> set k" "CHR '':'' \<notin> set k" "NUL \<notin> set v" "header_safe (k, v)" using assms(1) by (auto simp: header_clean_def)
  have c: "cstr (k @ '': '' @ v) = k @ '': '' @ v" using kv(1,3) by simp
  have depth: "strstr (k @ '': '' @ v) '':'' = Some (length k)" using strstr_char[OF kv(2)] by simp
  obtain r1 where r1: "patchHeader tparse k v r = Some r1" "hr_rd r1 = (hr_rd r)\<lparr>rd_contentLength := length_step (rd_contentLength (hr_rd r)) (k, v)\<rparr>"
    "hr_chunked r1 = (hr_chunked r \<or> says_chunked (k, v))" "hr_header r1 = hr_header r" "hr_recvBuffer r1 = hr_recvBuffer r"
    "hr_status r1 = hr_status r" "hr_statusMsg r1 = hr_statusMsg r" "hr_useSpecialStatusCode r1 = hr_useSpecialStatusCode r"
    using patchHeader_ok[OF kv(4,3)] by blast
  from header_put_ok[OF assms(3,4) kv(1,3)] obtain h where
    h: "header_put k v (hr_header r) = Some h" "header_ok h" "header_room n h" "header_find h = (header_find (hr_header r))(k \<mapsto> v)" by auto
  have "parseHeaderLine tparse r = Some (None, r1\<lparr>hr_header := h\<rparr>)"
    using assms(2) kv(3) c depth r1(1,4) header_put_append[OF h(1)]
    by (simp add: parseHeaderLine_def header_line_def Let_def)
  then show ?thesis using r1 h by (simp add: after_headers_def)
qed

lemma after_headers_Cons:
  "after_headers [kv] r r1 \<Longrightarrow> after_headers kvs r1 r2 \<Longrightarrow> after_headers (kv # kvs) r r2"
  by (simp add: after_headers_def)

lemma after_headers_frame [simp]:
  "after_headers kvs (r\<lparr>hr_lineBuffer := l, hr_recvBuffer := b\<rparr>) r' = after_headers kvs r r'"
  "after_headers kvs r (r'\<lparr>hr_lineBuffer := l, hr_recvBuffer := b\<rparr>) = after_headers kvs r r'"
  by (simp_all add: after_headers_def)

definition header_block :: "(string \<times> string) list \<Rightarrow> string" where
  "header_block kvs = concat (map (\<lambda>kv. header_line kv @ CRLF) kvs) @ CRLF"

lemma header_block_Cons [simp]: "header_block (kv # kvs) = header_line kv @ CRLF @ header_block kvs"
  by (simp add: header_block_def)

lemma header_block_Nil [simp]: "header_block [] = CRLF"
  by (simp add: header_block_def)

lemma header_line_clean:
  assumes "header_clean kv"
  shows "CR \<notin> set (header_line kv)" "NUL \<notin> set (header_line kv)" "header_line kv \<noteq> []"
  using assms by (auto simp: header_line_def header_clean_def)

lemma readResponseHeader_ok:
  "sock_queue (qs @ bs) s \<Longrightarrow> hr_recvBuffer r @ concat qs = header_block kvs @ T \<Longrightarrow> calm (hr_recvBuffer r) qs \<Longrightarrow>
   \<forall>q\<in>set qs. length (header_block kvs) + length q < LINE_MAX \<Longrightarrow> \<forall>kv\<in>set kvs. header_clean kv \<Longrightarrow>
   header_ok (hr_header r) \<Longrightarrow> header_room (length kvs) (hr_header r) \<Longrightarrow>
   \<exists>r' qs' s'. readResponseHeader tparse r s = Some (None, r', s') \<and> after_headers kvs r r' \<and>
     hr_recvBuffer r' @ concat qs' = T \<and> suffix qs' qs \<and> sock_queue (qs' @ bs) s'"
proof (induction kvs arbitrary: r qs s)
  case Nil
  from Nil(2) have eq: "hr_recvBuffer r @ concat qs = [] @ CRLF @ T" by simp
  have lim: "\<forall>q\<in>set qs. length ([]::string) + length q < LINE_MAX" using Nil(4) by auto
  from conn_readLine_ok[OF Nil(1) eq _ _ Nil(3) lim] obtain R' qs' s' where
    "conn_readLine r s = (None, r\<lparr>hr_lineBuffer := [], hr_recvBuffer := R'\<rparr>, s')" "R' @ concat qs' = T" "suffix qs' qs"
    "sock_queue (qs' @ bs) s'" by auto
  then show ?case
    by (subst readResponseHeader.simps)
      (auto intro!: exI[of _ "r\<lparr>hr_lineBuffer := [], hr_recvBuffer := R'\<rparr>"] exI[of _ qs'] simp: after_headers_def)
next
  case (Cons kv kvs)
  obtain k v where kv: "kv = (k, v)" by fastforce
  have cl: "header_clean kv" "header_room (Suc (length kvs)) (hr_header r)" using Cons.prems(5,7) by auto
  note l = header_line_clean[OF cl(1)]
  have eq: "hr_recvBuffer r @ concat qs = header_line kv @ CRLF @ header_block kvs @ T" using Cons.prems(2) by simp
  have lim1: "\<forall>q\<in>set qs. length (header_line kv) + length q < LINE_MAX" using Cons.prems(4) by auto
  from conn_readLine_ok[OF Cons.prems(1) eq l(1,2) Cons.prems(3) lim1] obtain R1 qs1 s1 where
    1: "conn_readLine r s = (None, r\<lparr>hr_lineBuffer := header_line kv, hr_recvBuffer := R1\<rparr>, s1)"
    "R1 @ concat qs1 = header_block kvs @ T" "calm R1 qs1" "suffix qs1 qs" "sock_queue (qs1 @ bs) s1" by auto
  let ?r = "r\<lparr>hr_lineBuffer := header_line kv, hr_recvBuffer := R1\<rparr>"
  from parseHeaderLine_ok[of k v ?r "length kvs" tparse] cl Cons.prems(6) kv obtain r2 where
    2: "parseHeaderLine tparse ?r = Some (None, r2)" "after_headers [kv] r r2" "hr_recvBuffer r2 = R1" "header_ok (hr_header r2)"
      "header_room (length kvs) (hr_header r2)" by auto
  have lim: "\<forall>q\<in>set qs1. length (header_block kvs) + length q < LINE_MAX"
    using Cons.prems(4) set_mono_suffix[OF 1(4)] by fastforce
  from Cons.IH[of qs1 s1 r2] 1 2 lim Cons.prems(5) obtain r' qs' s' where
    3: "readResponseHeader tparse r2 s1 = Some (None, r', s')" "after_headers kvs r2 r'" "hr_recvBuffer r' @ concat qs' = T"
      "suffix qs' qs1" "sock_queue (qs' @ bs) s'" by auto
  have "readResponseHeader tparse r s = Some (None, r', s')"
    using 1(1) 2(1) 3(1) l(3) by (subst readResponseHeader.simps) simp
  with suffix_order.trans[OF 3(4) 1(4)] 3 after_headers_Cons[OF 2(2) 3(2)] show ?case by blast
qed

section \<open>The head\<close>

definition response_text :: "nat \<Rightarrow> string \<Rightarrow> (string \<times> string) list \<Rightarrow> string" where
  "response_text st msg kvs = ''HTTP/1.1 '' @ show_nat st @ '' '' @ msg @ CRLF @ header_block kvs"

lemma takeWhile_digits: "takeWhile c_isdigit (show_nat n @ CHR '' '' # t) = show_nat n"
proof -
  have "\<not> c_isdigit CHR '' ''" by code_simp
  then show ?thesis using show_nat_digits[of n] by (simp add: takeWhile_append)
qed

lemma re_status_ok: "re_status (''HTTP/1.1 '' @ show_nat st @ '' '' @ msg) = Some (''1'', ''1'', show_nat st, 9 + length (show_nat st))"
proof -
  have d: "c_isdigit CHR ''1''" "\<not> c_isdigit CHR ''.''" "\<not> c_isdigit CHR '' ''" by code_simp+
  show ?thesis using takeWhile_digits[of st msg] d by (simp add: re_status_def Let_def)
qed

lemma parseInt_one: "parseInt (chars ''1'') 0 = 1"
  by code_simp

lemma parseStatusLine_ok:
  assumes "hr_lineBuffer r = ''HTTP/1.1 '' @ show_nat st @ '' '' @ msg" "st < 2 ^ 31" "NUL \<notin> set msg"
  shows "\<exists>r'. parseStatusLine r = Some (None, r') \<and> hr_status r' = int st \<and> hr_statusMsg r' = SPC # msg \<and> hr_recvBuffer r' = hr_recvBuffer r \<and>
    hr_header r' = hr_header r \<and> hr_chunked r' = hr_chunked r \<and> hr_rd r' = hr_rd r \<and> hr_useSpecialStatusCode r' = hr_useSpecialStatusCode r"
proof -
  let ?l = "''HTTP/1.1 '' @ show_nat st @ '' '' @ msg"
  have c: "cstr ?l = ?l" using assms(3) by simp
  have "0 < length (show_nat st)" by simp
  then have m: "2 * i < length ?l" if "i < 4" for i using that by simp
  have "?l = (''HTTP/1.1 '' @ show_nat st) @ SPC # msg" "9 + length (show_nat st) = length (''HTTP/1.1 '' @ show_nat st)" by simp_all
  then have "drop (9 + length (show_nat st)) ?l = SPC # msg" by (metis append_eq_conv_conj)
  then have n: "cstr (drop (9 + length (show_nat st)) ?l) = SPC # msg" using assms(3) by simp
  have "parseStatusLine r = Some (None, r\<lparr>hr_majorVersion := 1, hr_minorVersion := 1, hr_status := int st, hr_statusMsg := SPC # msg\<rparr>)"
    using re_status_ok[of st msg] assms(2) n
    unfolding parseStatusLine_def assms(1) Let_def c getMatchString_some[OF m]
    by (simp add: parseInt_one parseInt_show_nat getMatchString_some del: chars_simps)
  then show ?thesis by simp
qed

section \<open>A listener that writes down what it is told\<close>

datatype client_event = EvStatus int | EvBlock string | EvComplete | EvError rv

definition recorder :: "client_event list listener" where
  "recorder = \<lparr>ls_status = (\<lambda>st c. (None, c @ [EvStatus st])), ls_response = (\<lambda>d c. (None, c @ [EvBlock d])),
     ls_complete = (\<lambda>c. (None, c @ [EvComplete])), ls_error = (\<lambda>e c. (None, c @ [EvError e]))\<rparr>"

lemma recorder_simps:
  "ls_status recorder st c = (None, c @ [EvStatus st])" "ls_complete recorder c = (None, c @ [EvComplete])"
  by (simp_all add: recorder_def)

abbreviation rec_block :: "string \<Rightarrow> client_event list \<Rightarrow> rv \<times> client_event list" where
  "rec_block \<equiv> conn_onResponse True (Some recorder)"

lemma rec_block: "rec_block d c = (None, c @ [EvBlock d])"
  by (simp add: conn_onResponse_def recorder_def)

definition status_events :: "int \<Rightarrow> client_event list" where
  "status_events st = (if special_status st then [] else [EvStatus st])"

lemma readStatusAndHeader_ok:
  assumes "sock_queue (qs @ bs) s" "concat qs = response_text st msg kvs @ T" "\<forall>q\<in>set (butlast qs). last q \<noteq> CR"
    "\<forall>q\<in>set qs. length (response_text st msg kvs) + length q < LINE_MAX" "\<forall>kv\<in>set kvs. header_clean kv" "length kvs \<le> 100"
    "st < 2 ^ 31" "set msg \<inter> {NUL, CR} = {}"
  shows "\<exists>r qs' s'. readStatusAndHeader tparse (Some recorder) http_round_new [] s = Some (None, r, status_events (int st), s') \<and>
    hr_status r = int st \<and> hr_statusMsg r = SPC # msg \<and> hr_chunked r = (\<exists>kv\<in>set kvs. says_chunked kv) \<and>
    hr_rd r = round_new\<lparr>rd_contentLength := foldl length_step 0 kvs\<rparr> \<and> header_find (hr_header r) = map_of (rev kvs) \<and>
    hr_recvBuffer r @ concat qs' = T \<and> suffix qs' qs \<and> sock_queue (qs' @ bs) s'"
proof -
  let ?l = "''HTTP/1.1 '' @ show_nat st @ '' '' @ msg" and ?r = http_round_new
  have len: "length (response_text st msg kvs) = length ?l + 2 + length (header_block kvs)" by (simp add: response_text_def)
  have "CR \<notin> set (show_nat st)" using show_nat_digits[of st] by (auto simp: c_isdigit_def uchar_def)
  then have nl: "CR \<notin> set ?l" "NUL \<notin> set ?l" using assms(8) by auto
  have eq: "hr_recvBuffer ?r @ concat qs = ?l @ CRLF @ header_block kvs @ T"
    using assms(2) by (simp add: response_text_def http_round_new_def)
  have cm: "calm (hr_recvBuffer ?r) qs" using assms(3) by (simp add: calm_def http_round_new_def)
  have lim1: "\<forall>q\<in>set qs. length ?l + length q < LINE_MAX" "\<forall>q\<in>set qs. length (header_block kvs) + length q < LINE_MAX"
    using assms(4) unfolding len by auto
  from conn_readLine_ok[OF assms(1) eq nl cm lim1(1)] obtain R1 qs1 s1 where
    1: "conn_readLine ?r s = (None, ?r\<lparr>hr_lineBuffer := ?l, hr_recvBuffer := R1\<rparr>, s1)" "R1 @ concat qs1 = header_block kvs @ T"
      "calm R1 qs1" "suffix qs1 qs" "sock_queue (qs1 @ bs) s1" by blast
  let ?r1 = "?r\<lparr>hr_lineBuffer := ?l, hr_recvBuffer := R1\<rparr>"
  have "hr_lineBuffer ?r1 = ?l" "NUL \<notin> set msg" using assms(8) by auto
  from parseStatusLine_ok[OF this(1) assms(7) this(2)] obtain r2 where
    2: "parseStatusLine ?r1 = Some (None, r2)" "hr_status r2 = int st" "hr_statusMsg r2 = SPC # msg" "hr_recvBuffer r2 = R1"
      "hr_header r2 = arr_init" "\<not> hr_chunked r2" "hr_rd r2 = round_new" "hr_useSpecialStatusCode r2"
    by (auto simp: http_round_new_def round_new_def)
  have lim2: "\<forall>q\<in>set qs1. length (header_block kvs) + length q < LINE_MAX" using lim1(2) set_mono_suffix[OF 1(4)] by blast
  from readResponseHeader_ok[OF 1(5), of r2 kvs T tparse] 1 2 lim2 assms(5,6) obtain r3 qs3 s3 where
    3: "readResponseHeader tparse r2 s1 = Some (None, r3, s3)" "after_headers kvs r2 r3" "hr_recvBuffer r3 @ concat qs3 = T"
      "suffix qs3 qs1" "sock_queue (qs3 @ bs) s3" by auto
  have "call_status (Some recorder) r3 [] = (None, status_events (int st))"
    using 2 3(2) by (simp add: call_status_def after_headers_def recorder_def status_events_def)
  then have "readStatusAndHeader tparse (Some recorder) http_round_new [] s = Some (None, r3, status_events (int st), s3)"
    using 1(1) 2(1) 3(1) by (simp add: readStatusAndHeader_def)
  with suffix_order.trans[OF 3(4) 1(4)] 2 3 show ?thesis
    by (intro exI[of _ r3] exI[of _ qs3] exI[of _ s3]) (auto simp: after_headers_def round_new_def)
qed

section \<open>The contents\<close>

lemma room_cases:
  assumes "0 < b" "b < 2 ^ 63" "length acc < 2 ^ 63"
  shows "int (length acc) \<le> b \<Longrightarrow> block_room b acc = nat b - length acc"
    and "b < int (length acc) \<Longrightarrow> 2 ^ 63 \<le> block_room b acc"
proof -
  show "int (length acc) \<le> b \<Longrightarrow> block_room b acc = nat b - length acc"
    using assms by (simp add: block_room_def nat_diff_distrib)
  assume l: "b < int (length acc)"
  have "(b - int (length acc)) mod 2 ^ 64 = (b - int (length acc) + 2 ^ 64) mod 2 ^ 64" by (rule mod_add_self2[symmetric])
  also have "\<dots> = b - int (length acc) + 2 ^ 64" using l assms by (intro mod_pos_pos_trivial) simp_all
  finally have "(b - int (length acc)) mod 2 ^ 64 = b - int (length acc) + 2 ^ 64" .
  then show "2 ^ 63 \<le> block_room b acc" using assms unfolding block_room_def by simp
qed

lemma of_nat64_eq: "i < 2 ^ 64 \<Longrightarrow> j < 2 ^ 64 \<Longrightarrow> (word_of_nat i :: 64 word) = word_of_nat j \<longleftrightarrow> i = j"
  by (simp add: word_of_nat_eq_iff take_bit_nat_eq_self)

context block_log begin

lemma block_loop_any:
  assumes b: "0 < b" "b < 2 ^ 63"
  shows "length acc + length data < 2 ^ 63 \<Longrightarrow>
    \<exists>acc' ds. block_loop on fin b False data acc c = Some (None, acc', c @ map ev ds) \<and> concat ds @ acc' = acc @ data"
proof (induction "length acc + length data" arbitrary: data acc c rule: less_induct)
  case less
  have acc: "length acc < 2 ^ 63" using less.prems by simp
  show ?case
  proof (cases "length data < block_room b acc")
    case True
    then have "block_loop on fin b False data acc c = Some (None, acc @ data, c)" by (subst block_loop.simps) simp
    then show ?thesis by (intro exI[of _ "acc @ data"] exI[of _ "[]"]) simp
  next
    case False
    then have r: "int (length acc) \<le> b" "block_room b acc = nat b - length acc"
      using room_cases[OF b acc] less.prems by linarith+
    let ?x = "acc @ take (block_room b acc) data" and ?d = "drop (block_room b acc) data"
    have "block_loop on fin b False data acc c = block_loop on fin b False ?d [] (c @ [ev ?x])"
      using False by (subst block_loop.simps) (simp add: on_logs Let_def)
    moreover have "length [] + length ?d < length acc + length data" using False r b by auto
    moreover have "length [] + length ?d < 2 ^ 63" using less.prems by simp
    from less.hyps[OF \<open>length [] + length ?d < length acc + length data\<close> this, of "c @ [ev ?x]"] obtain acc' ds where
      "block_loop on fin b False ?d [] (c @ [ev ?x]) = Some (None, acc', (c @ [ev ?x]) @ map ev ds)"
      "concat ds @ acc' = ?d" by auto
    ultimately show ?thesis by (intro exI[of _ acc'] exI[of _ "?x # ds"]) simp
  qed
qed

lemma block_loop_rest:
  assumes b: "0 < b" "b < 2 ^ 63" and acc: "length acc < 2 ^ 63"
  shows "\<exists>ds. block_loop on on b True [] acc c = Some (None, [], c @ map ev ds) \<and> concat ds = acc"
proof -
  have one: "block_loop on on b True [] a c' = Some (None, [], c' @ [ev a])" if "0 < block_room b a" for a c'
    using that by (subst block_loop.simps) (simp add: on_logs)
  show ?thesis
  proof (cases "int (length acc) = b")
    case False
    then have "0 < block_room b acc" using room_cases[OF b acc] b by (cases "int (length acc) < b") auto
    from one[OF this] show ?thesis by (intro exI[of _ "[acc]"]) simp
  next
    case True
    then have "block_room b acc = 0" using room_cases(1)[OF b acc] by simp
    then have "block_loop on on b True [] acc c = block_loop on on b True [] [] (c @ [ev acc])"
      by (subst block_loop.simps) (simp add: on_logs)
    moreover have "0 < block_room b []" using b by (simp add: block_room_def)
    ultimately show ?thesis using one[of "[]"] by (intro exI[of _ "[acc, []]"]) simp
  qed
qed

lemma procBlocks_any:
  assumes "0 < b" "b < 2 ^ 63" "length (rd_readerBuffer rd) + length p < 2 ^ 63"
  shows "\<exists>rd' ds. procBlocks on b p False (rd, c) = Some (None, rd', c @ map ev ds) \<and>
    concat ds @ rd_readerBuffer rd' = rd_readerBuffer rd @ p \<and> rd_contentLength rd' = rd_contentLength rd \<and>
    rd_recvLength rd' = rd_recvLength rd + word_of_nat (length p)"
proof -
  from block_loop_any[OF assms, of on c] obtain acc ds where
    "block_loop on on b False p (rd_readerBuffer rd) c = Some (None, acc, c @ map ev ds)"
    "concat ds @ acc = rd_readerBuffer rd @ p" by blast
  then show ?thesis using assms(1) by (intro exI[of _ "rd\<lparr>rd_recvLength := rd_recvLength rd + word_of_nat (length p), rd_readerBuffer := acc\<rparr>"] exI[of _ ds])
      (simp add: procBlocks_def Let_def)
qed

lemma readLastBlocks_now:
  assumes "0 < b" "b < 2 ^ 63" "length (rd_readerBuffer rd) < 2 ^ 63" "rd_recvLength rd = rd_contentLength rd"
  shows "\<exists>rd' ds. readLastBlocks on b (rd, c) = Some (None, rd', c @ map ev ds) \<and> concat ds = rd_readerBuffer rd"
proof -
  from block_loop_rest[OF assms(1-3), of c] obtain ds where
    "block_loop on on b True [] (rd_readerBuffer rd) c = Some (None, [], c @ map ev ds)" "concat ds = rd_readerBuffer rd"
    by blast
  then show ?thesis using assms(1,4) by (intro exI[of _ "rd\<lparr>rd_readerBuffer := []\<rparr>"] exI[of _ ds])
      (simp add: readLastBlocks_def procBlocks_def Let_def)
qed

lemma read_blocks_loop_ok:
  assumes b: "0 < b" "b < 2 ^ 63"
  shows "ps \<noteq> [] \<Longrightarrow> sock_queue ps s \<Longrightarrow> \<forall>p\<in>set ps. length p < HTTPSOCKET_MAX \<Longrightarrow>
    length (rd_readerBuffer rd) \<le> n \<Longrightarrow> rd_recvLength rd = word_of_nat n \<Longrightarrow>
    rd_contentLength rd = word_of_nat (n + length (concat ps)) \<Longrightarrow> n + length (concat ps) < 2 ^ 63 \<Longrightarrow>
    \<exists>rd' ds s'. read_blocks_loop on b (rd, c) s = Some (None, (rd', c @ map ev ds), s') \<and>
      concat ds = rd_readerBuffer rd @ concat ps"
proof (induction ps arbitrary: rd c s n)
  case (Cons p ps)
  from Cons.prems(2) obtain s1 s2 where st: "wait_recv s = (None, s1)"
    "\<And>n. length p < n \<Longrightarrow> recv_raw False n s1 = (Some (DFW_E_AGAIN, 11), p, s2)" "sock_queue ps s2" by (rule queue_step) blast
  have p: "p \<noteq> []" "recv_raw False HTTPSOCKET_MAX s1 = (Some (DFW_E_AGAIN, 11), p, s2)"
    using Cons.prems(2,3) by (simp_all add: st(2))
  have "length (rd_readerBuffer rd) + length p < 2 ^ 63" using Cons.prems(4,7) by simp
  from procBlocks_any[OF b this, of c] obtain rd1 ds1 where
    1: "procBlocks on b p False (rd, c) = Some (None, rd1, c @ map ev ds1)"
      "concat ds1 @ rd_readerBuffer rd1 = rd_readerBuffer rd @ p" "rd_contentLength rd1 = rd_contentLength rd"
      "rd_recvLength rd1 = word_of_nat (n + length p)" using Cons.prems(5) by auto
  have "length (rd_readerBuffer rd1) \<le> length (rd_readerBuffer rd @ p)" unfolding 1(2)[symmetric] by simp
  then have len: "length (rd_readerBuffer rd1) \<le> n + length p" using Cons.prems(4) by simp
  have step: "read_blocks_loop on b (rd, c) s =
    (case readLastBlocks on b (rd1, c @ map ev ds1) of
       None \<Rightarrow> None
     | Some (e2, st2) \<Rightarrow> if e2 = None then Some (None, st2, s2)
         else if fst (the e2) = DFW_E_DISCONNECT then Some (e2, st2, s2) else read_blocks_loop on b st2 s2)"
    using p(1) by (subst read_blocks_loop.simps) (simp add: st(1) p(2) 1(1))
  show ?case
  proof (cases "ps = []")
    case True
    then have "rd_recvLength rd1 = rd_contentLength rd1" using 1(3,4) Cons.prems(6) by simp
    moreover have "length (rd_readerBuffer rd1) < 2 ^ 63" using len Cons.prems(7) by simp
    ultimately obtain rd2 ds2 where "readLastBlocks on b (rd1, c @ map ev ds1) = Some (None, rd2, (c @ map ev ds1) @ map ev ds2)"
      "concat ds2 = rd_readerBuffer rd1" using readLastBlocks_now[OF b, of rd1 "c @ map ev ds1"] by blast
    then show ?thesis using step 1(2) True by (intro exI[of _ rd2] exI[of _ "ds1 @ ds2"] exI[of _ s2]) simp
  next
    case False
    then obtain p' ps' where ps: "ps = p' # ps'" by (cases ps) auto
    then have "0 < length (concat ps)" using st(3) by simp
    then have "n + length p < n + length p + length (concat ps)" "n + length p + length (concat ps) < 2 ^ 64"
      using Cons.prems(7) by simp_all
    then have "rd_recvLength rd1 \<noteq> rd_contentLength rd1"
      using of_nat64_eq[of "n + length p" "n + length p + length (concat ps)"] 1(3,4) Cons.prems(6) by (simp add: add.assoc)
    then have "read_blocks_loop on b (rd, c) s = read_blocks_loop on b (rd1, c @ map ev ds1) s2"
      using step by (simp add: readLastBlocks_def)
    moreover have "\<forall>p\<in>set ps. length p < HTTPSOCKET_MAX" "rd_contentLength rd1 = word_of_nat (n + length p + length (concat ps))"
      "n + length p + length (concat ps) < 2 ^ 63" using Cons.prems(3,6,7) 1(3) by (simp_all add: add.assoc)
    from Cons.IH[OF False st(3) this(1) len 1(4) this(2,3), of "c @ map ev ds1"] obtain rd' ds s' where
      "read_blocks_loop on b (rd1, c @ map ev ds1) s2 = Some (None, (rd', (c @ map ev ds1) @ map ev ds), s')"
      "concat ds = rd_readerBuffer rd1 @ concat ps" by blast
    ultimately show ?thesis using 1(2) by (intro exI[of _ rd'] exI[of _ "ds1 @ ds"] exI[of _ s']) simp
  qed
qed simp

end

interpretation recd: block_log rec_block EvBlock
  by unfold_locales (rule rec_block)

lemma conn_response_ok:
  assumes b: "0 < b" "b < 2 ^ 63" and m: "method \<noteq> []" "cstr method \<noteq> ''HEAD''"
    and r: "\<not> hr_chunked r" "hr_rd r = round_new\<lparr>rd_contentLength := word_of_nat (length body)\<rparr>"
    and q: "hr_recvBuffer r @ concat ps = body" "sock_queue ps s" "\<forall>p\<in>set ps. length p < HTTPSOCKET_MAX" "length body < 2 ^ 63"
  shows "\<exists>rd ds s'. conn_response junk method b (Some recorder) True r c s =
      Some (None, (if body = [] then r else reader_reset r)\<lparr>hr_onRecvContents := True, hr_rd := rd\<rparr>, c @ map EvBlock ds @ [EvComplete], s') \<and>
      concat ds = body"
proof (cases "body = []")
  case True
  then show ?thesis using m r(1,2)
    by (intro exI[of _ "hr_rd r"] exI[of _ "[]"] exI[of _ s]) (simp add: conn_response_def response_real_def recorder_def)
next
  case False
  let ?r = "r\<lparr>hr_onRecvContents := True\<rparr>" and ?n = "length (hr_recvBuffer r)"
  let ?rd = "round_new\<lparr>rd_contentLength := word_of_nat (length body), rd_recvLength := word_of_nat ?n, rd_readerBuffer := hr_recvBuffer r\<rparr>"
  have rst: "reader_reset ?r = (reader_reset r)\<lparr>hr_onRecvContents := True\<rparr>" "hr_rd (reader_reset r) = ?rd"
    using r(2) by (simp_all add: reader_reset_def Let_def round_new_def)
  have nz: "(word_of_nat (length body) :: 64 word) \<noteq> 0" using of_nat64_eq[of "length body" 0] False q(4) by simp
  have tot: "length body = ?n + length (concat ps)" unfolding q(1)[symmetric] by simp
  have "\<exists>rd ds s'. reader_readBlocks rec_block b (?rd, c) s = Some (None, (rd, c @ map EvBlock ds), s') \<and> concat ds = body"
  proof (cases "ps = []")
    case True
    then have "rd_recvLength ?rd = rd_contentLength ?rd" "length (rd_readerBuffer ?rd) < 2 ^ 63" using tot q(4) by simp_all
    then obtain rd ds where "readLastBlocks rec_block b (?rd, c) = Some (None, rd, c @ map EvBlock ds)" "concat ds = hr_recvBuffer r"
      using recd.readLastBlocks_now[OF b, of ?rd c] by auto
    then show ?thesis using True q(1) by (simp add: reader_readBlocks_def) blast
  next
    case ne: False
    then have "0 < length (concat ps)" using queue_nonempty[OF q(2)] by (cases ps) auto
    then have "rd_recvLength ?rd \<noteq> rd_contentLength ?rd" using of_nat64_eq[of ?n "length body"] tot q(4) by simp
    then have "reader_readBlocks rec_block b (?rd, c) s = read_blocks_loop rec_block b (?rd, c) s"
      by (simp add: reader_readBlocks_def readLastBlocks_def)
    with recd.read_blocks_loop_ok[OF b ne q(2,3), of ?rd ?n c] tot q(1,4) show ?thesis by auto
  qed
  then obtain rd ds s' where x: "reader_readBlocks rec_block b (?rd, c) s = Some (None, (rd, c @ map EvBlock ds), s')" "concat ds = body" by blast
  then have "conn_response junk method b (Some recorder) True r c s =
      Some (None, (reader_reset r)\<lparr>hr_onRecvContents := True, hr_rd := rd\<rparr>, c @ map EvBlock ds @ [EvComplete], s')"
    using m r nz rst by (simp add: conn_response_def response_real_def recorder_simps)
  with x(2) False show ?thesis by auto
qed

section \<open>Properties\<close>

text \<open>C3. A client reads back a well-formed response with an announced length: the status, the headers, and the
  contents in blocks whose bytes in order are the contents, then the call of \<open>onComplete\<close>.  The packets \<open>qs\<close> hold the
  head and perhaps some of the contents, the packets \<open>ps\<close> the rest, cut anywhere but for this: no packet of \<open>qs\<close> but
  the last ends with a CR (behind a CR that ends a packet, \<open>readLine\<close> can wait for a line end it already has), the
  head with any one packet of \<open>qs\<close> is shorter than \<open>LINE_MAX\<close> (51200), and each packet of \<open>ps\<close> is shorter than the
  buffer it is received into (a receive that fills it is refused).  At most 100 headers (\<open>header_clean\<close>: dates have a
  value, a content type has none or one longer than 8 characters), a status below \<open>2 ^ 31\<close>, contents
  below \<open>2 ^ 63\<close>, a block size other than 0, no \<open>chunked\<close> and no \<open>HEAD\<close>.\<close>

theorem client_reads_response:
  assumes "sock_queue (qs @ ps) s" "concat qs @ concat ps = response_text st msg kvs @ body"
    and "length (response_text st msg kvs) \<le> length (concat qs)" "\<forall>q\<in>set (butlast qs). last q \<noteq> CR"
    and "\<forall>q\<in>set qs. length (response_text st msg kvs) + length q < LINE_MAX" "\<forall>p\<in>set ps. length p < HTTPSOCKET_MAX"
    and "st < 2 ^ 31" "set msg \<inter> {NUL, CR} = {}" "\<forall>kv\<in>set kvs. header_clean kv" "length kvs \<le> 100"
    and "foldl length_step 0 kvs = word_of_nat (length body)" "length body < 2 ^ 63" "\<forall>kv\<in>set kvs. \<not> says_chunked kv"
    and "0 < b" "b < 2 ^ 63" "method \<noteq> []" "cstr method \<noteq> ''HEAD''"
  shows "\<exists>r1 c1 s1 r2 ds s2.
    readStatusAndHeader tparse (Some recorder) http_round_new [] s = Some (None, r1, c1, s1) \<and>
    conn_response junk method b (Some recorder) True r1 c1 s1 =
      Some (None, r2, status_events (int st) @ map EvBlock ds @ [EvComplete], s2) \<and>
    concat ds = body \<and> hr_status r2 = int st \<and> header_find (hr_header r2) = map_of (rev kvs)"
proof -
  obtain T where T: "concat qs = response_text st msg kvs @ T" "body = T @ concat ps"
  proof -
    have "prefix (response_text st msg kvs) (concat qs)"
      using assms(2,3) by (metis prefixI prefix_length_prefix)
    then obtain T where "concat qs = response_text st msg kvs @ T" by (auto simp: prefix_def)
    with assms(2) that show ?thesis by auto
  qed
  from readStatusAndHeader_ok[OF assms(1) T(1) assms(4,5,9,10,7,8), of tparse] obtain r qs' s' where
    1: "readStatusAndHeader tparse (Some recorder) http_round_new [] s = Some (None, r, status_events (int st), s')"
      "hr_status r = int st" "hr_chunked r = (\<exists>kv\<in>set kvs. says_chunked kv)"
      "hr_rd r = round_new\<lparr>rd_contentLength := foldl length_step 0 kvs\<rparr>" "header_find (hr_header r) = map_of (rev kvs)"
      "hr_recvBuffer r @ concat qs' = T" "suffix qs' qs" "sock_queue (qs' @ ps) s'" by blast
  have "\<forall>p\<in>set (qs' @ ps). length p < HTTPSOCKET_MAX" using assms(5,6) set_mono_suffix[OF 1(7)] by fastforce
  moreover have "hr_recvBuffer r @ concat (qs' @ ps) = body" using 1(6) T(2) by simp
  moreover have "\<not> hr_chunked r" "hr_rd r = round_new\<lparr>rd_contentLength := word_of_nat (length body)\<rparr>"
    using 1(3,4) assms(11,13) by auto
  ultimately obtain rd ds s2 where
    "conn_response junk method b (Some recorder) True r (status_events (int st)) s' =
      Some (None, (if body = [] then r else reader_reset r)\<lparr>hr_onRecvContents := True, hr_rd := rd\<rparr>,
        status_events (int st) @ map EvBlock ds @ [EvComplete], s2)" "concat ds = body"
    using conn_response_ok[OF assms(14-17), of r body "qs' @ ps" s'] 1(8) assms(12) by blast
  moreover have "hr_status (reader_reset r) = hr_status r" "hr_header (reader_reset r) = hr_header r"
    by (simp_all add: reader_reset_def Let_def)
  ultimately show ?thesis using 1(1,2,5) by (auto intro!: exI)
qed

definition feed_sock :: "string list \<Rightarrow> sock" where
  "feed_sock ps =
     \<lparr>sk_stop = False, sk_timeout = 1000, sk_polls = map (\<lambda>_. SysRet 1) ps, sk_sends = [],
      sk_recvs = concat (map (\<lambda>p. [SysRet (length p), SysErr ''EAGAIN'']) ps), sk_lefts = [], sk_sent = [], sk_in = concat ps\<rparr>"

lemma feed_sock_queue: "[] \<notin> set ps \<Longrightarrow> sock_queue ps (feed_sock ps)"
proof (induction ps)
  case (Cons p ps)
  have "sock_queue ps (feed_sock ps)" using Cons by simp
  moreover have "(feed_sock (p # ps))\<lparr>sk_polls := map (\<lambda>_. SysRet 1) ps,
      sk_recvs := concat (map (\<lambda>p. [SysRet (length p), SysErr ''EAGAIN'']) ps), sk_in := concat ps\<rparr> = feed_sock ps"
    by (simp add: feed_sock_def)
  ultimately show ?case using Cons.prems
    by (auto simp: feed_sock_def revent_def intro!: exI[of _ "[length p]"])
qed (simp add: feed_sock_def)

lemma show_nat_200: "show_nat 200 = ''200''"
  by code_simp

theorem client_reads_response_witness:
  "\<exists>r1 c1 s1 r2 ds s2.
    readStatusAndHeader (\<lambda>old _. old) (Some recorder) http_round_new []
      (feed_sock ([''HTTP/1.1 200 OK'' @ CRLF @ ''Content-Len'', ''gth: 5'' @ CRLF @ ''Server: x'' @ CRLF @ CRLF @ ''he''] @ [''llo''])) =
      Some (None, r1, c1, s1) \<and>
    conn_response [] ''GET'' 2 (Some recorder) True r1 c1 s1 =
      Some (None, r2, status_events (int 200) @ map EvBlock ds @ [EvComplete], s2) \<and>
    concat ds = ''hello'' \<and> hr_status r2 = int 200 \<and>
    header_find (hr_header r2) = map_of (rev [(''Content-Length'', ''5''), (''Server'', ''x'')])"
proof (rule client_reads_response[where msg="''OK''"])
  show "sock_queue ([''HTTP/1.1 200 OK'' @ CRLF @ ''Content-Len'', ''gth: 5'' @ CRLF @ ''Server: x'' @ CRLF @ CRLF @ ''he''] @ [''llo''])
    (feed_sock ([''HTTP/1.1 200 OK'' @ CRLF @ ''Content-Len'', ''gth: 5'' @ CRLF @ ''Server: x'' @ CRLF @ CRLF @ ''he''] @ [''llo'']))"
    by (rule feed_sock_queue) simp
  show "foldl length_step 0 [(''Content-Length'', ''5''), (''Server'', ''x'')] = word_of_nat (length ''hello'')"
    "\<forall>kv\<in>set [(''Content-Length'', ''5''), (''Server'', ''x'')]. header_clean kv"
    "\<forall>kv\<in>set [(''Content-Length'', ''5''), (''Server'', ''x'')]. \<not> says_chunked kv" by code_simp+
qed (simp_all add: response_text_def header_block_def header_line_def show_nat_200)

text \<open>A response that arrives too fast is refused: when 51200 bytes or more are there at once, the first \<open>recv\<close> fills
  the buffer and reports no code, and \<open>readLine\<close> takes that for an unknown status.  Nothing reaches the listener, whatever the
  bytes are.\<close>

theorem full_buffer_is_refused:
  assumes "\<not> sk_stop s" "sk_polls s = SysRet k # polls" "0 < k" "revent k 0" "sk_recvs s = SysRet n # recvs"
    and "LINE_MAX \<le> n" "LINE_MAX \<le> length (sk_in s)"
  shows "readStatusAndHeader tparse lst http_round_new c s =
    Some (Some (DFW_ERROR, 0), http_round_new, c, s\<lparr>sk_polls := polls, sk_recvs := recvs, sk_in := drop LINE_MAX (sk_in s)\<rparr>)"
proof -
  let ?s1 = "s\<lparr>sk_polls := polls\<rparr>" and ?s2 = "s\<lparr>sk_polls := polls, sk_recvs := recvs, sk_in := drop LINE_MAX (sk_in s)\<rparr>"
  have w: "wait_recv s = (None, ?s1)" using assms(1-4) by (simp add: sock_wait_def poll_events_def)
  have d: "length (take (min n LINE_MAX) (sk_in ?s1)) = LINE_MAX" using assms(6,7) by simp
  then have "recv_raw False LINE_MAX ?s1 = recv_loop False 0 (take (min n LINE_MAX) (sk_in ?s1)) ?s2"
    using assms(1,5) by (simp only: recv_raw_def) (subst recv_loop.simps, simp add: Let_def del: take_eq_Nil take_eq_Nil2 length_take, auto)
  also have "\<dots> = (None, take (min n LINE_MAX) (sk_in ?s1), ?s2)" by (subst recv_loop.simps) simp
  finally have "line_loop [] http_round_new s = (Some (DFW_ERROR, 0), http_round_new, ?s2)"
    by (subst line_loop.simps) (simp add: w)
  moreover have "round_readLine http_round_new = (Some (DFW_ERROR, 0), http_round_new)"
    by (simp add: round_readLine_def http_round_new_def)
  ultimately show ?thesis by (simp add: readStatusAndHeader_def conn_readLine_def)
qed

text \<open>A date without a value crashes the client: \<open>Time::parse\<close> gets NULL from the empty value and hands it to \<open>sscanf\<close>.
  With a value the three headers are read.\<close>

theorem empty_date_crashes:
  "parseHeaderLine tparse (r\<lparr>hr_lineBuffer := ''Expires:''\<rparr>) = None \<and> parseHeaderLine tparse (r\<lparr>hr_lineBuffer := ''Date: ''\<rparr>) = None \<and>
   parseHeaderLine tparse (r\<lparr>hr_lineBuffer := ''Last-Modified:x''\<rparr>) = None \<and>
   (header_ok (hr_header r) \<and> header_room 1 (hr_header r) \<longrightarrow>
     (\<exists>r'. parseHeaderLine tparse (r\<lparr>hr_lineBuffer := ''Expires: 0''\<rparr>) = Some (None, r')))"
proof -
  have n: "\<not> text_equals ''Expires'' ''Transfer-Encoding''" "\<not> text_equals ''Expires'' ''Content-Type''" "\<not> text_equals ''Expires'' ''Last-Modified''"
    "\<not> text_equals ''Expires'' ''Date''" "text_equals ''Expires'' ''Expires''" "\<not> text_equals ''Date'' ''Transfer-Encoding''"
    "\<not> text_equals ''Date'' ''Content-Type''" "\<not> text_equals ''Date'' ''Last-Modified''" "text_equals ''Date'' ''Date''"
    "\<not> text_equals ''Last-Modified'' ''Transfer-Encoding''" "\<not> text_equals ''Last-Modified'' ''Content-Type''"
    "text_equals ''Last-Modified'' ''Last-Modified''" by code_simp+
  have "patchHeader tparse ''Expires'' [] r' = None" "patchHeader tparse ''Date'' [] r' = None" "patchHeader tparse ''Last-Modified'' [] r' = None" for r'
    using n by (simp_all add: patchHeader_def time_member_def)
  moreover have "header_clean (''Expires'', ''0'')" by code_simp
  then have "\<exists>r'. parseHeaderLine tparse (r\<lparr>hr_lineBuffer := ''Expires: 0''\<rparr>) = Some (None, r')"
    if "header_ok (hr_header r)" "header_room 1 (hr_header r)"
    using parseHeaderLine_ok[of "''Expires''" "''0''" "r\<lparr>hr_lineBuffer := ''Expires: 0''\<rparr>" 0 tparse] that
    by (auto simp: header_line_def)
  ultimately show ?thesis by (simp add: parseHeaderLine_def cstr_def)
qed

theorem full_buffer_is_refused_witness:
  "readStatusAndHeader (\<lambda>old _. old) (Some recorder) http_round_new [] (feed_sock [replicate 60000 CHR ''x'']) =
    Some (Some (DFW_ERROR, 0), http_round_new, [],
      (feed_sock [replicate 60000 CHR ''x''])\<lparr>sk_polls := [], sk_recvs := [SysErr ''EAGAIN''],
        sk_in := drop LINE_MAX (sk_in (feed_sock [replicate 60000 CHR ''x'']))\<rparr>)"
  by (rule full_buffer_is_refused[where k=1 and n=60000]) (simp_all add: feed_sock_def revent_def)

theorem empty_date_crashes_witness:
  "(\<exists>r'. parseHeaderLine (\<lambda>old _. old) (http_round_new\<lparr>hr_lineBuffer := ''Expires: 0''\<rparr>) = Some (None, r')) \<and>
   parseHeaderLine (\<lambda>old _. old) (http_round_new\<lparr>hr_lineBuffer := ''Expires:''\<rparr>) = None"
  using empty_date_crashes[of "\<lambda>old _. old" http_round_new] by (simp add: http_round_new_def)

end
