(* ===== verification/Dfw_HttpChunked_Spec.thy ===== *)
theory Dfw_HttpChunked_Spec
  imports Dfw_HttpClient_Spec
begin

text \<open>
  Chunked contents from the connection: \<open>HttpChunked::readBlocks\<close> decodes what comes when no packet ends inside a
  chunk's header and what is left of a packet with the next one fits the buffer; and leaves its array on the stack otherwise.
\<close>

section \<open>Packets of chunks\<close>

definition chunks_ok :: "string list \<Rightarrow> bool" where
  "chunks_ok ds \<longleftrightarrow> (\<forall>d\<in>set ds. 0 < length d \<and> length d < 65536)"

abbreviation coded :: "string list \<Rightarrow> string" where
  "coded ds \<equiv> concat (map chunk ds)"

text \<open>The beginning of a chunk, with its whole header, or nothing.\<close>

definition partial_chunk :: "string \<Rightarrow> bool" where
  "partial_chunk l \<longleftrightarrow> l = [] \<or>
     (\<exists>d. 0 < length d \<and> length d < 65536 \<and> length (show_hex (length d)) + 2 \<le> length l \<and> strict_prefix l (chunk d))"

text \<open>Packets with room \<open>sz\<close> for the first and \<open>l\<close> left over from before; the contents they carry.\<close>

inductive chunk_feed :: "nat \<Rightarrow> string \<Rightarrow> string list \<Rightarrow> string \<Rightarrow> bool" where
  last: "l @ p = coded ds @ ''0'' @ CRLF @ CRLF \<Longrightarrow> chunks_ok ds \<Longrightarrow> length p < sz \<Longrightarrow> length l + length p \<le> HTTPSOCKET_MAX2 \<Longrightarrow>
    chunk_feed sz l [p] (concat ds)"
| more: "l @ p = coded ds @ l' \<Longrightarrow> chunks_ok ds \<Longrightarrow> partial_chunk l' \<Longrightarrow> length p < sz \<Longrightarrow> length l + length p \<le> HTTPSOCKET_MAX2 \<Longrightarrow>
    chunk_feed (next_room (length (coded ds))) l' ps d \<Longrightarrow> chunk_feed sz l (p # ps) (concat ds @ d)"

inductive_simps chunk_feed_Nil: "chunk_feed sz l [] d"

text \<open>The contents \<open>d\<close> split into what came with the head and packets.\<close>

inductive chunk_body :: "string \<Rightarrow> string list \<Rightarrow> string \<Rightarrow> bool" where
  empty: "chunk_feed HTTPSOCKET_MAX [] ps d \<Longrightarrow> chunk_body [] ps d"
| complete: "chunks_ok ds \<Longrightarrow> length (coded ds @ ''0'' @ CRLF @ CRLF) \<le> HTTPSOCKET_MAX \<Longrightarrow>
    chunk_body (coded ds @ ''0'' @ CRLF @ CRLF) ps (concat ds)"
| rest: "chunks_ok ds \<Longrightarrow> partial_chunk l \<Longrightarrow> coded ds @ l \<noteq> [] \<Longrightarrow> length (coded ds @ l) \<le> HTTPSOCKET_MAX \<Longrightarrow>
    chunk_feed (HTTPSOCKET_MAX - length l) l ps d \<Longrightarrow> chunk_body (coded ds @ l) ps (concat ds @ d)"

lemma chunk_head_partial:
  assumes "partial_chunk l"
  shows "chunk_head (l @ rest) (length l) = Some HeadMissing \<or> chunk_head (l @ rest) (length l) = Some HeadPartial"
proof (cases "l = []")
  case False
  with assms obtain d where d: "0 < length d" "length d < 65536" "length (show_hex (length d)) + 2 \<le> length l" "strict_prefix l (chunk d)"
    by (auto simp: partial_chunk_def)
  let ?h = "show_hex (length d)" and ?n = "length d"
  have nc: "NUL \<notin> set ?h" "CR \<notin> set ?h" using show_hex_chars by blast+
  have hl: "length ?h \<le> 4" using show_hex_length[of ?n 3] d(2) by simp
  obtain x where x: "l = ?h @ CRLF @ x"
  proof -
    have "prefix (?h @ CRLF) (chunk d)" unfolding chunk_def by (intro prefixI[of _ _ "d @ CRLF"]) (simp only: append_assoc)
    moreover have "prefix l (chunk d)" using d(4) by (rule prefix_order.less_imp_le)
    ultimately have "prefix (?h @ CRLF) l" by (rule prefix_length_prefix) (use d(3) in simp)
    then obtain y where "l = (?h @ CRLF) @ y" by (rule prefixE)
    then show ?thesis by (intro that[of y]) simp
  qed
  have c: "cstr (l @ rest) = ?h @ CR # LF # cstr (x @ rest)"
    using cstr_append_clean[OF nc(1), of "CR # LF # x @ rest"] x by (simp add: cstr_def)
  have m: "mem_strstr (l @ rest) CRLF = Some (Some (length ?h))"
    by (simp add: mem_strstr_def c strstr_crlf[OF nc(2)])
  have v: "chunk_size (l @ rest) = ?n"
    unfolding chunk_size_def c strtol_show_hex using d(2) by (simp add: clamp64_id)
  have "(length ?h + 2 + ?n + 2) mod 2 ^ 64 = length (chunk d)" using hl d(2) by (simp add: chunk_def)
  moreover have "length l < length (chunk d)" using d(4) by (rule prefix_length_less)
  ultimately have "chunk_head (l @ rest) (length l) = Some HeadPartial"
    using False m v d(1) hl by (simp add: chunk_head_def Let_def)
  then show ?thesis by simp
qed (simp add: chunk_head_def)

context block_log begin

lemma chunk_blocks_more:
  assumes b: "0 < b" "b < 2 ^ 63" and l: "partial_chunk l"
  shows "chunks_ok ds \<Longrightarrow> int (length (rd_block rd)) < b \<Longrightarrow> n = length (coded ds) + length l \<Longrightarrow>
    \<exists>rd' bs. chunk_blocks_loop (procChunkedBlocks on b) (coded ds @ l @ rest) n r (rd, c) =
        Some (None, True, r + length (coded ds), rd', c @ map ev bs) \<and>
      concat bs @ rd_block rd' = rd_block rd @ concat ds \<and> int (length (rd_block rd')) < b \<and> (\<forall>x\<in>set bs. int (length x) = b)"
proof (induction ds arbitrary: n r rd c)
  case Nil
  then have "chunk_blocks_loop (procChunkedBlocks on b) (l @ rest) n r (rd, c) = Some (None, True, r, rd, c)"
    using chunk_head_partial[OF l, of rest] by (subst chunk_blocks_loop.simps) auto
  with Nil(2) show ?case by (intro exI[of _ rd] exI[of _ "[]"]) simp
next
  case (Cons d ds)
  let ?rest = "coded ds @ l @ rest"
  have d: "0 < length d" "length d < 65536" "length (chunk d) \<le> n" using Cons.prems(1,3) by (auto simp: chunks_ok_def)
  obtain rd1 bs1 where p: "procChunkedBlocks on b d False (rd, c) = Some (None, rd1, c @ map ev bs1)"
    "concat bs1 @ rd_block rd1 = rd_block rd @ d" "int (length (rd_block rd1)) < b" "\<forall>x\<in>set bs1. int (length x) = b"
    using procChunkedBlocks_data[OF b Cons.prems(2)] by blast
  have "chunk_blocks_loop (procChunkedBlocks on b) (chunk d @ ?rest) n r (rd, c) =
      chunk_blocks_loop (procChunkedBlocks on b) ?rest (n - length (chunk d)) (r + length (chunk d)) (rd1, c @ map ev bs1)"
    by (subst chunk_blocks_loop.simps) (simp add: chunk_head_chunk[OF d] ptr_read_chunk[simplified] p(1))
  moreover have "chunks_ok ds" "n - length (chunk d) = length (coded ds) + length l" using Cons.prems(1,3) by (simp_all add: chunks_ok_def)
  from Cons.IH[OF this(1) p(3) this(2), of "r + length (chunk d)" "c @ map ev bs1"] obtain rd' bs where
    "chunk_blocks_loop (procChunkedBlocks on b) ?rest (n - length (chunk d)) (r + length (chunk d)) (rd1, c @ map ev bs1) =
       Some (None, True, r + length (chunk d) + length (coded ds), rd', (c @ map ev bs1) @ map ev bs)"
    "concat bs @ rd_block rd' = rd_block rd1 @ concat ds" "int (length (rd_block rd')) < b" "\<forall>x\<in>set bs. int (length x) = b" by blast
  ultimately show ?case using p(2,4) by (intro exI[of _ rd'] exI[of _ "bs1 @ bs"]) auto
qed

lemma parse_more:
  assumes b: "0 < b" "b < 2 ^ 63" and l: "partial_chunk l" and ds: "chunks_ok ds" "int (length (rd_block rd)) < b"
  shows "\<exists>rd' bs mem'. parseChunkedBlocks (procChunkedBlocks on b) (coded ds @ l @ rest) (length (coded ds) + length l) (rd, c) =
      Some (None, length (coded ds), l @ mem', rd', c @ map ev bs) \<and> length (l @ mem') = length (coded ds @ l @ rest) \<and>
    concat bs @ rd_block rd' = rd_block rd @ concat ds \<and> int (length (rd_block rd')) < b \<and> (\<forall>x\<in>set bs. int (length x) = b)"
proof -
  from chunk_blocks_more[OF b l ds refl, of rest 0 c] obtain rd' bs where
    x: "chunk_blocks_loop (procChunkedBlocks on b) (coded ds @ l @ rest) (length (coded ds) + length l) 0 (rd, c) =
        Some (None, True, length (coded ds), rd', c @ map ev bs)" "concat bs @ rd_block rd' = rd_block rd @ concat ds"
      "int (length (rd_block rd')) < b" "\<forall>x\<in>set bs. int (length x) = b" by auto
  have "length (l @ drop (length l) (coded ds @ l @ rest)) = length (coded ds @ l @ rest)"
    "take (length l) (drop (length (coded ds)) (coded ds @ l @ rest)) = l" by simp_all
  with x show ?thesis unfolding parseChunkedBlocks_def
    by (intro exI[of _ rd'] exI[of _ bs] exI[of _ "drop (length l) (coded ds @ l @ rest)"]) (simp del: drop_append length_append)
qed

lemma parse_last:
  assumes b: "0 < b" "b < 2 ^ 63" and ds: "chunks_ok ds" "int (length (rd_block rd)) < b"
  shows "\<exists>rd' bs l mem'. parseChunkedBlocks (procChunkedBlocks on b) (coded ds @ ''0'' @ CRLF @ rest) (length (coded ds) + 5) (rd, c) =
      Some (Some (DFW_T_CHUNKED_END, 0), 0, mem', rd', c @ map ev bs @ [ev l, ev []]) \<and>
    concat bs @ l = rd_block rd @ concat ds \<and> int (length l) < b \<and> (\<forall>x\<in>set bs. int (length x) = b)"
proof -
  have "length (coded ds) < length (coded ds) + 5" by simp
  from chunk_blocks_loop_ok[OF b ds(1)[unfolded chunks_ok_def] this ds(2), of rest 0 c] obtain rd' bs l n where
    "chunk_blocks_loop (procChunkedBlocks on b) (coded ds @ ''0'' @ CRLF @ rest) (length (coded ds) + 5) 0 (rd, c) =
        Some (Some (DFW_T_CHUNKED_END, 0), False, n, rd', c @ map ev bs @ [ev l, ev []])"
    "concat bs @ l = rd_block rd @ concat ds" "int (length l) < b" "\<forall>x\<in>set bs. int (length x) = b" by blast
  then show ?thesis unfolding parseChunkedBlocks_def
    by (intro exI[of _ rd'] exI[of _ bs] exI[of _ l] exI[of _ "coded ds @ ''0'' @ CRLF @ rest"]) (simp del: append_Cons append.simps)
qed

end

context block_log begin

lemma chunked_loop_step:
  assumes "sock_queue (p # ps) s" "length p < sz" "length l + length p \<le> length mem" "take (length l) mem = l"
  obtains s2 where "sock_queue ps s2"
    "chunked_loop proc mem (length l) sz st s =
      (case parseChunkedBlocks proc (l @ p @ drop (length l + length p) mem) (length l + length p) st of
         None \<Rightarrow> None
       | Some (ps, o_size, mem2, st2) \<Rightarrow>
           if ps \<noteq> None then Some (ps, st2, s2)
           else chunked_loop proc mem2 (length l + length p - o_size) (next_room o_size) st2 s2)"
proof -
  from assms(1) obtain s1 s2 where st: "wait_recv s = (None, s1)" "\<And>n. length p < n \<Longrightarrow> recv_raw False n s1 = (Some (DFW_E_AGAIN, 11), p, s2)"
    "sock_queue ps s2" by (rule queue_step) blast
  have "p \<noteq> []" using assms(1) by simp
  moreover have "stack_write (length l) p mem = Some (l @ p @ drop (length l + length p) mem)"
    using assms(3,4) by (simp add: stack_write_def)
  ultimately show ?thesis using st(2)[OF assms(2)] assms(2)
    by (intro that[OF st(3)], subst chunked_loop.simps) (simp add: st(1) split: option.split prod.split)
qed

lemma chunked_loop_ok:
  assumes b: "0 < b" "b < 2 ^ 63"
  shows "chunk_feed sz l ps d \<Longrightarrow> sock_queue ps s \<Longrightarrow> length mem = HTTPSOCKET_MAX2 \<Longrightarrow> take (length l) mem = l \<Longrightarrow>
    int (length (rd_block rd)) < b \<Longrightarrow>
    \<exists>rd' bs r s'. chunked_loop (procChunkedBlocks on b) mem (length l) sz (rd, c) s =
        Some (Some (DFW_T_CHUNKED_END, 0), (rd', c @ map ev bs @ [ev r, ev []]), s') \<and>
      concat bs @ r = rd_block rd @ d \<and> int (length r) < b \<and> (\<forall>x\<in>set bs. int (length x) = b)"
proof (induction sz l ps d arbitrary: s mem rd c rule: chunk_feed.induct)
  case (last l p ds sz)
  have mem: "length l + length p \<le> length mem" using last.hyps(4) last.prems(2) by simp
  obtain s2 where "sock_queue [] s2" and
    eq: "chunked_loop (procChunkedBlocks on b) mem (length l) sz (rd, c) s =
      (case parseChunkedBlocks (procChunkedBlocks on b) (l @ p @ drop (length l + length p) mem) (length l + length p) (rd, c) of
         None \<Rightarrow> None
       | Some (ps, o_size, mem2, st2) \<Rightarrow>
           if ps \<noteq> None then Some (ps, st2, s2)
           else chunked_loop (procChunkedBlocks on b) mem2 (length l + length p - o_size) (next_room o_size) st2 s2)"
    by (rule chunked_loop_step[OF last.prems(1) last.hyps(3) mem last.prems(3)])
  have "length (l @ p) = length (coded ds) + 5" unfolding last.hyps(1) by simp
  then have len: "length l + length p = length (coded ds) + 5" by simp
  have m: "l @ p @ x = coded ds @ ''0'' @ CRLF @ CRLF @ x" for x
    unfolding append_assoc[symmetric] last.hyps(1)[unfolded append_assoc[symmetric]] ..
  from parse_last[OF b last.hyps(2) last.prems(4), of "CRLF @ drop (length l + length p) mem" c] obtain rd' bs r mem' where
    "parseChunkedBlocks (procChunkedBlocks on b) (coded ds @ ''0'' @ CRLF @ CRLF @ drop (length l + length p) mem) (length (coded ds) + 5) (rd, c) =
      Some (Some (DFW_T_CHUNKED_END, 0), 0, mem', rd', c @ map ev bs @ [ev r, ev []])"
    "concat bs @ r = rd_block rd @ concat ds" "int (length r) < b" "\<forall>x\<in>set bs. int (length x) = b" by blast
  with eq show ?case unfolding m len by auto
next
  case (more l p ds l' sz ps d)
  have mem: "length l + length p \<le> length mem" using more.hyps(5) more.prems(2) by simp
  obtain s2 where
    s2: "sock_queue ps s2" and eq: "chunked_loop (procChunkedBlocks on b) mem (length l) sz (rd, c) s =
      (case parseChunkedBlocks (procChunkedBlocks on b) (l @ p @ drop (length l + length p) mem) (length l + length p) (rd, c) of
         None \<Rightarrow> None
       | Some (ps, o_size, mem2, st2) \<Rightarrow>
           if ps \<noteq> None then Some (ps, st2, s2)
           else chunked_loop (procChunkedBlocks on b) mem2 (length l + length p - o_size) (next_room o_size) st2 s2)"
    by (rule chunked_loop_step[OF more.prems(1) more.hyps(4) mem more.prems(3)])
  have "length (l @ p) = length (coded ds @ l')" unfolding more.hyps(1) ..
  then have len: "length l + length p = length (coded ds) + length l'" by simp
  have m: "l @ p @ x = coded ds @ l' @ x" for x unfolding append_assoc[symmetric] more.hyps(1) ..
  from parse_more[OF b more.hyps(3,2) more.prems(4), of "drop (length l + length p) mem" c] obtain rd1 bs1 mem1 where
    p1: "parseChunkedBlocks (procChunkedBlocks on b) (coded ds @ l' @ drop (length l + length p) mem) (length (coded ds) + length l') (rd, c) =
      Some (None, length (coded ds), l' @ mem1, rd1, c @ map ev bs1)"
      "length (l' @ mem1) = length (coded ds @ l' @ drop (length l + length p) mem)"
      "concat bs1 @ rd_block rd1 = rd_block rd @ concat ds" "int (length (rd_block rd1)) < b" "\<forall>x\<in>set bs1. int (length x) = b" by blast
  have "length (l' @ mem1) = HTTPSOCKET_MAX2" using p1(2) len mem more.prems(2) by simp
  from more.IH[OF s2 this _ p1(4), of "c @ map ev bs1"] obtain rd' bs r s' where
    r: "chunked_loop (procChunkedBlocks on b) (l' @ mem1) (length l') (next_room (length (coded ds))) (rd1, c @ map ev bs1) s2 =
        Some (Some (DFW_T_CHUNKED_END, 0), (rd', (c @ map ev bs1) @ map ev bs @ [ev r, ev []]), s')"
      "concat bs @ r = rd_block rd1 @ d" "int (length r) < b" "\<forall>x\<in>set bs. int (length x) = b" by auto
  have "chunked_loop (procChunkedBlocks on b) mem (length l) sz (rd, c) s =
      chunked_loop (procChunkedBlocks on b) (l' @ mem1) (length l') (next_room (length (coded ds))) (rd1, c @ map ev bs1) s2"
    unfolding eq m len p1(1)[unfolded len] by simp
  with r p1(3,5) show ?case by (intro exI[of _ rd'] exI[of _ "bs1 @ bs"] exI[of _ r] exI[of _ s']) auto
qed

lemma chunked_readBlocks_ok:
  assumes b: "0 < b" "b < 2 ^ 63" and body: "chunk_body (rd_readerBuffer rd) ps d" "sock_queue ps s"
    and rd: "rd_block rd = []" "length junk = HTTPSOCKET_MAX2"
  shows "\<exists>rd' bs r s'. chunked_readBlocks junk on b (rd, c) s =
      Some (Some (DFW_T_CHUNKED_END, 0), (rd', c @ map ev bs @ [ev r, ev []]), s') \<and>
    concat bs @ r = d \<and> int (length r) < b \<and> (\<forall>x\<in>set bs. int (length x) = b)"
proof -
  let ?R = "rd_readerBuffer rd" and ?rd = "rd\<lparr>rd_readerBuffer := []\<rparr>"
  have blk: "int (length (rd_block rd)) < b" "int (length (rd_block ?rd)) < b" using b rd by simp_all
  have wr: "stack_write 0 ?R junk = Some (?R @ drop (length ?R) junk)" if "length ?R \<le> HTTPSOCKET_MAX"
    using that rd(2) by (simp add: stack_write_def)
  from body(1) show ?thesis
  proof (cases rule: chunk_body.cases)
    case empty
    have "chunked_rest (procChunkedBlocks on b) junk 0 HTTPSOCKET_MAX (rd, c) = Some (None, (junk, 0, HTTPSOCKET_MAX), rd, c)"
      using empty by (subst chunked_rest.simps) simp
    with chunked_loop_ok[OF b empty(2) body(2) rd(2) _ blk(1), of c] rd(1) show ?thesis
      by (simp add: chunked_readBlocks_def)
  next
    case (complete ds)
    have len: "length ?R = length (coded ds) + 5" using complete(1) by simp
    from parse_last[OF b complete(3) blk(2), of "CRLF @ drop (length ?R) junk" c] obtain rd' bs r mem where
      pl: "parseChunkedBlocks (procChunkedBlocks on b) (coded ds @ ''0'' @ CRLF @ CRLF @ drop (length ?R) junk) (length (coded ds) + 5) (?rd, c) =
        Some (Some (DFW_T_CHUNKED_END, 0), 0, mem, rd', c @ map ev bs @ [ev r, ev []])"
        "concat bs @ r = rd_block ?rd @ concat ds" "int (length r) < b" "\<forall>x\<in>set bs. int (length x) = b" by blast
    have "?R @ drop (length ?R) junk = coded ds @ ''0'' @ CRLF @ CRLF @ drop (length ?R) junk" by (subst complete(1)) (simp only: append_assoc)
    then have "parseChunkedBlocks (procChunkedBlocks on b) (?R @ drop (length ?R) junk) (length ?R) (?rd, c) =
        Some (Some (DFW_T_CHUNKED_END, 0), 0, mem, rd', c @ map ev bs @ [ev r, ev []])" using pl(1) len by (simp only:)
    moreover have "?R \<noteq> []" "length ?R \<le> HTTPSOCKET_MAX" using complete(1,4) len by auto
    ultimately have "chunked_rest (procChunkedBlocks on b) junk 0 HTTPSOCKET_MAX (rd, c) =
        Some (Some (DFW_T_CHUNKED_END, 0), (mem, length ?R, HTTPSOCKET_MAX), rd', c @ map ev bs @ [ev r, ev []])"
      using wr by (subst chunked_rest.simps) (simp add: Let_def)
    with pl(2-4) rd(1) complete(2) show ?thesis
      by (intro exI[of _ rd'] exI[of _ bs] exI[of _ r] exI[of _ s]) (simp add: chunked_readBlocks_def)
  next
    case (rest ds l d')
    from parse_more[OF b rest(4,3) blk(2), of "drop (length ?R) junk" c] obtain rd1 bs1 mem1 where
      pm: "parseChunkedBlocks (procChunkedBlocks on b) (coded ds @ l @ drop (length ?R) junk) (length (coded ds) + length l) (?rd, c) =
        Some (None, length (coded ds), l @ mem1, rd1, c @ map ev bs1)"
        "length (l @ mem1) = length (coded ds @ l @ drop (length ?R) junk)"
        "concat bs1 @ rd_block rd1 = rd_block ?rd @ concat ds" "int (length (rd_block rd1)) < b" "\<forall>x\<in>set bs1. int (length x) = b" by blast
    have len: "length ?R = length (coded ds) + length l" using rest(1) by simp
    have sm: "?R \<noteq> []" "length ?R \<le> HTTPSOCKET_MAX" using rest(1,5,6) by simp_all
    have "?R @ drop (length ?R) junk = coded ds @ l @ drop (length ?R) junk" by (subst rest(1)) (simp only: append_assoc)
    then have "parseChunkedBlocks (procChunkedBlocks on b) (?R @ drop (length ?R) junk) (length ?R) (?rd, c) =
        Some (None, length (coded ds), l @ mem1, rd1, c @ map ev bs1)" using pm(1) len by simp
    then have r1: "chunked_rest (procChunkedBlocks on b) junk 0 HTTPSOCKET_MAX (rd, c) =
        Some (None, (l @ mem1, length l, HTTPSOCKET_MAX - length l), rd1, c @ map ev bs1)"
      using wr sm len by (subst chunked_rest.simps) (simp add: Let_def)
    have "length (l @ mem1) = HTTPSOCKET_MAX2" using pm(2) len rest(6) rd(2) by simp
    from chunked_loop_ok[OF b rest(7) body(2) this _ pm(4), of "c @ map ev bs1"] obtain rd' bs r s' where
      "chunked_loop (procChunkedBlocks on b) (l @ mem1) (length l) (HTTPSOCKET_MAX - length l) (rd1, c @ map ev bs1) s =
        Some (Some (DFW_T_CHUNKED_END, 0), (rd', (c @ map ev bs1) @ map ev bs @ [ev r, ev []]), s')"
      "concat bs @ r = rd_block rd1 @ d'" "int (length r) < b" "\<forall>x\<in>set bs. int (length x) = b" by auto
    with r1 pm(3,5) rd(1) rest(2) show ?thesis
      by (intro exI[of _ rd'] exI[of _ "bs1 @ bs"] exI[of _ r] exI[of _ s']) (auto simp: chunked_readBlocks_def)
  qed
qed

end

section \<open>A chunked response\<close>


section \<open>Properties\<close>


text \<open>C24. A chunk that comes in two packets can overrun the stack: behind an incomplete chunk the room is computed as if the
  buffer were empty, so that the next packet is written behind what is left over, up to 61440 bytes more, into an array of
  61472.\<close>

theorem partial_chunk_overflows:
  assumes "partial_chunk p" "p \<noteq> []" "length p < HTTPSOCKET_MAX" "length q < HTTPSOCKET_MAX" "HTTPSOCKET_MAX2 < length p + length q"
    and "sock_queue [p, q] s" "rd_readerBuffer rd = []" "length junk = HTTPSOCKET_MAX2"
  shows "chunked_readBlocks junk on b (rd, c) s = None \<and>
    (\<exists>mem s1. length mem = HTTPSOCKET_MAX2 \<and> next_room 0 = HTTPSOCKET_MAX \<and> stack_write (length p) q mem = None \<and>
       chunked_readBlocks junk on b (rd, c) s = chunked_loop (procChunkedBlocks on b) mem (length p) (next_room 0) (rd, c) s1)"
proof -
  let ?proc = "procChunkedBlocks on b"
  have room: "next_room 0 = HTTPSOCKET_MAX" by (simp add: next_room_def)
  obtain s1 t1 where 1: "wait_recv s = (None, t1)" "\<And>n. length p < n \<Longrightarrow> recv_raw False n t1 = (Some (DFW_E_AGAIN, 11), p, s1)" "sock_queue [q] s1"
    using assms(6) by (rule queue_step) blast
  obtain s2 t2 where 2: "wait_recv s1 = (None, t2)" "\<And>n. length q < n \<Longrightarrow> recv_raw False n t2 = (Some (DFW_E_AGAIN, 11), q, s2)"
    using 1(3) by (rule queue_step) blast
  let ?mem = "p @ drop (length p) junk"
  have w: "stack_write 0 p junk = Some ?mem" using assms(3,8) by (simp add: stack_write_def)
  have "chunk_blocks_loop ?proc ?mem (length p) 0 (rd, c) = Some (None, True, 0, rd, c)"
    using chunk_head_partial[OF assms(1), of "drop (length p) junk"] by (subst chunk_blocks_loop.simps) auto
  then have pc: "parseChunkedBlocks ?proc ?mem (length p) (rd, c) = Some (None, 0, ?mem, rd, c)"
    by (simp add: parseChunkedBlocks_def)
  have "chunked_readBlocks junk on b (rd, c) s = chunked_loop ?proc junk 0 HTTPSOCKET_MAX (rd, c) s"
    using assms(7) by (simp add: chunked_readBlocks_def) (subst chunked_rest.simps, simp)
  also have "\<dots> = chunked_loop ?proc ?mem (length p) (next_room 0) (rd, c) s1"
    using assms(2,3) 1(2) w pc by (subst chunked_loop.simps) (simp add: 1(1) room)
  finally have eq: "chunked_readBlocks junk on b (rd, c) s = chunked_loop ?proc ?mem (length p) (next_room 0) (rd, c) s1" .
  have len: "length ?mem = HTTPSOCKET_MAX2" using assms(3,8) by simp
  then have nw: "stack_write (length p) q ?mem = None" using assms(5) by (simp only: stack_write_def) simp
  then have none: "chunked_loop ?proc ?mem (length p) (next_room 0) (rd, c) s1 = None"
    using assms(4) 2(2) by (subst chunked_loop.simps) (simp add: 2(1) room)
  show ?thesis
  proof (intro conjI exI)
    show "chunked_readBlocks junk on b (rd, c) s = None" using eq none by (rule trans)
  qed (rule len room nw eq)+
qed



theorem partial_chunk_overflows_witness:
  "chunked_readBlocks (replicate HTTPSOCKET_MAX2 NUL) rec_block 10240 (round_new, [])
     (feed_sock [show_hex 60000 @ CRLF @ replicate 30000 CHR ''x'', replicate 40000 CHR ''x'']) = None"
proof (rule partial_chunk_overflows[THEN conjunct1])
  let ?p = "show_hex 60000 @ CRLF @ replicate 30000 CHR ''x''"
  have h: "length (show_hex 60000) \<le> 4" using show_hex_length[of 60000 3] by simp
  show "partial_chunk ?p" unfolding partial_chunk_def
  proof (intro disjI2 exI[of _ "replicate 60000 CHR ''x''"] conjI)
    have "replicate 60000 CHR ''x'' = replicate 30000 CHR ''x'' @ replicate 30000 CHR ''x''"
      using replicate_add[of 30000 30000 "CHR ''x''"] by simp
    moreover have "chunk (replicate 60000 CHR ''x'') = show_hex 60000 @ CRLF @ replicate 60000 CHR ''x'' @ CRLF"
      by (simp only: chunk_def length_replicate)
    ultimately have "chunk (replicate 60000 CHR ''x'') = ?p @ replicate 30000 CHR ''x'' @ CRLF" by (simp only: append_assoc)
    moreover have "strict_prefix ?p (?p @ x)" if "x \<noteq> []" for x using that by (simp add: strict_prefix_def)
    ultimately show "strict_prefix ?p (chunk (replicate 60000 CHR ''x''))" by (metis append_is_Nil_conv list.distinct(1))
  qed simp_all
  show "sock_queue [?p, replicate 40000 CHR ''x''] (feed_sock [?p, replicate 40000 CHR ''x''])" by (rule feed_sock_queue) simp
  show "length ?p < HTTPSOCKET_MAX" "HTTPSOCKET_MAX2 < length ?p + length (replicate 40000 CHR ''x'')" using h by simp_all
qed (simp_all add: round_new_def)

end
