(* ===== verification/Dfw_HttpQuery.thy ===== *)
theory Dfw_HttpQuery
  imports Dfw_HttpRequest Dfw_Uri
begin

text \<open>
  The client's requests: the members of \<open>HttpQuery\<close> and \<open>HttpRound\<close> that make one, \<open>lib/http/HttpFormData.cpp\<close>,
  \<open>HttpUtils.cpp\<close> and \<open>HttpMakeClientBuffer.cpp\<close>, which prints it into \<open>m_sHeadBuffer\<close>; \<open>request_raw\<close> sends
  that buffer and nothing else.  Parameters: \<open>stat\<close>, what the system says of a file's size, and \<open>mem\<close>, what the
  memory of an object holds where its constructor leaves it.
\<close>

section \<open>Form data\<close>

record form_data =
  fd_name :: string
  fd_value :: string
  fd_sUri :: string
  fd_type :: string
  fd_isUri :: bool
  fd_oUri :: uri
  fd_fileInfo :: file_info
  fd_buffer :: string
  fd_contentLength :: "64 word"

definition form_value :: "64 word \<Rightarrow> string option \<Rightarrow> string option \<Rightarrow> form_data" where
  "form_value mem name val =
     \<lparr>fd_name = text_set name, fd_value = text_set val, fd_sUri = [], fd_type = [], fd_isUri = False,
      fd_oUri = uri_clear, fd_fileInfo = file_clean, fd_buffer = [], fd_contentLength = mem\<rparr>"

text \<open>The URI goes into \<open>m_oUri\<close> only; \<open>m_sUri\<close> stays empty.\<close>

definition form_uri :: "64 word \<Rightarrow> string option \<Rightarrow> string option \<Rightarrow> string option \<Rightarrow> form_data option" where
  "form_uri mem name uri ty =
     map_option (\<lambda>u. \<lparr>fd_name = text_set name, fd_value = [], fd_sUri = [], fd_type = text_set ty, fd_isUri = True,
        fd_oUri = snd u, fd_fileInfo = file_clean, fd_buffer = [], fd_contentLength = mem\<rparr>) (uri_parse (text_set uri))"

definition content_types :: "(string \<times> string) list" where
  "content_types =
    [(''html'', ''text/html''), (''txt'', ''text/plain''), (''xml'', ''text/xml''), (''jpg'', ''image/jpeg''),
     (''jpeg'', ''image/jpeg''), (''gif'', ''image/gif''), (''png'', ''image/png''), (''tif'', ''image/tiff''),
     (''tiff'', ''image/tiff'')]"

definition contentType :: "string option \<Rightarrow> string option" where
  "contentType fm = map_option (\<lambda>fi.
     (case find (\<lambda>(e, t). text_equals (f_sExtension fi) e) content_types of
        Some (e, t) \<Rightarrow> t | None \<Rightarrow> ''application/octet-stream'')) (file_parse fm)"

section \<open>The query and its round\<close>

record http_query =
  q_method :: string
  q_virtualHost :: string
  q_virtualPort :: int
  q_userAgent :: string
  q_formData :: "form_data list"
  q_requestHeader :: header

record query_round =
  qr_uri :: uri
  qr_headBuffer :: string

definition http_query_new :: http_query where
  "http_query_new = \<lparr>q_method = [], q_virtualHost = [], q_virtualPort = 0, q_userAgent = ''DFramework/0.1.2'',
     q_formData = [], q_requestHeader = arr_init\<rparr>"

definition setUserAgent :: "string \<Rightarrow> http_query \<Rightarrow> http_query" where
  "setUserAgent agent q = q\<lparr>q_userAgent := cstr agent\<rparr>"

definition appendUserAgent :: "string \<Rightarrow> http_query \<Rightarrow> http_query" where
  "appendUserAgent agent q =
     q\<lparr>q_userAgent := (if q_userAgent q = [] then [] else q_userAgent q @ [SPC]) @ cstr agent\<rparr>"

definition addFormData :: "64 word \<Rightarrow> string option \<Rightarrow> string option \<Rightarrow> http_query \<Rightarrow> http_query" where
  "addFormData mem name val q = q\<lparr>q_formData := q_formData q @ [form_value mem name val]\<rparr>"

text \<open>\<open>HttpRound::ready\<close> and \<open>parseUri\<close>; \<open>lookup\<close> is the answer of \<open>Hostname::get\<close> and the number of addresses.\<close>

definition round_ready :: "(uri \<Rightarrow> rv \<times> int) \<Rightarrow> uri \<Rightarrow> rv \<times> query_round" where
  "round_ready lookup u =
     (if u_host u = [] then (Some (DFW_E_HOSTNAME, 0), \<lparr>qr_uri = u, qr_headBuffer = []\<rparr>)
      else
       (let u = (if u_scheme u = [] then u\<lparr>u_scheme := ''http''\<rparr> else u);
            u = (if uri_getPort u = 0 then u\<lparr>u_port := 80\<rparr> else u);
            u = (if u_path u = [] then u\<lparr>u_path := ''/''\<rparr> else u);
            found = lookup u in
        (if fst found \<noteq> None then fst found
         else if snd found \<le> 0 then Some (DFW_E_HOST_NOT_FOUND, 0) else None, \<lparr>qr_uri = u, qr_headBuffer = []\<rparr>)))"

section \<open>HttpMakeClientBuffer\<close>

record make_buffer =
  mb_host :: string
  mb_contents :: string
  mb_contentType :: string
  mb_contentLength :: "64 word"
  mb_depth :: int
  mb_bDepth :: bool
  mb_multipart :: bool
  mb_boundary :: string
  mb_expect100 :: bool

definition make_buffer_new :: make_buffer where
  "make_buffer_new = \<lparr>mb_host = [], mb_contents = [], mb_contentType = [], mb_contentLength = 0, mb_depth = 0,
     mb_bDepth = False, mb_multipart = False, mb_boundary = [], mb_expect100 = False\<rparr>"

definition makeHost :: "http_query \<Rightarrow> uri \<Rightarrow> make_buffer \<Rightarrow> rv \<times> make_buffer" where
  "makeHost q u b =
     (let (host, port) =
        (if q_virtualHost q = [] then (chars (u_host u), uri_getPort u)
         else (chars (q_virtualHost q), if q_virtualPort q = 0 then uri_getPort u else q_virtualPort q)) in
      case host of
        None \<Rightarrow> (Some (DFW_E_INVAL, 0), b)
      | Some h \<Rightarrow>
          if port = 0 \<or> q_method q = [] then (Some (DFW_E_INVAL, 0), b)
          else (None, b\<lparr>mb_host := ''Host: '' @ cstr h @ '':'' @ (if port = 80 then ''80'' else show_int port) @ CRLF\<rparr>))"

text \<open>One element of the multipart list: \<open>m_sUri\<close> is parsed again, and its extension, not its name, is what
  \<open>contentType\<close> gets.  Then the text that would stand before its contents.\<close>

definition part_uri :: "(uri \<Rightarrow> rv \<times> 64 word) \<Rightarrow> form_data \<Rightarrow> (rv \<times> form_data) option" where
  "part_uri stat d =
     do { u \<leftarrow> uri_parse (fd_sUri d);
          fi \<leftarrow> file_parse (chars (u_path (snd u)));
          let d = d\<lparr>fd_oUri := snd u, fd_fileInfo := fi\<rparr>;
          ct \<leftarrow> (if fd_type d = [] then contentType (chars (f_sExtension (fd_fileInfo d))) else Some (fd_type d));
          let d = d\<lparr>fd_type := ct\<rparr>;
          Some (if text_equals (u_scheme (fd_oUri d)) ''File''
                then (let (e, n) = stat (fd_oUri d) in if e \<noteq> None then (e, d) else (None, d\<lparr>fd_contentLength := n\<rparr>))
                else (None, d)) }"

definition part_text :: "string \<Rightarrow> form_data \<Rightarrow> form_data" where
  "part_text boundary d =
     (if fd_isUri d
      then d\<lparr>fd_buffer := fmt_s boundary @ CRLF @ ''Content-Disposition: form-data; name='' @ [DQUOTE] @ fmt_s (fd_name d) @ [DQUOTE] @
        ''; filename='' @ [DQUOTE] @ fmt_s (f_sFilename (fd_fileInfo d)) @ [DQUOTE] @ CRLF @ ''Content-Type: '' @ fmt_s (fd_type d) @ CRLF @
        ''Content-Length: '' @ show_int (sint (fd_contentLength d)) @ CRLF @ CRLF\<rparr>
      else d\<lparr>fd_contentLength := of_nat (length (fd_value d)),
        fd_buffer := fmt_s boundary @ CRLF @ ''Content-Disposition: form-data; name='' @ [DQUOTE] @ fmt_s (fd_name d) @ [DQUOTE] @ CRLF @
        ''Content-Length: '' @ show_int (to_int32 (int (length (fd_value d)))) @ CRLF @ CRLF\<rparr>)"

fun multipart_loop :: "(uri \<Rightarrow> rv \<times> 64 word) \<Rightarrow> string \<Rightarrow> form_data list \<Rightarrow> 64 word \<Rightarrow> (rv \<times> form_data list \<times> 64 word) option" where
  "multipart_loop stat boundary [] contLen = Some (None, [], contLen)"
| "multipart_loop stat boundary (d # ds) contLen =
     do { (e, d) \<leftarrow> (if fd_isUri d then part_uri stat d else Some (None, d));
          if e \<noteq> None then Some (e, d # ds, contLen)
          else let d = part_text boundary d in
            do { (e, ds, n) \<leftarrow> multipart_loop stat boundary ds
                   (contLen + (of_nat (length (fd_buffer d)) + fd_contentLength d + 2));
                 Some (e, d # ds, n) } }"

definition makeMultipartContents ::
  "(uri \<Rightarrow> rv \<times> 64 word) \<Rightarrow> http_query \<Rightarrow> make_buffer \<Rightarrow> (rv \<times> http_query \<times> make_buffer) option" where
  "makeMultipartContents stat q b =
     (let b = b\<lparr>mb_multipart := True, mb_boundary := ''----BOUNDARY'',
                mb_contentType := ''multipart/form-data; boundary=----BOUNDARY''\<rparr> in
      map_option (\<lambda>(e, ds, n). (e, q\<lparr>q_formData := ds\<rparr>, if e \<noteq> None then b else b\<lparr>mb_contentLength := n + 2\<rparr>))
        (multipart_loop stat (mb_boundary b) (q_formData q) 0))"

definition propfind_contents :: string where
  "propfind_contents =
     ''<?xml version='' @ [DQUOTE] @ ''1.0'' @ [DQUOTE] @ ''?>'' @ ''<D:propfind xmlns:D='' @ [DQUOTE] @ ''DAV:'' @ [DQUOTE] @ ''>'' @ CRLF @
     ''  <D:allprop>'' @ CRLF @ ''    <D:namespaces>'' @ CRLF @
     ''      <D:namespace uri='' @ [DQUOTE] @ ''DAV:'' @ [DQUOTE] @ ''/>'' @ CRLF @
     ''    </D:namespaces>'' @ CRLF @ ''  </D:allprop>'' @ CRLF @ ''</D:propfind>'' @ CRLF"

definition makeContents ::
  "(uri \<Rightarrow> rv \<times> 64 word) \<Rightarrow> http_query \<Rightarrow> make_buffer \<Rightarrow> (rv \<times> http_query \<times> make_buffer) option" where
  "makeContents stat q b =
     (if text_equals (q_method q) ''POST'' then makeMultipartContents stat q b
      else if text_equals (q_method q) ''PROPFIND''
      then Some (None, q, b\<lparr>mb_contents := propfind_contents, mb_contentType := ''text/xml'',
                            mb_contentLength := of_nat (length propfind_contents), mb_depth := 1, mb_bDepth := True\<rparr>)
      else if list_ex fd_isUri (q_formData q) then makeMultipartContents stat q b
      else Some (None, q, b))"

definition request_header_lines :: "header \<Rightarrow> string" where
  "request_header_lines h =
     concat (map (\<lambda>k. case arr_get (int k) h of
          None \<Rightarrow> []
        | Some nv \<Rightarrow> if nv_name nv = [] then []
                     else fmt_s (nv_name nv) @ '': '' @ (if nv_value nv = [] then [] else fmt_s (nv_value nv)) @ CRLF)
       [0..<a_size h])"

text \<open>\<open>replace(" ", "%20")\<close> on a text whose offsets fit an \<open>int\<close> (\<open>string_replace_correct\<close>).\<close>

definition request_path :: "uri \<Rightarrow> string" where
  "request_path u =
     replace_spec [SPC] ''%20''
       (if u_query u \<noteq> [] then fmt_s (u_path u) @ ''?'' @ fmt_s (u_query u) else fmt_s (u_path u))"

definition request_head :: "http_query \<Rightarrow> uri \<Rightarrow> make_buffer \<Rightarrow> string" where
  "request_head q u b =
     fmt_s (q_method q) @ '' '' @ fmt_s (request_path u) @ '' HTTP/1.1'' @ CRLF @
     fmt_s (mb_host b) @
     ''Connection: Keep-Alive'' @ CRLF @
     (if mb_expect100 b then ''Expect: 100-Continue'' @ CRLF else []) @
     (if mb_contentLength b = 0 then []
      else ''Content-Type: '' @ fmt_s (mb_contentType b) @ CRLF @
           ''Content-Length: '' @ show_int (sint (mb_contentLength b)) @ CRLF) @
     (if mb_bDepth b then ''Depth: '' @ show_int (mb_depth b) @ CRLF else []) @
     ''User-Agent: '' @ fmt_s (q_userAgent q) @ CRLF @
     request_header_lines (q_requestHeader q) @ CRLF @ mb_contents b"

definition make_request ::
  "(uri \<Rightarrow> rv \<times> 64 word) \<Rightarrow> http_query \<Rightarrow> query_round \<Rightarrow> (rv \<times> http_query \<times> query_round) option" where
  "make_request stat q r =
     (let (e, b) = makeHost q (qr_uri r) make_buffer_new in
      if e \<noteq> None then Some (e, q, r)
      else do { (e, q, b) \<leftarrow> makeContents stat q b;
                if e \<noteq> None then Some (e, q, r)
                else let b = (if mb_multipart b then b\<lparr>mb_expect100 := True\<rparr> else b) in
                  Some (None, q, r\<lparr>qr_headBuffer := request_head q (qr_uri r) b\<rparr>) })"

end
