(* ===== verification/Dfw_HttpRequest_Spec.thy ===== *)
theory Dfw_HttpRequest_Spec
  imports Dfw_HttpRequest
begin

text \<open>
  What the request parser makes of a printed request, and the two NULL dereferences a client can
  provoke.
\<close>

section \<open>Printed requests\<close>

definition clean :: "string \<Rightarrow> bool" where
  "clean s \<longleftrightarrow> NUL \<notin> set s \<and> CR \<notin> set s"

definition header_line :: "string \<times> string \<Rightarrow> string" where
  "header_line kv = fst kv @ '': '' @ snd kv @ CRLF"

definition header_wf :: "string \<times> string \<Rightarrow> bool" where
  "header_wf kv \<longleftrightarrow> fst kv \<noteq> [] \<and> clean (fst kv) \<and> CHR '':'' \<notin> set (fst kv) \<and> trim_spec (fst kv) = fst kv \<and>
     clean (snd kv) \<and> trim_spec (snd kv) = snd kv"

definition line_wf :: "string \<Rightarrow> string \<Rightarrow> string \<Rightarrow> string \<Rightarrow> string \<Rightarrow> bool" where
  "line_wf m t target proto ver \<longleftrightarrow>
     m \<noteq> [] \<and> clean m \<and> SPC \<notin> set m \<and> url_encodes t target \<and> target \<noteq> [] \<and> CR \<notin> set t \<and> SPC \<notin> set t \<and> length t < 2 ^ 31 - 3 \<and>
     proto \<noteq> [] \<and> clean proto \<and> SPC \<notin> set proto \<and> CHR ''/'' \<notin> set proto \<and> clean ver \<and> SPC \<notin> set ver"

definition request_line :: "string \<Rightarrow> string \<Rightarrow> string \<Rightarrow> string \<Rightarrow> string" where
  "request_line m t proto ver = m @ [SPC] @ t @ [SPC] @ proto @ ''/'' @ ver"

definition line_fields :: "request \<Rightarrow> string \<times> string \<times> string \<times> string \<times> string \<times> string" where
  "line_fields r = (rq_method r, rq_request r, rq_file r, rq_query r, rq_protocol r, rq_version r)"

section \<open>The request line\<close>

lemma split_query:
  assumes "CHR ''?'' \<in> set target"
  obtains a b where "target = a @ CHR ''?'' # b" "CHR ''?'' \<notin> set a"
    "takeWhile (\<lambda>c. c \<noteq> CHR ''?'') target = a" "tl (dropWhile (\<lambda>c. c \<noteq> CHR ''?'') target) = b"
    "strstr target ''?'' = Some (length a)"
proof -
  from split_list_first[OF assms] obtain a b where t: "target = a @ CHR ''?'' # b" "CHR ''?'' \<notin> set a" by blast
  have "dropWhile (\<lambda>c. c \<noteq> CHR ''?'') target = CHR ''?'' # b"
    unfolding t(1) using t(2) by (subst dropWhile_append2) auto
  moreover have "takeWhile (\<lambda>c. c \<noteq> CHR ''?'') target = a" unfolding t(1) by (rule takeWhile_neq_append[OF t(2)])
  moreover have "strstr target ''?'' = Some (length a)" unfolding t(1) by (rule strstr_char[OF t(2)])
  ultimately show ?thesis using that[OF t] by simp
qed

lemma request_target_ok:
  assumes "target \<noteq> []" "NUL \<notin> set target"
  shows "\<exists>e. request_target target r = Some (r\<lparr>rq_request := target,
      rq_file := takeWhile (\<lambda>c. c \<noteq> CHR ''?'') target,
      rq_query := (if CHR ''?'' \<in> set target then tl (dropWhile (\<lambda>c. c \<noteq> CHR ''?'') target) else rq_query r),
      rq_fileExt := e\<rparr>)"
proof -
  have c: "chars target = Some (target @ [NUL])" "cstr (target @ [NUL]) = target"
    using assms by (simp_all add: cstr_append_nul)
  have ex: "\<exists>e. (if P then x\<lparr>rq_fileExt := d\<rparr> else x) = x\<lparr>rq_fileExt := e\<rparr>" for P d and x :: request
    by (cases P) (auto intro: exI[where x = "rq_fileExt x"])
  show ?thesis
  proof (cases "CHR ''?'' \<in> set target")
    case True
    then obtain a b where q: "target = a @ CHR ''?'' # b" "takeWhile (\<lambda>c. c \<noteq> CHR ''?'') target = a"
      "tl (dropWhile (\<lambda>c. c \<noteq> CHR ''?'') target) = b" "strstr target ''?'' = Some (length a)"
      by (rule split_query)
    have tk: "take (length a) target = a" "drop (length a + 1) target = b" using q(1) by simp_all
    obtain e where "request_target target r = Some (r\<lparr>rq_request := target, rq_query := b, rq_file := a, rq_fileExt := e\<rparr>)"
      unfolding request_target_def c Let_def bind.bind_lunit c(2) q(4) option.case prod.case tk using ex by blast
    then show ?thesis using True q(2,3) by (intro exI[of _ e]) simp
  next
    case False
    have n: "strstr target ''?'' = None" using False by (simp add: strstr_single)
    have tw: "takeWhile (\<lambda>c. c \<noteq> CHR ''?'') target = target"
      by (rule takeWhile_eq_all_conv[THEN iffD2]) (use False in blast)
    obtain e where "request_target target r = Some (r\<lparr>rq_request := target, rq_file := target, rq_fileExt := e\<rparr>)"
      unfolding request_target_def c Let_def bind.bind_lunit c(2) n option.case prod.case using ex by blast
    then show ?thesis unfolding tw using False by (intro exI[of _ e]) simp
  qed
qed

lemma heap_ok_alloc [simp]: "al_out heap_ok = AllocOk"
  by (simp add: heap_ok_def)

lemma urldecode_encoding:
  assumes "url_encodes t s" "t \<noteq> []" "length t < 2 ^ 31 - 3"
  shows "urldecode heap_ok out (chars t) = Some (None, s)"
  using urldecode_encodes[OF _ assms(1,3), of heap_ok out] assms(2) by simp

lemma url_encodes_ne: "url_encodes t s \<Longrightarrow> s \<noteq> [] \<Longrightarrow> t \<noteq> []"
  by (auto elim: url_encodes.cases)

lemma split_at_posI: "pos = Some (length a) \<Longrightarrow> a \<noteq> [] \<Longrightarrow> split_at_pos pos (a @ c # b) = Some (a, b)"
  by (simp add: split_at_pos_def)

lemma request_words_ok:
  assumes wf: "line_wf m t target proto ver" and line: "rq_line r = request_line m t proto ver"
  shows "\<exists>r'. request_words n r = Some (None, r') \<and> rq_buffer r' = drop (n + 2) (rq_buffer r) \<and>
     rq_cstatus r' = HTTPD_CSTATUS_HEADER \<and> rq_list r' = rq_list r \<and>
     line_fields r' = (m, target, takeWhile (\<lambda>c. c \<noteq> CHR ''?'') target,
       (if CHR ''?'' \<in> set target then tl (dropWhile (\<lambda>c. c \<noteq> CHR ''?'') target) else rq_query r), proto, ver)"
proof -
  have t: "t \<noteq> []" "NUL \<notin> set target" "url_encodes t target" "target \<noteq> []" "length t < 2 ^ 31 - 3"
    using wf url_encodes_ne url_encodes_facts by (auto simp: line_wf_def)
  have "split_at_pos (strstr (rq_line r) [SPC]) (rq_line r) = Some (m, t @ SPC # proto @ ''/'' @ ver)"
    unfolding line request_line_def using wf strstr_char[of SPC m]
    by (simp add: line_wf_def split_at_posI)
  moreover have "split_at_pos (strrchr (t @ SPC # proto @ ''/'' @ ver) SPC) (t @ SPC # proto @ ''/'' @ ver) =
      Some (t, proto @ ''/'' @ ver)"
    using wf t(1) by (intro split_at_posI strrchr_append) (auto simp: line_wf_def)
  moreover have "split_at_pos (strstr (proto @ ''/'' @ ver) ''/'') (proto @ ''/'' @ ver) = Some (proto, ver)"
    using wf strstr_char[of "CHR ''/''" proto ver] by (simp add: line_wf_def split_at_posI)
  moreover obtain e where "request_target target (r\<lparr>rq_method := m\<rparr>) =
     Some ((r\<lparr>rq_method := m\<rparr>)\<lparr>rq_request := target, rq_file := takeWhile (\<lambda>c. c \<noteq> CHR ''?'') target,
      rq_query := (if CHR ''?'' \<in> set target then tl (dropWhile (\<lambda>c. c \<noteq> CHR ''?'') target)
                   else rq_query (r\<lparr>rq_method := m\<rparr>)), rq_fileExt := e\<rparr>)"
    using request_target_ok[OF t(4,2)] by blast
  ultimately show ?thesis
    using urldecode_encoding[OF t(3,1,5)]
    by (simp add: request_words_def request_version_def Let_def line_fields_def)
qed

lemma parseRequestReady_ok:
  assumes wf: "line_wf m t target proto ver" and buf: "rq_buffer r = request_line m t proto ver @ CRLF @ rest"
  shows "\<exists>r'. parseRequestReady r = Some (None, r') \<and> rq_buffer r' = rest \<and> rq_cstatus r' = HTTPD_CSTATUS_HEADER \<and>
     rq_list r' = rq_list r \<and>
     line_fields r' = (m, target, takeWhile (\<lambda>c. c \<noteq> CHR ''?'') target,
       (if CHR ''?'' \<in> set target then tl (dropWhile (\<lambda>c. c \<noteq> CHR ''?'') target) else rq_query r), proto, ver)"
proof -
  let ?line = "request_line m t proto ver"
  have cl: "NUL \<notin> set ?line" "CR \<notin> set ?line" "?line \<noteq> []"
    using wf url_encodes_facts by (auto simp: line_wf_def request_line_def clean_def)
  have mem: "chars (rq_buffer r) = Some (?line @ CR # LF # rest @ [NUL])" by (simp add: buf chars_def)
  have cs: "cstr (?line @ CR # LF # rest @ [NUL]) = ?line @ CR # LF # cstr (rest @ [NUL])"
    using cstr_append_clean[OF cl(1), of "CR # LF # rest @ [NUL]"] by (simp add: cstr_def)
  have "parseRequestReady r = request_words (length ?line) (r\<lparr>rq_line := ?line\<rparr>)"
    unfolding parseRequestReady_def mem option.case cs strstr_crlf[OF cl(2)] Let_def using cl(3) by simp
  with request_words_ok[OF wf, of "r\<lparr>rq_line := ?line\<rparr>" "length ?line"] show ?thesis by (simp add: buf cong: if_cong)
qed

section \<open>The header lines\<close>

lemma line_fields_simps [simp]:
  "line_fields (request_member n v r) = line_fields r"
  "line_fields (r\<lparr>rq_list := h\<rparr>) = line_fields r" "line_fields (r\<lparr>rq_buffer := b\<rparr>) = line_fields r"
  "line_fields (r\<lparr>rq_buffer := b, rq_cstatus := st\<rparr>) = line_fields r"
  by (simp_all add: line_fields_def request_member_def Let_def)

lemma trim_spec_blank: "trim_spec (SPC # s) = trim_spec s"
  by (simp add: trim_spec_def string_isspace_def)

lemma header_split_line:
  assumes "header_wf kv" "CHR '':'' \<notin> set (fst kv)"
  shows "header_split (length (fst kv) + length (snd kv) + 2) (header_line kv @ rest) = Some kv"
proof -
  obtain k v where kv: "kv = (k, v)" by fastforce
  have "strstr (header_line kv @ rest) '':'' = Some (length k)"
    using assms(2) strstr_char[of "CHR '':''" k] by (simp add: kv header_line_def)
  then show ?thesis using assms(1)
    by (simp add: header_split_def kv header_wf_def header_line_def trim_spec_blank)
qed

lemma header_store_ok:
  assumes "header_ok (rq_list r)" "header_room (Suc n) (rq_list r)" "NUL \<notin> set k" "NUL \<notin> set v"
  shows "\<exists>h. header_store k v r = Some (Some (DFW_OK, 0), request_member k v (r\<lparr>rq_list := h\<rparr>)) \<and>
    header_ok h \<and> header_room n h \<and> header_find h = (header_find (rq_list r))(k \<mapsto> v)"
proof -
  from hdr.put_ok[OF assms] obtain h where
    h: "header_put k v (rq_list r) = Some h" "header_ok h" "header_room n h"
       "header_find h = (header_find (rq_list r))(k \<mapsto> v)" by blast
  from h(1) obtain p where "appendHeader heap_ok (chars k) (chars v) (rq_list r) = Some p" "fst p = None" "snd p = h"
    unfolding header_put_def heap_ok_def[symmetric] bind_eq_Some_conv by (metis option.inject option.simps(3))
  then have "appendHeader heap_ok (chars k) (chars v) (rq_list r) = Some (None, h)" by (cases p) simp
  then show ?thesis using h(2-4) by (intro exI[of _ h]) (simp add: header_store_def)
qed

lemma parse_header_line:
  assumes wf: "header_wf kv" and buf: "rq_buffer r = header_line kv @ rest"
    and ok: "header_ok (rq_list r)" "header_room (Suc n) (rq_list r)"
  shows "\<exists>r'. parseRequestHeaders r = Some (Some (DFW_OK, 0), r') \<and> rq_buffer r' = rest \<and>
     header_ok (rq_list r') \<and> header_room n (rq_list r') \<and>
     header_find (rq_list r') = (header_find (rq_list r))(fst kv \<mapsto> snd kv) \<and> line_fields r' = line_fields r"
proof -
  let ?n = "length (fst kv) + length (snd kv) + 2" and ?l = "fst kv @ '': '' @ snd kv"
  have cl: "NUL \<notin> set ?l" "CR \<notin> set ?l" "length ?l = ?n" "header_line kv = ?l @ CRLF"
    "NUL \<notin> set (fst kv)" "NUL \<notin> set (snd kv)" "CHR '':'' \<notin> set (fst kv)"
    using wf by (auto simp: header_wf_def clean_def header_line_def)
  have mem: "chars (rq_buffer r) = Some (?l @ CR # LF # rest @ [NUL])" by (simp add: buf cl(4) chars_def)
  have cs: "cstr (?l @ CR # LF # rest @ [NUL]) = ?l @ CR # LF # cstr (rest @ [NUL])"
    using cstr_append_clean[OF cl(1), of "CR # LF # rest @ [NUL]"] by (simp add: cstr_def)
  have sp: "header_split ?n (?l @ CR # LF # cstr (rest @ [NUL])) = Some kv"
    using header_split_line[OF wf cl(7), of "cstr (rest @ [NUL])"] by (simp add: cl(4))
  have "length (header_line kv) = ?n + 2" by (simp add: header_line_def)
  then have dr: "drop (?n + 2) (rq_buffer r) = rest" unfolding buf by simp
  have "parseRequestHeaders r = header_store (fst kv) (snd kv) (r\<lparr>rq_buffer := rest\<rparr>)"
    unfolding parseRequestHeaders_def mem option.case cs strstr_crlf[OF cl(2)] cl(3) sp dr by (simp add: case_prod_beta)
  with header_store_ok[of "r\<lparr>rq_buffer := rest\<rparr>" n, OF _ _ cl(5,6)] ok show ?thesis by auto
qed

lemma header_loop_ok:
  assumes "\<forall>kv\<in>set kvs. header_wf kv" "rq_buffer r = concat (map header_line kvs) @ CRLF @ body"
    and "header_ok (rq_list r)" "header_room (length kvs) (rq_list r)"
  shows "\<exists>r'. header_loop r = Some (None, r') \<and> rq_buffer r' = body \<and> rq_cstatus r' = HTTPD_CSTATUS_BODY \<and>
     header_ok (rq_list r') \<and> header_find (rq_list r') = header_find (rq_list r) ++ map_of (rev kvs) \<and>
     line_fields r' = line_fields r"
  using assms
proof (induction kvs arbitrary: r)
  case Nil
  have "chars (rq_buffer r) = Some (CR # LF # body @ [NUL])" using Nil(2) by (simp add: chars_def)
  moreover have "cstr (CR # LF # body @ [NUL]) = CR # LF # cstr (body @ [NUL])" by (simp add: cstr_def)
  ultimately have "parseRequestHeaders r = Some (None, r\<lparr>rq_buffer := body, rq_cstatus := HTTPD_CSTATUS_BODY\<rparr>)"
    using Nil(2) by (simp add: parseRequestHeaders_def)
  then show ?case using Nil by (simp add: header_loop.simps)
next
  case (Cons kv kvs)
  then have buf: "rq_buffer r = header_line kv @ concat (map header_line kvs) @ CRLF @ body" by simp
  obtain r1 where r1: "parseRequestHeaders r = Some (Some (DFW_OK, 0), r1)"
     "rq_buffer r1 = concat (map header_line kvs) @ CRLF @ body" "header_ok (rq_list r1)"
     "header_room (length kvs) (rq_list r1)"
     "header_find (rq_list r1) = (header_find (rq_list r))(fst kv \<mapsto> snd kv)" "line_fields r1 = line_fields r"
    using parse_header_line[OF _ buf, of "length kvs"] Cons.prems by auto
  obtain r2 where r2: "header_loop r1 = Some (None, r2)" "rq_buffer r2 = body" "rq_cstatus r2 = HTTPD_CSTATUS_BODY"
     "header_ok (rq_list r2)" "header_find (rq_list r2) = header_find (rq_list r1) ++ map_of (rev kvs)"
     "line_fields r2 = line_fields r1"
    using Cons.IH[OF _ r1(2-4)] Cons.prems(1) by auto
  have "header_loop r = header_loop r1" by (subst header_loop.simps) (simp add: r1(1))
  moreover have "(header_find (rq_list r))(fst kv \<mapsto> snd kv) ++ map_of (rev kvs) =
      header_find (rq_list r) ++ map_of (rev (kv # kvs))"
    by (cases kv) (auto simp: map_add_def fun_eq_iff split: option.splits)
  ultimately show ?case using r2 r1(5,6) by (intro exI[of _ r2]) simp
qed

section \<open>Requests\<close>

lemma request_reads_back:
  assumes "line_wf m t target proto ver" "\<forall>kv\<in>set kvs. header_wf kv" "length kvs \<le> 100"
  shows "\<exists>r. parseRequest (request_line m t proto ver @ CRLF @ concat (map header_line kvs) @ CRLF @ body) request_new =
      Some (None, r) \<and> rq_cstatus r = HTTPD_CSTATUS_BODY \<and> rq_buffer r = body \<and>
    line_fields r = (m, target, takeWhile (\<lambda>c. c \<noteq> CHR ''?'') target,
       (if CHR ''?'' \<in> set target then tl (dropWhile (\<lambda>c. c \<noteq> CHR ''?'') target) else []), proto, ver) \<and>
    (\<forall>k. NUL \<notin> set k \<longrightarrow> getHeader (chars k) (rq_list r) =
       Some (map_option (\<lambda>v. \<lparr>nv_name = k, nv_value = v\<rparr>) (map_of (rev kvs) k)))"
proof -
  let ?rest = "concat (map header_line kvs) @ CRLF @ body"
  let ?text = "request_line m t proto ver @ CRLF @ ?rest"
  let ?r0 = "request_new\<lparr>rq_buffer := ?text, rq_requestHeaders := ?text\<rparr>"
  have q: "rq_query ?r0 = []" "rq_list ?r0 = arr_init" "rq_cstatus ?r0 = HTTPD_CSTATUS_READY"
    by (simp_all add: request_new_def)
  obtain r1 where r1: "parseRequestReady ?r0 = Some (None, r1)" "rq_buffer r1 = ?rest" "rq_list r1 = arr_init"
     "line_fields r1 = (m, target, takeWhile (\<lambda>c. c \<noteq> CHR ''?'') target,
       (if CHR ''?'' \<in> set target then tl (dropWhile (\<lambda>c. c \<noteq> CHR ''?'') target) else []), proto, ver)"
    using parseRequestReady_ok[OF assms(1), of ?r0 ?rest] unfolding q by auto
  obtain r2 where r2: "header_loop r1 = Some (None, r2)" "rq_buffer r2 = body" "rq_cstatus r2 = HTTPD_CSTATUS_BODY"
     "header_ok (rq_list r2)" "header_find (rq_list r2) = map_of (rev kvs)" "line_fields r2 = line_fields r1"
    using header_loop_ok[OF assms(2) r1(2)] assms(3) r1(3) by auto
  have "parseRequest ?text request_new = header_loop r1"
    using r1(1) by (simp add: parseRequest_def Let_def request_new_def request_line_def)
  then show ?thesis using r2 r1(4) getHeader_find[OF r2(4)] by (intro exI[of _ r2]) simp
qed

section \<open>Properties\<close>

text \<open>C25. The parser reads back a printed request that arrives in one packet: method, decoded target with
  path and query, protocol and version, the headers (up to 100) as a finite map, and exactly the bytes
  behind the empty line left in the buffer, with the state \<open>BODY\<close>.\<close>

theorem request_print_parse:
  assumes "line_wf m t target proto ver" "\<forall>kv\<in>set kvs. header_wf kv" "length kvs \<le> 100"
  shows "\<exists>r. parseRequest (request_line m t proto ver @ CRLF @ concat (map header_line kvs) @ CRLF @ body) request_new =
      Some (None, r) \<and> rq_cstatus r = HTTPD_CSTATUS_BODY \<and> rq_buffer r = body \<and>
    line_fields r = (m, target, takeWhile (\<lambda>c. c \<noteq> CHR ''?'') target,
       (if CHR ''?'' \<in> set target then tl (dropWhile (\<lambda>c. c \<noteq> CHR ''?'') target) else []), proto, ver) \<and>
    (\<forall>k. NUL \<notin> set k \<longrightarrow> getHeader (chars k) (rq_list r) =
       Some (map_option (\<lambda>v. \<lparr>nv_name = k, nv_value = v\<rparr>) (map_of (rev kvs) k)))"
  using request_reads_back[OF assms] .

theorem request_print_parse_witness:
  "\<exists>r. parseRequest (''GET /a%2Fb?x=1 HTTP/1.1'' @ CRLF @ ''Host: h'' @ CRLF @ CRLF @ ''body'') request_new =
      Some (None, r) \<and> rq_buffer r = ''body'' \<and>
    line_fields r = (''GET'', ''/a/b?x=1'', ''/a/b'', ''x=1'', ''HTTP'', ''1.1'') \<and>
    getHeader (chars ''Host'') (rq_list r) = Some (Some \<lparr>nv_name = ''Host'', nv_value = ''h''\<rparr>)"
proof -
  have x: "c_isxdigit CHR ''2''" "c_isxdigit CHR ''F''" "hex_val CHR ''2'' = 2" "hex_val CHR ''F'' = 15"
    "char_of (47::nat) = CHR ''/''"
    by (simp_all add: c_isxdigit_def c_isdigit_def hex_val_def uchar_def char_of_eq_iff take_bit_eq_mod)
  have "url_encodes ''b?x=1'' ''b?x=1''" by (intro enc_plain enc_nil) simp_all
  from enc_hex[OF this x(1,2)] x(3-5) have "url_encodes ''%2Fb?x=1'' ''/b?x=1''" by simp
  then have u: "url_encodes ''/a%2Fb?x=1'' ''/a/b?x=1''" by (intro enc_plain) simp_all
  then have wf: "line_wf ''GET'' ''/a%2Fb?x=1'' ''/a/b?x=1'' ''HTTP'' ''1.1''"
    by (simp add: line_wf_def clean_def)
  have h: "header_wf (''Host'', ''h'')"
    by (simp add: header_wf_def clean_def trim_spec_def string_isspace_def)
  obtain r where r: "parseRequest (request_line ''GET'' ''/a%2Fb?x=1'' ''HTTP'' ''1.1'' @ CRLF @
        concat (map header_line [(''Host'', ''h'')]) @ CRLF @ ''body'') request_new = Some (None, r)"
      "rq_buffer r = ''body''" "line_fields r = (''GET'', ''/a/b?x=1'', ''/a/b'', ''x=1'', ''HTTP'', ''1.1'')"
      "\<forall>k. NUL \<notin> set k \<longrightarrow> getHeader (chars k) (rq_list r) =
        Some (map_option (\<lambda>v. \<lparr>nv_name = k, nv_value = v\<rparr>) (map_of (rev [(''Host'', ''h'')]) k))"
    using request_print_parse[OF wf, of "[(''Host'', ''h'')]" "''body''"] h by auto
  from r(1) have "parseRequest (''GET /a%2Fb?x=1 HTTP/1.1'' @ CRLF @ ''Host: h'' @ CRLF @ CRLF @ ''body'') request_new =
      Some (None, r)" by (simp add: request_line_def header_line_def)
  with r(2,3) r(4)[rule_format, of "''Host''"] show ?thesis by (intro exI[of _ r]) simp
qed

text \<open>C27. A client can crash the server by splitting its packets: when a packet ends right behind the request
  line, or behind a header line, the buffer is empty when the next header is looked for, and
  \<open>strstr\<close> gets a NULL pointer.\<close>

theorem request_split_crashes:
  assumes "line_wf m t target proto ver" "\<forall>kv\<in>set kvs. header_wf kv" "length kvs \<le> 100"
  shows "parseRequest (request_line m t proto ver @ CRLF @ concat (map header_line kvs)) request_new = None"
proof -
  have crash: "header_loop r = None"
    if "rq_buffer r = concat (map header_line kvs)" "\<forall>kv\<in>set kvs. header_wf kv"
      "header_ok (rq_list r)" "header_room (length kvs) (rq_list r)" for r kvs
    using that
  proof (induction kvs arbitrary: r)
    case Nil
    then show ?case by (subst header_loop.simps) (simp add: parseRequestHeaders_def)
  next
    case (Cons kv kvs)
    then have buf: "rq_buffer r = header_line kv @ concat (map header_line kvs)" by simp
    obtain r1 where "parseRequestHeaders r = Some (Some (DFW_OK, 0), r1)"
       "rq_buffer r1 = concat (map header_line kvs)" "header_ok (rq_list r1)" "header_room (length kvs) (rq_list r1)"
      using parse_header_line[OF _ buf, of "length kvs"] Cons.prems by auto
    then show ?case using Cons.IH[of r1] Cons.prems(2) by (subst header_loop.simps) simp
  qed
  let ?rest = "concat (map header_line kvs)"
  let ?text = "request_line m t proto ver @ CRLF @ ?rest"
  let ?r0 = "request_new\<lparr>rq_buffer := ?text, rq_requestHeaders := ?text\<rparr>"
  have q: "rq_list ?r0 = arr_init" "rq_cstatus ?r0 = HTTPD_CSTATUS_READY" by (simp_all add: request_new_def)
  obtain r1 where r1: "parseRequestReady ?r0 = Some (None, r1)" "rq_buffer r1 = ?rest" "rq_list r1 = arr_init"
    using parseRequestReady_ok[OF assms(1), of ?r0 ?rest] unfolding q by auto
  have "parseRequest ?text request_new = header_loop r1"
    using r1(1) by (simp add: parseRequest_def Let_def request_new_def request_line_def)
  also have "\<dots> = None" using crash[OF r1(2) assms(2)] r1(3) assms(3) by simp
  finally show ?thesis .
qed

theorem request_split_crashes_witness: "parseRequest (''GET / HTTP/1.1'' @ CRLF) request_new = None"
proof -
  have "url_encodes ''/'' ''/''" by (intro enc_plain enc_nil) simp_all
  then have wf: "line_wf ''GET'' ''/'' ''/'' ''HTTP'' ''1.1''" by (simp add: line_wf_def clean_def)
  show ?thesis using request_split_crashes[OF wf, of "[]"] by (simp add: request_line_def)
qed

text \<open>A target that decodes to the empty text crashes the server as well, whatever follows the line:
  \<open>urldecode\<close> gives a \<open>String\<close> without characters, whose pointer is NULL.\<close>

theorem request_empty_target_crashes:
  assumes "m \<noteq> []" "clean m" "SPC \<notin> set m" "clean v" "SPC \<notin> set v"
  shows "parseRequest (m @ '' %00 '' @ v @ CRLF @ rest) request_new = None"
proof -
  let ?line = "m @ SPC # ''%00'' @ SPC # v" and ?text = "m @ '' %00 '' @ v @ CRLF @ rest"
  let ?r0 = "request_new\<lparr>rq_buffer := ?text, rq_requestHeaders := ?text\<rparr>"
  have cl: "NUL \<notin> set ?line" "CR \<notin> set ?line" "?line \<noteq> []" using assms by (auto simp: clean_def)
  have mem: "chars (rq_buffer ?r0) = Some (?line @ CR # LF # rest @ [NUL])" by (simp add: chars_def)
  have cs: "cstr (?line @ CR # LF # rest @ [NUL]) = ?line @ CR # LF # cstr (rest @ [NUL])"
    using cstr_append_clean[OF cl(1), of "CR # LF # rest @ [NUL]"] by (simp add: cstr_def)
  have tk: "take (length ?line) (?line @ b) = ?line" for b by (metis append_eq_conv_conj)
  have x: "c_isxdigit CHR ''0''" "hex_digit CHR ''0'' = 0"
    by (simp_all add: c_isxdigit_def c_isdigit_def uchar_def hex_digit_def schar_def toLower_def)
  have u: "urldecode heap_ok [] (chars ''%00'') = Some (None, [])"
    using x by (simp add: urldecode_def urldecode_loop_step(1) int_room_def to_int32_def Let_def put_def cstr_def char_of_eq_iff)
  have s: "split_at_pos (strstr ?line [SPC]) ?line = Some (m, ''%00'' @ SPC # v)"
    using assms(1,3) strstr_char[of SPC m] by (simp add: split_at_posI del: append_Cons append.simps)
  have s2: "split_at_pos (strrchr (''%00'' @ SPC # v) SPC) (''%00'' @ SPC # v) = Some (''%00'', v)"
    using assms(5) by (intro split_at_posI strrchr_append) auto
  have "request_words (length ?line) (?r0\<lparr>rq_line := ?line\<rparr>) = None"
    using s s2 u by (simp add: request_words_def Let_def request_target_def del: append_Cons append.simps)
  then have "parseRequestReady ?r0 = None"
    unfolding parseRequestReady_def mem option.case cs strstr_crlf[OF cl(2)] Let_def tk using cl(3) by simp
  then show ?thesis using assms(1) by (simp add: parseRequest_def Let_def request_new_def)
qed

theorem request_empty_target_crashes_witness:
  "parseRequest (''GET %00 HTTP/1.1'' @ CRLF @ ''Host: h'' @ CRLF @ CRLF) request_new = None"
  using request_empty_target_crashes[of "''GET''" "''HTTP/1.1''" "''Host: h'' @ CRLF @ CRLF"] by (simp add: clean_def)

end
