(* ===== verification/Dfw_HttpAuth.thy ===== *)
theory Dfw_HttpAuth
  imports Dfw_HttpRequest Dfw_MD5 Dfw_Base64
begin

text \<open>
  \<open>lib/http/HttpAuth.cpp\<close>, \<open>HttpBasic.cpp\<close> and \<open>HttpDigest.cpp\<close>: how the client answers a status 401.  The
  three loops over the parameters of a header have the same text in the code and are one loop here,
  with the table of the names as its argument.  A pointer into a text is the rest of that text; a result
  \<open>None\<close> is a read behind the terminator, of NULL, or of memory that was never written.  Parameters: the answer
  of the listener, and \<open>md\<close>, what the memory of an \<open>MD5\<close> object holds before \<open>init\<close>.
\<close>

section \<open>The parameters of a header\<close>

text \<open>
  \<open>test\<close>: the value behind a name, up to \<open>slen\<close>, without its quotes.  When the comma comes before the
  value, \<open>len\<close> is negative, as a \<open>dfw_size_t\<close> close to \<open>2 ^ 64\<close>: the allocation in \<open>set\<close> fails and leaves the text
  empty, except for \<open>-1\<close>, where \<open>nlen + 1\<close> is 0 and the copy runs out of the text.
\<close>

definition auth_test :: "string \<Rightarrow> nat \<Rightarrow> nat \<Rightarrow> (string \<times> nat) option" where
  "auth_test str slen pre =
     (if length str < pre then None
      else let test = drop pre str; len = min (int (length test)) (int slen - int pre) in
        if len = -1 then None
        else if len < 0 then Some ([], nat (int pre + len))
        else if len \<le> 2 \<or> hd test \<noteq> DQUOTE \<or> test ! (nat len - 1) \<noteq> DQUOTE
        then Some (take (nat len) test, pre + nat len)
        else Some (take (nat len - 2) (tl test), pre + nat len + 2))"

text \<open>The member a name sets, and the length of the name with its \<open>=\<close>.\<close>

type_synonym 'c param_key = "string \<Rightarrow> ((string \<Rightarrow> 'c \<Rightarrow> 'c) \<times> nat) option"

definition is_blank :: "char \<Rightarrow> bool" where
  "is_blank c \<longleftrightarrow> c = SPC \<or> c = TAB"

definition no_comma :: "char \<Rightarrow> bool" where
  "no_comma c \<longleftrightarrow> c \<noteq> CHR '',''"

text \<open>\<open>do { \<dots> } while(!bLast)\<close>.  Behind a value the loop continues where it ends, behind an unknown
  parameter two characters behind its comma.\<close>

function param_loop :: "'c param_key \<Rightarrow> string \<Rightarrow> 'c \<Rightarrow> 'c option" where
  "param_loop key s ctx =
     (let templen = length (takeWhile no_comma s); bLast = (CHR '','' \<notin> set s); temp = dropWhile is_blank s in
      case key temp of
        Some (upd, pre) \<Rightarrow>
         (case auth_test temp templen pre of
            None \<Rightarrow> None
          | Some (v, olen) \<Rightarrow>
              if bLast \<or> olen = 0 then Some (upd v ctx)
              else if length s < olen then None else param_loop key (drop olen s) (upd v ctx))
      | None \<Rightarrow>
          if bLast then Some ctx
          else if length s < templen + 2 then None else param_loop key (drop (templen + 2) s) ctx)"
  by pat_completeness auto
termination by (relation "measure (\<lambda>(key, s, ctx). length s)") auto

declare param_loop.simps [simp del]

record http_digest =
  dg_user :: string
  dg_realm :: string
  dg_nonce :: string
  dg_uri :: string
  dg_response :: string
  dg_algorithm :: string
  dg_qop :: string

definition http_digest_new :: http_digest where
  "http_digest_new = \<lparr>dg_user = [], dg_realm = [], dg_nonce = [], dg_uri = [], dg_response = [],
     dg_algorithm = [], dg_qop = []\<rparr>"

definition digest_key :: "http_digest param_key" where
  "digest_key temp =
     (if strncaseeq ''realm'' temp 5 then Some (\<lambda>v c. c\<lparr>dg_realm := v\<rparr>, 6)
      else if strncaseeq ''nonce'' temp 5 then Some (\<lambda>v c. c\<lparr>dg_nonce := v\<rparr>, 6)
      else if strncaseeq ''algorithm'' temp 9 then Some (\<lambda>v c. c\<lparr>dg_algorithm := v\<rparr>, 10)
      else if strncaseeq ''qop'' temp 3 then Some (\<lambda>v c. c\<lparr>dg_qop := v\<rparr>, 4)
      else None)"

definition basic_key :: "http_digest param_key" where
  "basic_key temp = (if strncaseeq ''realm'' temp 5 then Some (\<lambda>v c. c\<lparr>dg_realm := v\<rparr>, 6) else None)"

record http_auth_info =
  ai_rspauth :: string
  ai_cnonce :: string
  ai_nc :: string
  ai_qop :: string
  ai_unc :: "64 word"

definition info_key :: "http_auth_info param_key" where
  "info_key temp =
     (if strncaseeq ''rspauth'' temp 7 then Some (\<lambda>v c. c\<lparr>ai_rspauth := v\<rparr>, 8)
      else if strncaseeq ''cnonce'' temp 6 then Some (\<lambda>v c. c\<lparr>ai_cnonce := v\<rparr>, 7)
      else if strncaseeq ''nc'' temp 2 then Some (\<lambda>v c. c\<lparr>ai_nc := v\<rparr>, 3)
      else if strncaseeq ''qop'' temp 3 then Some (\<lambda>v c. c\<lparr>ai_qop := v\<rparr>, 4)
      else None)"

definition getAuthenticationInfo :: "string option \<Rightarrow> http_auth_info \<Rightarrow> http_auth_info option" where
  "getAuthenticationInfo value ctx =
     do { mem \<leftarrow> value;
          c \<leftarrow> param_loop info_key (cstr mem) ctx;
          Some (c\<lparr>ai_unc := word_of_int (parseLong (chars (ai_nc c)) 0)\<rparr>) }"

section \<open>The server's check\<close>

definition check_key :: "http_digest param_key" where
  "check_key temp =
     (if strncaseeq ''uri'' temp 3 then Some (\<lambda>v c. c\<lparr>dg_uri := v\<rparr>, 4)
      else if strncaseeq ''username'' temp 8 then Some (\<lambda>v c. c\<lparr>dg_user := v\<rparr>, 9)
      else if strncaseeq ''nonce'' temp 5 then Some (\<lambda>v c. c\<lparr>dg_nonce := v\<rparr>, 6)
      else if strncaseeq ''response'' temp 8 then Some (\<lambda>v c. c\<lparr>dg_response := v\<rparr>, 9)
      else None)"

text \<open>Here the next parameter starts behind the comma, so the blank behind it is part of it: it is skipped,
  but counted.\<close>

function check_loop :: "string \<Rightarrow> http_digest \<Rightarrow> http_digest option" where
  "check_loop s ctx =
     (let templen = length (takeWhile no_comma s); bLast = (CHR '','' \<notin> set s); temp = dropWhile is_blank s in
      do { ctx \<leftarrow> (case check_key temp of
              Some (upd, pre) \<Rightarrow> map_option (\<lambda>r. upd (fst r) ctx) (auth_test temp templen pre)
            | None \<Rightarrow> Some ctx);
          if bLast then Some ctx else check_loop (drop (templen + 1) s) ctx })"
  by pat_completeness auto
termination by (relation "measure (\<lambda>(s, ctx). length s)") (auto dest: length_pos_if_in_set)

declare check_loop.simps [simp del]

definition digest_check :: "string option \<Rightarrow> string option \<Rightarrow> string option \<Rightarrow> int option" where
  "digest_check value user_id pw =
     (case value of
        None \<Rightarrow> Some 401
      | Some mem \<Rightarrow>
          if strcasestr (cstr mem) ''Digest '' = None then Some 401
          else do { ctx \<leftarrow> check_loop (drop 7 (cstr mem)) http_digest_new;
                    if dg_user ctx = [] \<or> dg_nonce ctx = [] \<or> dg_response ctx = [] then Some 401
                    else do { i \<leftarrow> user_id;
                              if cstr i \<noteq> dg_user ctx then Some 401 else Some 401 } })"

section \<open>The digest\<close>

text \<open>\<open>(j <= 9) ? j + '0' : j + 'a' - 10\<close>\<close>

definition hex_of :: "byte \<Rightarrow> char" where
  "hex_of j = (if j \<le> 9 then of_byte (j + 48) else of_byte (j + 97 - 10))"

definition CvtHex :: "byte list \<Rightarrow> string" where
  "CvtHex bin = concat (map (\<lambda>i. [hex_of (drop_bit 4 (bin ! i) AND 0xf), hex_of (bin ! i AND 0xf)]) [0..<16])"

definition c_bytes :: "string option \<Rightarrow> byte list option" where
  "c_bytes p = map_option (\<lambda>m. map to_byte (cstr m)) p"

text \<open>\<open>init\<close>, one \<open>update\<close> for every part, \<open>finalization\<close>.\<close>

definition md5_of :: "byte list list \<Rightarrow> md5_ctx \<Rightarrow> (byte list \<times> md5_ctx) option" where
  "md5_of parts md = do { c \<leftarrow> md5_run parts (md5_init md); md5_finalization c }"

abbreviation (input) COLON :: "byte list" where "COLON \<equiv> [0x3a]"

definition DigestCalcHA1 ::
  "md5_ctx \<Rightarrow> string option \<Rightarrow> string option \<Rightarrow> string option \<Rightarrow> string option \<Rightarrow> string option \<Rightarrow> string option \<Rightarrow> string option" where
  "DigestCalcHA1 md pszAlg pszUserName pszRealm pszPassword pszNonce pszCNonce =
     do { user \<leftarrow> c_bytes pszUserName;
          realm \<leftarrow> c_bytes pszRealm;
          pass \<leftarrow> c_bytes pszPassword;
          a \<leftarrow> md5_of [user, COLON, realm, COLON, pass] md;
          alg \<leftarrow> pszAlg;
          if cstr alg = ''md5-sess''
          then do { nonce \<leftarrow> c_bytes pszNonce;
                    cnonce \<leftarrow> c_bytes pszCNonce;
                    b \<leftarrow> md5_of [fst a, COLON, nonce, COLON, cnonce] (snd a);
                    Some (CvtHex (fst b)) }
          else Some (CvtHex (fst a)) }"

definition DigestCalcResponse ::
  "md5_ctx \<Rightarrow> string \<Rightarrow> string option \<Rightarrow> string option \<Rightarrow> string option \<Rightarrow> string option \<Rightarrow> string option \<Rightarrow> string option \<Rightarrow>
   string option \<Rightarrow> string option" where
  "DigestCalcResponse md HA1 pszNonce pszNonceCount pszCNonce pszQop pszMethod pszDigestUri HEntity =
     do { method \<leftarrow> c_bytes pszMethod;
          digestUri \<leftarrow> c_bytes pszDigestUri;
          qop \<leftarrow> pszQop;
          entity \<leftarrow> (if cstr qop = ''auth-int''
                    then do { e \<leftarrow> HEntity; Some [COLON, map to_byte (take 32 e)] } else Some []);
          a2 \<leftarrow> md5_of ([method, COLON, digestUri] @ entity) md;
          nonce \<leftarrow> c_bytes pszNonce;
          middle \<leftarrow> (if cstr qop \<noteq> []
                    then do { nc \<leftarrow> c_bytes pszNonceCount;
                              cnonce \<leftarrow> c_bytes pszCNonce;
                              Some [nc, COLON, cnonce, COLON, map to_byte (cstr qop), COLON] }
                    else Some []);
          r \<leftarrow> md5_of ([map to_byte (take 32 HA1), COLON, nonce, COLON] @ middle @
                     [map to_byte (take 32 (CvtHex (fst a2)))]) (snd a2);
          Some (CvtHex (fst r)) }"

definition makeNonce :: "md5_ctx \<Rightarrow> 64 word \<Rightarrow> string option" where
  "makeNonce md millis =
     map_option (\<lambda>h. take 32 (CvtHex (fst h))) (md5_of [map to_byte (show_nat (unat millis))] md)"

section \<open>Answers to a challenge\<close>

text \<open>\<open>HttpQuery::onAuth\<close>: the listener, when there is one, then the credentials of the first round's URI.\<close>

definition query_onAuth :: "(rv \<times> string \<times> string) option \<Rightarrow> (string \<times> string) option \<Rightarrow> rv \<times> string \<times> string" where
  "query_onAuth listener first =
     (let (e, user, pass) = (case listener of None \<Rightarrow> (None, [], []) | Some a \<Rightarrow> a) in
      if e \<noteq> None then (e, user, pass)
      else let (user, pass) = (if user = [] \<or> pass = [] then (case first of None \<Rightarrow> (user, pass) | Some up \<Rightarrow> up)
                               else (user, pass)) in
        if user = [] \<or> pass = [] then (Some (DFW_E_HTTPAUTH, 0), user, pass) else (None, user, pass))"

definition digest_nc :: string where
  "digest_nc = ''00000001''"

definition digest_cnonce :: string where
  "digest_cnonce = ''0a4f113b''"

text \<open>\<open>HA2\<close> is never written, so there is no entity.\<close>

definition digest_text :: "md5_ctx \<times> md5_ctx \<Rightarrow> http_digest \<Rightarrow> string \<Rightarrow> string \<Rightarrow> string \<Rightarrow> string \<Rightarrow> string option" where
  "digest_text md ctx user pass method path =
     do { ha1 \<leftarrow> DigestCalcHA1 (fst md) (chars (dg_algorithm ctx)) (chars user) (chars (dg_realm ctx)) (chars pass)
                   (chars (dg_nonce ctx)) (Some digest_cnonce);
          response \<leftarrow> DigestCalcResponse (snd md) ha1 (chars (dg_nonce ctx)) (Some digest_nc) (Some digest_cnonce)
                       (chars (dg_qop ctx)) (chars method) (chars path) None;
          Some (''Digest username='' @ [DQUOTE] @ fmt_s user @ [DQUOTE] @ '', realm='' @ [DQUOTE] @ fmt_s (dg_realm ctx) @ [DQUOTE] @
            '', qop='' @ [DQUOTE] @ fmt_s (dg_qop ctx) @ [DQUOTE] @ '', algorithm='' @ [DQUOTE] @ ''MD5'' @ [DQUOTE] @
            '', uri='' @ [DQUOTE] @ fmt_s path @ [DQUOTE] @ '', nonce='' @ [DQUOTE] @ fmt_s (dg_nonce ctx) @ [DQUOTE] @
            '', nc='' @ digest_nc @ '', cnonce='' @ [DQUOTE] @ digest_cnonce @ [DQUOTE] @
            '', response='' @ [DQUOTE] @ response @ [DQUOTE]) }"

definition basic_text :: "string \<Rightarrow> string \<Rightarrow> string option" where
  "basic_text user pass =
     (let temp = fmt_s user @ '':'' @ fmt_s pass in
      map_option (\<lambda>enc. ''Basic '' @ fmt_s enc) (base64_encode temp (to_int32 (int (length temp)))))"

text \<open>\<open>makeAuthorization\<close> of both classes up to the parameters of the challenge: the name of the scheme, the callback,
  the loop.  \<open>answer\<close> is what follows.\<close>

definition with_challenge ::
  "string \<Rightarrow> http_digest param_key \<Rightarrow> header \<Rightarrow> rv \<times> string \<times> string \<Rightarrow>
   (http_digest \<Rightarrow> string \<Rightarrow> string \<Rightarrow> (rv \<times> header) option) \<Rightarrow> header \<Rightarrow> (rv \<times> header) option" where
  "with_challenge scheme key resp auth answer reqs =
     do { found \<leftarrow> getHeader (chars ''WWW-Authenticate'') resp;
          case found of
            None \<Rightarrow> Some (Some (DFW_E_NO_WWW_AUTHENTICATE, 0), reqs)
          | Some nv \<Rightarrow>
              do { mem \<leftarrow> chars (nv_value nv);
                   case strcasestr (cstr mem) scheme of
                     None \<Rightarrow> Some (Some (DFW_E_NO_HTTP_AUTH_TYPE, 0), reqs)
                   | Some i \<Rightarrow>
                       if fst auth \<noteq> None then Some (fst auth, reqs)
                       else do { ctx \<leftarrow> param_loop key (drop (i + length scheme) (cstr mem)) http_digest_new;
                                 answer ctx (fst (snd auth)) (snd (snd auth)) } } }"

definition append_authorization :: "allocator \<Rightarrow> header \<Rightarrow> string \<Rightarrow> (rv \<times> header) option" where
  "append_authorization al reqs text =
     map_option (\<lambda>a. (None, snd a)) (appendHeader al (chars ''Authorization'') (chars text) reqs)"

definition digest_makeAuthorization ::
  "allocator \<Rightarrow> md5_ctx \<times> md5_ctx \<Rightarrow> header \<Rightarrow> rv \<times> string \<times> string \<Rightarrow> string \<Rightarrow> string \<Rightarrow> header \<Rightarrow> (rv \<times> header) option" where
  "digest_makeAuthorization al md resp auth method path reqs =
     with_challenge ''Digest '' digest_key resp auth
       (\<lambda>ctx user pass. Option.bind (digest_text md ctx user pass method path) (append_authorization al reqs)) reqs"

definition basic_makeAuthorization ::
  "allocator \<Rightarrow> header \<Rightarrow> rv \<times> string \<times> string \<Rightarrow> header \<Rightarrow> (rv \<times> header) option" where
  "basic_makeAuthorization al resp auth reqs =
     with_challenge ''Basic '' basic_key resp auth
       (\<lambda>ctx user pass. Option.bind (basic_text user pass) (append_authorization al reqs)) reqs"

datatype authtype = DFW_HTTPAUTHTYPE_UNKNOWN | DFW_HTTPAUTHTYPE_BASIC | DFW_HTTPAUTHTYPE_DIGEST

definition auth_getType :: "string \<Rightarrow> authtype" where
  "auth_getType p =
     (let p = dropWhile is_blank p in
      if prefix ''Basic '' p then DFW_HTTPAUTHTYPE_BASIC
      else if prefix ''Digest '' p then DFW_HTTPAUTHTYPE_DIGEST else DFW_HTTPAUTHTYPE_UNKNOWN)"

definition http_auth ::
  "allocator \<Rightarrow> md5_ctx \<times> md5_ctx \<Rightarrow> header \<Rightarrow> rv \<times> string \<times> string \<Rightarrow> string \<Rightarrow> string \<Rightarrow> header \<Rightarrow> (rv \<times> header) option" where
  "http_auth al md resp auth method path reqs =
     do { found \<leftarrow> getHeader (chars ''WWW-Authenticate'') resp;
          case found of
            None \<Rightarrow> Some (Some (DFW_ERROR, 0), reqs)
          | Some nv \<Rightarrow>
             (case chars (nv_value nv) of
                None \<Rightarrow> Some (Some (DFW_ERROR, 0), reqs)
              | Some mem \<Rightarrow>
                 (case auth_getType (cstr mem) of
                    DFW_HTTPAUTHTYPE_BASIC \<Rightarrow> basic_makeAuthorization al resp auth reqs
                  | DFW_HTTPAUTHTYPE_DIGEST \<Rightarrow> digest_makeAuthorization al md resp auth method path reqs
                  | DFW_HTTPAUTHTYPE_UNKNOWN \<Rightarrow> Some (Some (DFW_E_NO_HTTP_AUTH_TYPE, 0), reqs))) }"

end
