(* ===== verification/Dfw_HttpAuth_Spec.thy ===== *)
theory Dfw_HttpAuth_Spec
  imports Dfw_HttpAuth
begin

text \<open>
  The answers to a challenge: the digest against RFC 2617 over the one-shot MD5 of \<open>Dfw_MD5\<close>, the parameters
  read back from a printed list (the locale \<open>param_names\<close> is what the loop needs of a table of names, with an
  interpretation for each of the three tables), the credentials in a Basic answer.
\<close>

section \<open>The digest\<close>

definition nibble :: "nat \<Rightarrow> char" where
  "nibble n = ''0123456789abcdef'' ! n"

definition lower_hex :: "byte list \<Rightarrow> string" where
  "lower_hex bs = concat (map (\<lambda>b. [nibble (unat b div 16), nibble (unat b mod 16)]) bs)"

lemma hex_of_nibble: "n < 16 \<Longrightarrow> hex_of (of_nat n) = nibble n"
proof -
  have "\<forall>n\<in>{0, 1, 2, 3, 4, 5, 6, 7, 8, 9, 10, 11, 12, 13, 14, 15}. hex_of (of_nat n) = nibble n"
    by (simp add: hex_of_def nibble_def of_byte_def char_of_eq_iff take_bit_eq_mod)
  moreover assume "n < 16"
  then have "n \<in> {0, 1, 2, 3, 4, 5, 6, 7, 8, 9, 10, 11, 12, 13, 14, 15}" by (simp, arith)
  ultimately show ?thesis by blast
qed

lemma byte_and_15: "unat (x AND 0xf :: byte) = unat x mod 16"
proof -
  have "x AND 0xf = take_bit 4 x"
    using take_bit_eq_mask[of 4 x] mask_eq_exp_minus_1[where ?'a = byte, of 4] by simp
  then show ?thesis by (simp only: unsigned_take_bit_eq) (simp add: take_bit_eq_mod)
qed

lemma hex_of_nibbles:
  "hex_of (drop_bit 4 b AND 0xf) = nibble (unat b div 16)" "hex_of (b AND 0xf) = nibble (unat b mod 16)"
proof -
  have y: "hex_of y = nibble (unat y)" if "unat y < 16" for y
    using hex_of_nibble[OF that] by simp
  have h: "hex_of (x AND 0xf) = nibble (unat x mod 16)" for x
    unfolding byte_and_15[symmetric] by (rule y) (simp add: byte_and_15)
  show "hex_of (b AND 0xf) = nibble (unat b mod 16)" by (rule h)
  have "unat (drop_bit 4 b) = unat b div 16" by (simp only: unat_drop_bit_eq) (simp add: drop_bit_eq_div)
  moreover have "unat b div 16 < 16" using unsigned_less[of b, where ?'a = nat] by simp
  ultimately show "hex_of (drop_bit 4 b AND 0xf) = nibble (unat b div 16)" unfolding h by simp
qed

lemma CvtHex_lower: "length bs = 16 \<Longrightarrow> CvtHex bs = lower_hex bs"
proof -
  assume l: "length bs = 16"
  have pair: "[hex_of (drop_bit 4 b AND 0xf), hex_of (b AND 0xf)] = [nibble (unat b div 16), nibble (unat b mod 16)]" for b
    by (intro arg_cong2[where f = Cons] hex_of_nibbles refl)
  have "lower_hex bs = concat (map (\<lambda>b. [nibble (unat b div 16), nibble (unat b mod 16)]) (map ((!) bs) [0..<length bs]))"
    unfolding lower_hex_def map_nth ..
  also have "\<dots> = CvtHex bs" unfolding CvtHex_def pair l by (simp only: map_map o_def)
  finally show ?thesis ..
qed

lemma length_md5_digest [simp]: "length (md5_digest msg) = 16"
  by (simp add: md5_digest_def md5_encode_def md5_word_bytes_def split: prod.split)

lemma md5_of_ok:
  assumes "length (md_buffer md) = 64" "\<forall>p\<in>set parts. length p < 2 ^ 32 - 63"
  shows "\<exists>c. md5_of parts md = Some (md5_digest (concat parts), c) \<and> length (md_buffer c) = 64"
proof -
  obtain c where c: "md5_run parts (md5_init md) = Some c" "md5_rep c ([] @ concat parts)"
    using md5_run_rep[OF md5_init_rep[OF assms(1)] assms(2)] by blast
  with md5_finalization_ok[of c "concat parts"] obtain d where
    d: "md5_finalization c = Some (md5_digest (concat parts), d)" by auto
  then have "length (md_buffer d) = 64"
    unfolding md5_finalization_def Let_def bind_eq_Some_conv split_def by auto
  with c(1) d show ?thesis by (simp add: md5_of_def)
qed

definition rfc_H :: "string \<Rightarrow> string" where
  "rfc_H s = lower_hex (md5_digest (map to_byte s))"

definition rfc_KD :: "string \<Rightarrow> string \<Rightarrow> string" where
  "rfc_KD secret data = rfc_H (secret @ '':'' @ data)"

text \<open>RFC 2617, section 3.2.2, for qop absent or \<open>auth\<close>: with the algorithm \<open>MD5-sess\<close> (a token, its case does not
  matter) \<open>A1\<close> is the session's.\<close>

definition rfc_response where
  "rfc_response alg user realm pass nonce nc cnonce qop method uri =
     (let A1 = user @ '':'' @ realm @ '':'' @ pass;
          HA1 = rfc_H (if strcaseeq alg ''MD5-sess'' then rfc_H A1 @ '':'' @ nonce @ '':'' @ cnonce else A1);
          HA2 = rfc_H (method @ '':'' @ uri) in
      rfc_KD HA1 (if qop = [] then nonce @ '':'' @ HA2
                  else nonce @ '':'' @ nc @ '':'' @ cnonce @ '':'' @ qop @ '':'' @ HA2))"

lemma length_lower_hex [simp]: "length (lower_hex bs) = 2 * length bs"
  by (induction bs) (simp_all add: lower_hex_def)

lemma length_rfc_H [simp]: "length (rfc_H s) = 32"
  by (simp add: rfc_H_def)

lemma to_byte_colon: "to_byte CHR '':'' = 0x3a"
  by (simp add: to_byte_def uchar_def)

text \<open>A pointer to a text short enough for \<open>update\<close>.\<close>

definition points :: "string option \<Rightarrow> string \<Rightarrow> bool" where
  "points p s \<longleftrightarrow> map_option cstr p = Some s \<and> length s < 2 ^ 32 - 63"

lemma points_simps:
  assumes "points p s"
  shows "c_bytes p = Some (map to_byte s)" "length s < 2 ^ 32 - 63" "\<exists>m. p = Some m \<and> cstr m = s"
  using assms by (auto simp: points_def c_bytes_def)

lemma HA1_ok:
  assumes "length (md_buffer md) = 64" "points puser user" "points prealm realm" "points ppass pass" "points palg alg"
    "alg \<noteq> ''md5-sess''"
  shows "DigestCalcHA1 md palg puser prealm ppass nonce cnonce = Some (rfc_H (user @ '':'' @ realm @ '':'' @ pass))"
proof -
  let ?p = "[map to_byte user, COLON, map to_byte realm, COLON, map to_byte pass]"
  have "\<forall>p\<in>set ?p. length p < 2 ^ 32 - 63" using assms(2-4)[THEN points_simps(2)] by simp
  from md5_of_ok[OF assms(1) this] obtain c where c: "md5_of ?p md = Some (md5_digest (concat ?p), c)" by blast
  obtain m where m: "palg = Some m" "cstr m = alg" using points_simps(3)[OF assms(5)] by blast
  have "DigestCalcHA1 md palg puser prealm ppass nonce cnonce = Some (CvtHex (md5_digest (concat ?p)))"
    unfolding DigestCalcHA1_def assms(2-4)[THEN points_simps(1)] Option.bind.bind_lunit c m using assms(6) m by simp
  then show ?thesis by (simp add: CvtHex_lower rfc_H_def to_byte_colon)
qed

lemma response_ok:
  assumes "length (md_buffer md) = 64" "points pnonce nonce" "points pnc nc" "points pcnonce cnonce" "points pqop qop"
    "points pmethod method" "points puri uri" "qop \<noteq> ''auth-int''" "length ha1 = 32"
  shows "DigestCalcResponse md ha1 pnonce pnc pcnonce pqop pmethod puri entity =
    Some (rfc_KD ha1 (if qop = [] then nonce @ '':'' @ rfc_H (method @ '':'' @ uri)
       else nonce @ '':'' @ nc @ '':'' @ cnonce @ '':'' @ qop @ '':'' @ rfc_H (method @ '':'' @ uri)))"
proof -
  note len = assms(2-7)[THEN points_simps(2)] and bytes = assms(2-7)[THEN points_simps(1)]
  let ?p2 = "[map to_byte method, COLON, map to_byte uri]"
  let ?h2 = "rfc_H (method @ '':'' @ uri)"
  let ?m = "if qop = [] then [] else [map to_byte nc, COLON, map to_byte cnonce, COLON, map to_byte qop, COLON]"
  let ?p = "[map to_byte ha1, COLON, map to_byte nonce, COLON] @ ?m @ [map to_byte ?h2]"
  obtain c where c: "md5_of ?p2 md = Some (md5_digest (concat ?p2), c)" "length (md_buffer c) = 64"
  proof -
    have "\<forall>p\<in>set ?p2. length p < 2 ^ 32 - 63" using len by simp
    from md5_of_ok[OF assms(1) this] that show ?thesis by blast
  qed
  have "\<forall>p\<in>set ?p. length p < 2 ^ 32 - 63" using len assms(9) by (cases "qop = []") simp_all
  from md5_of_ok[OF c(2) this] obtain d where d: "md5_of ?p c = Some (md5_digest (concat ?p), d)" by blast
  have h2: "CvtHex (md5_digest (concat ?p2)) = ?h2" by (simp add: CvtHex_lower rfc_H_def to_byte_colon)
  obtain m where m: "pqop = Some m" "cstr m = qop" using points_simps(3)[OF assms(5)] by blast
  have "DigestCalcResponse md ha1 pnonce pnc pcnonce pqop pmethod puri entity = map_option (\<lambda>r. CvtHex (fst r)) (md5_of ?p c)"
    using assms(8,9) m c(1) h2 by (simp add: DigestCalcResponse_def bytes map_option_case split: option.split)
  also have "\<dots> = Some (CvtHex (md5_digest (concat ?p)))" by (simp only: d) simp
  also have "CvtHex (md5_digest (concat ?p)) = lower_hex (md5_digest (concat ?p))" by (simp add: CvtHex_lower)
  also have "concat ?p = map to_byte (ha1 @ '':'' @ (if qop = [] then nonce @ '':'' @ ?h2
       else nonce @ '':'' @ nc @ '':'' @ cnonce @ '':'' @ qop @ '':'' @ ?h2))"
    by (simp add: to_byte_colon)
  finally show ?thesis by (simp only: rfc_KD_def rfc_H_def)
qed

section \<open>Printed parameters\<close>

definition quoted_if :: "bool \<Rightarrow> string \<Rightarrow> string" where
  "quoted_if q v = (if q then DQUOTE # v @ [DQUOTE] else v)"

fun print_params :: "(string \<times> bool \<times> string) list \<Rightarrow> string" where
  "print_params [] = []"
| "print_params ((k, q, v) # ps) =
     k @ ''='' @ quoted_if q v @ (if ps = [] then [] else '', '' @ print_params ps)"

definition param_put :: "'c param_key \<Rightarrow> 'c \<Rightarrow> string \<times> bool \<times> string \<Rightarrow> 'c" where
  "param_put key c p = (case key (fst p @ ''='') of None \<Rightarrow> c | Some (upd, n) \<Rightarrow> upd (snd (snd p)) c)"

definition param_wf :: "'c param_key \<Rightarrow> string \<times> bool \<times> string \<Rightarrow> bool" where
  "param_wf key p \<longleftrightarrow>
     (case p of (k, q, v) \<Rightarrow>
        k \<noteq> [] \<and> \<not> is_blank (hd k) \<and> CHR '','' \<notin> set k \<and> v \<noteq> [] \<and> CHR '','' \<notin> set v \<and> (q \<or> hd v \<noteq> DQUOTE) \<and>
        (case key (k @ ''='') of None \<Rightarrow> True | Some (upd, n) \<Rightarrow> n = length k + 1))"

lemma auth_test_value:
  assumes "v \<noteq> []" "q \<or> hd v \<noteq> DQUOTE"
  shows "auth_test (k @ CHR ''='' # quoted_if q v @ rest) (length k + 1 + length (quoted_if q v)) (length k + 1) =
    Some (v, length k + 1 + length (quoted_if q v) + (if q then 2 else 0))"
proof -
  obtain c w where v: "v = c # w" using assms(1) by (cases v) auto
  show ?thesis
    using assms(2) by (cases q) (auto simp: auth_test_def quoted_if_def Let_def v nth_append nat_add_distrib)
qed

lemma takeWhile_no_comma: "CHR '','' \<notin> set a \<Longrightarrow> takeWhile no_comma (a @ b) = a @ takeWhile no_comma b"
  by (induction a) (auto simp: no_comma_def)

lemma drop_exact: "n = length a \<Longrightarrow> drop n (a @ b) = b"
  by simp

lemma param_loop_skip:
  "key s = None \<Longrightarrow> dropWhile is_blank s = s \<Longrightarrow> length (takeWhile no_comma s) = n \<Longrightarrow>
   param_loop key s c = (if CHR '','' \<notin> set s then Some c else if length s < n + 2 then None
     else param_loop key (drop (n + 2) s) c)"
  by (subst param_loop.simps) simp

lemma param_loop_value:
  "key s = Some (upd, pre) \<Longrightarrow> dropWhile is_blank s = s \<Longrightarrow> length (takeWhile no_comma s) = n \<Longrightarrow>
   auth_test s n pre = Some (v, olen) \<Longrightarrow>
   param_loop key s c = (if CHR '','' \<notin> set s \<or> olen = 0 then Some (upd v c) else if length s < olen then None
     else param_loop key (drop olen s) (upd v c))"
  by (subst param_loop.simps) simp

locale param_names =
  fixes key :: "'c param_key"
  assumes key_stops: "key (k @ CHR ''='' # rest) = key (k @ ''='')"
    and key_comma: "key (CHR '','' # rest) = None"
begin

lemma param_loop_comma: "param_loop key (CHR '','' # SPC # s) c = param_loop key s c"
  by (subst param_loop_skip[where n = 0]) (simp_all add: key_comma is_blank_def no_comma_def)

lemma param_loop_print:
  "\<forall>p\<in>set ps. param_wf key p \<Longrightarrow> ps \<noteq> [] \<Longrightarrow>
   param_loop key (print_params ps) ctx = Some (foldl (param_put key) ctx ps)"
proof (induction ps arbitrary: ctx)
  case (Cons p ps)
  obtain k q v where p: "p = (k, q, v)" by (cases p)
  define V where "V = quoted_if q v"
  define n where "n = length k + 1 + length V"
  define rest where "rest = (if ps = [] then [] else '', '' @ print_params ps)"
  define s where "s = (k @ CHR ''='' # V) @ rest"
  from Cons.prems(1) p have wf: "k \<noteq> []" "\<not> is_blank (hd k)" "CHR '','' \<notin> set k" "v \<noteq> []" "CHR '','' \<notin> set v"
    "q \<or> hd v \<noteq> DQUOTE" "\<And>upd n. key (k @ ''='') = Some (upd, n) \<Longrightarrow> n = length k + 1"
    by (auto simp: param_wf_def)
  have s: "print_params (p # ps) = s" using p by (simp add: s_def rest_def V_def)
  have blank: "dropWhile is_blank s = s" using wf(1,2) by (cases k) (auto simp: s_def)
  have nc: "CHR '','' \<notin> set (k @ CHR ''='' # V)" using wf(3,5) by (auto simp: quoted_if_def V_def)
  have tl: "length (takeWhile no_comma s) = n"
    unfolding s_def takeWhile_no_comma[OF nc] by (simp add: no_comma_def rest_def n_def)
  have last: "CHR '','' \<notin> set s \<longleftrightarrow> ps = []" using nc by (auto simp: s_def rest_def)
  have len: "length s = n + length rest" by (simp add: s_def n_def)
  have npos: "n \<noteq> 0" by (simp add: n_def)
  have cut: "drop n s = rest" unfolding s_def by (rule drop_exact) (simp add: n_def)
  then have cut2: "drop (n + 2) s = print_params ps" if "ps \<noteq> []"
    using that by (subst add.commute, subst drop_drop[symmetric]) (simp add: rest_def)
  have IH: "param_loop key (print_params ps) c = Some (foldl (param_put key) c ps)" if "ps \<noteq> []" for c
    using Cons.IH[OF _ that] Cons.prems(1) by simp
  have stops: "key s = key (k @ ''='')" unfolding s_def append_assoc append_Cons by (rule key_stops)
  show ?case
  proof (cases "key (k @ ''='')")
    case None
    then have "param_put key ctx p = ctx" by (simp add: param_put_def p)
    with None show ?thesis
      unfolding s by (subst param_loop_skip[of key, OF _ blank tl]) (auto simp: stops last cut2[simplified] IH len rest_def)
  next
    case (Some r)
    obtain upd m where r: "r = (upd, m)" by (cases r)
    have k: "key s = Some (upd, length k + 1)" using wf(7)[of upd m] Some r by (simp add: stops)
    then have put: "param_put key ctx p = upd v ctx" by (simp add: param_put_def p stops)
    have "auth_test s n (length k + 1) = Some (v, n + (if q then 2 else 0))"
      using auth_test_value[OF wf(4,6), of k rest] by (simp add: s_def n_def V_def)
    from param_loop_value[of key, OF k blank tl this, of ctx] show ?thesis
      unfolding s using put by (auto simp: last cut cut2[simplified] IH len rest_def param_loop_comma npos)
  qed
qed simp

end

lemma strncaseeq_stops:
  assumes "CHR ''='' \<notin> set (map c_tolower lit)" "n = length lit"
  shows "strncaseeq lit (k @ CHR ''='' # r # rest) n = strncaseeq lit (k @ ''='') n"
proof (cases "n \<le> length k")
  case False
  have t: "c_tolower CHR ''='' = CHR ''=''" by (simp add: c_tolower_def c_isupper_def uchar_def)
  have "\<not> strncaseeq lit (k @ CHR ''='' # r) n" for r
  proof
    assume "strncaseeq lit (k @ CHR ''='' # r) n"
    then have "map c_tolower lit = map c_tolower (take n (k @ CHR ''='' # r))"
      using assms(2) by (simp add: strncaseeq_def strcaseeq_def)
    moreover have "CHR ''='' \<in> set (take n (k @ CHR ''='' # r))" using False by (cases "n - length k") auto
    ultimately show False using assms(1) t by (metis image_eqI list.set_map)
  qed
  then show ?thesis by simp
qed (simp add: strncaseeq_def)

lemmas lower_simps = c_tolower_def c_isupper_def uchar_def

lemma name_key_stops:
  "digest_key (k @ CHR ''='' # r # rest) = digest_key (k @ ''='')"
  "basic_key (k @ CHR ''='' # r # rest) = basic_key (k @ ''='')"
  "info_key (k @ CHR ''='' # r # rest) = info_key (k @ ''='')"
  by (simp_all add: digest_key_def basic_key_def info_key_def strncaseeq_stops lower_simps)

lemma name_key_comma:
  "digest_key (CHR '','' # rest) = None" "basic_key (CHR '','' # rest) = None" "info_key (CHR '','' # rest) = None"
  by (simp_all add: digest_key_def basic_key_def info_key_def strncaseeq_def strcaseeq_def lower_simps)

lemma names_stop: "(\<And>r rest. key (k @ CHR ''='' # r # rest) = key (k @ ''='')) \<Longrightarrow> key (k @ CHR ''='' # rest) = key (k @ ''='')"
  by (cases rest) simp_all

interpretation dkey: param_names digest_key
  by unfold_locales (rule names_stop, rule name_key_stops, rule name_key_comma)

interpretation bkey: param_names basic_key
  by unfold_locales (rule names_stop, rule name_key_stops, rule name_key_comma)

interpretation ikey: param_names info_key
  by unfold_locales (rule names_stop, rule name_key_stops, rule name_key_comma)

section \<open>Properties\<close>

definition challenge :: "(string \<times> bool \<times> string) list \<Rightarrow> http_digest" where
  "challenge ps = foldl (param_put digest_key) http_digest_new ps"

text \<open>The list of parameters a header announces behind the name of its scheme.\<close>

definition announces :: "header \<Rightarrow> string \<Rightarrow> http_digest param_key \<Rightarrow> (string \<times> bool \<times> string) list \<Rightarrow> bool" where
  "announces h scheme key ps \<longleftrightarrow>
     header_ok h \<and> header_find h ''WWW-Authenticate'' = Some (scheme @ print_params ps) \<and>
     NUL \<notin> set (print_params ps) \<and> ps \<noteq> [] \<and> (\<forall>p\<in>set ps. param_wf key p)"

definition authorization_line :: "string \<Rightarrow> string \<Rightarrow> string \<Rightarrow> string \<Rightarrow> string \<Rightarrow> string \<Rightarrow> string" where
  "authorization_line user realm qop path nonce response =
     ''Digest username='' @ [DQUOTE] @ user @ [DQUOTE] @ '', realm='' @ [DQUOTE] @ realm @ [DQUOTE] @
     '', qop='' @ [DQUOTE] @ qop @ [DQUOTE] @ '', algorithm='' @ [DQUOTE] @ ''MD5'' @ [DQUOTE] @
     '', uri='' @ [DQUOTE] @ path @ [DQUOTE] @ '', nonce='' @ [DQUOTE] @ nonce @ [DQUOTE] @
     '', nc='' @ digest_nc @ '', cnonce='' @ [DQUOTE] @ digest_cnonce @ [DQUOTE] @
     '', response='' @ [DQUOTE] @ response @ [DQUOTE]"

definition filled :: "string \<Rightarrow> bool" where
  "filled s \<longleftrightarrow> s \<noteq> [] \<and> NUL \<notin> set s \<and> length s < 2 ^ 32 - 63"

lemma nibble_not_nul: "n < 16 \<Longrightarrow> nibble n \<noteq> NUL"
proof -
  assume "n < 16"
  then have "nibble n \<in> set ''0123456789abcdef''" unfolding nibble_def by (intro nth_mem) simp
  then show ?thesis by auto
qed

lemma lower_hex_no_nul: "NUL \<notin> set (lower_hex bs)"
proof -
  have "nibble (unat b div 16) \<noteq> NUL \<and> nibble (unat b mod 16) \<noteq> NUL" for b :: byte
    using unsigned_less[of b, where ?'a = nat] by (intro conjI nibble_not_nul) simp_all
  then show ?thesis by (induction bs) (auto simp: lower_hex_def dest: sym)
qed

lemma filled_simps:
  assumes "filled s"
  shows "points (chars s) s" "fmt_s s = s" "NUL \<notin> set s"
  using assms by (auto simp: filled_def fmt_s_def points_def cstr_append_nul)

lemma digest_text_ok:
  assumes "length (md_buffer (fst md)) = 64" "length (md_buffer (snd md)) = 64"
    "filled (dg_realm d)" "filled (dg_nonce d)" "filled (dg_algorithm d)" "filled (dg_qop d)"
    "filled user" "filled pass" "filled method" "filled path"
    "strcaseeq (dg_algorithm d) ''MD5''" "dg_qop d = ''auth''"
  shows "digest_text md d user pass method path = Some (authorization_line user (dg_realm d) (dg_qop d) path (dg_nonce d)
      (rfc_response (dg_algorithm d) user (dg_realm d) pass (dg_nonce d) digest_nc digest_cnonce (dg_qop d) method path))"
proof -
  have lit: "points (Some digest_nc) digest_nc" "points (Some digest_cnonce) digest_cnonce"
    by (simp_all add: points_def digest_nc_def digest_cnonce_def cstr_no_nul)
  note pt = assms(3-10)[THEN filled_simps(1)]
  have alg: "\<not> strcaseeq (dg_algorithm d) ''MD5-sess''" "dg_algorithm d \<noteq> ''md5-sess''"
    using strcaseeq_length[OF assms(11)] by (auto dest: strcaseeq_length)
  have ai: "dg_qop d \<noteq> ''auth-int''" using assms(12) by simp
  note ha1 = HA1_ok[OF assms(1) pt(5) pt(1) pt(6) pt(3) alg(2)]
  have q: "dg_qop d \<noteq> []" using assms(6) by (simp add: filled_def)
  note resp = response_ok[OF assms(2) pt(2) lit pt(4) pt(7) pt(8) ai length_rfc_H]
  show ?thesis
    unfolding digest_text_def ha1 Option.bind.bind_lunit resp assms(3-10)[THEN filled_simps(2)] if_not_P[OF q]
    by (simp add: rfc_response_def alg(1) q authorization_line_def)
qed

lemma with_challenge_ok:
  assumes "announces resp scheme key ps" "NUL \<notin> set scheme"
    "param_loop key (print_params ps) http_digest_new = Some ctx"
  shows "with_challenge scheme key resp (None, user, pass) answer reqs = answer ctx user pass"
proof -
  let ?v = "scheme @ print_params ps"
  have g: "getHeader (chars ''WWW-Authenticate'') resp = Some (Some \<lparr>nv_name = ''WWW-Authenticate'', nv_value = ?v\<rparr>)"
    using assms(1) getHeader_find[of resp "''WWW-Authenticate''"] by (simp add: announces_def)
  have nn: "NUL \<notin> set ?v" using assms(1,2) by (simp add: announces_def)
  have "?v \<noteq> []" using assms(1) by (cases ps) (auto simp: announces_def)
  then have "chars ?v = Some (?v @ [NUL])" by (rule chars_simps(2))
  moreover have "strcasestr ?v scheme = Some 0" by (rule strcasestr_prefix) simp_all
  ultimately show ?thesis
    unfolding with_challenge_def g using assms(3) cstr_append_nul[OF nn] by simp
qed

lemma append_authorization_ok:
  assumes "header_ok reqs" "header_room (Suc n) reqs" "NUL \<notin> set text"
  shows "\<exists>reqs'. append_authorization heap_ok reqs text = Some (None, reqs') \<and> header_ok reqs' \<and> header_room n reqs' \<and>
    header_find reqs' = (header_find reqs)(''Authorization'' \<mapsto> text)"
proof -
  obtain h where "header_put ''Authorization'' text reqs = Some h" "header_ok h" "header_room n h"
      "header_find h = (header_find reqs)(''Authorization'' \<mapsto> text)"
    using header_put_ok[OF assms(1,2) _ assms(3), of "''Authorization''"] by auto
  then show ?thesis
    by (intro exI[of _ h]) (auto simp: header_put_def append_authorization_def heap_ok_def bind_eq_Some_conv split: if_splits)
qed

lemma authorization_line_no_nul:
  assumes "filled user" "filled realm" "filled qop" "filled path" "filled nonce" "NUL \<notin> set r"
  shows "NUL \<notin> set (authorization_line user realm qop path nonce r)"
  using assms by (simp add: authorization_line_def filled_def digest_nc_def digest_cnonce_def)

lemma http_auth_scheme:
  assumes "announces resp scheme key ps" "scheme = ''Basic '' \<or> scheme = ''Digest ''"
  shows "http_auth al md resp auth method path reqs =
    (if scheme = ''Basic '' then basic_makeAuthorization al resp auth reqs
     else digest_makeAuthorization al md resp auth method path reqs)"
proof -
  let ?v = "scheme @ print_params ps"
  have g: "getHeader (chars ''WWW-Authenticate'') resp = Some (Some \<lparr>nv_name = ''WWW-Authenticate'', nv_value = ?v\<rparr>)"
    using assms(1) getHeader_find[of resp "''WWW-Authenticate''"] by (simp add: announces_def)
  have nn: "NUL \<notin> set ?v" using assms by (auto simp: announces_def)
  have ty: "auth_getType ?v = (if scheme = ''Basic '' then DFW_HTTPAUTHTYPE_BASIC else DFW_HTTPAUTHTYPE_DIGEST)"
    using assms(2) by (auto simp: auth_getType_def is_blank_def)
  have "?v \<noteq> []" using assms(2) by auto
  then have "chars ?v = Some (?v @ [NUL])" by (rule chars_simps(2))
  then show ?thesis
    unfolding http_auth_def g using cstr_append_nul[OF nn] by (simp add: ty)
qed

text \<open>C6. The client's answer to a Digest challenge with algorithm \<open>MD5\<close> and qop \<open>auth\<close> is the one of RFC 2617 for a request whose
  target is the path.  When a response carries \<open>WWW-Authenticate: Digest\<close> with a list of parameters \<open>name="value"\<close> or \<open>name=value\<close>
  separated by a comma and a blank, in any order, known or not, no value empty or with a comma, among them realm, nonce,
  algorithm (\<open>MD5\<close> in any case) and qop (\<open>auth\<close>), the request gets the header \<open>Authorization\<close> with these values and the response
  \<open>KD(H(A1), nonce:nc:cnonce:qop:H(A2))\<close>, whatever the memory of the \<open>MD5\<close> objects held; other headers of the request
  stay.  The code signs the path only: with a query the RFC asks for more.\<close>

theorem digest_answers_challenge:
  assumes "length (md_buffer (fst md)) = 64" "length (md_buffer (snd md)) = 64"
    and ann: "announces resp ''Digest '' digest_key ps" and d: "d = challenge ps"
    and fld: "filled (dg_realm d)" "filled (dg_nonce d)" "filled (dg_algorithm d)" "filled (dg_qop d)"
    and arg: "filled user" "filled pass" "filled method" "filled path"
    and "strcaseeq (dg_algorithm d) ''MD5''" "dg_qop d = ''auth''"
    and reqs: "header_ok reqs" "header_room (Suc n) reqs"
  shows "\<exists>reqs'. http_auth heap_ok md resp (None, user, pass) method path reqs = Some (None, reqs') \<and>
    header_ok reqs' \<and> header_room n reqs' \<and>
    header_find reqs' = (header_find reqs)(''Authorization'' \<mapsto>
      authorization_line user (dg_realm d) (dg_qop d) path (dg_nonce d)
        (rfc_response (dg_algorithm d) user (dg_realm d) pass (dg_nonce d) digest_nc digest_cnonce (dg_qop d) method path))"
proof -
  let ?r = "rfc_response (dg_algorithm d) user (dg_realm d) pass (dg_nonce d) digest_nc digest_cnonce (dg_qop d) method path"
  let ?line = "authorization_line user (dg_realm d) (dg_qop d) path (dg_nonce d) ?r"
  have loop: "param_loop digest_key (print_params ps) http_digest_new = Some d"
    using dkey.param_loop_print[of ps http_digest_new] ann unfolding announces_def challenge_def d by blast
  have nn: "NUL \<notin> set ?line"
    using fld arg by (intro authorization_line_no_nul) (simp_all add: rfc_response_def rfc_KD_def rfc_H_def lower_hex_no_nul Let_def)
  have "http_auth heap_ok md resp (None, user, pass) method path reqs =
      Option.bind (digest_text md d user pass method path) (append_authorization heap_ok reqs)"
    using http_auth_scheme[OF ann] with_challenge_ok[OF ann _ loop] by (simp add: digest_makeAuthorization_def)
  also have "\<dots> = append_authorization heap_ok reqs ?line"
    using digest_text_ok[OF assms(1,2) fld arg assms(13,14)] by simp
  finally show ?thesis using append_authorization_ok[OF reqs nn] by simp
qed

text \<open>C22. RFC 2617 makes qop and algorithm optional; a server that leaves out one of them, or realm or nonce, crashes the
  client: the member stays empty, its pointer is NULL, and \<open>strcmp\<close> or \<open>strlen\<close> reads it.\<close>

theorem incomplete_challenge_crashes:
  assumes "announces resp ''Digest '' digest_key ps" "d = challenge ps"
    "dg_realm d = [] \<or> dg_nonce d = [] \<or> dg_algorithm d = [] \<or> dg_qop d = []"
  shows "http_auth al md resp (None, user, pass) method path reqs = None"
proof -
  have loop: "param_loop digest_key (print_params ps) http_digest_new = Some d"
    using dkey.param_loop_print[of ps http_digest_new] assms(1,2) unfolding announces_def challenge_def by blast
  have "digest_text md d user pass method path = None"
    using assms(3) by (auto simp: digest_text_def DigestCalcHA1_def DigestCalcResponse_def c_bytes_def bind_eq_None_conv)
  then show ?thesis
    using http_auth_scheme[OF assms(1)] with_challenge_ok[OF assms(1) _ loop] by (simp add: digest_makeAuthorization_def)
qed

text \<open>The answer to a Basic challenge.\<close>

lemma basic_credentials:
  assumes ann: "announces resp ''Basic '' basic_key ps" and arg: "filled user" "filled pass"
    and len: "length (user @ '':'' @ pass) < 2 ^ 29"
    and reqs: "header_ok reqs" "header_room (Suc n) reqs"
  shows "\<exists>reqs' e. http_auth heap_ok md resp (None, user, pass) method path reqs = Some (None, reqs') \<and>
    header_ok reqs' \<and> header_room n reqs' \<and> header_find reqs' = (header_find reqs)(''Authorization'' \<mapsto> ''Basic '' @ e) \<and>
    base64_decode (e @ NUL # junk) = Some (user @ '':'' @ pass) \<and> e \<noteq> [] \<and> (\<forall>c\<in>set e. six c \<le> 63 \<or> c = CHR ''='')"
proof -
  have loop: "param_loop basic_key (print_params ps) http_digest_new = Some (foldl (param_put basic_key) http_digest_new ps)"
    using bkey.param_loop_print[of ps http_digest_new] ann unfolding announces_def by blast
  have l: "to_int32 (int (length (user @ '':'' @ pass))) = int (length (user @ '':'' @ pass))"
    using len by (intro to_int32_of_nat) simp
  obtain e where e: "base64_encode (user @ '':'' @ pass) (int (length (user @ '':'' @ pass))) = Some e"
      "length e = ((length (user @ '':'' @ pass) + 2) div 3) * 4" "base64_decode (e @ NUL # junk) = Some (user @ '':'' @ pass)"
      "\<forall>c\<in>set e. six c \<le> 63 \<or> c = CHR ''=''"
    using base64_encode_decode[OF len, of junk] by blast
  have nn: "NUL \<notin> set e" using base64_chars e(4) by blast
  have ne: "e \<noteq> []" using e(2) by auto
  have "fmt_s e = e" using nn ne by (simp add: fmt_s_def cstr_append_nul)
  with e(1) arg have "basic_text user pass = Some (''Basic '' @ e)"
    unfolding basic_text_def Let_def by (simp only: filled_simps(2) l option.map \<open>fmt_s e = e\<close>)
  then have "http_auth heap_ok md resp (None, user, pass) method path reqs = append_authorization heap_ok reqs (''Basic '' @ e)"
    using http_auth_scheme[OF ann] with_challenge_ok[OF ann _ loop] by (simp add: basic_makeAuthorization_def)
  moreover have "NUL \<notin> set (''Basic '' @ e)" using nn by simp
  ultimately show ?thesis using append_authorization_ok[OF reqs, of "''Basic '' @ e"] e(3,4) ne by auto
qed

lemma announced:
  assumes "NUL \<notin> set scheme" "NUL \<notin> set (print_params ps)" "ps \<noteq> []" "\<forall>p\<in>set ps. param_wf key p"
  shows "\<exists>h. header_put ''WWW-Authenticate'' (scheme @ print_params ps) arr_init = Some h \<and> announces h scheme key ps"
proof -
  have "header_room (Suc 0) (arr_init :: header)" by simp
  from header_put_ok[OF header_empty(1) this, of "''WWW-Authenticate''" "scheme @ print_params ps"] assms
  show ?thesis by (auto simp: announces_def)
qed

definition demo_md :: "md5_ctx" where
  "demo_md = \<lparr>md_state = (0, 0, 0, 0), md_count = [0, 0, 0, 0], md_buffer = replicate 64 0\<rparr>"

abbreviation (input) demo_challenge :: "(string \<times> bool \<times> string) list" where
  "demo_challenge \<equiv> [(''realm'', True, ''r''), (''opaque'', True, ''x''), (''nonce'', True, ''n''), (''algorithm'', False, ''MD5''), (''qop'', True, ''auth'')]"

theorem digest_answers_challenge_witness:
  "\<exists>resp reqs'. header_put ''WWW-Authenticate'' (''Digest '' @ print_params demo_challenge) arr_init = Some resp \<and>
     http_auth heap_ok (demo_md, demo_md) resp (None, ''u'', ''p'') ''GET'' ''/'' arr_init = Some (None, reqs') \<and>
     header_find reqs' ''Authorization'' = Some (authorization_line ''u'' ''r'' ''auth'' ''/'' ''n''
        (rfc_response ''MD5'' ''u'' ''r'' ''p'' ''n'' digest_nc digest_cnonce ''auth'' ''GET'' ''/''))"
proof -
  have ps: "\<forall>p\<in>set demo_challenge. param_wf digest_key p" by code_simp
  have nn: "NUL \<notin> set (print_params demo_challenge)" by (simp add: quoted_if_def)
  obtain resp where resp: "header_put ''WWW-Authenticate'' (''Digest '' @ print_params demo_challenge) arr_init = Some resp"
      "announces resp ''Digest '' digest_key demo_challenge"
    using announced[OF _ nn _ ps, of "''Digest ''"] by auto
  have d: "challenge demo_challenge =
      http_digest_new\<lparr>dg_realm := ''r'', dg_nonce := ''n'', dg_algorithm := ''MD5'', dg_qop := ''auth''\<rparr>" by code_simp
  have r: "header_room (Suc 0) (arr_init :: header)" by simp
  from digest_answers_challenge[of "(demo_md, demo_md)", OF _ _ resp(2) refl, of "''u''" "''p''" "''GET''" "''/''", OF _ _ _ _ _ _ _ _ _ _ _ _ header_empty(1) r]
  show ?thesis using resp(1) by (auto simp: d demo_md_def filled_def)
qed

theorem incomplete_challenge_crashes_witness:
  "\<exists>resp. header_put ''WWW-Authenticate'' (''Digest '' @ print_params [(''realm'', True, ''r''), (''nonce'', True, ''n'')]) arr_init = Some resp \<and>
     http_auth heap_ok (demo_md, demo_md) resp (None, ''u'', ''p'') ''GET'' ''/'' arr_init = None"
proof -
  let ?ps = "[(''realm'', True, ''r''), (''nonce'', True, ''n'')]"
  have ps: "\<forall>p\<in>set ?ps. param_wf digest_key p" by code_simp
  have nn: "NUL \<notin> set (print_params ?ps)" by (simp add: quoted_if_def)
  have q: "dg_qop (challenge ?ps) = []" by code_simp
  show ?thesis
    using announced[OF _ nn _ ps, of "''Digest ''"] incomplete_challenge_crashes[of _ ?ps, OF _ refl] q by auto
qed

end
