(* ===== verification/Dfw_HttpQuery_Spec.thy ===== *)
theory Dfw_HttpQuery_Spec
  imports Dfw_HttpQuery Dfw_HttpRequest_Spec Dfw_HttpAuth_Spec
begin

text \<open>
  The client's requests against the server's parser: the printed text has the form that \<open>request_reads_back\<close>
  (\<open>Dfw_HttpRequest_Spec\<close>) reads, so what the server holds afterwards (\<open>received\<close>) is given by the members of the
  query.  Composed with \<open>Dfw_HttpAuth_Spec\<close> and Base64: credentials arrive.
\<close>

section \<open>The target\<close>

lemma replace_spec_char: "replace_spec [c] rep s = concat (map (\<lambda>x. if x = c then rep else [x]) s)"
proof (induction "length s" arbitrary: s rule: less_induct)
  case less
  have plain: "concat (map (\<lambda>x. if x = c then rep else [x]) a) = a" if "c \<notin> set a" for a
    using that by (induction a) auto
  show ?case
  proof (cases "c \<in> set s")
    case True
    then obtain a b where s: "s = a @ c # b" "c \<notin> set a" using split_list_first by metis
    have "strstr s [c] = Some (length a)" unfolding s(1) by (rule strstr_char[OF s(2)])
    then have "replace_spec [c] rep s = a @ rep @ replace_spec [c] rep b"
      by (subst replace_spec.simps) (simp add: s(1))
    with less[of b] s plain[OF s(2)] show ?thesis by simp
  next
    case False
    then have "strstr s [c] = None" by (simp add: strstr_single)
    with plain[OF False] show ?thesis by (subst replace_spec.simps) simp
  qed
qed

definition plain_target :: "string \<Rightarrow> bool" where
  "plain_target s \<longleftrightarrow> set s \<inter> {CHR ''%'', CHR ''+'', NUL, CR} = {}"

lemma spaces_encode:
  assumes "plain_target s"
  shows "url_encodes (replace_spec [SPC] ''%20'' s) s" "CR \<notin> set (replace_spec [SPC] ''%20'' s)"
    "SPC \<notin> set (replace_spec [SPC] ''%20'' s)"
proof -
  have x: "c_isxdigit CHR ''2''" "c_isxdigit CHR ''0''" "hex_val CHR ''2'' = 2" "hex_val CHR ''0'' = 0"
    "(char_of (32::nat) :: char) = SPC"
    by (simp_all add: c_isxdigit_def c_isdigit_def hex_val_def uchar_def char_of_eq_iff take_bit_eq_mod)
  have sp: "url_encodes (CHR ''%'' # CHR ''2'' # CHR ''0'' # u) (SPC # t)" if "url_encodes u t" for u t
    using enc_hex[OF that x(1,2)] x(3-5) by simp
  show "url_encodes (replace_spec [SPC] ''%20'' s) s"
    using assms unfolding replace_spec_char by (induction s) (auto simp: plain_target_def intro: sp enc_plain enc_nil)
  show "CR \<notin> set (replace_spec [SPC] ''%20'' s)" "SPC \<notin> set (replace_spec [SPC] ''%20'' s)"
    using assms by (auto simp: replace_spec_char plain_target_def)
qed

lemma spaces_length: "length (replace_spec [SPC] ''%20'' s) \<le> 3 * length s"
  unfolding replace_spec_char by (induction s) auto

section \<open>The header lines\<close>

lemma fmt_s_id: "s \<noteq> [] \<Longrightarrow> NUL \<notin> set s \<Longrightarrow> fmt_s s = s"
  by (simp add: fmt_s_def cstr_append_nul)

definition headers_wf :: "header \<Rightarrow> bool" where
  "headers_wf h \<longleftrightarrow> header_ok h \<and> (\<forall>nv\<in>set (elems h). header_wf (nv_key nv))"

lemma header_wf_parts:
  assumes "header_wf (k, v)"
  shows "k \<noteq> []" "NUL \<notin> set k" "NUL \<notin> set v" "fmt_s k = k" "(if v = [] then [] else fmt_s v) = v"
  using assms by (auto simp: header_wf_def clean_def fmt_s_id)

lemma request_header_lines_eq:
  assumes "headers_wf h"
  shows "request_header_lines h = concat (map header_line (map nv_key (elems h)))"
proof -
  have ok: "arr_ok h" using assms by (simp add: headers_wf_def header_ok_def)
  have "request_header_lines h = concat (map (\<lambda>k. header_line (nv_key (elems h ! k))) [0..<length (elems h)])"
    unfolding request_header_lines_def length_elems[OF ok]
  proof (intro arg_cong[where f = concat] map_cong refl)
    fix k assume "k \<in> set [0..<a_size h]"
    then have k: "k < a_size h" by simp
    then have "elems h ! k \<in> set (elems h)" using ok by simp
    then have wf: "header_wf (nv_name (elems h ! k), nv_value (elems h ! k))"
      using assms by (auto simp: headers_wf_def nv_key_def)
    show "(case arr_get (int k) h of None \<Rightarrow> []
        | Some nv \<Rightarrow> if nv_name nv = [] then []
            else fmt_s (nv_name nv) @ '': '' @ (if nv_value nv = [] then [] else fmt_s (nv_value nv)) @ CRLF) =
      header_line (nv_key (elems h ! k))"
      using header_wf_parts[OF wf] k ok by (simp add: arr_get_elems header_line_def nv_key_def)
  qed
  also have "\<dots> = concat (map (\<lambda>nv. header_line (nv_key nv)) (map ((!) (elems h)) [0..<length (elems h)]))"
    by (simp only: map_map o_def)
  finally show ?thesis unfolding map_nth by (simp add: o_def)
qed

definition host_value :: "http_query \<Rightarrow> uri \<Rightarrow> string" where
  "host_value q u =
     (if q_virtualHost q = [] then u_host u @ '':'' @ show_int (uri_getPort u)
      else q_virtualHost q @ '':'' @ show_int (if q_virtualPort q = 0 then uri_getPort u else q_virtualPort q))"

text \<open>The lines of a request in their order.\<close>

definition own_headers :: "http_query \<Rightarrow> uri \<Rightarrow> make_buffer \<Rightarrow> (string \<times> string) list" where
  "own_headers q u b =
     [(''Host'', host_value q u), (''Connection'', ''Keep-Alive'')] @
     (if mb_expect100 b then [(''Expect'', ''100-Continue'')] else []) @
     (if mb_contentLength b = 0 then []
      else [(''Content-Type'', mb_contentType b), (''Content-Length'', show_int (sint (mb_contentLength b)))]) @
     (if mb_bDepth b then [(''Depth'', show_int (mb_depth b))] else []) @
     [(''User-Agent'', q_userAgent q)]"

definition client_headers :: "http_query \<Rightarrow> uri \<Rightarrow> make_buffer \<Rightarrow> (string \<times> string) list" where
  "client_headers q u b = own_headers q u b @ map nv_key (elems (q_requestHeader q))"

text \<open>What the members must be for a request that can be read: no blanks in the method, no reserved
  characters in path and query, header lines without line ends, path and query short enough for the
  \<open>int\<close> counters of \<open>replace\<close> and \<open>urldecode\<close>.\<close>

definition client_wf :: "http_query \<Rightarrow> uri \<Rightarrow> bool" where
  "client_wf q u \<longleftrightarrow>
     q_method q \<noteq> [] \<and> clean (q_method q) \<and> SPC \<notin> set (q_method q) \<and>
     u_path u \<noteq> [] \<and> plain_target (u_path u) \<and> CHR ''?'' \<notin> set (u_path u) \<and> plain_target (u_query u) \<and>
     (if q_virtualHost q = [] then u_host u \<noteq> [] \<and> uri_getPort u \<noteq> 0
      else (if q_virtualPort q = 0 then uri_getPort u else q_virtualPort q) \<noteq> 0) \<and>
     header_wf (''Host'', host_value q u) \<and> q_userAgent q \<noteq> [] \<and> header_wf (''User-Agent'', q_userAgent q) \<and>
     headers_wf (q_requestHeader q) \<and> length (u_path u) + length (u_query u) < 2 ^ 29"

lemma host_nul:
  assumes "client_wf q u"
  shows "NUL \<notin> set (if q_virtualHost q = [] then u_host u else q_virtualHost q)"
  using assms by (auto simp: client_wf_def header_wf_def clean_def host_value_def split: if_splits)

lemma show_int_80: "show_int 80 = ''80''"
  by (simp add: show_int_def show_nat.simps char_of_eq_iff take_bit_eq_mod)

lemma makeHost_ok:
  assumes "client_wf q u"
  shows "makeHost q u b = (None, b\<lparr>mb_host := ''Host: '' @ host_value q u @ CRLF\<rparr>)"
  using assms host_nul[OF assms]
  by (auto simp: makeHost_def client_wf_def host_value_def Let_def cstr_append_nul show_int_80 split: if_splits)

text \<open>The path and the query as the server shall see them.\<close>

definition request_target_text :: "uri \<Rightarrow> string" where
  "request_target_text u = u_path u @ (if u_query u = [] then [] else CHR ''?'' # u_query u)"

lemma request_path_ok:
  assumes "client_wf q u"
  shows "url_encodes (request_path u) (request_target_text u)" "CR \<notin> set (request_path u)" "SPC \<notin> set (request_path u)"
    "length (request_path u) < 2 ^ 31 - 3"
proof -
  have "plain_target (request_target_text u)"
    using assms by (auto simp: client_wf_def plain_target_def request_target_text_def)
  moreover have rp: "request_path u = replace_spec [SPC] ''%20'' (request_target_text u)"
    using assms by (auto simp: client_wf_def plain_target_def request_target_text_def request_path_def fmt_s_id)
  ultimately show "url_encodes (request_path u) (request_target_text u)" "CR \<notin> set (request_path u)"
    "SPC \<notin> set (request_path u)"
    using spaces_encode by simp_all
  have "length (request_path u) \<le> 3 * length (request_target_text u)"
    unfolding rp by (rule spaces_length)
  moreover have "length (request_target_text u) \<le> length (u_path u) + length (u_query u) + 1"
    by (simp add: request_target_text_def)
  moreover have "length (u_path u) + length (u_query u) < 2 ^ 29" using assms by (simp add: client_wf_def)
  ultimately show "length (request_path u) < 2 ^ 31 - 3" by simp
qed

lemma request_head_eq:
  assumes wf: "client_wf q u" and host: "mb_host b = ''Host: '' @ host_value q u @ CRLF"
    and ct: "mb_contentLength b \<noteq> 0 \<Longrightarrow> mb_contentType b \<noteq> [] \<and> NUL \<notin> set (mb_contentType b)"
  shows "request_head q u b =
    request_line (q_method q) (request_path u) ''HTTP'' ''1.1'' @ CRLF @ concat (map header_line (client_headers q u b)) @ CRLF @ mb_contents b"
proof -
  have m: "fmt_s (q_method q) = q_method q" and ua: "fmt_s (q_userAgent q) = q_userAgent q"
    using wf by (auto simp: client_wf_def clean_def header_wf_def intro!: fmt_s_id)
  have h: "fmt_s (mb_host b) = mb_host b"
    using wf unfolding host by (intro fmt_s_id) (auto simp: client_wf_def header_wf_def clean_def)
  note enc = request_path_ok(1)[OF wf]
  have pq: "fmt_s (request_path u) = request_path u"
    using url_encodes_ne[OF enc] url_encodes_facts(1)[OF enc] wf
    by (intro fmt_s_id) (auto simp: client_wf_def request_target_text_def)
  have c: "mb_contentLength b \<noteq> 0 \<Longrightarrow> fmt_s (mb_contentType b) = mb_contentType b" using ct fmt_s_id by blast
  have l: "request_header_lines (q_requestHeader q) = concat (map header_line (map nv_key (elems (q_requestHeader q))))"
    using wf by (intro request_header_lines_eq) (simp add: client_wf_def)
  show ?thesis
    unfolding request_head_def m ua h pq l using c
    by (simp add: request_line_def client_headers_def own_headers_def header_line_def host)
qed

lemma takeWhile_target:
  assumes "CHR ''?'' \<notin> set (u_path u)"
  shows "takeWhile (\<lambda>c. c \<noteq> CHR ''?'') (request_target_text u) = u_path u"
    "(if CHR ''?'' \<in> set (request_target_text u) then tl (dropWhile (\<lambda>c. c \<noteq> CHR ''?'') (request_target_text u)) else []) = u_query u"
proof -
  have tw: "takeWhile (\<lambda>c. c \<noteq> CHR ''?'') (u_path u) = u_path u" and dw: "dropWhile (\<lambda>c. c \<noteq> CHR ''?'') (u_path u) = []"
    using assms by (auto simp: takeWhile_eq_all_conv)
  show "takeWhile (\<lambda>c. c \<noteq> CHR ''?'') (request_target_text u) = u_path u"
    using tw by (simp add: request_target_text_def takeWhile_append)
  show "(if CHR ''?'' \<in> set (request_target_text u) then tl (dropWhile (\<lambda>c. c \<noteq> CHR ''?'') (request_target_text u)) else []) = u_query u"
    using assms dw by (auto simp: request_target_text_def dropWhile_append)
qed

lemma map_of_rev_pairs:
  assumes "header_ok h" "k \<notin> fst ` set xs \<or> header_find h k \<noteq> None"
  shows "map_of (rev (xs @ map nv_key (elems h))) k = header_find h k"
proof -
  have d: "distinct (map fst (map nv_key (elems h)))"
    using assms(1) by (simp add: header_ok_def nv_key_def o_def)
  have "map_of (rev (map nv_key (elems h))) = header_find h"
    unfolding header_find_def by (rule map_of_inject_set[THEN iffD2]) (use d in \<open>simp_all add: rev_map[symmetric]\<close>)
  then show ?thesis using assms(2) by (auto simp: map_add_def map_of_eq_None_iff split: option.splits)
qed

lemma digit_in_line: "c_isdigit c \<Longrightarrow> c \<noteq> NUL \<and> c \<noteq> CR \<and> \<not> string_isspace c"
  by (auto simp: c_isdigit_def string_isspace_def uchar_def)

lemma show_int_line:
  assumes "0 \<le> n"
  shows "clean (show_int n)" "trim_spec (show_int n) = show_int n"
proof -
  have s: "show_int n = show_nat (nat n)" using assms by (simp add: show_int_def)
  have d: "\<forall>c\<in>set (show_nat (nat n)). c \<noteq> NUL \<and> c \<noteq> CR \<and> \<not> string_isspace c"
    using show_nat_digits digit_in_line by blast
  then show "clean (show_int n)" unfolding s clean_def by blast
  have "hd (show_nat (nat n)) \<in> set (show_nat (nat n))" "last (show_nat (nat n)) \<in> set (show_nat (nat n))"
    by (simp_all only: hd_in_set last_in_set show_nat_not_Nil not_False_eq_True)
  with d show "trim_spec (show_int n) = show_int n"
    unfolding s by (intro trim_spec_id show_nat_not_Nil) blast+
qed

text \<open>What the server makes of a printed request.\<close>

definition received :: "http_query \<Rightarrow> uri \<Rightarrow> make_buffer \<Rightarrow> request \<Rightarrow> bool" where
  "received q u b req \<longleftrightarrow>
     rq_cstatus req = HTTPD_CSTATUS_BODY \<and> rq_method req = q_method q \<and> rq_file req = u_path u \<and> rq_query req = u_query u \<and>
     rq_buffer req = mb_contents b \<and>
     (\<forall>k. NUL \<notin> set k \<longrightarrow> getHeader (chars k) (rq_list req) =
        Some (map_option (\<lambda>v. \<lparr>nv_name = k, nv_value = v\<rparr>) (map_of (rev (client_headers q u b)) k)))"

lemma request_received:
  assumes wf: "client_wf q u" and host: "mb_host b = ''Host: '' @ host_value q u @ CRLF"
    and ct: "mb_contentLength b \<noteq> 0 \<Longrightarrow> mb_contentType b \<noteq> [] \<and> header_wf (''Content-Type'', mb_contentType b)"
    and cl: "0 \<le> sint (mb_contentLength b)" "0 \<le> mb_depth b" "mb_expect100 b \<Longrightarrow> \<not> mb_bDepth b" "header_room 6 (q_requestHeader q)"
  shows "\<exists>req. parseRequest (request_head q u b) request_new = Some (None, req) \<and> received q u b req"
proof -
  have m: "clean (q_method q)" "q_method q \<noteq> []" "SPC \<notin> set (q_method q)" "CHR ''?'' \<notin> set (u_path u)" "u_path u \<noteq> []"
    using wf by (simp_all add: client_wf_def)
  have lw: "line_wf (q_method q) (request_path u) (request_target_text u) ''HTTP'' ''1.1''"
    using m request_path_ok[OF wf] by (simp add: line_wf_def clean_def request_target_text_def)
  have num: "header_wf (k, show_int n)" if "header_wf (k, [])" "0 \<le> n" for k n
    using that by (simp add: header_wf_def show_int_line)
  have fixed: "header_wf (''Connection'', ''Keep-Alive'')" "header_wf (''Expect'', ''100-Continue'')"
    "header_wf (''Content-Length'', [])" "header_wf (''Depth'', [])"
    by (simp_all add: header_wf_def clean_def trim_spec_def string_isspace_def)
  have hw: "\<forall>kv\<in>set (client_headers q u b). header_wf kv"
    using wf ct fixed num[OF fixed(3) cl(1)] num[OF fixed(4) cl(2)]
    by (auto simp: client_headers_def own_headers_def client_wf_def headers_wf_def)
  have "length (elems (q_requestHeader q)) + 6 \<le> 100"
    using wf cl(4) by (simp add: client_wf_def headers_wf_def header_ok_def header_room_def)
  then have len: "length (client_headers q u b) \<le> 100" using cl(3) by (auto simp: client_headers_def own_headers_def)
  have eq: "request_head q u b = request_line (q_method q) (request_path u) ''HTTP'' ''1.1'' @ CRLF @
      concat (map header_line (client_headers q u b)) @ CRLF @ mb_contents b"
    using ct by (intro request_head_eq[OF wf host]) (auto simp: header_wf_def clean_def)
  show ?thesis
    using request_reads_back[OF lw hw len, of "mb_contents b"] takeWhile_target[OF m(4)]
    unfolding eq received_def line_fields_def by auto
qed

lemma key_in_headers:
  assumes "headers_wf (q_requestHeader q)" "received q u b req"
    and "header_find (q_requestHeader q) k = Some v" "NUL \<notin> set k"
  shows "getHeader (chars k) (rq_list req) = Some (Some \<lparr>nv_name = k, nv_value = v\<rparr>)"
proof -
  have "map_of (rev (client_headers q u b)) k = Some v"
    unfolding client_headers_def using map_of_rev_pairs[of "q_requestHeader q" k] assms(1,3) by (simp add: headers_wf_def)
  with assms(2,4) show ?thesis by (simp add: received_def)
qed

lemma fixed_headers:
  assumes "headers_wf (q_requestHeader q)" "received q u b req" "header_find (q_requestHeader q) k = None" "NUL \<notin> set k"
    and own: "map_of (rev (own_headers q u b)) k = Some v"
  shows "getHeader (chars k) (rq_list req) = Some (Some \<lparr>nv_name = k, nv_value = v\<rparr>)"
proof -
  have "header_ok (q_requestHeader q)" using assms(1) by (simp add: headers_wf_def)
  then have d: "distinct (map fst (map nv_key (elems (q_requestHeader q))))"
    by (simp add: header_ok_def nv_key_def o_def)
  have "map_of (rev (map nv_key (elems (q_requestHeader q)))) = header_find (q_requestHeader q)"
    unfolding header_find_def by (rule map_of_inject_set[THEN iffD2]) (use d in \<open>simp_all add: rev_map[symmetric]\<close>)
  then have "map_of (rev (client_headers q u b)) k = Some v"
    unfolding client_headers_def using own assms(3) by (simp add: map_add_def)
  with assms(2,4) show ?thesis by (simp add: received_def)
qed

text \<open>The buffer of a request without form data in it.\<close>

definition plain_buffer :: "http_query \<Rightarrow> uri \<Rightarrow> make_buffer" where
  "plain_buffer q u =
     (let b = make_buffer_new\<lparr>mb_host := ''Host: '' @ host_value q u @ CRLF\<rparr> in
      if text_equals (q_method q) ''PROPFIND''
      then b\<lparr>mb_contents := propfind_contents, mb_contentType := ''text/xml'',
             mb_contentLength := of_nat (length propfind_contents), mb_depth := 1, mb_bDepth := True\<rparr>
      else b)"

lemma make_plain:
  assumes "client_wf q u" "\<not> text_equals (q_method q) ''POST''" "\<not> list_ex fd_isUri (q_formData q)" "qr_uri r = u"
  shows "make_request stat q r = Some (None, q, r\<lparr>qr_headBuffer := request_head q u (plain_buffer q u)\<rparr>)"
  using assms makeHost_ok[OF assms(1)]
  by (simp add: make_request_def makeContents_def plain_buffer_def make_buffer_new_def Let_def)

lemma propfind_length: "length propfind_contents = 170"
  by (simp add: propfind_contents_def)

lemma plain_buffer_simps:
  "mb_host (plain_buffer q u) = ''Host: '' @ host_value q u @ CRLF"
  "mb_contents (plain_buffer q u) = (if text_equals (q_method q) ''PROPFIND'' then propfind_contents else [])"
  "mb_contentType (plain_buffer q u) = (if text_equals (q_method q) ''PROPFIND'' then ''text/xml'' else [])"
  "mb_contentLength (plain_buffer q u) = (if text_equals (q_method q) ''PROPFIND'' then of_nat (length propfind_contents) else 0)"
  "mb_depth (plain_buffer q u) = (if text_equals (q_method q) ''PROPFIND'' then 1 else 0)" "\<not> mb_expect100 (plain_buffer q u)"
  by (simp_all add: plain_buffer_def make_buffer_new_def Let_def)

lemma plain_received:
  assumes "client_wf q u" "header_room 6 (q_requestHeader q)"
  shows "\<exists>req. parseRequest (request_head q u (plain_buffer q u)) request_new = Some (None, req) \<and> received q u (plain_buffer q u) req"
  by (rule request_received[OF assms(1) _ _ _ _ _ assms(2)])
    (auto simp: plain_buffer_simps propfind_length header_wf_def clean_def trim_spec_def string_isspace_def split: if_splits)

text \<open>C5. What the client asks for is what the server gets: the printed request of any query except POST, with a path and a query of
  any characters but percent sign, plus, NUL and line ends (blanks are escaped and unescaped), is read by the server's parser in one
  packet; method, path and query are the client's, every header of the query arrives with its value, \<open>Host\<close> is the host and port of the
  URI or the virtual host, and the bytes left in the buffer are the body, which is empty unless the method is PROPFIND.\<close>

theorem server_reads_client_request:
  assumes wf: "client_wf q u" and m: "\<not> text_equals (q_method q) ''POST''" and f: "\<not> list_ex fd_isUri (q_formData q)"
    and room: "header_room 6 (q_requestHeader q)"
  shows "\<exists>head req. make_request stat q \<lparr>qr_uri = u, qr_headBuffer = old\<rparr> = Some (None, q, \<lparr>qr_uri = u, qr_headBuffer = head\<rparr>) \<and>
    parseRequest head request_new = Some (None, req) \<and> rq_cstatus req = HTTPD_CSTATUS_BODY \<and>
    rq_method req = q_method q \<and> rq_file req = u_path u \<and> rq_query req = u_query u \<and>
    rq_buffer req = (if text_equals (q_method q) ''PROPFIND'' then propfind_contents else []) \<and>
    (\<forall>k v. header_find (q_requestHeader q) k = Some v \<longrightarrow>
       getHeader (chars k) (rq_list req) = Some (Some \<lparr>nv_name = k, nv_value = v\<rparr>)) \<and>
    (header_find (q_requestHeader q) ''Host'' = None \<longrightarrow>
       getHeader (chars ''Host'') (rq_list req) = Some (Some \<lparr>nv_name = ''Host'', nv_value = host_value q u\<rparr>))"
proof -
  let ?b = "plain_buffer q u"
  obtain req where req: "parseRequest (request_head q u ?b) request_new = Some (None, req)" "received q u ?b req"
    using plain_received[OF wf room] by blast
  have h: "headers_wf (q_requestHeader q)" using wf by (simp add: client_wf_def)
  have "NUL \<notin> set k" if "header_find (q_requestHeader q) k = Some v" for k v
    using that h by (auto simp: header_find_def headers_wf_def nv_key_def header_wf_def clean_def dest!: map_of_SomeD)
  with key_in_headers[OF h req(2)] have k: "\<forall>k v. header_find (q_requestHeader q) k = Some v \<longrightarrow>
       getHeader (chars k) (rq_list req) = Some (Some \<lparr>nv_name = k, nv_value = v\<rparr>)" by blast
  have host: "getHeader (chars ''Host'') (rq_list req) = Some (Some \<lparr>nv_name = ''Host'', nv_value = host_value q u\<rparr>)"
    if "header_find (q_requestHeader q) ''Host'' = None"
    by (rule fixed_headers[OF h req(2) that])
      (simp_all add: own_headers_def)
  have "rq_buffer req = (if text_equals (q_method q) ''PROPFIND'' then propfind_contents else [])"
    using req(2) by (simp add: received_def plain_buffer_simps)
  with make_plain[OF wf m f, of "\<lparr>qr_uri = u, qr_headBuffer = old\<rparr>" stat] req k host show ?thesis
    by (intro exI[of _ "request_head q u ?b"] exI[of _ req]) (simp add: received_def)
qed

section \<open>POST\<close>

definition parts_size :: "form_data list \<Rightarrow> nat" where
  "parts_size ds = (\<Sum>d\<leftarrow>ds. length (fd_buffer (part_text ''----BOUNDARY'' d)) + length (fd_value d) + 2)"

lemma multipart_values:
  "\<not> list_ex fd_isUri ds \<Longrightarrow> multipart_loop stat ''----BOUNDARY'' ds n =
     Some (None, map (part_text ''----BOUNDARY'') ds, n + of_nat (parts_size ds))"
proof (induction ds arbitrary: n)
  case (Cons d ds)
  then have d: "fd_contentLength (part_text ''----BOUNDARY'' d) = of_nat (length (fd_value d))" "\<not> fd_isUri d" "\<not> list_ex fd_isUri ds"
    by (simp_all add: part_text_def)
  have p: "parts_size (d # ds) = length (fd_buffer (part_text ''----BOUNDARY'' d)) + length (fd_value d) + 2 + parts_size ds"
    by (simp add: parts_size_def)
  show ?case by (simp only: multipart_loop.simps d if_False Option.bind.bind_lunit prod.case Let_def Cons.IH[OF d(3)] p
      of_nat_add add.assoc of_nat_numeral list.map not_True_eq_False simp_thms)
qed (simp add: parts_size_def)

definition post_buffer :: "http_query \<Rightarrow> uri \<Rightarrow> make_buffer" where
  "post_buffer q u =
     make_buffer_new\<lparr>mb_host := ''Host: '' @ host_value q u @ CRLF, mb_multipart := True, mb_boundary := ''----BOUNDARY'',
       mb_contentType := ''multipart/form-data; boundary=----BOUNDARY'',
       mb_contentLength := of_nat (parts_size (q_formData q)) + 2, mb_expect100 := True\<rparr>"

lemma make_post:
  assumes "client_wf q u" "text_equals (q_method q) ''POST''" "\<not> list_ex fd_isUri (q_formData q)" "qr_uri r = u"
  shows "make_request stat q r = Some (None, q\<lparr>q_formData := map (part_text ''----BOUNDARY'') (q_formData q)\<rparr>,
    r\<lparr>qr_headBuffer := request_head q u (post_buffer q u)\<rparr>)"
  using assms makeHost_ok[OF assms(1)]
  by (simp add: make_request_def makeContents_def makeMultipartContents_def multipart_values post_buffer_def
      make_buffer_new_def Let_def request_head_def)

text \<open>C23. A POST announces a body that is never sent.  With any list of names and values the request asks for
  100-Continue and announces two bytes and, for every element, its head, its value and two bytes more; behind the empty line the server
  finds nothing, and the buffer is all the client sends.\<close>

theorem post_announces_unsent_body:
  assumes wf: "client_wf q u" and m: "text_equals (q_method q) ''POST''" and f: "\<not> list_ex fd_isUri (q_formData q)"
    and room: "header_room 6 (q_requestHeader q)" and size: "parts_size (q_formData q) + 2 < 2 ^ 63"
    and own: "header_find (q_requestHeader q) ''Content-Length'' = None" "header_find (q_requestHeader q) ''Expect'' = None"
  shows "\<exists>q' head req. make_request stat q \<lparr>qr_uri = u, qr_headBuffer = old\<rparr> = Some (None, q', \<lparr>qr_uri = u, qr_headBuffer = head\<rparr>) \<and>
    parseRequest head request_new = Some (None, req) \<and> rq_buffer req = [] \<and>
    getHeader (chars ''Content-Length'') (rq_list req) =
      Some (Some \<lparr>nv_name = ''Content-Length'', nv_value = show_nat (parts_size (q_formData q) + 2)\<rparr>) \<and>
    getHeader (chars ''Expect'') (rq_list req) = Some (Some \<lparr>nv_name = ''Expect'', nv_value = ''100-Continue''\<rparr>)"
proof -
  let ?b = "post_buffer q u" and ?n = "parts_size (q_formData q) + 2"
  have b: "mb_host ?b = ''Host: '' @ host_value q u @ CRLF" "mb_contents ?b = []" "mb_contentLength ?b = of_nat ?n"
    "mb_contentType ?b = ''multipart/form-data; boundary=----BOUNDARY''" "mb_expect100 ?b" "\<not> mb_bDepth ?b" "mb_depth ?b = 0"
    by (simp_all add: post_buffer_def make_buffer_new_def)
  have n: "sint (of_nat ?n :: 64 word) = int ?n"
    unfolding signed_of_nat using size by (simp add: signed_take_bit_int_eq_self)
  then have nz: "(of_nat ?n :: 64 word) \<noteq> 0" by (metis add_is_0 of_nat_0 of_nat_eq_0_iff signed_0 zero_neq_numeral)
  have h: "headers_wf (q_requestHeader q)" using wf by (simp add: client_wf_def)
  obtain req where req: "parseRequest (request_head q u ?b) request_new = Some (None, req)" "received q u ?b req"
    using request_received[OF wf b(1) _ _ _ _ room] b n
    by (auto simp: header_wf_def clean_def trim_spec_def string_isspace_def)
  have len: "getHeader (chars ''Content-Length'') (rq_list req) =
      Some (Some \<lparr>nv_name = ''Content-Length'', nv_value = show_nat ?n\<rparr>)"
  proof (rule fixed_headers[OF h req(2) own(1)])
    have "show_int (int ?n) = show_nat ?n" unfolding show_int_def by (simp only: nat_int) simp
    then have "show_int (sint (mb_contentLength ?b)) = show_nat ?n" by (simp only: b(3) n)
    moreover have "mb_contentLength ?b \<noteq> 0" using nz by (simp only: b(3) not_False_eq_True)
    ultimately show "map_of (rev (own_headers q u ?b)) ''Content-Length'' = Some (show_nat ?n)"
      by (simp add: own_headers_def b(6))
  qed simp
  have exp: "getHeader (chars ''Expect'') (rq_list req) = Some (Some \<lparr>nv_name = ''Expect'', nv_value = ''100-Continue''\<rparr>)"
    by (rule fixed_headers[OF h req(2) own(2)]) (simp_all add: own_headers_def b)
  have "rq_buffer req = []" using req(2) b(2) by (simp add: received_def)
  with make_post[OF wf m f, of "\<lparr>qr_uri = u, qr_headBuffer = old\<rparr>" stat] req(1) len exp show ?thesis by auto
qed

section \<open>Logging in\<close>

lemma client_wf_headers:
  assumes "client_wf q u" "headers_wf h"
  shows "client_wf (q\<lparr>q_requestHeader := h\<rparr>) u"
proof -
  have "host_value (q\<lparr>q_requestHeader := h\<rparr>) u = host_value q u" by (simp add: host_value_def)
  with assms show ?thesis by (auto simp: client_wf_def split: if_splits)
qed

lemma headers_wf_find: "header_ok h \<Longrightarrow> headers_wf h \<longleftrightarrow> (\<forall>k v. header_find h k = Some v \<longrightarrow> header_wf (k, v))"
proof -
  assume ok: "header_ok h"
  then have d: "distinct (map nv_name (elems h))" by (simp add: header_ok_def)
  have "header_wf (nv_key nv)" if "\<forall>k v. header_find h k = Some v \<longrightarrow> header_wf (k, v)" "nv \<in> set (elems h)" for nv
  proof -
    have "header_find h (nv_name nv) = Some (nv_value nv)" using header_find_iff[OF d] that(2) by (cases nv) simp
    with that(1) show ?thesis by (simp add: nv_key_def)
  qed
  moreover have "header_wf (k, v)" if "headers_wf h" "header_find h k = Some v" for k v
    using that header_find_iff[OF d] by (auto simp: headers_wf_def nv_key_def)
  ultimately show ?thesis using ok by (auto simp: headers_wf_def)
qed

text \<open>C16. Credentials reach the server.  After a response with a Basic challenge the client puts an \<open>Authorization\<close> into the
  query's headers; the next request, printed and read by the server's parser, carries it, and what Base64 decodes from it, whatever follows
  in memory, is the user's name, a colon and the password.\<close>

theorem basic_login_reaches_server:
  assumes wf: "client_wf q u" and m: "\<not> text_equals (q_method q) ''POST''" and f: "\<not> list_ex fd_isUri (q_formData q)"
    and room: "header_room 7 (q_requestHeader q)" and ann: "announces resp ''Basic '' basic_key ps" and arg: "filled user" "filled pass"
    and len: "length (user @ '':'' @ pass) < 2 ^ 29"
  shows "\<exists>reqs q' head req e.
    http_auth heap_ok md resp (None, user, pass) (q_method q) (u_path u) (q_requestHeader q) = Some (None, reqs) \<and>
    make_request stat (q\<lparr>q_requestHeader := reqs\<rparr>) \<lparr>qr_uri = u, qr_headBuffer = old\<rparr> = Some (None, q', \<lparr>qr_uri = u, qr_headBuffer = head\<rparr>) \<and>
    parseRequest head request_new = Some (None, req) \<and>
    getHeader (chars ''Authorization'') (rq_list req) = Some (Some \<lparr>nv_name = ''Authorization'', nv_value = ''Basic '' @ e\<rparr>) \<and>
    base64_decode (e @ NUL # junk) = Some (user @ '':'' @ pass)"
proof -
  have h: "headers_wf (q_requestHeader q)" "header_ok (q_requestHeader q)" "header_room (Suc 6) (q_requestHeader q)"
    using wf room by (simp_all add: client_wf_def headers_wf_def)
  obtain reqs e where a: "http_auth heap_ok md resp (None, user, pass) (q_method q) (u_path u) (q_requestHeader q) = Some (None, reqs)"
      "header_ok reqs" "header_room 6 reqs" "header_find reqs = (header_find (q_requestHeader q))(''Authorization'' \<mapsto> ''Basic '' @ e)"
      "base64_decode (e @ NUL # junk) = Some (user @ '':'' @ pass)" "e \<noteq> []" "\<forall>c\<in>set e. six c \<le> 63 \<or> c = CHR ''=''"
    using basic_credentials[OF ann arg len h(2,3), of md "q_method q" "u_path u" junk] by blast
  have c: "c \<notin> {NUL, CR, LF, TAB, SPC}" if "c \<in> set e" for c using base64_chars a(7) that by blast
  have "last e \<in> set e" using a(6) by simp
  then have "trim_spec (''Basic '' @ e) = ''Basic '' @ e"
    using c a(6) by (intro trim_spec_id) (auto simp: string_isspace_def)
  then have "header_wf (''Authorization'', ''Basic '' @ e)"
    using c by (auto simp: header_wf_def clean_def trim_spec_def string_isspace_def)
  then have hw: "headers_wf reqs" using h(1,2) a(2,4) by (simp add: headers_wf_find)
  let ?q = "q\<lparr>q_requestHeader := reqs\<rparr>"
  have wf': "client_wf ?q u" using wf hw by (rule client_wf_headers)
  obtain req where req: "parseRequest (request_head ?q u (plain_buffer ?q u)) request_new = Some (None, req)"
      "received ?q u (plain_buffer ?q u) req"
    using plain_received[OF wf'] a(3) by auto
  have "getHeader (chars ''Authorization'') (rq_list req) = Some (Some \<lparr>nv_name = ''Authorization'', nv_value = ''Basic '' @ e\<rparr>)"
    using key_in_headers[OF _ req(2), of "''Authorization''"] hw a(4) by simp
  then show ?thesis
    using make_plain[OF wf', of "\<lparr>qr_uri = u, qr_headBuffer = old\<rparr>" stat] m f a(1,5) req(1) by auto
qed

section \<open>Witnesses\<close>

definition demo_query :: "string \<Rightarrow> http_query" where
  "demo_query m = http_query_new\<lparr>q_method := m\<rparr>"

definition demo_uri :: uri where
  "demo_uri = uri_clear\<lparr>u_scheme := ''http'', u_host := ''h'', u_port := 80, u_path := ''/a b'', u_query := ''x=1''\<rparr>"

lemma demo_headers [simp]: "headers_wf arr_init"
  by (simp add: headers_wf_find)

lemma demo_host: "host_value (demo_query m) demo_uri = ''h:80''"
  by (simp add: host_value_def demo_query_def http_query_new_def demo_uri_def uri_clear_def uri_getPort_def show_int_80)

lemma demo_wf:
  assumes "m \<in> {''GET'', ''POST''}"
  shows "client_wf (demo_query m) demo_uri"
proof -
  have "header_wf (''Host'', host_value (demo_query m) demo_uri)" "header_wf (''User-Agent'', ''DFramework/0.1.2'')"
    unfolding demo_host by (simp_all add: header_wf_def clean_def trim_spec_def string_isspace_def)
  then show ?thesis
    using assms
    by (auto simp: client_wf_def demo_query_def http_query_new_def demo_uri_def uri_clear_def uri_getPort_def clean_def plain_target_def)
qed

lemma client_wf_formData: "client_wf (q\<lparr>q_formData := ds\<rparr>) u \<longleftrightarrow> client_wf q u"
proof -
  have "host_value (q\<lparr>q_formData := ds\<rparr>) u = host_value q u" by (simp add: host_value_def)
  then show ?thesis unfolding client_wf_def by simp
qed

lemma demo_methods:
  "\<not> text_equals ''GET'' ''POST''" "\<not> text_equals ''GET'' ''PROPFIND''" "text_equals ''POST'' ''POST''"
  by code_simp+

theorem server_reads_client_request_witness:
  "\<exists>head req. make_request (\<lambda>u. (None, 0)) (demo_query ''GET'') \<lparr>qr_uri = demo_uri, qr_headBuffer = []\<rparr> =
      Some (None, demo_query ''GET'', \<lparr>qr_uri = demo_uri, qr_headBuffer = head\<rparr>) \<and>
    parseRequest head request_new = Some (None, req) \<and> rq_method req = ''GET'' \<and> rq_file req = ''/a b'' \<and>
    rq_query req = ''x=1'' \<and> rq_buffer req = [] \<and>
    getHeader (chars ''Host'') (rq_list req) = Some (Some \<lparr>nv_name = ''Host'', nv_value = ''h:80''\<rparr>)"
proof -
  have q: "\<not> text_equals (q_method (demo_query ''GET'')) ''POST''" "\<not> list_ex fd_isUri (q_formData (demo_query ''GET''))"
    "header_room 6 (q_requestHeader (demo_query ''GET''))" "header_find (q_requestHeader (demo_query ''GET'')) = Map.empty"
    by (simp_all add: demo_query_def http_query_new_def demo_methods)
  have m: "q_method (demo_query ''GET'') = ''GET''" "u_path demo_uri = ''/a b''" "u_query demo_uri = ''x=1''"
    by (simp_all add: demo_query_def demo_uri_def)
  show ?thesis
    using server_reads_client_request[OF demo_wf q(1-3), of "\<lambda>u. (None, 0)" "[]"] unfolding q(4) m demo_host by (auto simp: demo_methods)
qed

theorem post_announces_unsent_body_witness:
  "\<exists>q' head req. make_request (\<lambda>u. (None, 0)) (addFormData 7 (chars ''k'') (chars ''v'') (demo_query ''POST''))
      \<lparr>qr_uri = demo_uri, qr_headBuffer = []\<rparr> = Some (None, q', \<lparr>qr_uri = demo_uri, qr_headBuffer = head\<rparr>) \<and>
    parseRequest head request_new = Some (None, req) \<and> rq_buffer req = [] \<and>
    getHeader (chars ''Expect'') (rq_list req) = Some (Some \<lparr>nv_name = ''Expect'', nv_value = ''100-Continue''\<rparr>)"
proof -
  let ?q = "addFormData 7 (chars ''k'') (chars ''v'') (demo_query ''POST'')"
  have wf: "client_wf ?q demo_uri"
    using demo_wf[of "''POST''"] by (simp add: addFormData_def client_wf_formData)
  have q: "text_equals (q_method ?q) ''POST''" "\<not> list_ex fd_isUri (q_formData ?q)"
    "header_room 6 (q_requestHeader ?q)" "header_find (q_requestHeader ?q) = Map.empty"
    by (simp_all add: demo_query_def http_query_new_def demo_methods addFormData_def form_value_def)
  have n: "parts_size (q_formData ?q) + 2 < 2 ^ 63"
  proof -
    have "length (show_int 1) = 1" by (simp add: show_int_def show_nat.simps)
    then show ?thesis
      by (simp add: demo_query_def http_query_new_def addFormData_def form_value_def parts_size_def part_text_def
          text_set_def c_arg_def cstr_def fmt_s_def to_int32_def)
  qed
  show ?thesis
    using post_announces_unsent_body[OF wf q(1-3) n, of "\<lambda>u. (None, 0)" "[]"] unfolding q(4) by auto
qed

theorem basic_login_reaches_server_witness:
  "\<exists>resp reqs q' head req e.
    header_put ''WWW-Authenticate'' (''Basic '' @ print_params [(''realm'', True, ''a b'')]) arr_init = Some resp \<and>
    http_auth heap_ok (demo_md, demo_md) resp (None, ''u'', ''p'') ''GET'' ''/a b'' arr_init = Some (None, reqs) \<and>
    make_request (\<lambda>u. (None, 0)) ((demo_query ''GET'')\<lparr>q_requestHeader := reqs\<rparr>) \<lparr>qr_uri = demo_uri, qr_headBuffer = []\<rparr> =
      Some (None, q', \<lparr>qr_uri = demo_uri, qr_headBuffer = head\<rparr>) \<and>
    parseRequest head request_new = Some (None, req) \<and>
    getHeader (chars ''Authorization'') (rq_list req) = Some (Some \<lparr>nv_name = ''Authorization'', nv_value = ''Basic '' @ e\<rparr>) \<and>
    base64_decode (e @ [NUL]) = Some ''u:p''"
proof -
  let ?ps = "[(''realm'', True, ''a b'')]"
  have ps: "\<forall>p\<in>set ?ps. param_wf basic_key p" by code_simp
  have nn: "NUL \<notin> set (print_params ?ps)" by (simp add: quoted_if_def)
  obtain resp where resp: "header_put ''WWW-Authenticate'' (''Basic '' @ print_params ?ps) arr_init = Some resp"
      "announces resp ''Basic '' basic_key ?ps"
    using announced[OF _ nn _ ps, of "''Basic ''"] by auto
  have q: "\<not> text_equals (q_method (demo_query ''GET'')) ''POST''" "\<not> list_ex fd_isUri (q_formData (demo_query ''GET''))"
    "header_room 7 (q_requestHeader (demo_query ''GET''))" "q_requestHeader (demo_query ''GET'') = arr_init"
    by (simp_all add: demo_query_def http_query_new_def demo_methods)
  have m: "q_method (demo_query ''GET'') = ''GET''" "u_path demo_uri = ''/a b''"
    by (simp_all add: demo_query_def demo_uri_def)
  have u: "filled ''u''" "filled ''p''" "length (''u'' @ '':'' @ ''p'') < 2 ^ 29" by (simp_all add: filled_def)
  note login = basic_login_reaches_server[OF demo_wf q(1-3) resp(2) u, of "(demo_md, demo_md)" "\<lambda>u. (None, 0)" "[]" "[]", unfolded q(4) m]
  obtain reqs q' head req e where
    "http_auth heap_ok (demo_md, demo_md) resp (None, ''u'', ''p'') ''GET'' ''/a b'' arr_init = Some (None, reqs)"
    "make_request (\<lambda>u. (None, 0)) ((demo_query ''GET'')\<lparr>q_requestHeader := reqs\<rparr>) \<lparr>qr_uri = demo_uri, qr_headBuffer = []\<rparr> =
      Some (None, q', \<lparr>qr_uri = demo_uri, qr_headBuffer = head\<rparr>)"
    "parseRequest head request_new = Some (None, req)"
    "getHeader (chars ''Authorization'') (rq_list req) = Some (Some \<lparr>nv_name = ''Authorization'', nv_value = ''Basic '' @ e\<rparr>)"
    "base64_decode (e @ NUL # []) = Some (''u'' @ '':'' @ ''p'')"
    using login by blast
  with resp(1) show ?thesis by (intro exI conjI) (assumption | simp)+
qed

end
