(* ===== verification/Dfw_Poll.thy ===== *)
theory Dfw_Poll
  imports Dfw_Sp Dfw_Retval
begin

text \<open>
  \<open>lib/net/Poll.cpp\<close>: the table of descriptors with the objects it holds, over the counts of \<open>Dfw_Sp\<close>; and the
  round of \<open>lib/httpd/HttpdWorker.cpp\<close> that serves it.  A result \<open>None\<close> is an access outside the two
  arrays, or a fault of the counting.  Parameters: \<open>mem\<close>, whether the two allocations succeed, and for the
  round the answer of \<open>poll\<close> and \<open>serve\<close>, what serving a client (parsing its request, finding its host, the
  modules) returns.  Closing the descriptors has no effect here.
\<close>

section \<open>The table\<close>

record pollfd =
  pf_fd :: int
  pf_events :: "16 word"
  pf_revents :: "16 word"

record poll =
  po_events :: "16 word"
  po_used :: nat
  po_memsize :: nat
  po_polls :: "pollfd list"
  po_socks :: "nat option list"

definition poll_new :: "16 word \<Rightarrow> poll" where
  "poll_new ev = \<lparr>po_events = ev, po_used = 0, po_memsize = 0, po_polls = [], po_socks = []\<rparr>"

abbreviation (input) DFW_POLL_PIECE_SIZE :: nat where "DFW_POLL_PIECE_SIZE \<equiv> 1024"

text \<open>\<open>memset(polls, -1, \<dots>)\<close>\<close>

definition pollfd_blank :: pollfd where
  "pollfd_blank = \<lparr>pf_fd = -1, pf_events = -1, pf_revents = -1\<rparr>"

definition poll_prepare :: "bool \<Rightarrow> poll \<Rightarrow> rv \<times> poll" where
  "poll_prepare mem t =
     (if mem
      then (None, t\<lparr>po_memsize := po_memsize t + DFW_POLL_PIECE_SIZE,
             po_polls := take (po_memsize t) (po_polls t) @ replicate DFW_POLL_PIECE_SIZE pollfd_blank,
             po_socks := take (po_memsize t) (po_socks t) @ replicate DFW_POLL_PIECE_SIZE None\<rparr>)
      else (Some (DFW_E_NOMEM, 12), t))"

text \<open>\<open>m_polls[i] = \<dots>; m_ppsocks[i] = \<dots>;\<close>\<close>

definition poll_store :: "nat \<Rightarrow> pollfd \<Rightarrow> nat option \<Rightarrow> poll \<Rightarrow> poll option" where
  "poll_store i p s t =
     (if i < length (po_polls t) \<and> i < length (po_socks t)
      then Some (t\<lparr>po_polls := (po_polls t)[i := p], po_socks := (po_socks t)[i := s]\<rparr>) else None)"

definition poll_load :: "nat \<Rightarrow> poll \<Rightarrow> (pollfd \<times> nat option) option" where
  "poll_load i t =
     (if i < length (po_polls t) \<and> i < length (po_socks t) then Some (po_polls t ! i, po_socks t ! i) else None)"

definition poll_append :: "bool \<Rightarrow> int \<Rightarrow> nat option \<Rightarrow> poll \<Rightarrow> rc_state \<Rightarrow> (rv \<times> poll \<times> rc_state) option" where
  "poll_append mem fd obj t st =
     (let (e, t) = (if int (po_memsize t) - 1 \<le> int (po_used t) then poll_prepare mem t else (None, t)) in
      if e \<noteq> None then Some (e, t, st)
      else do { st \<leftarrow> (case obj of None \<Rightarrow> Some st | Some a \<Rightarrow> sp_undocking a st);
                t \<leftarrow> poll_store (po_used t) \<lparr>pf_fd = fd, pf_events = po_events t, pf_revents = 0\<rparr> obj t;
                Some (None, t\<lparr>po_used := po_used t + 1\<rparr>, st) })"

text \<open>The handle that \<open>docking\<close> returns is a temporary.\<close>

definition dock_drop :: "nat option \<Rightarrow> rc_state \<Rightarrow> rc_state option" where
  "dock_drop p st =
     (case p of None \<Rightarrow> Some st | Some a \<Rightarrow> do { st1 \<leftarrow> sp_docking a st; sp_dtor (length (sps st1) - 1) st1 })"

definition poll_remove :: "int \<Rightarrow> poll \<Rightarrow> rc_state \<Rightarrow> (poll \<times> rc_state) option" where
  "poll_remove position t st =
     (if po_used t = 0 \<or> position < 0 \<or> int (po_used t) \<le> position then Some (t, st)
      else let last = po_used t - 1 in
        do { old \<leftarrow> poll_load (nat position) t;
             l \<leftarrow> poll_load last t;
             t \<leftarrow> poll_store (nat position) (fst l) (snd l) t;
             l \<leftarrow> poll_load last t;
             t \<leftarrow> poll_store last ((fst l)\<lparr>pf_fd := -1\<rparr>) None t;
             st \<leftarrow> dock_drop (snd old) st;
             Some (t\<lparr>po_used := po_used t - 1\<rparr>, st) })"

definition poll_refused :: "int \<Rightarrow> poll \<Rightarrow> bool" where
  "poll_refused position t \<longleftrightarrow> po_used t = 0 \<or> position < 0 \<or> int (po_used t) \<le> position"

definition poll_setFd :: "int \<Rightarrow> int \<Rightarrow> poll \<Rightarrow> (rv \<times> poll) option" where
  "poll_setFd position fd t =
     (if poll_refused position t then Some (Some (DFW_ERROR, 0), t)
      else do { p \<leftarrow> poll_load (nat position) t;
                t \<leftarrow> poll_store (nat position) ((fst p)\<lparr>pf_fd := fd\<rparr>) (snd p) t;
                Some (None, t) })"

definition poll_getObject :: "int \<Rightarrow> poll \<Rightarrow> (rv \<times> nat option) option" where
  "poll_getObject position t =
     (if poll_refused position t then Some (Some (DFW_ERROR, 0), None)
      else map_option (\<lambda>p. (None, snd p)) (poll_load (nat position) t))"

definition poll_getEvents :: "int \<Rightarrow> poll \<Rightarrow> (rv \<times> 16 word) option" where
  "poll_getEvents position t =
     (if poll_refused position t then Some (Some (DFW_ERROR, 0), 0)
      else map_option (\<lambda>p. (None, pf_events (fst p))) (poll_load (nat position) t))"

definition poll_resetRevents :: "nat \<Rightarrow> poll \<Rightarrow> poll option" where
  "poll_resetRevents position t =
     (if po_used t \<noteq> 0 \<and> position < po_used t
      then do { p \<leftarrow> poll_load position t; poll_store position ((fst p)\<lparr>pf_revents := 0\<rparr>) (snd p) t }
      else Some t)"

fun dock_all :: "nat option list \<Rightarrow> rc_state \<Rightarrow> rc_state option" where
  "dock_all [] st = Some st"
| "dock_all (p # ps) st = do { st \<leftarrow> dock_drop p st; dock_all ps st }"

definition poll_clear :: "poll \<Rightarrow> rc_state \<Rightarrow> (poll \<times> rc_state) option" where
  "poll_clear t st =
     (if length (po_socks t) < po_used t then None
      else map_option (\<lambda>st. (t\<lparr>po_used := 0, po_polls := replicate (po_memsize t) pollfd_blank,
                                po_socks := replicate (po_memsize t) None\<rparr>, st))
             (dock_all (take (po_used t) (po_socks t)) st))"

text \<open>The destructor, up to the freeing of the arrays.\<close>

definition poll_dtor :: "poll \<Rightarrow> rc_state \<Rightarrow> rc_state option" where
  "poll_dtor t st =
     (if length (po_socks t) < po_used t then None else dock_all (take (po_used t) (po_socks t)) st)"

definition poll_setEvents :: "16 word \<Rightarrow> poll \<Rightarrow> poll" where
  "poll_setEvents ev t = t\<lparr>po_events := ev\<rparr>"

text \<open>No position is checked here.\<close>

definition poll_getFd :: "nat \<Rightarrow> poll \<Rightarrow> int option" where
  "poll_getFd position t = map_option (\<lambda>p. pf_fd (fst p)) (poll_load position t)"

abbreviation (input) POLLIN :: "16 word" where "POLLIN \<equiv> 1"
abbreviation (input) POLLPRI :: "16 word" where "POLLPRI \<equiv> 2"
abbreviation (input) POLLOUT :: "16 word" where "POLLOUT \<equiv> 4"
abbreviation (input) POLLERR :: "16 word" where "POLLERR \<equiv> 8"
abbreviation (input) POLLHUP :: "16 word" where "POLLHUP \<equiv> 16"
abbreviation (input) POLLNVAL :: "16 word" where "POLLNVAL \<equiv> 32"

definition has_flag :: "16 word \<Rightarrow> 16 word \<Rightarrow> bool" where
  "has_flag w f \<longleftrightarrow> and w f \<noteq> 0"

definition getPollErr :: "pollfd \<Rightarrow> 16 word" where
  "getPollErr p =
     (if has_flag (pf_revents p) POLLERR then POLLERR else if has_flag (pf_revents p) POLLNVAL then POLLNVAL
      else if has_flag (pf_revents p) POLLHUP then POLLHUP else 0)"

definition isPollIn :: "pollfd \<Rightarrow> bool" where
  "isPollIn p \<longleftrightarrow> has_flag (pf_revents p) (or POLLIN POLLPRI)"

definition isPollOut :: "pollfd \<Rightarrow> bool" where
  "isPollOut p \<longleftrightarrow> has_flag (pf_revents p) POLLOUT"

section \<open>A round of the worker\<close>

text \<open>\<open>::poll\<close> writes the events it has found into the entries in use.\<close>

definition poll_answer :: "16 word list \<Rightarrow> poll \<Rightarrow> poll" where
  "poll_answer revs t =
     t\<lparr>po_polls := map (\<lambda>(p, r). p\<lparr>pf_revents := r\<rparr>) (zip (take (po_used t) (po_polls t)) revs) @
        drop (po_used t) (po_polls t)\<rparr>"

text \<open>
  One entry: \<open>pollin\<close> takes the client out of the table itself when it has been served, and the loop then
  resets the events of whatever stands at its place; an error, of the descriptor or of \<open>pollin\<close>, removes the
  entry, unless its code is 0.  The message of a removal asks the client for its port and address, so an entry
  without a client faults there.  The handles of the loop body come and go.  What \<open>pollin\<close> does with a client
  (reading, parsing, the modules) is the parameter \<open>serve\<close>, which may change its own state \<open>'s\<close> only, not the table
  and the counts.
\<close>

definition worker_entry ::
  "(nat \<Rightarrow> 's \<Rightarrow> rv \<times> 's) \<Rightarrow> nat \<Rightarrow> poll \<times> rc_state \<times> 's \<Rightarrow> (poll \<times> rc_state \<times> 's) option" where
  "worker_entry serve k = (\<lambda>(t, st, s).
     do { (e, obj) \<leftarrow> poll_getObject (int k) t;
          if e \<noteq> None then map_option (\<lambda>(t, st). (t, st, s)) (poll_remove (int k) t st)
          else do { p \<leftarrow> poll_load k t;
            let err = uint (getPollErr (fst p)) in
            if err = 0 \<and> isPollIn (fst p)
            then do { client \<leftarrow> obj;
                      let (v, s) = serve client s in
                      (case v of
                         None \<Rightarrow> do { (t, st) \<leftarrow> poll_remove (int k) t st; t \<leftarrow> poll_resetRevents k t; Some (t, st, s) }
                       | Some (code, _) \<Rightarrow>
                           if code \<noteq> 0 then map_option (\<lambda>(t, st). (t, st, s)) (poll_remove (int k) t st)
                           else map_option (\<lambda>t. (t, st, s)) (poll_resetRevents k t)) }
            else if err \<noteq> 0
            then do { client \<leftarrow> obj; map_option (\<lambda>(t, st). (t, st, s)) (poll_remove (int k) t st) }
            else map_option (\<lambda>t. (t, st, s)) (poll_resetRevents k t) } })"

text \<open>\<open>for(int k=size-1; k>-1; k--)\<close>; \<open>live\<close> is the flag \<open>m_bLive\<close> at the start of the body.\<close>

fun worker_loop ::
  "(nat \<Rightarrow> bool) \<Rightarrow> (nat \<Rightarrow> 's \<Rightarrow> rv \<times> 's) \<Rightarrow> nat \<Rightarrow> poll \<times> rc_state \<times> 's \<Rightarrow> (poll \<times> rc_state \<times> 's) option" where
  "worker_loop live serve 0 x = Some x"
| "worker_loop live serve (Suc k) x =
     (if \<not> live k then Some x else do { x \<leftarrow> worker_entry serve k x; worker_loop live serve k x })"

text \<open>\<open>answer\<close> is the number of entries with events and the events, or the error of \<open>poll\<close>.\<close>

definition readPackets ::
  "(nat \<Rightarrow> bool) \<Rightarrow> (nat \<Rightarrow> 's \<Rightarrow> rv \<times> 's) \<Rightarrow> rv \<times> nat \<times> 16 word list \<Rightarrow> poll \<times> rc_state \<times> 's \<Rightarrow>
   (rv \<times> poll \<times> rc_state \<times> 's) option" where
  "readPackets live serve answer = (\<lambda>(t, st, s).
     if po_used t = 0 then Some (None, t, st, s)
     else if fst answer \<noteq> None then Some (fst answer, t, st, s)
     else let size = po_used t; t = poll_answer (snd (snd answer)) t in
       if fst (snd answer) = 0 then Some (None, t, st, s)
       else map_option (\<lambda>x. (None, x)) (worker_loop live serve size (t, st, s)))"

end
