(* ===== verification/Dfw_Poll_Spec.thy ===== *)
theory Dfw_Poll_Spec
  imports Dfw_Poll
begin

text \<open>
  The table against a list of entries from which an element is removed by moving the last one into its place,
  with the references it holds; what a round of the worker leaves in it.
\<close>

section \<open>The list of entries\<close>

type_synonym entry = "pollfd \<times> nat option"

definition entries :: "poll \<Rightarrow> entry list" where
  "entries t = take (po_used t) (zip (po_polls t) (po_socks t))"

definition poll_ok :: "poll \<Rightarrow> bool" where
  "poll_ok t \<longleftrightarrow> length (po_polls t) = po_memsize t \<and> length (po_socks t) = po_memsize t \<and> po_used t \<le> po_memsize t"

definition swap_remove :: "nat \<Rightarrow> 'a list \<Rightarrow> 'a list" where
  "swap_remove i xs = take (length xs - 1) (xs[i := last xs])"

text \<open>The references the entries hold.\<close>

definition held :: "entry list \<Rightarrow> nat multiset" where
  "held es = sum_list (map (\<lambda>e. opt_mset (snd e)) es)"

lemma held_eq: "held es = sum_mset (image_mset (\<lambda>e. opt_mset (snd e)) (mset es))"
  by (induction es) (auto simp: held_def)

lemma held_mset: "mset xs = mset ys \<Longrightarrow> held xs = held ys"
  by (simp add: held_eq)

lemma held_simps [simp]: "held [] = {#}" "held (e # es) = opt_mset (snd e) + held es" "held (xs @ ys) = held xs + held ys"
  by (simp_all add: held_def)

lemma mset_swap_remove:
  assumes "i < length xs"
  shows "mset xs = add_mset (xs ! i) (mset (swap_remove i xs))"
proof -
  obtain b l where xs: "xs = b @ [l]" using assms by (cases xs rule: rev_cases) auto
  show ?thesis
  proof (cases "i < length b")
    case True
    then have "swap_remove i xs = b[i := l]" by (simp add: swap_remove_def xs list_update_append)
    moreover have "b ! i \<in># mset b" using True by simp
    ultimately show ?thesis using True by (simp add: xs nth_append mset_update)
  next
    case False
    with assms have "i = length b" by (simp add: xs)
    then show ?thesis by (simp add: swap_remove_def xs list_update_append nth_append)
  qed
qed

lemma held_swap_remove: "i < length xs \<Longrightarrow> held xs = opt_mset (snd (xs ! i)) + held (swap_remove i xs)"
  using held_mset[of xs "xs ! i # swap_remove i xs"] mset_swap_remove[of i xs] by simp

section \<open>The operations\<close>

lemma length_entries [simp]: "poll_ok t \<Longrightarrow> length (entries t) = po_used t"
  by (simp add: entries_def poll_ok_def)

lemma poll_load_ok:
  assumes "poll_ok t" "i < po_memsize t"
  shows "\<exists>p s. poll_load i t = Some (p, s) \<and> (i < po_used t \<longrightarrow> entries t ! i = (p, s))"
  using assms by (auto simp: poll_load_def poll_ok_def entries_def)

lemma poll_load_entry: "poll_ok t \<Longrightarrow> i < po_used t \<Longrightarrow> poll_load i t = Some (entries t ! i)"
  by (auto simp: poll_load_def poll_ok_def entries_def)

lemma poll_store_ok:
  assumes "poll_ok t" "i < po_memsize t"
  shows "\<exists>t'. poll_store i p s t = Some t' \<and> poll_ok t' \<and> po_used t' = po_used t \<and> po_memsize t' = po_memsize t \<and>
    po_events t' = po_events t \<and> entries t' = (entries t)[i := (p, s)] \<and>
    (i = po_used t \<longrightarrow> entries (t'\<lparr>po_used := Suc i\<rparr>) = entries t @ [(p, s)])"
  using assms by (auto simp: poll_store_def poll_ok_def entries_def zip_update take_update_swap take_Suc_conv_app_nth list_update_append)

lemma zip_take_append:
  "length a = n \<Longrightarrow> length b = n \<Longrightarrow> m \<le> n \<Longrightarrow> take m (zip (a @ x) (b @ y)) = take m (zip a b)"
  by (simp add: zip_append)

lemma poll_prepare_ok:
  assumes "poll_ok t"
  shows "poll_ok (snd (poll_prepare mem t)) \<and> entries (snd (poll_prepare mem t)) = entries t \<and>
    po_used (snd (poll_prepare mem t)) = po_used t \<and> po_events (snd (poll_prepare mem t)) = po_events t \<and>
    (mem \<longrightarrow> fst (poll_prepare mem t) = None \<and> po_used t < po_memsize (snd (poll_prepare mem t))) \<and>
    (\<not> mem \<longrightarrow> fst (poll_prepare mem t) = Some (DFW_E_NOMEM, 12))"
  using assms by (auto simp: poll_prepare_def poll_ok_def entries_def zip_take_append)

lemma dock_drop_ok:
  assumes "rc_ok st (R + opt_mset p)"
  shows "\<exists>st'. dock_drop p st = Some st' \<and> rc_ok st' R"
proof (cases p)
  case None
  with assms show ?thesis by (simp add: dock_drop_def opt_mset_def)
next
  case (Some a)
  with assms have a: "rc_ok st (R + {#a#})" by (simp add: opt_mset_def)
  obtain st1 where st1: "sp_docking a st = Some st1" "rc_ok st1 R"
    using sp_docking_ok[OF a, of a] by auto
  let ?h = "length (sps st1) - 1"
  have "sps st1 = sps st @ [Some \<lparr>c_ptr = Some a, c_resp = False\<rparr>]"
    using st1(1) by (auto simp: sp_docking_def sp_ctor_def inc_opt_def incRefCount_def release_def decRefCount_def obj_delete_def
        bind_eq_Some_conv split: if_splits)
  then have "legal (Dtor ?h) st1 R" by (simp add: sp_cell_def)
  from sp_step_ok[OF st1(2) this] show ?thesis by (simp add: dock_drop_def Some st1(1))
qed

lemma poll_remove_ok:
  assumes ok: "poll_ok t" and i: "i < po_used t" and rc: "rc_ok st (R + held (entries t))"
  shows "\<exists>t' st'. poll_remove (int i) t st = Some (t', st') \<and> poll_ok t' \<and> entries t' = swap_remove i (entries t) \<and>
    po_used t' = po_used t - 1 \<and> rc_ok st' (R + held (entries t'))"
proof -
  let ?l = "po_used t - 1"
  have m: "i < po_memsize t" "?l < po_memsize t" "?l < po_used t" using ok i by (auto simp: poll_ok_def)
  obtain t1 where t1: "poll_store i (fst (entries t ! ?l)) (snd (entries t ! ?l)) t = Some t1" "poll_ok t1"
      "po_used t1 = po_used t" "po_memsize t1 = po_memsize t" "entries t1 = (entries t)[i := entries t ! ?l]"
    using poll_store_ok[OF ok m(1), of "fst (entries t ! ?l)" "snd (entries t ! ?l)"] by auto
  let ?p = "(fst (entries t1 ! ?l))\<lparr>pf_fd := -1\<rparr>"
  obtain t2 where t2: "poll_store ?l ?p None t1 = Some t2" "poll_ok t2" "po_used t2 = po_used t"
      "entries t2 = (entries t1)[?l := (?p, None)]"
    using poll_store_ok[OF t1(2), of ?l ?p None] m t1(3,4) by auto
  let ?t3 = "t2\<lparr>po_used := po_used t - 1\<rparr>"
  have ok3: "poll_ok ?t3" using t2(2,3) by (auto simp: poll_ok_def)
  have "entries ?t3 = take ?l (entries t2)" using t2(3) by (simp add: entries_def min_def)
  also have "\<dots> = take ?l ((entries t)[i := entries t ! ?l])"
    unfolding t2(4) t1(5) by simp
  also have "\<dots> = swap_remove i (entries t)"
  proof -
    have "entries t ! ?l = last (entries t)" using length_entries[OF ok] i by (subst last_conv_nth) force+
    then show ?thesis using ok by (simp add: swap_remove_def)
  qed
  finally have e3: "entries ?t3 = swap_remove i (entries t)" .
  have "held (entries t) = opt_mset (snd (entries t ! i)) + held (entries ?t3)"
    unfolding e3 using ok i by (intro held_swap_remove) simp
  with rc have "rc_ok st ((R + held (entries ?t3)) + opt_mset (snd (entries t ! i)))" by (simp add: ac_simps)
  from dock_drop_ok[OF this] obtain st' where st': "dock_drop (snd (entries t ! i)) st = Some st'"
      "rc_ok st' (R + held (entries ?t3))" by blast
  have "poll_remove (int i) t st = Some (?t3, st')"
    using i ok m t1(1) t2(1) st'(1) poll_load_entry[OF ok i] poll_load_entry[OF ok m(3)] poll_load_entry[OF t1(2), of ?l] t1(3)
    by (simp add: poll_remove_def Let_def t2(3))
  with ok3 e3 st'(2) show ?thesis by auto
qed

lemma poll_reset_ok:
  assumes "poll_ok t"
  shows "\<exists>t'. poll_resetRevents i t = Some t' \<and> poll_ok t' \<and> po_used t' = po_used t \<and>
    entries t' = (if i < po_used t then (entries t)[i := ((fst (entries t ! i))\<lparr>pf_revents := 0\<rparr>, snd (entries t ! i))] else entries t)"
proof (cases "i < po_used t")
  case True
  then have "i < po_memsize t" using assms by (simp add: poll_ok_def)
  from poll_store_ok[OF assms this, of "(fst (entries t ! i))\<lparr>pf_revents := 0\<rparr>" "snd (entries t ! i)"] True
    poll_load_entry[OF assms True] show ?thesis
    by (auto simp: poll_resetRevents_def)
qed (use assms in \<open>simp add: poll_resetRevents_def\<close>)


lemma poll_append_ok:
  assumes ok: "poll_ok t" and rc: "rc_ok st (R + held (entries t))" and live: "live_opt obj st"
  shows "\<exists>e t' st'. poll_append mem fd obj t st = Some (e, t', st') \<and> poll_ok t' \<and> rc_ok st' (R + held (entries t')) \<and>
    (e = None \<and> entries t' = entries t @ [(\<lparr>pf_fd = fd, pf_events = po_events t, pf_revents = 0\<rparr>, obj)] \<or>
     e = Some (DFW_E_NOMEM, 12) \<and> entries t' = entries t \<and> \<not> mem)"
proof -
  define r where "r = (if int (po_memsize t) - 1 \<le> int (po_used t) then poll_prepare mem t else (None, t))"
  have ap: "poll_append mem fd obj t st =
      (if fst r \<noteq> None then Some (fst r, snd r, st)
       else do { st \<leftarrow> (case obj of None \<Rightarrow> Some st | Some a \<Rightarrow> sp_undocking a st);
                 t \<leftarrow> poll_store (po_used (snd r)) \<lparr>pf_fd = fd, pf_events = po_events (snd r), pf_revents = 0\<rparr> obj (snd r);
                 Some (None, t\<lparr>po_used := po_used t + 1\<rparr>, st) })"
    by (simp only: poll_append_def r_def Let_def case_prod_beta)
  have "poll_ok (snd r) \<and> entries (snd r) = entries t \<and> po_used (snd r) = po_used t \<and> po_events (snd r) = po_events t \<and>
    (fst r = None \<longrightarrow> po_used t < po_memsize (snd r)) \<and> (fst r \<noteq> None \<longrightarrow> fst r = Some (DFW_E_NOMEM, 12) \<and> \<not> mem)"
  proof (cases "int (po_memsize t) - 1 \<le> int (po_used t)")
    case True
    then have "r = poll_prepare mem t" by (simp add: r_def)
    with poll_prepare_ok[OF ok, of mem] show ?thesis by (cases mem) simp_all
  next
    case False
    then have "r = (None, t)" by (simp add: r_def)
    with ok False show ?thesis by simp
  qed
  then have r: "poll_ok (snd r)" "entries (snd r) = entries t" "po_used (snd r) = po_used t" "po_events (snd r) = po_events t"
    "fst r = None \<Longrightarrow> po_used t < po_memsize (snd r)" "fst r \<noteq> None \<Longrightarrow> fst r = Some (DFW_E_NOMEM, 12) \<and> \<not> mem"
    by blast+
  show ?thesis
  proof (cases "fst r")
    case (Some e)
    then have "fst r = Some (DFW_E_NOMEM, 12)" "\<not> mem" using r(6) by simp_all
    then have "poll_append mem fd obj t st = Some (Some (DFW_E_NOMEM, 12), snd r, st)" unfolding ap by simp
    with \<open>\<not> mem\<close> r(1,2) rc show ?thesis
      by (intro exI[of _ "Some (DFW_E_NOMEM, 12)"] exI[of _ "snd r"] exI[of _ st]) simp
  next
    case None
    let ?p = "\<lparr>pf_fd = fd, pf_events = po_events t, pf_revents = 0\<rparr>"
    have "\<exists>st'. (case obj of None \<Rightarrow> Some st | Some a \<Rightarrow> sp_undocking a st) = Some st' \<and> rc_ok st' (R + held (entries t) + opt_mset obj)"
    proof (cases obj)
      case (Some a)
      with live have "legal (Undocking a) st (R + held (entries t))" by (simp add: live_opt_def)
      from sp_step_ok[OF rc this] Some show ?thesis by (simp add: opt_mset_def)
    qed (use rc in \<open>simp add: opt_mset_def\<close>)
    then obtain st' where st': "(case obj of None \<Rightarrow> Some st | Some a \<Rightarrow> sp_undocking a st) = Some st'"
        "rc_ok st' (R + held (entries t) + opt_mset obj)" by blast
    obtain t' where t': "poll_store (po_used t) ?p obj (snd r) = Some t'" "poll_ok t'" "po_used t' = po_used t"
        "po_memsize t' = po_memsize (snd r)" "entries (t'\<lparr>po_used := Suc (po_used t)\<rparr>) = entries t @ [(?p, obj)]"
      using poll_store_ok[OF r(1) r(5)[OF None], of ?p obj] r(2,3) by auto
    have "poll_append mem fd obj t st = Some (None, t'\<lparr>po_used := Suc (po_used t)\<rparr>, st')"
      unfolding ap using None st'(1) t'(1,3) r(3,4) by simp
    moreover have "poll_ok (t'\<lparr>po_used := Suc (po_used t)\<rparr>)" using t'(2,4) r(5)[OF None] by (simp add: poll_ok_def)
    moreover have "rc_ok st' (R + held (entries (t'\<lparr>po_used := Suc (po_used t)\<rparr>)))"
      unfolding t'(5) using st'(2) by (simp add: add.assoc)
    ultimately show ?thesis using t'(5) by blast
  qed
qed

lemma dock_all_ok: "rc_ok st (R + held es) \<Longrightarrow> \<exists>st'. dock_all (map snd es) st = Some st' \<and> rc_ok st' R"
proof (induction es arbitrary: st)
  case (Cons e es)
  then have "rc_ok st ((R + held es) + opt_mset (snd e))" by (simp add: ac_simps)
  from dock_drop_ok[OF this] obtain st1 where "dock_drop (snd e) st = Some st1" "rc_ok st1 (R + held es)" by blast
  with Cons.IH show ?case by auto
qed simp

lemma poll_clear_ok:
  assumes ok: "poll_ok t" and rc: "rc_ok st (R + held (entries t))"
  shows "\<exists>t' st'. poll_clear t st = Some (t', st') \<and> poll_ok t' \<and> entries t' = [] \<and> rc_ok st' R"
proof -
  have "map snd (entries t) = take (po_used t) (po_socks t)"
    using ok by (simp add: entries_def poll_ok_def take_map[symmetric])
  with dock_all_ok[OF rc] obtain st' where "dock_all (take (po_used t) (po_socks t)) st = Some st'" "rc_ok st' R" by auto
  with ok show ?thesis by (auto simp: poll_clear_def poll_ok_def entries_def)
qed

section \<open>Histories\<close>

datatype poll_op = Append bool int "nat option" | Remove int | SetFd int int | Reset nat | Clear

fun poll_do :: "poll_op \<Rightarrow> poll \<times> rc_state \<Rightarrow> (poll \<times> rc_state) option" where
  "poll_do (Append mem fd obj) (t, st) = map_option snd (poll_append mem fd obj t st)"
| "poll_do (Remove i) (t, st) = poll_remove i t st"
| "poll_do (SetFd i fd) (t, st) = map_option (\<lambda>r. (snd r, st)) (poll_setFd i fd t)"
| "poll_do (Reset i) (t, st) = map_option (\<lambda>t. (t, st)) (poll_resetRevents i t)"
| "poll_do Clear (t, st) = poll_clear t st"

text \<open>What each operation does to the list; \<open>ev\<close> are the events the table asks for.\<close>

fun entry_do :: "16 word \<Rightarrow> poll_op \<Rightarrow> entry list \<Rightarrow> entry list" where
  "entry_do ev (Append mem fd obj) es = es @ [(\<lparr>pf_fd = fd, pf_events = ev, pf_revents = 0\<rparr>, obj)]"
| "entry_do ev (Remove i) es = (if 0 \<le> i \<and> i < int (length es) then swap_remove (nat i) es else es)"
| "entry_do ev (SetFd i fd) es =
     (if 0 \<le> i \<and> i < int (length es) then es[nat i := ((fst (es ! nat i))\<lparr>pf_fd := fd\<rparr>, snd (es ! nat i))] else es)"
| "entry_do ev (Reset i) es =
     (if i < length es then es[i := ((fst (es ! i))\<lparr>pf_revents := 0\<rparr>, snd (es ! i))] else es)"
| "entry_do ev Clear es = []"

fun op_live :: "poll_op \<Rightarrow> rc_state \<Rightarrow> bool" where
  "op_live (Append mem fd obj) st = live_opt obj st"
| "op_live _ st = True"

lemma held_update: "i < length es \<Longrightarrow> held (es[i := (p, snd (es ! i))]) = held es"
  by (induction es arbitrary: i) (auto split: nat.splits)

lemma poll_setFd_ok:
  assumes ok: "poll_ok t"
  shows "\<exists>e t'. poll_setFd i fd t = Some (e, t') \<and> poll_ok t' \<and> entries t' = entry_do ev (SetFd i fd) (entries t) \<and>
    held (entries t') = held (entries t)"
proof (cases "poll_refused i t")
  case True
  with ok show ?thesis by (auto simp: poll_setFd_def poll_refused_def)
next
  case False
  then have i: "0 \<le> i" "nat i < po_used t" by (auto simp: poll_refused_def)
  then have m: "nat i < po_memsize t" using ok by (simp add: poll_ok_def)
  from poll_store_ok[OF ok m, of "(fst (entries t ! nat i))\<lparr>pf_fd := fd\<rparr>" "snd (entries t ! nat i)"]
  show ?thesis
    using False i ok poll_load_entry[OF ok i(2)] by (auto simp: poll_setFd_def held_update)
qed

text \<open>C8. The poll table is a list of entries, and it holds one reference to each of their objects.  From a sound table every
  operation returns without leaving the arrays, whatever position it is given: appending adds at the end, also when the
  arrays grow, or reports that there is no memory and changes nothing; removing moves the last entry into the hole; positions outside are
  refused; and the counts of all objects stay exact, the table's share following its entries.\<close>

theorem poll_table_is_a_list:
  assumes "poll_ok t" "rc_ok st (R + held (entries t))" "op_live op st"
  shows "\<exists>t' st'. poll_do op (t, st) = Some (t', st') \<and> poll_ok t' \<and> rc_ok st' (R + held (entries t')) \<and>
    (entries t' = entry_do (po_events t) op (entries t) \<or> (\<exists>fd obj. op = Append False fd obj) \<and> entries t' = entries t)"
proof (cases op)
  case (Append mem fd obj)
  with poll_append_ok[OF assms(1,2), of obj mem fd] assms(3) show ?thesis by fastforce
next
  case (Remove i)
  show ?thesis
  proof (cases "0 \<le> i \<and> i < int (po_used t)")
    case True
    then have "nat i < po_used t" "int (nat i) = i" by auto
    with poll_remove_ok[OF assms(1) _ assms(2), of "nat i"] True assms(1) Remove show ?thesis by auto
  next
    case False
    with assms Remove show ?thesis by (auto simp: poll_remove_def)
  qed
next
  case (SetFd i fd)
  with poll_setFd_ok[OF assms(1), of i fd "po_events t"] assms(2) show ?thesis by fastforce
next
  case (Reset i)
  with poll_reset_ok[OF assms(1), of i] assms(1,2) show ?thesis by (fastforce simp: held_update)
next
  case Clear
  with poll_clear_ok[OF assms(1,2)] show ?thesis by auto
qed

section \<open>The round\<close>

definition ready :: "entry \<Rightarrow> bool" where
  "ready e \<longleftrightarrow> getPollErr (fst e) = 0 \<and> isPollIn (fst e)"

definition idle :: "entry \<Rightarrow> bool" where
  "idle e \<longleftrightarrow> getPollErr (fst e) = 0 \<and> \<not> isPollIn (fst e)"

definition reset_entry :: "entry \<Rightarrow> entry" where
  "reset_entry e = ((fst e)\<lparr>pf_revents := 0\<rparr>, snd e)"

definition reset_at :: "nat \<Rightarrow> entry list \<Rightarrow> entry list" where
  "reset_at k es = (if k < length es then es[k := reset_entry (es ! k)] else es)"

lemma held_reset [simp]: "held (map reset_entry es) = held es" "held (reset_at k es) = held es"
  by (induction es) (auto simp: reset_entry_def reset_at_def held_update split: nat.splits)

lemma poll_reset_at:
  assumes "poll_ok t"
  shows "\<exists>t'. poll_resetRevents k t = Some t' \<and> poll_ok t' \<and> entries t' = reset_at k (entries t)"
  using poll_reset_ok[OF assms, of k] assms by (auto simp: reset_at_def reset_entry_def)

lemma worker_entry_ok:
  assumes ok: "poll_ok t" "k < po_used t" "rc_ok st (R + held (entries t))"
    and e: "e = entries t ! k" "\<not> idle e \<Longrightarrow> snd e \<noteq> None" "\<And>c. fst (serve (the (snd e)) s) \<noteq> Some (0, c)"
  shows "\<exists>t' st'. worker_entry serve k (t, st, s) =
      Some (t', st', if ready e then snd (serve (the (snd e)) s) else s) \<and> poll_ok t' \<and> rc_ok st' (R + held (entries t')) \<and>
    (if idle e then entries t' = reset_at k (entries t)
     else entries t' \<in> {swap_remove k (entries t), reset_at k (swap_remove k (entries t))})"
proof -
  have load: "poll_load k t = Some (fst e, snd e)" using poll_load_entry[OF ok(1,2)] e(1) by simp
  have obj: "poll_getObject (int k) t = Some (None, snd e)"
    using ok(2) load by (simp add: poll_getObject_def poll_refused_def)
  obtain t1 st1 where rm: "poll_remove (int k) t st = Some (t1, st1)" "poll_ok t1" "entries t1 = swap_remove k (entries t)"
      "rc_ok st1 (R + held (entries t1))"
    using poll_remove_ok[OF ok] by blast
  obtain t2 where rs: "poll_resetRevents k t1 = Some t2" "poll_ok t2" "entries t2 = reset_at k (entries t1)"
    using poll_reset_at[OF rm(2)] by blast
  obtain t3 where r0: "poll_resetRevents k t = Some t3" "poll_ok t3" "entries t3 = reset_at k (entries t)"
    using poll_reset_at[OF ok(1)] by blast
  have z: "uint (getPollErr (fst e)) = 0 \<longleftrightarrow> getPollErr (fst e) = 0" by (simp add: uint_0_iff)
  consider "ready e" "fst (serve (the (snd e)) s) = None" | c d where "ready e" "fst (serve (the (snd e)) s) = Some (c, d)" "c \<noteq> 0"
    | "idle e" | "getPollErr (fst e) \<noteq> 0"
    using e(3) unfolding ready_def idle_def by (metis option.exhaust surj_pair)
  then show ?thesis
  proof cases
    case 1
    then obtain a where "snd e = Some a" using e(2) unfolding ready_def idle_def by blast
    with 1 load obj rm rs z show ?thesis
      by (auto simp: worker_entry_def ready_def idle_def case_prod_beta)
  next
    case 2
    then obtain a where "snd e = Some a" using e(2) unfolding ready_def idle_def by blast
    with 2 load obj rm z show ?thesis
      by (auto simp: worker_entry_def ready_def idle_def case_prod_beta)
  next
    case 3
    with load obj r0 ok(3) z show ?thesis by (auto simp: worker_entry_def ready_def idle_def)
  next
    case 4
    then obtain a where "snd e = Some a" using e(2) unfolding idle_def by blast
    with 4 load obj rm z show ?thesis by (auto simp: worker_entry_def ready_def idle_def)
  qed
qed

lemma swap_remove_at: "swap_remove (length a) (a @ e # ys) = a @ (if ys = [] then [] else last ys # butlast ys)"
  by (cases ys rule: rev_cases) (auto simp: swap_remove_def list_update_append)

lemma reset_at_done: "\<forall>y\<in>set ys. reset_entry y = y \<Longrightarrow> reset_at (length a) (a @ ys) = a @ ys"
  by (cases ys) (auto simp: reset_at_def)

text \<open>The clients served, from the last entry to the first.\<close>

definition served :: "(nat \<Rightarrow> 's \<Rightarrow> rv \<times> 's) \<Rightarrow> entry list \<Rightarrow> 's \<Rightarrow> 's" where
  "served serve es s = foldl (\<lambda>s e. snd (serve (the (snd e)) s)) s (rev (filter ready es))"

lemma worker_loop_ok:
  assumes fine: "\<And>a s c. fst (serve a s) \<noteq> Some (0, c)" and live: "\<And>k. live k"
    and obj: "\<forall>e\<in>set es. idle e \<or> snd e \<noteq> None"
  shows "poll_ok t \<Longrightarrow> rc_ok st (R + held (entries t)) \<Longrightarrow> k \<le> length es \<Longrightarrow> entries t = take k es @ ys \<Longrightarrow>
    mset ys = mset (map reset_entry (filter idle (drop k es))) \<Longrightarrow>
    \<exists>t' st'. worker_loop live serve k (t, st, s) = Some (t', st', served serve (take k es) s) \<and> poll_ok t' \<and>
      rc_ok st' (R + held (entries t')) \<and> mset (entries t') = mset (map reset_entry (filter idle es))"
proof (induction k arbitrary: t st s ys)
  case 0
  then show ?case by (auto simp: served_def)
next
  case (Suc k)
  let ?e = "es ! k"
  have k: "k < length es" and es: "take (Suc k) es = take k es @ [?e]" "drop k es = ?e # drop (Suc k) es"
    using Suc.prems(3) by (simp_all add: take_Suc_conv_app_nth Cons_nth_drop_Suc)
  have len: "k = length (take k es)" using k by simp
  have ent: "entries t = take k es @ ?e # ys" using Suc.prems(4) es(1) by simp
  have used: "k < po_used t" "?e = entries t ! k"
    using length_entries[OF Suc.prems(1)] ent k by (auto simp: nth_append)
  have still: "\<forall>y\<in>set ys. reset_entry y = y"
  proof -
    have "set ys = set (map reset_entry (filter idle (drop (Suc k) es)))" using Suc.prems(5) by (metis set_mset_mset)
    then show ?thesis by (auto simp: reset_entry_def)
  qed
  obtain t1 st1 where w: "worker_entry serve k (t, st, s) = Some (t1, st1, if ready ?e then snd (serve (the (snd ?e)) s) else s)"
      "poll_ok t1" "rc_ok st1 (R + held (entries t1))"
      "if idle ?e then entries t1 = reset_at k (entries t)
       else entries t1 \<in> {swap_remove k (entries t), reset_at k (swap_remove k (entries t))}"
    using worker_entry_ok[OF Suc.prems(1) used(1) Suc.prems(2) used(2)] obj fine k by (metis nth_mem)
  have "\<exists>zs. entries t1 = take k es @ zs \<and> mset zs = mset (map reset_entry (filter idle (drop k es)))"
  proof (cases "idle ?e")
    case True
    then have "entries t1 = take k es @ reset_entry ?e # ys"
      using w(4) len unfolding ent by (simp add: reset_at_def nth_append list_update_append)
    with True Suc.prems(5) es(2) show ?thesis by auto
  next
    case False
    let ?zs = "if ys = [] then [] else last ys # butlast ys"
    have zs: "mset ?zs = mset ys" "\<forall>y\<in>set ?zs. reset_entry y = y"
      using still by (cases ys rule: rev_cases; simp)+
    have "swap_remove k (entries t) = take k es @ ?zs"
      using swap_remove_at[of "take k es" ?e ys] len ent by simp
    moreover have "reset_at k (take k es @ ?zs) = take k es @ ?zs"
      using reset_at_done[OF zs(2), of "take k es"] len by simp
    ultimately have "entries t1 = take k es @ ?zs" using w(4) False by auto
    moreover have "mset ?zs = mset (map reset_entry (filter idle (drop k es)))"
      using zs(1) Suc.prems(5) False es(2) by simp
    ultimately show ?thesis by blast
  qed
  then obtain zs where z: "entries t1 = take k es @ zs" "mset zs = mset (map reset_entry (filter idle (drop k es)))" by blast
  define s1 where "s1 = (if ready ?e then snd (serve (the (snd ?e)) s) else s)"
  obtain t2 st2 where "worker_loop live serve k (t1, st1, s1) = Some (t2, st2, served serve (take k es) s1)" "poll_ok t2"
      "rc_ok st2 (R + held (entries t2))" "mset (entries t2) = mset (map reset_entry (filter idle es))"
    using Suc.IH[OF w(2,3) _ z, of s1] k less_imp_le by blast
  moreover have "served serve (take (Suc k) es) s = served serve (take k es) s1"
    unfolding es(1) by (simp add: served_def s1_def)
  ultimately show ?case using w(1)[folded s1_def] live[of k] by auto
qed

text \<open>The entries with the answer of \<open>poll\<close>.\<close>

definition answered :: "16 word list \<Rightarrow> entry list \<Rightarrow> entry list" where
  "answered revs es = map (\<lambda>(e, r). ((fst e)\<lparr>pf_revents := r\<rparr>, snd e)) (zip es revs)"

lemma poll_answer_ok:
  assumes "poll_ok t" "length revs = po_used t"
  shows "poll_ok (poll_answer revs t)" "entries (poll_answer revs t) = answered revs (entries t)"
    "po_used (poll_answer revs t) = po_used t"
proof -
  have l: "length (map (\<lambda>(p, r). p\<lparr>pf_revents := r\<rparr>) (zip (take (po_used t) (po_polls t)) revs)) = po_used t"
    using assms by (simp add: poll_ok_def)
  show "poll_ok (poll_answer revs t)" using assms by (auto simp: poll_ok_def poll_answer_def)
  show "entries (poll_answer revs t) = answered revs (entries t)"
    using assms by (intro nth_equalityI) (auto simp: entries_def poll_answer_def answered_def poll_ok_def nth_append)
  show "po_used (poll_answer revs t) = po_used t" by (simp add: poll_answer_def)
qed

lemma held_answered: "length revs = length es \<Longrightarrow> held (answered revs es) = held es"
  by (induction es revs rule: list_induct2') (auto simp: answered_def)

text \<open>C9. A round of the worker serves every client that has something to read and no other, each once and from the last
  entry to the first, although served clients are taken out of the table while it is walked and other entries
  move into their places; afterwards the table has exactly the entries without events, with their events reset, and
  the references of the others are given back.\<close>

theorem worker_round_serves_ready:
  assumes ok: "poll_ok t" "rc_ok st (R + held (entries t))" and n: "0 < po_used t" "length revs = po_used t" "0 < n"
    and live: "\<forall>k. live k" and fine: "\<forall>a s c. fst (serve a s) \<noteq> Some (0, c)"
    and obj: "\<forall>e\<in>set (answered revs (entries t)). idle e \<or> snd e \<noteq> None"
  shows "\<exists>t' st'. readPackets live serve (None, n, revs) (t, st, s) =
      Some (None, t', st', served serve (answered revs (entries t)) s) \<and> poll_ok t' \<and> rc_ok st' (R + held (entries t')) \<and>
    mset (entries t') = mset (map reset_entry (filter idle (answered revs (entries t))))"
proof -
  let ?t = "poll_answer revs t" and ?es = "answered revs (entries t)"
  note a = poll_answer_ok[OF ok(1) n(2)]
  have len: "length ?es = po_used t" using ok(1) n(2) by (simp add: answered_def)
  have "rc_ok st (R + held (entries ?t))" unfolding a(2) using ok n(2) by (simp add: held_answered)
  from worker_loop_ok[OF _ _ obj a(1) this, of serve live "po_used t" "[]" s] fine live len a(2) obtain t' st' where
    "worker_loop live serve (po_used t) (?t, st, s) = Some (t', st', served serve ?es s)" "poll_ok t'"
    "rc_ok st' (R + held (entries t'))" "mset (entries t') = mset (map reset_entry (filter idle ?es))" by auto
  then show ?thesis using n by (auto simp: readPackets_def Let_def)
qed

section \<open>A small table\<close>

text \<open>Two clients: the second has something to read, the first has nothing.\<close>

definition clients_state :: rc_state where
  "clients_state = \<lparr>counts = [0 \<mapsto> 1, 1 \<mapsto> 1], rc_brk = 2, sps = []\<rparr>"

definition clients_table :: poll where
  "clients_table = \<lparr>po_events = 3, po_used = 2, po_memsize = 3,
     po_polls = [\<lparr>pf_fd = 7, pf_events = 3, pf_revents = 0\<rparr>, \<lparr>pf_fd = 8, pf_events = 3, pf_revents = 0\<rparr>, pollfd_blank],
     po_socks = [Some 0, Some 1, None]\<rparr>"

lemma clients_ok: "poll_ok clients_table" "rc_ok clients_state ({#} + held (entries clients_table))"
  by (auto simp: poll_ok_def clients_table_def clients_state_def entries_def held_def opt_mset_def rc_ok_def owners_def)

theorem poll_table_is_a_list_witness:
  "\<exists>t' st'. poll_do (Remove 0) (clients_table, clients_state) = Some (t', st') \<and> poll_ok t' \<and>
     rc_ok st' ({#} + held (entries t')) \<and>
    (entries t' = entry_do (po_events clients_table) (Remove 0) (entries clients_table) \<or>
     (\<exists>fd obj. Remove 0 = Append False fd obj) \<and> entries t' = entries clients_table)"
  by (rule poll_table_is_a_list[OF clients_ok]) simp

theorem worker_round_serves_ready_witness:
  "\<exists>t' st'. readPackets (\<lambda>k. True) (\<lambda>a s. (None, s @ [a])) (None, 1, [0, 1]) (clients_table, clients_state, []) =
      Some (None, t', st', served (\<lambda>a s. (None, s @ [a])) (answered [0, 1] (entries clients_table)) []) \<and>
    poll_ok t' \<and> rc_ok st' ({#} + held (entries t')) \<and>
    mset (entries t') = mset (map reset_entry (filter idle (answered [0, 1] (entries clients_table))))"
proof -
  have "\<forall>e\<in>set (answered [0, 1] (entries clients_table)). idle e \<or> snd e \<noteq> None"
    by (simp add: answered_def entries_def clients_table_def)
  then show ?thesis
    by (intro worker_round_serves_ready[OF clients_ok]) (simp_all add: clients_table_def)
qed

end
