(* ===== verification/Dfw_Split.thy ===== *)
theory Dfw_Split
  imports Dfw_Array_Spec Dfw_Text
begin

text \<open>
  \<open>lib/util/StringArray.cpp\<close>: splitting a text at a separator.  The loop's pointer into the text is the rest of
  it; the elements go into an \<open>Array<String>\<close>.
\<close>

section \<open>The code\<close>

type_synonym string_array = "string arr"

definition string_array_insert :: "allocator \<Rightarrow> string \<Rightarrow> string_array \<Rightarrow> (rv \<times> string_array) option" where
  "string_array_insert al ele a = (if ele = [] then Some (None, a) else array_insert al (Some ele) a)"

text \<open>When the separator is at the start, the pointer moves one character on, behind the terminator if the text ends
  there.\<close>

function split_loop :: "allocator \<Rightarrow> string \<Rightarrow> string \<Rightarrow> string_array \<Rightarrow> (rv \<times> string_array) option" where
  "split_loop al str buf a =
     (case strstr buf str of
        None \<Rightarrow> string_array_insert al buf a
      | Some i \<Rightarrow>
          if i = 0 then (if buf = [] then None else split_loop al str (drop 1 buf) a)
          else do { (e, a) \<leftarrow> string_array_insert al (take i buf) a;
                    if e \<noteq> None then Some (e, a) else split_loop al str (drop i buf) a })"
  by pat_completeness auto
termination
  by (relation "measure (\<lambda>(al, str, buf, a). length buf)") (auto dest: strstr_SomeD)

declare split_loop.simps [simp del]

definition string_array_split :: "allocator \<Rightarrow> string option \<Rightarrow> string option \<Rightarrow> string_array \<Rightarrow> (rv \<times> string_array) option" where
  "string_array_split al buffer str a =
     (case buffer of
        None \<Rightarrow> Some (None, a)
      | Some mem \<Rightarrow> do { s \<leftarrow> str; split_loop al (cstr s) (cstr mem) a })"

section \<open>The reference\<close>

text \<open>The fields between the separators, empty ones included.\<close>

fun fields :: "'a \<Rightarrow> 'a list \<Rightarrow> 'a list list" where
  "fields c [] = [[]]"
| "fields c (x # xs) = (if x = c then [] # fields c xs else (x # hd (fields c xs)) # tl (fields c xs))"

lemma fields_ne: "fields c xs \<noteq> []"
  by (cases xs) simp_all

lemma fields_notin: "c \<notin> set xs \<Longrightarrow> fields c xs = [xs]"
  by (induction xs) auto

lemma fields_append: "c \<notin> set a \<Longrightarrow> fields c (a @ c # b) = a # fields c b"
  by (induction a) auto

lemma string_array_insert_ok:
  assumes "arr_ok a" "al_out al \<noteq> AllocFails"
  shows "\<exists>a'. string_array_insert al s a = Some (None, a') \<and> arr_ok a' \<and> elems a' = elems a @ filter (\<lambda>f. f \<noteq> []) [s]"
  using array_insert_ok[OF assms, of s] assms(1) by (auto simp: string_array_insert_def)

lemma split_loop_fields:
  assumes "al_out al \<noteq> AllocFails"
  shows "arr_ok a \<Longrightarrow> \<exists>a'. split_loop al [c] buf a = Some (None, a') \<and> arr_ok a' \<and>
    elems a' = elems a @ filter (\<lambda>f. f \<noteq> []) (fields c buf)"
proof (induction "length buf" arbitrary: buf a rule: less_induct)
  case less
  show ?case
  proof (cases "c \<in> set buf")
    case False
    then have "strstr buf [c] = None" by (simp add: strstr_single)
    with string_array_insert_ok[OF less.prems assms, of buf] show ?thesis
      by (subst split_loop.simps) (simp add: fields_notin[OF False])
  next
    case True
    then obtain x y where s: "buf = x @ c # y" "c \<notin> set x" using split_list_first by metis
    have st: "strstr buf [c] = Some (length x)" unfolding s(1) by (rule strstr_char[OF s(2)])
    have skip: "split_loop al [c] (c # y) b = split_loop al [c] y b" for b
      by (subst split_loop.simps) simp
    obtain b where b: "string_array_insert al x a = Some (None, b)" "arr_ok b" "elems b = elems a @ filter (\<lambda>f. f \<noteq> []) [x]"
      using string_array_insert_ok[OF less.prems assms] by blast
    have "split_loop al [c] buf a = split_loop al [c] y b"
    proof (cases "x = []")
      case True
      with b(1) have "b = a" by (simp add: string_array_insert_def)
      with True s skip show ?thesis by simp
    next
      case False
      with st s(1) b(1) skip show ?thesis by (subst split_loop.simps) simp
    qed
    with less.hyps[OF _ b(2), of y] b(3) s show ?thesis by (auto simp: fields_append)
  qed
qed

lemma strstr_notin: "c \<notin> set h \<Longrightarrow> strstr h (c # n) = None"
  by (induction h) auto

section \<open>Properties\<close>

text \<open>C20. Splitting a text at one character appends the fields between the separators in their order, less the empty
  ones.  With a longer separator the loop steps over its first character only, so a field behind it starts with the
  separator's remaining characters.\<close>

theorem split_gives_fields:
  assumes "arr_ok a" "al_out al \<noteq> AllocFails" "NUL \<notin> set s" "c \<noteq> NUL"
  shows "(\<exists>a'. string_array_split al (Some (s @ [NUL])) (Some [c, NUL]) a = Some (None, a') \<and> arr_ok a' \<and>
      elems a' = elems a @ filter (\<lambda>f. f \<noteq> []) (fields c s)) \<and>
    (\<forall>x sep y. s = x @ c # sep @ y \<and> sep \<noteq> [] \<and> x \<noteq> [] \<and> c \<notin> set x \<and> c \<notin> set (sep @ y) \<longrightarrow>
      (\<exists>a'. string_array_split al (Some (s @ [NUL])) (Some (c # sep @ [NUL])) a = Some (None, a') \<and>
        elems a' = elems a @ [x, sep @ y]))"
proof (intro conjI allI impI)
  have s: "cstr (s @ [NUL]) = s" "cstr [c, NUL] = [c]"
    using cstr_append_nul[of s] cstr_append_nul[of "[c]"] assms(3,4) by simp_all
  show "\<exists>a'. string_array_split al (Some (s @ [NUL])) (Some [c, NUL]) a = Some (None, a') \<and> arr_ok a' \<and>
      elems a' = elems a @ filter (\<lambda>f. f \<noteq> []) (fields c s)"
    using split_loop_fields[OF assms(2,1), of c s] by (simp add: string_array_split_def s)
next
  fix x sep y
  assume "s = x @ c # sep @ y \<and> sep \<noteq> [] \<and> x \<noteq> [] \<and> c \<notin> set x \<and> c \<notin> set (sep @ y)"
  then have sp: "s = x @ c # sep @ y" "sep \<noteq> []" "x \<noteq> []" "c \<notin> set x" "c \<notin> set (sep @ y)" by auto
  have t: "cstr (s @ [NUL]) = s" "cstr (c # sep @ [NUL]) = c # sep"
    using cstr_append_nul[of s] cstr_append_nul[of "c # sep"] assms(3,4) sp(1) by simp_all
  have none: "strstr (sep @ y) (c # sep) = None"
    using sp(5) by (rule strstr_notin)
  have some: "strstr s (c # sep) = Some (length x)"
    unfolding sp(1) using sp(4) strstr_append_notin[of c x] by simp
  obtain b where b: "string_array_insert al x a = Some (None, b)" "arr_ok b" "elems b = elems a @ [x]"
    using string_array_insert_ok[OF assms(1,2), of x] sp(3) by auto
  obtain d where d: "string_array_insert al (sep @ y) b = Some (None, d)" "elems d = elems b @ [sep @ y]"
    using string_array_insert_ok[OF b(2) assms(2), of "sep @ y"] sp(2) by auto
  have "split_loop al (c # sep) (sep @ y) b = Some (None, d)" by (subst split_loop.simps) (simp add: none d(1))
  then have "split_loop al (c # sep) (c # sep @ y) b = Some (None, d)" by (subst split_loop.simps) simp
  then have "split_loop al (c # sep) s a = Some (None, d)"
    using some sp(1,3) b(1) by (subst split_loop.simps) simp
  then show "\<exists>a'. string_array_split al (Some (s @ [NUL])) (Some (c # sep @ [NUL])) a = Some (None, a') \<and>
        elems a' = elems a @ [x, sep @ y]"
    using b(3) d(2) by (intro exI[of _ d]) (simp add: string_array_split_def t)
qed

theorem split_gives_fields_witness:
  "(\<exists>a. string_array_split \<lparr>al_out = AllocOk, al_fill = NUL\<rparr> (Some (''a,,b'' @ [NUL])) (Some [CHR '','', NUL]) arr_init = Some (None, a) \<and>
      elems a = [''a'', ''b'']) \<and>
   (\<exists>a. string_array_split \<lparr>al_out = AllocOk, al_fill = NUL\<rparr> (Some (''a, b'' @ [NUL])) (Some ('', '' @ [NUL])) arr_init = Some (None, a) \<and>
      elems a = [''a'', '' b''])"
proof -
  let ?al = "\<lparr>al_out = AllocOk, al_fill = NUL\<rparr>"
  have e: "elems arr_init = ([] :: string list)" and ok: "arr_ok (arr_init :: string_array)" using arr_ok_init by simp_all
  have al: "al_out ?al \<noteq> AllocFails" by simp
  have f: "filter (\<lambda>f. f \<noteq> []) (fields CHR '','' ''a,,b'') = [''a'', ''b'']" by simp
  have n: "NUL \<notin> set ''a,,b''" "NUL \<notin> set ''a, b''" "CHR '','' \<noteq> NUL" by simp_all
  have x: "''a, b'' = ''a'' @ CHR '','' # '' '' @ ''b'' \<and> '' '' \<noteq> [] \<and> ''a'' \<noteq> [] \<and> CHR '','' \<notin> set ''a'' \<and> CHR '','' \<notin> set ('' '' @ ''b'')"
    by simp
  note one = split_gives_fields[OF ok al n(1,3), THEN conjunct1, unfolded f e]
    and two = split_gives_fields[OF ok al n(2,3), THEN conjunct2, rule_format, OF x, unfolded e]
  show ?thesis
  proof
    show "\<exists>a. string_array_split ?al (Some (''a,,b'' @ [NUL])) (Some [CHR '','', NUL]) arr_init = Some (None, a) \<and> elems a = [''a'', ''b'']"
      using one unfolding append_Nil by blast
    show "\<exists>a. string_array_split ?al (Some (''a, b'' @ [NUL])) (Some ('', '' @ [NUL])) arr_init = Some (None, a) \<and> elems a = [''a'', '' b'']"
      using two unfolding append_Nil append_Cons by blast
  qed
qed

end
