(* ===== verification/Dfw_Xml.thy ===== *)
theory Dfw_Xml
  imports Dfw_Split Dfw_Uri
begin

text \<open>
  \<open>lib/xml/XmlParser.cpp\<close>: the parser, the document it builds and the search in it.  The nodes are shared by
  counted pointers and changed in place, so they are a list here, a pointer being an index: nodes are only added.
  A result \<open>None\<close> is a fault: a copy from the NULL that \<open>Regexp::getMatch\<close> returns for a short text, or a
  negative size.  The regular expressions are written out; their alternatives never overlap, so the greedy match
  is the only one.  Insertion into the arrays of pointers is assumed to find memory, as the code does not look.
\<close>

section \<open>The document\<close>

datatype xml_type = DFW_XMLNODETYPE_DECLARATION | DFW_XMLNODETYPE_TEXT | DFW_XMLNODETYPE_TAG
  | DFW_XMLNODETYPE_CLOSE_TAG | DFW_XMLNODETYPE_NONE_TAG | DFW_XMLNODETYPE_COMMENT

datatype xml_status = DFW_XML_OK | DFW_XML_ERROR | DFW_XML_ESYNTAX | DFW_XML_EMPTY_BUFFER
  | DFW_XML_NEED_BUFFER | DFW_XML_FINDNODE

text \<open>The name and the value of an attribute.\<close>

type_synonym xml_attribute = "string \<times> string"

record xml_node =
  xn_type :: xml_type
  xn_text :: string
  xn_name :: string
  xn_attrs :: "xml_attribute list"
  xn_childs :: "nat list"
  xn_close :: bool

definition xml_node_new :: "xml_type \<Rightarrow> string \<Rightarrow> string \<Rightarrow> xml_node" where
  "xml_node_new ty text name =
     \<lparr>xn_type = ty, xn_text = text, xn_name = name, xn_attrs = [], xn_childs = [], xn_close = False\<rparr>"

record xml =
  x_nodes :: "xml_node list"
  x_roots :: "nat list"
  x_open :: "nat list"

definition xml_new :: xml where
  "xml_new = \<lparr>x_nodes = [], x_roots = [], x_open = []\<rparr>"

definition getParentNode :: "xml \<Rightarrow> nat option" where
  "getParentNode x = (if x_open x = [] then None else Some (last (x_open x)))"

text \<open>\<open>equals(const String&)\<close>: the lengths are compared before the letters, without regard to case.\<close>

definition same_name :: "string \<Rightarrow> string \<Rightarrow> bool" where
  "same_name a b \<longleftrightarrow> length a = length b \<and> (a = [] \<or> strcaseeq (cstr b) (cstr a))"

definition setClosedNode :: "string \<Rightarrow> xml \<Rightarrow> xml" where
  "setClosedNode name x =
     (case find (\<lambda>k. same_name (xn_name (x_nodes x ! (x_open x ! k))) name) (rev [0..<length (x_open x)]) of
        None \<Rightarrow> x
      | Some k \<Rightarrow> x\<lparr>x_open := take k (x_open x)\<rparr>)"

definition add_child :: "nat \<Rightarrow> nat \<Rightarrow> xml_node list \<Rightarrow> xml_node list" where
  "add_child p i ns = ns[p := (ns ! p)\<lparr>xn_childs := xn_childs (ns ! p) @ [i]\<rparr>]"

definition xml_append :: "xml_node \<Rightarrow> xml \<Rightarrow> xml" where
  "xml_append n x =
     (let i = length (x_nodes x);
          x = (case getParentNode x of
                 Some p \<Rightarrow> x\<lparr>x_nodes := add_child p i (x_nodes x) @ [n]\<rparr>
               | None \<Rightarrow> x\<lparr>x_nodes := x_nodes x @ [n], x_roots := x_roots x @ [i]\<rparr>) in
      if xn_type n = DFW_XMLNODETYPE_TAG \<and> \<not> xn_close n then x\<lparr>x_open := x_open x @ [i]\<rparr>
      else if xn_type n = DFW_XMLNODETYPE_CLOSE_TAG then setClosedNode (xn_name n) x else x)"

section \<open>Attributes\<close>

definition name_char :: "char \<Rightarrow> bool" where
  "name_char c \<longleftrightarrow> c = CHR ''-'' \<or> c = CHR ''_'' \<or> c = CHR '':'' \<or> c_isupper c \<or> c_islower c \<or> c_isdigit c"

text \<open>\<open>^[\\s]*([\\-\\_\\:a-zA-Z0-9]*)[\\s]*=[\\s]*\<close>: the name and the length of the match.\<close>

definition re_attr :: "string \<Rightarrow> (string \<times> nat) option" where
  "re_attr v =
     (let a = dropWhile c_isspace v in
      case dropWhile c_isspace (dropWhile name_char a) of
        [] \<Rightarrow> None
      | e # b \<Rightarrow> if e = CHR ''='' then Some (takeWhile name_char a, length v - length (dropWhile c_isspace b)) else None)"

text \<open>\<open>^[\\s]*([\\-\\_\\:a-zA-Z0-9]*)\<close>\<close>

definition re_name :: "string \<Rightarrow> string \<times> nat" where
  "re_name v = (let a = dropWhile c_isspace v in (takeWhile name_char a, length v - length (dropWhile name_char a)))"

text \<open>
  The scan for the end of a value: \<open>q\<close> is its quote, \<open>hasQ\<close> that the character before was a backslash; the
  result is where it stops and whether it stopped at the quote.  Behind a slash the code looks at the text of
  the attribute (\<open>buf\<close>) with the index that counts from the value.
\<close>

fun value_scan :: "string \<Rightarrow> nat \<Rightarrow> char option \<Rightarrow> bool \<Rightarrow> string \<Rightarrow> nat \<Rightarrow> nat \<times> nat" where
  "value_scan buf sz q hasQ [] k = (k, 0)"
| "value_scan buf sz q hasQ (ch # cs) k =
     (if hasQ then value_scan buf sz q False cs (Suc k)
      else if ch = BACKSLASH then value_scan buf sz q True cs (Suc k)
      else case q of
        None \<Rightarrow>
          if ch = SPC \<or> ch = TAB \<or> ch = CR \<or> ch = LF \<or> ch = CHR ''>'' then (k, 0)
          else if ch = CHR ''/'' \<and> k < sz - 1 \<and> buf ! (k + 1) = CHR ''>'' then (k, 0)
          else value_scan buf sz q False cs (Suc k)
      | Some c \<Rightarrow> if c = ch then (k + 1, 1) else value_scan buf sz q False cs (Suc k))"

definition value_quote :: "string \<Rightarrow> char option" where
  "value_quote r = (case r of [] \<Rightarrow> None | c # cs \<Rightarrow> if c = DQUOTE \<or> c = CHR 0x27 then Some c else None)"

definition attr_value :: "string \<Rightarrow> nat \<Rightarrow> nat \<Rightarrow> (string \<times> nat) option" where
  "attr_value buf sz len =
     (let r = take (sz - len) (drop len buf); q = value_quote r; toff = (if q = None then 0 else 1);
          (k, lastQ) = value_scan buf sz q False (drop toff r) toff in
      map_option (\<lambda>s. (s, k)) (text_set_n (Some (drop len buf)) toff (k - toff - lastQ)))"

text \<open>The name, the value and the number of characters taken.\<close>

definition parseAttributes_real :: "string \<Rightarrow> nat \<Rightarrow> (string \<times> string \<times> nat) option" where
  "parseAttributes_real buf sz =
     (let v = cstr buf in
      if v = [] then Some ([], [], 0)
      else case re_attr v of
        None \<Rightarrow>
          (let (n, len) = re_name v in
           map_option (\<lambda>name. (name, [], len)) (text_set_n (getMatch v 1 n) 0 (length n)))
      | Some (n, len) \<Rightarrow>
          if sz < len then None
          else do { (val, out) \<leftarrow> (if len < sz then attr_value buf sz len else Some ([], 0));
                    name \<leftarrow> text_set_n (getMatch v 1 n) 0 (length n);
                    Some (name, val, len + out) })"

text \<open>
  The loop of \<open>testAttributes\<close> and of \<open>parseEndedAttributes\<close>, which have the same text: the attributes (those with a
  name), and where it stops.
\<close>

function attr_loop :: "string \<Rightarrow> nat \<Rightarrow> (xml_attribute list \<times> string \<times> nat) option" where
  "attr_loop p sz =
     (if sz = 0 then Some ([], p, 0)
      else do { (n, v, o') \<leftarrow> parseAttributes_real p sz;
                if sz < o' then None
                else let here = (if n = [] then [] else [(n, v)]) in
                  if o' = 0 then Some (here, p, sz)
                  else do { (as, r) \<leftarrow> attr_loop (drop o' p) (sz - o'); Some (here @ as, r) } })"
  by pat_completeness auto
termination by (relation "measure snd") auto

declare attr_loop.simps [simp del]

text \<open>The position of \<open>>\<close> or \<open>/>\<close> behind blanks, and its length.\<close>

fun findCloseTag :: "nat \<Rightarrow> string \<Rightarrow> (nat \<times> nat) option" where
  "findCloseTag k [] = None"
| "findCloseTag k (ch # cs) =
     (if ch = SPC \<or> ch = TAB \<or> ch = CR \<or> ch = LF then findCloseTag (Suc k) cs
      else if ch = CHR ''/'' \<and> cs \<noteq> [] \<and> hd cs = CHR ''>'' then Some (k, 2)
      else if ch = CHR ''>'' then Some (k, 1) else None)"

text \<open>\<open>None\<close> inside: more text is needed.  Else the attributes, whether the tag ends with \<open>/>\<close>, its length.\<close>

definition parseUnknownAttributes :: "string \<Rightarrow> nat \<Rightarrow> (xml_attribute list \<times> bool \<times> nat) option option" where
  "parseUnknownAttributes buf sz =
     do { (as, p, s) \<leftarrow> attr_loop buf sz;
          Some (map_option (\<lambda>(k, len). (as, 1 < len, sz - s + k + len)) (findCloseTag 0 (take s p))) }"

section \<open>The parts of a text\<close>

type_synonym found = "xml_status \<times> xml_node option \<times> nat"

abbreviation (input) NOT_HERE :: found where "NOT_HERE \<equiv> (DFW_XML_OK, None, 0)"

text \<open>\<open>^<\\?([\\-\\_\\:a-zA-Z0-9]*)(\\s*[\\s\\S]*?)\\?>\<close>: the name, the length of the rest, the text from there.\<close>

definition re_declaration :: "string \<Rightarrow> (string \<times> nat \<times> string) option" where
  "re_declaration v =
     (if prefix ''<?'' v
      then let r = dropWhile name_char (drop 2 v) in
        map_option (\<lambda>i. (takeWhile name_char (drop 2 v), i, r)) (strstr r ''?>'')
      else None)"

definition parseDeclaration :: "string \<Rightarrow> found option" where
  "parseDeclaration buf =
     (let v = cstr buf in
      case re_declaration v of
        None \<Rightarrow> Some NOT_HERE
      | Some (n, i, r) \<Rightarrow>
          let len = 2 + length n + i + 2 in
          do { name \<leftarrow> text_set_n (getMatch v 1 n) 0 (length n);
               as \<leftarrow> (case getMatch v 2 r of None \<Rightarrow> Some [] | Some p \<Rightarrow> map_option fst (attr_loop p i));
               Some (DFW_XML_FINDNODE,
                 Some ((xml_node_new DFW_XMLNODETYPE_DECLARATION (take len v) name)\<lparr>xn_attrs := as\<rparr>), len) })"

text \<open>\<open>parseTag\<close> with \<open>^<([\\-\\_\\:a-zA-Z0-9]+)\<close> and \<open>parseCloseTag\<close> with \<open>^</([\\-\\_\\:a-zA-Z0-9]+)\<close>.\<close>

definition re_tag :: "string \<Rightarrow> string \<Rightarrow> string option" where
  "re_tag start v =
     (let n = takeWhile name_char (drop (length start) v) in
      if prefix start v \<and> n \<noteq> [] then Some n else None)"

definition parse_tag :: "string \<Rightarrow> xml_type \<Rightarrow> string \<Rightarrow> found option" where
  "parse_tag start ty buf =
     (let v = cstr buf in
      case re_tag start v of
        None \<Rightarrow> Some NOT_HERE
      | Some n \<Rightarrow>
          let ssize = length start + length n in
          do { name \<leftarrow> text_set_n (getMatch v 1 n) 0 (length n);
               r \<leftarrow> parseUnknownAttributes (drop ssize buf) (length buf - ssize);
               case r of
                 None \<Rightarrow> Some (DFW_XML_NEED_BUFFER, None, 0)
               | Some (as, cl, off) \<Rightarrow>
                   Some (DFW_XML_FINDNODE, Some ((xml_node_new ty [] name)\<lparr>xn_attrs := as, xn_close := cl\<rparr>), ssize + off) })"

definition parseTag :: "string \<Rightarrow> found option" where
  "parseTag = parse_tag ''<'' DFW_XMLNODETYPE_TAG"

definition parseCloseTag :: "string \<Rightarrow> found option" where
  "parseCloseTag = parse_tag ''</'' DFW_XMLNODETYPE_CLOSE_TAG"

text \<open>\<open>^<!--([\\s\\S]*?)-->\<close>\<close>

definition parseCommentTag :: "string \<Rightarrow> found option" where
  "parseCommentTag buf =
     (let v = cstr buf in
      Some (case (if prefix ''<!--'' v then strstr (drop 4 v) ''-->'' else None) of
              None \<Rightarrow> NOT_HERE
            | Some i \<Rightarrow> (DFW_XML_FINDNODE, Some (xml_node_new DFW_XMLNODETYPE_COMMENT (take (i + 7) v) ''#comment''), i + 7)))"

text \<open>\<open>^<!([\\-\\_a-zA-Z0-9]*)([\\s\\S]*?)>\<close>; the node is made, but not given to the caller.\<close>

definition none_char :: "char \<Rightarrow> bool" where
  "none_char c \<longleftrightarrow> name_char c \<and> c \<noteq> CHR '':''"

definition parseNoneTag :: "string \<Rightarrow> found option" where
  "parseNoneTag buf =
     (let v = cstr buf; n = takeWhile none_char (drop 2 v); r = dropWhile none_char (drop 2 v) in
      case (if prefix ''<!'' v then strstr r ''>'' else None) of
        None \<Rightarrow> Some NOT_HERE
      | Some i \<Rightarrow>
          do { name \<leftarrow> text_set_n (getMatch v 1 n) 0 (length n);
               text \<leftarrow> text_set_n (getMatch v 2 r) 0 i;
               Some (DFW_XML_FINDNODE, None, 2 + length n + i + 1) })"

definition parseText :: "string \<Rightarrow> found option" where
  "parseText buf =
     (let p = strstr (cstr buf) ''<'' in
      if p = Some 0 then Some NOT_HERE
      else let len = (case p of None \<Rightarrow> length buf | Some i \<Rightarrow> i) in
        Some (DFW_XML_FINDNODE, Some (xml_node_new DFW_XMLNODETYPE_TEXT (take len buf) ''#text''), len))"

section \<open>The parser\<close>

text \<open>\<open>if((status = a())){}else if((status = b())){}\<dots>\<close>\<close>

definition or_else :: "found option \<Rightarrow> found option \<Rightarrow> found option" where
  "or_else a b = do { r \<leftarrow> a; if fst r \<noteq> DFW_XML_OK then Some r else b }"

definition parse_node :: "string \<Rightarrow> found option" where
  "parse_node buf =
     or_else (parseDeclaration buf) (or_else (parseTag buf) (or_else (parseCloseTag buf)
       (or_else (parseCommentTag buf) (or_else (parseNoneTag buf) (parseText buf)))))"

datatype xml_parser_type = DFW_XMLPARSERTYPE_XML | DFW_XMLPARSERTYPE_HTML

record xml_parser =
  xp_buffer :: string
  xp_type :: xml_parser_type
  xp_result :: "xml option"

definition xml_parser_new :: xml_parser where
  "xml_parser_new = \<lparr>xp_buffer = [], xp_type = DFW_XMLPARSERTYPE_XML, xp_result = None\<rparr>"

text \<open>The type is never read.\<close>

definition setXmlParserType :: "xml_parser_type \<Rightarrow> xml_parser \<Rightarrow> xml_parser" where
  "setXmlParserType ty p = p\<lparr>xp_type := ty\<rparr>"

definition cleanResult :: "xml_parser \<Rightarrow> xml_parser" where
  "cleanResult p = p\<lparr>xp_buffer := [], xp_result := None\<rparr>"

function parse_loop :: "string \<Rightarrow> xml \<Rightarrow> (xml_status \<times> string \<times> xml) option" where
  "parse_loop buf x =
     (if buf = [] then Some (DFW_XML_OK, [], x)
      else do { (st, node, outsize) \<leftarrow> parse_node buf;
                if st = DFW_XML_OK then Some (DFW_XML_ESYNTAX, buf, x)
                else if st \<noteq> DFW_XML_FINDNODE then Some (st, buf, x)
                else case node of
                  None \<Rightarrow> Some (DFW_XML_ERROR, buf, x)
                | Some n \<Rightarrow>
                    if outsize = 0 then Some (DFW_XML_ERROR, buf, x)
                    else parse_loop (drop outsize buf) (xml_append n x) })"
  by pat_completeness auto
termination by (relation "measure (\<lambda>(buf, x). length buf)") auto

declare parse_loop.simps [simp del]

definition parseBuffer :: "xml_parser \<Rightarrow> (xml_status \<times> xml_parser) option" where
  "parseBuffer p =
     (let x = (case xp_result p of None \<Rightarrow> xml_new | Some x \<Rightarrow> x); p = p\<lparr>xp_result := Some x\<rparr> in
      if xp_buffer p = [] then Some (DFW_XML_EMPTY_BUFFER, p)
      else map_option (\<lambda>(st, buf, x). (st, p\<lparr>xp_buffer := buf, xp_result := Some x\<rparr>)) (parse_loop (xp_buffer p) x))"

definition parseBuffer_more :: "string \<Rightarrow> xml_parser \<Rightarrow> (xml_status \<times> xml_parser) option" where
  "parseBuffer_more buffer p = parseBuffer (p\<lparr>xp_buffer := xp_buffer p @ buffer\<rparr>)"

section \<open>Reading the document\<close>

text \<open>The recursion follows the children, so its depth is at most the number of nodes; \<open>f\<close> is that depth.\<close>

fun opt_concat :: "'a list option list \<Rightarrow> 'a list option" where
  "opt_concat [] = Some []"
| "opt_concat (a # as) = do { x \<leftarrow> a; y \<leftarrow> opt_concat as; Some (x @ y) }"

fun xml_text :: "nat \<Rightarrow> xml_node list \<Rightarrow> nat \<Rightarrow> string option" where
  "xml_text 0 ns i = None"
| "xml_text (Suc f) ns i =
     opt_concat (map (\<lambda>c. if xn_type (ns ! c) = DFW_XMLNODETYPE_TEXT then Some (xn_text (ns ! c))
                          else if xn_type (ns ! c) = DFW_XMLNODETYPE_TAG then xml_text f ns c else Some [])
       (xn_childs (ns ! i)))"

definition xml_getAttribute :: "xml_node \<Rightarrow> string \<Rightarrow> string" where
  "xml_getAttribute n name = (case find (\<lambda>a. text_equals (fst a) name) (xn_attrs n) of None \<Rightarrow> [] | Some a \<Rightarrow> snd a)"

definition getChildNode :: "xml_node list \<Rightarrow> nat \<Rightarrow> string \<Rightarrow> nat option" where
  "getChildNode ns i name = find (\<lambda>c. text_equals (xn_name (ns ! c)) name) (xn_childs (ns ! i))"

definition xml_hasNode :: "xml_node list \<Rightarrow> nat \<Rightarrow> string \<Rightarrow> bool" where
  "xml_hasNode ns i name \<longleftrightarrow>
     list_ex (\<lambda>c. xn_type (ns ! c) = DFW_XMLNODETYPE_TAG \<and> text_equals (xn_name (ns ! c)) name) (xn_childs (ns ! i))"

text \<open>
  A component of a query: what is in front of a bracket.  The bracket is overwritten by a NUL, so the component
  is the same when it is met again; what stood behind it is matched, but \<open>isattr\<close> is never set.
\<close>

definition query_matches :: "xml_node \<Rightarrow> string \<Rightarrow> bool" where
  "query_matches n cur =
     (let p = takeWhile (\<lambda>c. c \<noteq> CHR ''['') (cstr cur) in
      if p \<noteq> [] \<and> hd p = CHR ''#'' then text_equals (xml_getAttribute n ''id'') (tl p)
      else if p \<noteq> [] \<and> hd p = CHR ''.'' then text_equals (xml_getAttribute n ''class'') (tl p)
      else text_equals (xn_name n) p)"

fun xml_search :: "nat \<Rightarrow> xml_node list \<Rightarrow> string list \<Rightarrow> nat \<Rightarrow> nat \<Rightarrow> nat list option" where
  "xml_search 0 ns query depth i = None"
| "xml_search (Suc f) ns query depth i =
     (let childs = filter (\<lambda>c. xn_type (ns ! c) = DFW_XMLNODETYPE_TAG) (xn_childs (ns ! i));
          search_childs = (\<lambda>d. opt_concat (map (xml_search f ns query d) childs)) in
      if \<not> depth < length query then Some []
      else if query_matches (ns ! i) (query ! depth)
      then do { a \<leftarrow> (if length query - 1 = depth then Some [i] else search_childs (depth + 1));
                b \<leftarrow> (if depth \<noteq> 0 then search_childs 0 else Some []);
                Some (a @ b) }
      else search_childs 0)"

definition search_query :: "allocator \<Rightarrow> nat \<Rightarrow> xml_node list \<Rightarrow> nat \<Rightarrow> string option \<Rightarrow> nat list option" where
  "search_query al f ns i query =
     do { (e, sa) \<leftarrow> string_array_split al query (Some ('' '' @ [NUL])) arr_init;
          if e \<noteq> None \<or> a_size sa = 0 then Some [] else xml_search f ns (elems sa) 0 i }"

end
