(* ===== verification/Dfw_Xml_Spec.thy ===== *)
theory Dfw_Xml_Spec
  imports Dfw_Xml
begin

text \<open>
  Documents as trees, their printed form, and what the parser makes of it: the nodes lie in the order of the
  text (\<open>layout\<close>), and reading them back along the children gives the tree.
\<close>

section \<open>Trees and their text\<close>

datatype doc = Element string "xml_attribute list" "doc list" | Single string "xml_attribute list"
  | Chars string | Remark string | Instr string "xml_attribute list"

definition print_attr :: "xml_attribute \<Rightarrow> string" where
  "print_attr a = SPC # fst a @ CHR ''='' # DQUOTE # snd a @ [DQUOTE]"

abbreviation (input) print_attrs :: "xml_attribute list \<Rightarrow> string" where
  "print_attrs as \<equiv> concat (map print_attr as)"

fun print_doc :: "doc \<Rightarrow> string" where
  "print_doc (Element n as cs) = ''<'' @ n @ print_attrs as @ ''>'' @ concat (map print_doc cs) @ ''</'' @ n @ ''>''"
| "print_doc (Single n as) = ''<'' @ n @ print_attrs as @ ''/>''"
| "print_doc (Chars s) = s"
| "print_doc (Remark s) = ''<!--'' @ s @ ''-->''"
| "print_doc (Instr n as) = ''<?'' @ n @ print_attrs as @ ''?>''"

abbreviation (input) print_docs :: "doc list \<Rightarrow> string" where
  "print_docs ds \<equiv> concat (map print_doc ds)"

fun is_chars :: "doc \<Rightarrow> bool" where
  "is_chars (Chars s) = True"
| "is_chars d = False"

fun apart :: "doc list \<Rightarrow> bool" where
  "apart (a # b # ds) = (\<not> (is_chars a \<and> is_chars b) \<and> apart (b # ds))"
| "apart ds = True"

definition name_wf :: "string \<Rightarrow> bool" where
  "name_wf n \<longleftrightarrow> n \<noteq> [] \<and> list_all name_char n"

text \<open>To the scan of the parser, not to XML, a backslash escapes the character behind it: \<open>esc_after\<close> says that a value
  ends with a backslash that would escape the closing quote.  Other backslashes do no harm.\<close>

fun esc_after :: "bool \<Rightarrow> string \<Rightarrow> bool" where
  "esc_after h [] = h"
| "esc_after h (c # cs) = esc_after (\<not> h \<and> c = BACKSLASH) cs"

definition attr_wf :: "xml_attribute \<Rightarrow> bool" where
  "attr_wf a \<longleftrightarrow> name_wf (fst a) \<and> list_all (\<lambda>c. c \<noteq> DQUOTE \<and> c \<noteq> NUL) (snd a) \<and> \<not> esc_after False (snd a)"

text \<open>The value of an attribute of an instruction has no \<open>?\<close>, as the instruction ends at the first \<open>?>\<close>.\<close>

fun doc_wf :: "doc \<Rightarrow> bool" where
  "doc_wf (Element n as cs) = (name_wf n \<and> list_all attr_wf as \<and> apart cs \<and> list_all doc_wf cs)"
| "doc_wf (Single n as) = (name_wf n \<and> list_all attr_wf as)"
| "doc_wf (Chars s) = (s \<noteq> [] \<and> list_all (\<lambda>c. c \<noteq> CHR ''<'' \<and> c \<noteq> NUL) s)"
| "doc_wf (Remark s) = (strstr (s @ ''-->'') ''-->'' = Some (length s) \<and> NUL \<notin> set s)"
| "doc_wf (Instr n as) = (name_wf n \<and> list_all attr_wf as \<and> list_all (\<lambda>a. CHR ''?'' \<notin> set (snd a)) as)"

section \<open>Attributes\<close>

lemma name_char_facts:
  assumes "name_char c"
  shows "c \<noteq> NUL" "\<not> c_isspace c" "c \<noteq> CHR ''=''" "c \<noteq> CHR ''/''" "c \<noteq> CHR ''>''" "c \<noteq> CHR ''<''" "c \<noteq> CHR ''?''" "c \<noteq> CHR ''!''"
    "c \<noteq> SPC"
  using assms by (auto simp: name_char_def c_isspace_def c_isupper_def c_islower_def c_isdigit_def uchar_def)

lemma not_name_char [simp]:
  "\<not> name_char NUL" "\<not> name_char CHR ''=''" "\<not> name_char CHR ''/''" "\<not> name_char CHR ''>''" "\<not> name_char CHR ''<''"
  "\<not> name_char CHR ''?''" "\<not> name_char CHR ''!''" "\<not> name_char SPC"
  using name_char_facts by blast+

lemma takeWhile_name: "list_all name_char n \<Longrightarrow> \<not> name_char c \<Longrightarrow> takeWhile name_char (n @ c # r) = n"
  by (induction n) auto

lemma dropWhile_name: "list_all name_char n \<Longrightarrow> \<not> name_char c \<Longrightarrow> dropWhile name_char (n @ c # r) = c # r"
  by (induction n) auto

lemma name_no_nul: "name_wf n \<Longrightarrow> NUL \<notin> set n"
  by (auto simp: name_wf_def list_all_iff)

lemma print_attr_no_nul: "attr_wf a \<Longrightarrow> NUL \<notin> set (print_attr a)"
  using name_no_nul by (auto simp: attr_wf_def print_attr_def list_all_iff)

lemma print_attrs_no_nul: "list_all attr_wf as \<Longrightarrow> NUL \<notin> set (print_attrs as)"
  by (induction as) (auto dest: print_attr_no_nul)

lemma cstr_append: "NUL \<notin> set a \<Longrightarrow> cstr (a @ r) = a @ cstr r"
  by (induction a) (auto simp: cstr_def)

lemma value_scan_quoted:
  "list_all (\<lambda>c. c \<noteq> DQUOTE \<and> c \<noteq> NUL) v \<Longrightarrow> \<not> esc_after h v \<Longrightarrow>
    value_scan buf sz (Some DQUOTE) h (v @ DQUOTE # r) k = (k + length v + 1, 1)"
  by (induction v arbitrary: h k) auto

lemma parse_attr:
  assumes "attr_wf a" "length (print_attr a) \<le> sz"
  shows "parseAttributes_real (print_attr a @ rest) sz = Some (fst a, snd a, length (print_attr a))"
proof -
  obtain n v where a: "a = (n, v)" by force
  let ?v = "print_attr a @ cstr rest" and ?len = "length n + 2"
  have n: "n \<noteq> []" "list_all name_char n" and v: "list_all (\<lambda>c. c \<noteq> DQUOTE \<and> c \<noteq> NUL) v" "\<not> esc_after False v"
    using assms(1) by (simp_all add: a attr_wf_def name_wf_def)
  have cs: "cstr (print_attr a @ rest) = ?v" using print_attr_no_nul[OF assms(1)] by (rule cstr_append)
  have sp: "c_isspace SPC" "\<not> c_isspace DQUOTE" "\<not> c_isspace CHR ''=''" by (simp_all add: c_isspace_def uchar_def)
  have dw: "dropWhile c_isspace ?v = n @ CHR ''='' # DQUOTE # v @ DQUOTE # cstr rest"
    using n sp name_char_facts(2) by (cases n) (auto simp: a print_attr_def)
  have re: "re_attr ?v = Some (n, ?len)"
    unfolding re_attr_def dw Let_def
    by (simp add: takeWhile_name[OF n(2)] dropWhile_name[OF n(2)] sp a print_attr_def)
  have dr: "drop ?len (print_attr a @ rest) = DQUOTE # v @ DQUOTE # rest" by (simp add: a print_attr_def)
  have lt: "?len < sz" using assms(2) by (simp add: a print_attr_def)
  obtain m where m: "sz - ?len = Suc (length v + Suc m)"
    using assms(2) by (auto simp: a print_attr_def dest!: le_Suc_ex)
  have "attr_value (print_attr a @ rest) sz ?len = Some (v, length v + 2)"
    unfolding attr_value_def dr Let_def m
    using value_scan_quoted[OF v(1,2), of "print_attr a @ rest" sz "take m rest" 1]
    by (simp add: value_quote_def text_set_n_def ptr_read_def split: prod.split)
  moreover have "getMatch ?v 1 n = Some n" by (simp add: getMatch_def a print_attr_def)
  ultimately show ?thesis
    unfolding parseAttributes_real_def cs Let_def using lt re
    by (simp add: a print_attr_def text_set_n_def ptr_read_def)
qed

text \<open>Where the loop over the attributes stops.\<close>

definition stops :: "string \<Rightarrow> nat \<Rightarrow> bool" where
  "stops rest m \<longleftrightarrow> m = 0 \<or> rest \<noteq> [] \<and> (hd rest = CHR ''>'' \<or> hd rest = CHR ''/'')"

lemma attr_stop:
  assumes "stops rest m"
  shows "attr_loop rest m = Some ([], rest, m)"
proof (cases "m = 0")
  case True
  then show ?thesis by (subst attr_loop.simps) simp
next
  case False
  with assms obtain c r where c: "rest = c # r" "c = CHR ''>'' \<or> c = CHR ''/''"
    unfolding stops_def by (cases rest) auto
  then have "\<not> c_isspace c" "\<not> name_char c" "c \<noteq> CHR ''=''" "cstr rest = c # cstr r"
    by (auto simp: c_isspace_def uchar_def cstr_def)
  then have "parseAttributes_real rest m = Some ([], [], 0)"
    by (simp add: parseAttributes_real_def re_attr_def re_name_def text_set_n_def ptr_read_def)
  with False show ?thesis by (subst attr_loop.simps) simp
qed

lemma attr_loop_print:
  assumes "list_all attr_wf as" "stops rest m"
  shows "attr_loop (print_attrs as @ rest) (length (print_attrs as) + m) = Some (as, rest, m)"
  using assms(1)
proof (induction as)
  case Nil
  with attr_stop[OF assms(2)] show ?case by simp
next
  case (Cons a as)
  let ?s = "length (print_attrs (a # as)) + m"
  have p: "parseAttributes_real (print_attrs (a # as) @ rest) ?s = Some (fst a, snd a, length (print_attr a))"
    using parse_attr[of a ?s "print_attrs as @ rest"] Cons.prems by simp
  have z: "?s \<noteq> 0" "fst a \<noteq> []" "length (print_attr a) \<noteq> 0" using Cons.prems by (auto simp: print_attr_def attr_wf_def name_wf_def)
  have "drop (length (print_attr a)) (print_attrs (a # as) @ rest) = print_attrs as @ rest"
    "?s - length (print_attr a) = length (print_attrs as) + m" by simp_all
  with p z Cons show ?case by (subst attr_loop.simps) simp
qed

section \<open>The parts of a text\<close>

lemma name_lacks: "name_wf n \<Longrightarrow> \<not> name_char c \<Longrightarrow> c \<notin> set n"
  by (auto simp: name_wf_def list_all_iff)

lemma found_simps [simp]: "or_else (Some NOT_HERE) b = b" "st \<noteq> DFW_XML_OK \<Longrightarrow> or_else (Some (st, n, k)) b = Some (st, n, k)"
  by (simp_all add: or_else_def)

lemma no_declaration [simp]: "\<not> prefix ''<?'' (cstr buf) \<Longrightarrow> parseDeclaration buf = Some NOT_HERE"
  by (simp add: parseDeclaration_def re_declaration_def)

lemma no_tag: "re_tag start (cstr buf) = None \<Longrightarrow> parse_tag start ty buf = Some NOT_HERE"
  by (simp add: parse_tag_def)

lemma text_set_all: "text_set_n (Some (n @ r)) 0 (length n) = Some n"
  by (simp add: text_set_n_def ptr_read_def)

text \<open>An opening tag, with what ends it.\<close>

lemma parse_tag_print:
  assumes "name_wf n" "list_all attr_wf as" "e = ''>'' \<or> e = ''/>''" "start \<noteq> []" "NUL \<notin> set start"
  shows "parse_tag start ty (start @ n @ print_attrs as @ e @ rest) =
    Some (DFW_XML_FINDNODE, Some ((xml_node_new ty [] n)\<lparr>xn_attrs := as, xn_close := (e = ''/>'')\<rparr>),
      length (start @ n @ print_attrs as @ e))"
proof -
  let ?t = "print_attrs as" and ?ss = "length start + length n"
  let ?buf = "start @ n @ ?t @ e @ rest"
  have n: "n \<noteq> []" "list_all name_char n" using assms(1) by (simp_all add: name_wf_def)
  have "NUL \<notin> set (start @ n @ ?t @ e)"
    using assms name_no_nul print_attrs_no_nul[OF assms(2)] by auto
  from cstr_append[OF this, of rest] have cs: "cstr ?buf = start @ n @ ?t @ e @ cstr rest" by simp
  obtain c r where cr: "?t @ e @ cstr rest = c # r" "\<not> name_char c"
    using assms(3) by (cases as) (auto simp: print_attr_def)
  have re: "re_tag start (cstr ?buf) = Some n"
    unfolding re_tag_def cs using n cr takeWhile_name[OF n(2) cr(2), of r] by simp
  have len: "2 < length (cstr ?buf)"
    unfolding cs using n(1) assms(3,4) by (cases n; cases start) auto
  have d: "drop ?ss ?buf = ?t @ e @ rest" "length ?buf - ?ss = length ?t + length (e @ rest)" by simp_all
  have st: "stops (e @ rest) (length (e @ rest))" using assms(3) by (auto simp: stops_def)
  have "parseUnknownAttributes (?t @ e @ rest) (length ?t + length (e @ rest)) = Some (Some (as, e = ''/>'', length ?t + length e))"
    unfolding parseUnknownAttributes_def attr_loop_print[OF assms(2) st] using assms(3) by auto
  moreover have "getMatch (cstr ?buf) 1 n = Some n" using len by (simp add: getMatch_def)
  ultimately show ?thesis
    unfolding parse_tag_def Let_def re using d text_set_all[of n "[]"] by simp
qed

lemma parse_node_tag:
  assumes "name_wf n" "list_all attr_wf as" "e = ''>'' \<or> e = ''/>''"
  shows "parse_node (''<'' @ n @ print_attrs as @ e @ rest) =
    Some (DFW_XML_FINDNODE, Some ((xml_node_new DFW_XMLNODETYPE_TAG [] n)\<lparr>xn_attrs := as, xn_close := (e = ''/>'')\<rparr>),
      length (''<'' @ n @ print_attrs as @ e))"
proof -
  obtain c r where n: "n = c # r" "name_char c" using assms(1) by (cases n) (auto simp: name_wf_def)
  have "\<not> prefix ''<?'' (cstr (''<'' @ n @ print_attrs as @ e @ rest))"
    using n name_char_facts[OF n(2)] by (auto simp: cstr_def)
  then show ?thesis
    unfolding parse_node_def parseTag_def using parse_tag_print[OF assms, of "''<''"] by simp
qed

lemma parse_node_close:
  assumes "name_wf n"
  shows "parse_node (''</'' @ n @ ''>'' @ rest) =
    Some (DFW_XML_FINDNODE, Some (xml_node_new DFW_XMLNODETYPE_CLOSE_TAG [] n), length n + 3)"
proof -
  let ?b = "''</'' @ n @ ''>'' @ rest"
  have "cstr ?b = ''</'' @ cstr (n @ ''>'' @ rest)" by (simp add: cstr_def)
  then have "\<not> prefix ''<?'' (cstr ?b)" "re_tag ''<'' (cstr ?b) = None" by (auto simp: re_tag_def)
  with parse_tag_print[OF assms, of "[]" "''>''" "''</''"] show ?thesis
    unfolding parse_node_def parseTag_def parseCloseTag_def by (simp add: no_tag xml_node_new_def)
qed

lemma strstr_append: "strstr a n = Some i \<Longrightarrow> strstr (a @ b) n = Some i"
proof (induction a arbitrary: i)
  case (Cons x xs)
  show ?case
  proof (cases "prefix n (x # xs)")
    case True
    then have "prefix n ((x # xs) @ b)" by (rule prefix_prefix)
    with Cons.prems True show ?thesis by simp
  next
    case False
    with Cons.prems obtain j where j: "strstr xs n = Some j" "i = Suc j" by (auto split: option.splits)
    then have "length n \<le> length (x # xs)" using strstr_SomeD[OF j(1)] prefix_length_le[of n "drop j xs"] by simp
    with False have "\<not> prefix n (x # xs @ b)" using prefix_length_prefix[of n "x # xs @ b" "x # xs"] by auto
    with Cons.IH[OF j(1)] j(2) show ?thesis by simp
  qed
qed (cases b; auto split: if_splits)

lemma parse_node_remark:
  assumes "doc_wf (Remark s)"
  shows "parse_node (''<!--'' @ s @ ''-->'' @ rest) =
    Some (DFW_XML_FINDNODE, Some (xml_node_new DFW_XMLNODETYPE_COMMENT (''<!--'' @ s @ ''-->'') ''#comment''), length s + 7)"
proof -
  let ?b = "''<!--'' @ s @ ''-->'' @ rest"
  have "NUL \<notin> set (''<!--'' @ s @ ''-->'')" using assms by simp
  from cstr_append[OF this, of rest] have cs: "cstr ?b = ''<!--'' @ s @ ''-->'' @ cstr rest" by simp
  have st: "strstr (s @ ''-->'' @ cstr rest) ''-->'' = Some (length s)"
    using assms strstr_append[of "s @ ''-->''" "''-->''" "length s" "cstr rest"] by simp
  have "length (''<!--'' @ s @ ''-->'') = length s + 7" by simp
  then have tk: "take (length s + 7) (''<!--'' @ s @ ''-->'' @ cstr rest) = ''<!--'' @ s @ ''-->''"
    by (metis append.assoc append_eq_conv_conj)
  have no: "\<not> prefix ''<?'' (cstr ?b)" "re_tag ''<'' (cstr ?b) = None" "re_tag ''</'' (cstr ?b) = None"
    unfolding cs by (auto simp: re_tag_def)
  have "parseCommentTag ?b = Some (DFW_XML_FINDNODE, Some (xml_node_new DFW_XMLNODETYPE_COMMENT (''<!--'' @ s @ ''-->'') ''#comment''), length s + 7)"
    unfolding parseCommentTag_def cs Let_def using st tk by simp
  then show ?thesis
    unfolding parse_node_def parseTag_def parseCloseTag_def no_declaration[OF no(1)] no_tag[OF no(2)] no_tag[OF no(3)] by simp
qed

lemma parse_node_chars:
  assumes "doc_wf (Chars s)" "rest = [] \<or> hd rest = CHR ''<''"
  shows "parse_node (s @ rest) = Some (DFW_XML_FINDNODE, Some (xml_node_new DFW_XMLNODETYPE_TEXT s ''#text''), length s)"
proof -
  have s: "s \<noteq> []" "CHR ''<'' \<notin> set s" "NUL \<notin> set s" using assms(1) by (auto simp: list_all_iff)
  have cs: "cstr (s @ rest) = s @ cstr rest" by (rule cstr_append[OF s(3)])
  then have no: "\<not> prefix (CHR ''<'' # p) (cstr (s @ rest))" for p using s(1,2) by (cases s) auto
  have "re_tag (CHR ''<'' # p) (cstr (s @ rest)) = None" for p using no by (simp add: re_tag_def)
  then have none: "parseDeclaration (s @ rest) = Some NOT_HERE" "parseTag (s @ rest) = Some NOT_HERE"
    "parseCloseTag (s @ rest) = Some NOT_HERE" "parseCommentTag (s @ rest) = Some NOT_HERE" "parseNoneTag (s @ rest) = Some NOT_HERE"
    using no by (simp_all add: parseTag_def parseCloseTag_def no_tag parseCommentTag_def parseNoneTag_def Let_def)
  have "parseText (s @ rest) = Some (DFW_XML_FINDNODE, Some (xml_node_new DFW_XMLNODETYPE_TEXT s ''#text''), length s)"
  proof (cases rest)
    case Nil
    then have "strstr (cstr (s @ rest)) ''<'' = None" using s(2) unfolding cs by (simp add: strstr_notin cstr_def)
    with Nil show ?thesis by (simp add: parseText_def)
  next
    case (Cons c r)
    with assms(2) have "cstr rest = CHR ''<'' # cstr r" by (simp add: cstr_def)
    then have "strstr (cstr (s @ rest)) ''<'' = Some (length s)" using cs s(2) by (simp add: strstr_char)
    with s(1) show ?thesis by (simp add: parseText_def)
  qed
  with none show ?thesis by (simp add: parse_node_def)
qed

lemma question_end:
  "CHR ''?'' \<notin> set s \<Longrightarrow> strstr (s @ CHR ''?'' # CHR ''>'' # r) ''?>'' = Some (length s)"
  by (induction s) auto

lemma parse_node_instr:
  assumes "doc_wf (Instr n as)"
  shows "parse_node (''<?'' @ n @ print_attrs as @ ''?>'' @ rest) =
    Some (DFW_XML_FINDNODE, Some ((xml_node_new DFW_XMLNODETYPE_DECLARATION (''<?'' @ n @ print_attrs as @ ''?>'') n)\<lparr>xn_attrs := as\<rparr>),
      length (''<?'' @ n @ print_attrs as @ ''?>''))"
proof -
  let ?t = "print_attrs as"
  let ?b = "''<?'' @ n @ ?t @ ''?>'' @ rest"
  have w: "name_wf n" "list_all attr_wf as" "list_all (\<lambda>a. CHR ''?'' \<notin> set (snd a)) as" using assms by simp_all
  have n: "n \<noteq> []" "list_all name_char n" using w(1) by (simp_all add: name_wf_def)
  have "NUL \<notin> set (''<?'' @ n @ ?t @ ''?>'')" using name_no_nul[OF w(1)] print_attrs_no_nul[OF w(2)] by auto
  from cstr_append[OF this, of rest] have cs: "cstr ?b = ''<?'' @ n @ ?t @ ''?>'' @ cstr rest" by simp
  obtain c r where cr: "?t @ ''?>'' @ cstr rest = c # r" "\<not> name_char c"
    by (cases as) (auto simp: print_attr_def)
  have "CHR ''?'' \<notin> set (print_attr a)" if "a \<in> set as" for a
    using that w(2,3) name_lacks[of "fst a" "CHR ''?''"] by (auto simp: print_attr_def list_all_iff attr_wf_def)
  then have q: "CHR ''?'' \<notin> set ?t" by auto
  have tw: "takeWhile name_char (n @ ?t @ ''?>'' @ cstr rest) = n" "dropWhile name_char (n @ ?t @ ''?>'' @ cstr rest) = ?t @ ''?>'' @ cstr rest"
    using takeWhile_name[OF n(2) cr(2), of r] dropWhile_name[OF n(2) cr(2), of r] unfolding cr(1) by simp_all
  have re: "re_declaration (cstr ?b) = Some (n, length ?t, ?t @ ''?>'' @ cstr rest)"
    using tw question_end[OF q, of "cstr rest"] unfolding re_declaration_def cs by (simp add: Let_def)
  have "2 + length n + length ?t + 2 = length (''<?'' @ n @ ?t @ ''?>'')" by simp
  then have tk: "take (2 + length n + length ?t + 2) (cstr ?b) = ''<?'' @ n @ ?t @ ''?>''"
    unfolding cs by (metis append.assoc append_eq_conv_conj)
  have len: "4 < length (cstr ?b)" unfolding cs using n(1) by (cases n) auto
  have al: "attr_loop (?t @ ''?>'' @ cstr rest) (length ?t) = Some (as, ''?>'' @ cstr rest, 0)"
    using attr_loop_print[OF w(2), of "''?>'' @ cstr rest" 0] by (simp add: stops_def)
  have "parseDeclaration ?b = Some (DFW_XML_FINDNODE,
      Some ((xml_node_new DFW_XMLNODETYPE_DECLARATION (''<?'' @ n @ ?t @ ''?>'') n)\<lparr>xn_attrs := as\<rparr>), length (''<?'' @ n @ ?t @ ''?>''))"
    unfolding parseDeclaration_def Let_def re using len al text_set_all[of n "[]"] tk by (simp add: getMatch_def)
  then show ?thesis by (simp add: parse_node_def)
qed

section \<open>The nodes of a document\<close>

fun weight :: "doc \<Rightarrow> nat" where
  "weight (Element n as cs) = 2 + sum_list (map weight cs)"
| "weight d = 1"

fun starts :: "doc list \<Rightarrow> nat \<Rightarrow> nat list" where
  "starts [] b = []"
| "starts (d # ds) b = b # starts ds (b + weight d)"

definition tag_node :: "string \<Rightarrow> xml_attribute list \<Rightarrow> nat list \<Rightarrow> xml_node" where
  "tag_node n as ids = (xml_node_new DFW_XMLNODETYPE_TAG [] n)\<lparr>xn_attrs := as, xn_childs := ids\<rparr>"

text \<open>The nodes of a tree whose first node has the number \<open>b\<close>; the closing tag is a node and the last child.\<close>

fun layout :: "doc \<Rightarrow> nat \<Rightarrow> xml_node list" and layouts :: "doc list \<Rightarrow> nat \<Rightarrow> xml_node list" where
  "layout (Element n as cs) b =
     tag_node n as (starts cs (b + 1) @ [b + 1 + sum_list (map weight cs)]) # layouts cs (b + 1) @
       [xml_node_new DFW_XMLNODETYPE_CLOSE_TAG [] n]"
| "layout (Single n as) b = [(tag_node n as [])\<lparr>xn_close := True\<rparr>]"
| "layout (Chars s) b = [xml_node_new DFW_XMLNODETYPE_TEXT s ''#text'']"
| "layout (Remark s) b = [xml_node_new DFW_XMLNODETYPE_COMMENT (''<!--'' @ s @ ''-->'') ''#comment'']"
| "layout (Instr n as) b =
     [(xml_node_new DFW_XMLNODETYPE_DECLARATION (''<?'' @ n @ print_attrs as @ ''?>'') n)\<lparr>xn_attrs := as\<rparr>]"
| "layouts [] b = []"
| "layouts (d # ds) b = layout d b @ layouts ds (b + weight d)"

lemma length_layout [simp]: "length (layout d b) = weight d" "length (layouts ds b) = sum_list (map weight ds)"
  by (induction d b and ds b rule: layout_layouts.induct) simp_all

lemma weight_pos [simp]: "0 < weight d"
  by (cases d) simp_all

text \<open>New nodes behind the others, some of them children of the innermost open node.\<close>

definition place :: "nat list \<Rightarrow> xml_node list \<Rightarrow> xml \<Rightarrow> xml" where
  "place ids new x =
     (case getParentNode x of
        Some p \<Rightarrow> x\<lparr>x_nodes := (x_nodes x)[p := (x_nodes x ! p)\<lparr>xn_childs := xn_childs (x_nodes x ! p) @ ids\<rparr>] @ new\<rparr>
      | None \<Rightarrow> x\<lparr>x_nodes := x_nodes x @ new, x_roots := x_roots x @ ids\<rparr>)"

definition open_ok :: "xml \<Rightarrow> bool" where
  "open_ok x \<longleftrightarrow> (\<forall>p\<in>set (x_open x). p < length (x_nodes x))"

lemma open_parent: "open_ok x \<Longrightarrow> getParentNode x = Some p \<Longrightarrow> p < length (x_nodes x)"
  by (auto simp: open_ok_def getParentNode_def split: if_splits)

lemma place_open [simp]: "x_open (place ids new x) = x_open x" "getParentNode (place ids new x) = getParentNode x"
  by (auto simp: place_def getParentNode_def)

lemma length_place [simp]: "length (x_nodes (place ids new x)) = length (x_nodes x) + length new"
  by (auto simp: place_def split: option.split)

lemma place_ok: "open_ok x \<Longrightarrow> open_ok (place ids new x)"
  by (auto simp: open_ok_def)

lemma place_place:
  assumes "open_ok x"
  shows "place ids' new' (place ids new x) = place (ids @ ids') (new @ new') x"
proof (cases "getParentNode x")
  case None
  then have "x_open x = []" by (simp add: getParentNode_def split: if_splits)
  then show ?thesis by (simp add: place_def getParentNode_def)
next
  case (Some p)
  with open_parent[OF assms] have "p < length (x_nodes x)" "getParentNode (place ids new x) = Some p" by simp_all
  with Some show ?thesis by (simp add: place_def nth_append list_update_append)
qed

lemma place_none [simp]: "place [] [] x = x"
  by (auto simp: place_def split: option.split)

lemma append_leaf:
  assumes "xn_type n \<noteq> DFW_XMLNODETYPE_CLOSE_TAG" "xn_type n = DFW_XMLNODETYPE_TAG \<Longrightarrow> xn_close n"
  shows "xml_append n x = place [length (x_nodes x)] [n] x"
  using assms by (auto simp: xml_append_def place_def add_child_def Let_def split: option.split)

lemma append_tag:
  assumes "xn_type n = DFW_XMLNODETYPE_TAG" "\<not> xn_close n"
  shows "xml_append n x = (place [length (x_nodes x)] [n] x)\<lparr>x_open := x_open x @ [length (x_nodes x)]\<rparr>"
  using assms by (auto simp: xml_append_def place_def add_child_def Let_def split: option.split)

lemma append_close:
  assumes "xn_type n = DFW_XMLNODETYPE_CLOSE_TAG"
  shows "xml_append n x = setClosedNode (xn_name n) (place [length (x_nodes x)] [n] x)"
  using assms by (auto simp: xml_append_def place_def add_child_def Let_def split: option.split)

lemma close_innermost:
  assumes "x_open x = os @ [p]" "same_name (xn_name (x_nodes x ! p)) name"
  shows "setClosedNode name x = x\<lparr>x_open := os\<rparr>"
  using assms by (simp add: setClosedNode_def)

lemma same_name_refl [simp]: "same_name n n"
  by (simp add: same_name_def strcaseeq_def)

text \<open>What opening an element, parsing its contents and closing it does.\<close>

lemma element_placed:
  assumes "open_ok x" "b = length (x_nodes x)" "m = length new"
  shows "xml_append (xml_node_new DFW_XMLNODETYPE_CLOSE_TAG [] n) (place ids new (xml_append (tag_node n as []) x)) =
    place [b] (tag_node n as (ids @ [b + 1 + m]) # new @ [xml_node_new DFW_XMLNODETYPE_CLOSE_TAG [] n]) x"
proof -
  let ?c = "xml_node_new DFW_XMLNODETYPE_CLOSE_TAG [] n" and ?t = "tag_node n as []"
  let ?x1 = "(place [b] [?t] x)\<lparr>x_open := x_open x @ [b]\<rparr>"
  have x1: "xml_append ?t x = ?x1" using assms(2) by (simp add: append_tag tag_node_def xml_node_new_def)
  have ok1: "open_ok ?x1" using assms by (auto simp: open_ok_def)
  have c: "xn_type ?c = DFW_XMLNODETYPE_CLOSE_TAG" "xn_name ?c = n" by (simp_all add: xml_node_new_def)
  have p1: "getParentNode ?x1 = Some b" by (simp add: getParentNode_def)
  obtain ns where ns: "x_nodes (place [b] [?t] x) = ns @ [?t]" "length ns = b"
    using assms(2) by (cases "getParentNode x") (auto simp: place_def)
  let ?x2 = "place (ids @ [b + 1 + m]) (new @ [?c]) ?x1"
  have "xml_append ?c (place ids new ?x1) = setClosedNode n ?x2"
    unfolding append_close[OF c(1)] c(2) place_place[OF ok1] using assms(2,3) by simp
  also have "x_nodes ?x2 = ns @ tag_node n as (ids @ [b + 1 + m]) # new @ [?c]"
    using ns p1 unfolding place_def[of _ _ ?x1] by (simp add: nth_append tag_node_def list_update_append)
  then have "same_name (xn_name (x_nodes ?x2 ! b)) n" using ns(2) by (simp add: nth_append tag_node_def xml_node_new_def)
  then have "setClosedNode n ?x2 = ?x2\<lparr>x_open := x_open x\<rparr>" by (intro close_innermost[of _ _ b]) simp_all
  also have "?x2\<lparr>x_open := x_open x\<rparr> = place [b] (tag_node n as (ids @ [b + 1 + m]) # new @ [?c]) x"
    using ns \<open>x_nodes ?x2 = _\<close> unfolding place_def[of _ _ ?x1] p1
    by (cases "getParentNode x") (auto simp: place_def)
  finally show ?thesis unfolding x1 .
qed

section \<open>Parsing a printed document\<close>

definition may_follow :: "doc \<Rightarrow> string \<Rightarrow> bool" where
  "may_follow d rest \<longleftrightarrow> (is_chars d \<longrightarrow> rest = [] \<or> hd rest = CHR ''<'')"

lemma print_start: "\<not> is_chars d \<Longrightarrow> print_doc d \<noteq> [] \<and> hd (print_doc d) = CHR ''<''"
  by (cases d) auto

lemma print_ne: "doc_wf d \<Longrightarrow> print_doc d \<noteq> []"
  by (cases d) auto

lemma may_follow_docs:
  assumes "apart (d # ds)" "list_all doc_wf (d # ds)" "may_follow (last (d # ds)) rest"
  shows "may_follow d (print_docs ds @ rest)"
proof (cases ds)
  case (Cons e es)
  with assms print_start[of e] show ?thesis by (cases "is_chars d") (auto simp: may_follow_def)
qed (use assms in simp)

lemma parse_loop_node:
  assumes "parse_node (p @ rest) = Some (DFW_XML_FINDNODE, Some n, length p)" "p \<noteq> []"
  shows "parse_loop (p @ rest) x = parse_loop rest (xml_append n x)"
  using assms by (subst parse_loop.simps) simp

lemma docs_from_doc:
  assumes "\<And>d x rest. d \<in> set ds \<Longrightarrow> doc_wf d \<Longrightarrow> open_ok x \<Longrightarrow> may_follow d rest \<Longrightarrow>
      parse_loop (print_doc d @ rest) x = parse_loop rest (place [length (x_nodes x)] (layout d (length (x_nodes x))) x)"
    and "list_all doc_wf ds" "apart ds" "open_ok x" "ds \<noteq> [] \<Longrightarrow> may_follow (last ds) rest"
  shows "parse_loop (print_docs ds @ rest) x =
    parse_loop rest (place (starts ds (length (x_nodes x))) (layouts ds (length (x_nodes x))) x)"
  using assms
proof (induction ds arbitrary: x)
  case (Cons d ds)
  let ?b = "length (x_nodes x)" and ?x1 = "place [length (x_nodes x)] (layout d (length (x_nodes x))) x"
  have "parse_loop (print_doc d @ print_docs ds @ rest) x = parse_loop (print_docs ds @ rest) ?x1"
    using Cons.prems may_follow_docs[of d ds rest] by simp
  also have "\<dots> = parse_loop rest (place (starts ds (?b + weight d)) (layouts ds (?b + weight d)) ?x1)"
    using Cons.IH[of ?x1] Cons.prems place_ok by (cases ds) (auto split: if_splits)
  finally show ?case using place_place[OF Cons.prems(4)] by simp
qed simp

lemma parse_doc:
  "doc_wf d \<Longrightarrow> open_ok x \<Longrightarrow> may_follow d rest \<Longrightarrow>
    parse_loop (print_doc d @ rest) x = parse_loop rest (place [length (x_nodes x)] (layout d (length (x_nodes x))) x)"
proof (induction d arbitrary: x rest)
  case (Element n as cs)
  let ?b = "length (x_nodes x)"
  let ?open = "''<'' @ n @ print_attrs as @ ''>''" and ?close = "''</'' @ n @ ''>''"
  let ?x1 = "xml_append (tag_node n as []) x"
  have w: "name_wf n" "list_all attr_wf as" "apart cs" "list_all doc_wf cs" using Element.prems(1) by simp_all
  have t: "(xml_node_new DFW_XMLNODETYPE_TAG [] n)\<lparr>xn_attrs := as, xn_close := ''>'' = ''/>''\<rparr> = tag_node n as []"
    by (simp add: tag_node_def xml_node_new_def)
  have "parse_loop (?open @ print_docs cs @ ?close @ rest) x = parse_loop (print_docs cs @ ?close @ rest) ?x1"
    using parse_node_tag[OF w(1,2), of "''>''" "print_docs cs @ ?close @ rest"] unfolding t
    by (intro parse_loop_node) simp_all
  moreover have x1: "?x1 = (place [?b] [tag_node n as []] x)\<lparr>x_open := x_open x @ [?b]\<rparr>"
    by (simp add: append_tag tag_node_def xml_node_new_def)
  have ok1: "open_ok ?x1" "length (x_nodes ?x1) = ?b + 1"
    using Element.prems(2) by (auto simp: x1 open_ok_def)
  have "parse_loop (print_docs cs @ ?close @ rest) ?x1 = parse_loop (?close @ rest) (place (starts cs (?b + 1)) (layouts cs (?b + 1)) ?x1)"
    using docs_from_doc[OF Element.IH w(4,3) ok1(1), of "?close @ rest"] ok1(2) by (simp add: may_follow_def)
  moreover have "parse_loop (?close @ rest) y = parse_loop rest (xml_append (xml_node_new DFW_XMLNODETYPE_CLOSE_TAG [] n) y)" for y
    using parse_node_close[OF w(1), of rest] by (intro parse_loop_node) simp_all
  ultimately show ?case
    using element_placed[OF Element.prems(2) refl refl, of n "starts cs (?b + 1)" "layouts cs (?b + 1)" as] by simp
next
  case (Single n as)
  have t: "(xml_node_new DFW_XMLNODETYPE_TAG [] n)\<lparr>xn_attrs := as, xn_close := ''/>'' = ''/>''\<rparr> = (tag_node n as [])\<lparr>xn_close := True\<rparr>"
    by (simp add: tag_node_def xml_node_new_def)
  have "parse_loop (print_doc (Single n as) @ rest) x = parse_loop rest (xml_append ((tag_node n as [])\<lparr>xn_close := True\<rparr>) x)"
    using parse_node_tag[of n as "''/>''" rest] Single.prems(1) unfolding t by (intro parse_loop_node) simp_all
  then show ?case by (simp add: append_leaf tag_node_def xml_node_new_def)
next
  case (Chars s)
  have "parse_loop (s @ rest) x = parse_loop rest (xml_append (xml_node_new DFW_XMLNODETYPE_TEXT s ''#text'') x)"
    using parse_node_chars[OF Chars.prems(1)] Chars.prems by (intro parse_loop_node) (simp_all add: may_follow_def)
  with append_leaf[of "xml_node_new DFW_XMLNODETYPE_TEXT s ''#text''" x] show ?case by (simp add: xml_node_new_def)
next
  case (Remark s)
  have "parse_loop (print_doc (Remark s) @ rest) x =
      parse_loop rest (xml_append (xml_node_new DFW_XMLNODETYPE_COMMENT (''<!--'' @ s @ ''-->'') ''#comment'') x)"
    using parse_node_remark[OF Remark.prems(1), of rest] by (intro parse_loop_node) simp_all
  with append_leaf[of "xml_node_new DFW_XMLNODETYPE_COMMENT (''<!--'' @ s @ ''-->'') ''#comment''" x]
  show ?case by (simp add: xml_node_new_def)
next
  case (Instr n as)
  have "parse_loop (print_doc (Instr n as) @ rest) x = parse_loop rest (xml_append
      ((xml_node_new DFW_XMLNODETYPE_DECLARATION (''<?'' @ n @ print_attrs as @ ''?>'') n)\<lparr>xn_attrs := as\<rparr>) x)"
    using parse_node_instr[OF Instr.prems(1), of rest] by (intro parse_loop_node) simp_all
  with append_leaf[of "(xml_node_new DFW_XMLNODETYPE_DECLARATION (''<?'' @ n @ print_attrs as @ ''?>'') n)\<lparr>xn_attrs := as\<rparr>" x]
  show ?case by (simp add: xml_node_new_def)
qed

lemma parse_docs:
  assumes "list_all doc_wf ds" "apart ds"
  shows "parse_loop (print_docs ds) xml_new =
    Some (DFW_XML_OK, [], \<lparr>x_nodes = layouts ds 0, x_roots = starts ds 0, x_open = []\<rparr>)"
proof -
  have "open_ok xml_new" by (simp add: open_ok_def xml_new_def)
  with docs_from_doc[OF parse_doc, of ds xml_new "[]"] assms have
    "parse_loop (print_docs ds) xml_new = parse_loop [] (place (starts ds 0) (layouts ds 0) xml_new)"
    by (simp add: may_follow_def xml_new_def)
  then show ?thesis by (subst (asm) (2) parse_loop.simps) (simp add: place_def xml_new_def getParentNode_def)
qed

section \<open>Reading back\<close>

text \<open>The tree below a node; closing tags are not part of it.  \<open>f\<close> bounds its depth.\<close>

fun read_doc :: "nat \<Rightarrow> xml_node list \<Rightarrow> nat \<Rightarrow> doc option" where
  "read_doc 0 ns i = None"
| "read_doc (Suc f) ns i =
     (let n = ns ! i in
      case xn_type n of
        DFW_XMLNODETYPE_TEXT \<Rightarrow> Some (Chars (xn_text n))
      | DFW_XMLNODETYPE_COMMENT \<Rightarrow> Some (Remark (drop 4 (take (length (xn_text n) - 3) (xn_text n))))
      | DFW_XMLNODETYPE_DECLARATION \<Rightarrow> Some (Instr (xn_name n) (xn_attrs n))
      | DFW_XMLNODETYPE_TAG \<Rightarrow>
          if xn_close n then Some (Single (xn_name n) (xn_attrs n))
          else map_option (Element (xn_name n) (xn_attrs n))
                 (those (map (read_doc f ns) (filter (\<lambda>c. xn_type (ns ! c) \<noteq> DFW_XMLNODETYPE_CLOSE_TAG) (xn_childs n))))
      | _ \<Rightarrow> None)"

definition lies :: "xml_node list \<Rightarrow> nat \<Rightarrow> xml_node list \<Rightarrow> bool" where
  "lies ns i new \<longleftrightarrow> prefix new (drop i ns)"

lemma lies_append: "lies ns i (a @ b) \<longleftrightarrow> lies ns i a \<and> lies ns (i + length a) b"
proof -
  have "drop (i + length a) ns = drop (length a) (drop i ns)" by (simp add: add.commute)
  then show ?thesis unfolding lies_def by (simp only:) (auto simp: prefix_def simp del: drop_drop)
qed

lemma lies_Cons: "lies ns i (n # b) \<longleftrightarrow> i < length ns \<and> ns ! i = n \<and> lies ns (Suc i) b"
proof (cases "i < length ns")
  case True
  then have "drop i ns = ns ! i # drop (Suc i) ns" by (simp add: Cons_nth_drop_Suc)
  with True show ?thesis by (auto simp: lies_def)
qed (simp add: lies_def)

fun depth :: "doc \<Rightarrow> nat" where
  "depth (Element n as cs) = Suc (foldr max (map depth cs) 0)"
| "depth d = 1"

lemma depth_child: "c \<in> set cs \<Longrightarrow> depth c < depth (Element n as cs)"
  by (induction cs) (auto simp: less_Suc_eq_le le_max_iff_disj)

lemma depth_weight: "depth d \<le> weight d"
proof (induction d)
  case (Element n as cs)
  have "foldr max (map depth cs) 0 \<le> sum_list (map weight cs)"
    using Element by (induction cs) (auto intro: trans_le_add1 trans_le_add2)
  then show ?case by simp
qed simp_all

text \<open>The children of an element: the first nodes of its parts and a closing tag.\<close>

lemma lies_parts:
  assumes "lies ns b (layouts cs b)"
  shows "list_all2 (\<lambda>c i. lies ns i (layout c i)) cs (starts cs b)"
  using assms by (induction cs arbitrary: b) (auto simp: lies_append)

lemma lies_element:
  assumes "lies ns b (layout (Element n as cs) b)"
  shows "\<exists>j. b < length ns \<and> ns ! b = tag_node n as (starts cs (b + 1) @ [j]) \<and> xn_type (ns ! j) = DFW_XMLNODETYPE_CLOSE_TAG \<and>
    list_all2 (\<lambda>c i. lies ns i (layout c i)) cs (starts cs (b + 1))"
  using assms lies_parts[of ns "b + 1" cs]
  by (auto simp: lies_Cons lies_append xml_node_new_def intro!: exI[of _ "b + 1 + sum_list (map weight cs)"])

lemma lies_type: "lies ns i (layout c i) \<Longrightarrow> xn_type (ns ! i) \<noteq> DFW_XMLNODETYPE_CLOSE_TAG"
  by (cases c) (auto simp: lies_Cons tag_node_def xml_node_new_def)

lemma parts_not_close:
  "list_all2 (\<lambda>c i. lies ns i (layout c i)) cs is \<Longrightarrow> filter (\<lambda>c. xn_type (ns ! c) \<noteq> DFW_XMLNODETYPE_CLOSE_TAG) is = is"
  by (induction rule: list_all2_induct) (auto simp: lies_type)

lemma those_map2:
  "list_all2 (\<lambda>c i. f i = Some c) cs is \<Longrightarrow> those (map f is) = Some cs"
  by (induction rule: list_all2_induct) auto

lemma read_lies: "lies ns i (layout d i) \<Longrightarrow> depth d \<le> f \<Longrightarrow> read_doc f ns i = Some d"
proof (induction d arbitrary: i f)
  case (Element n as cs)
  then obtain g where f: "f = Suc g" by (cases f) auto
  obtain j where j: "ns ! i = tag_node n as (starts cs (i + 1) @ [j])" "xn_type (ns ! j) = DFW_XMLNODETYPE_CLOSE_TAG"
      "list_all2 (\<lambda>c i. lies ns i (layout c i)) cs (starts cs (i + 1))"
    using lies_element[OF Element.prems(1)] by blast
  have "list_all2 (\<lambda>c i. read_doc g ns i = Some c) cs (starts cs (i + 1))"
    unfolding list_all2_conv_all_nth
  proof (intro conjI allI impI)
    fix k
    assume k: "k < length cs"
    with j(3) have "lies ns (starts cs (i + 1) ! k) (layout (cs ! k) (starts cs (i + 1) ! k))"
      by (simp add: list_all2_conv_all_nth)
    moreover have "depth (cs ! k) \<le> g" using depth_child[of "cs ! k" cs n as] k Element.prems(2) f by simp
    ultimately show "read_doc g ns (starts cs (i + 1) ! k) = Some (cs ! k)" using Element.IH k by simp
  qed (use j(3) in \<open>simp add: list_all2_conv_all_nth\<close>)
  from those_map2[OF this] show ?case
    using j parts_not_close[OF j(3)] by (simp add: f tag_node_def xml_node_new_def Let_def)
qed (auto simp: lies_Cons tag_node_def xml_node_new_def Let_def elim!: le_SucE dest!: Suc_le_D)

section \<open>The parsed document\<close>

definition doc_of :: "doc list \<Rightarrow> xml" where
  "doc_of ds = \<lparr>x_nodes = layouts ds 0, x_roots = starts ds 0, x_open = []\<rparr>"

lemma parse_printed_docs:
  assumes "list_all doc_wf ds" "apart ds" "ds \<noteq> []"
  shows "parseBuffer_more (print_docs ds) xml_parser_new = Some (DFW_XML_OK, xml_parser_new\<lparr>xp_result := Some (doc_of ds)\<rparr>)"
proof -
  have "print_docs ds \<noteq> []" using assms print_ne by (cases ds) auto
  then show ?thesis
    using parse_docs[OF assms(1,2)]
    by (simp add: parseBuffer_more_def parseBuffer_def xml_parser_new_def doc_of_def Let_def del: concat_eq_Nil_conv)
qed

lemma roots_lie:
  "list_all2 (\<lambda>d i. lies (x_nodes (doc_of ds)) i (layout d i)) ds (x_roots (doc_of ds))"
  using lies_parts[of "layouts ds 0" 0 ds] by (simp add: doc_of_def lies_def)

lemma weight_member: "d \<in> set ds \<Longrightarrow> weight d \<le> length (x_nodes (doc_of ds))"
  by (simp add: doc_of_def member_le_sum_list)

lemma depth_member: "d \<in> set ds \<Longrightarrow> depth d \<le> length (x_nodes (doc_of ds))"
  using weight_member depth_weight le_trans by blast

lemma read_list:
  assumes "list_all2 (\<lambda>d i. lies ns i (layout d i)) ds is" "\<And>d. d \<in> set ds \<Longrightarrow> depth d \<le> f"
  shows "those (map (read_doc f ns) is) = Some ds"
  using assms by (intro those_map2) (auto simp: list_all2_conv_all_nth intro!: read_lies)

text \<open>C7. What the parser makes of a well-formed text is its tree: of any documents printed from elements (with attributes, contents
  nested to any depth, open or closed at once), character data, comments and instructions, the parser consumes everything, no element
  is left open, and the nodes read back along the children are the documents.  Names are those the parser's patterns take, attribute
  values stand in double quotes (in an instruction without a question mark) and do not end with a backslash that the parser takes for an escape of the closing quote, and
  no two character data are neighbours.\<close>

theorem xml_round_trip:
  assumes "list_all doc_wf ds" "apart ds" "ds \<noteq> []"
  shows "\<exists>x. parseBuffer_more (print_docs ds) xml_parser_new = Some (DFW_XML_OK, xml_parser_new\<lparr>xp_result := Some x\<rparr>) \<and>
    x_open x = [] \<and> those (map (read_doc (length (x_nodes x)) (x_nodes x)) (x_roots x)) = Some ds"
  using parse_printed_docs[OF assms] read_list[OF roots_lie depth_member] by (intro exI[of _ "doc_of ds"]) (simp add: doc_of_def)

section \<open>The text of an element\<close>

fun doc_text :: "doc \<Rightarrow> string" where
  "doc_text (Element n as cs) = concat (map doc_text cs)"
| "doc_text (Chars s) = s"
| "doc_text d = []"

lemma opt_concat_append: "opt_concat (a @ b) = do { x \<leftarrow> opt_concat a; y \<leftarrow> opt_concat b; Some (x @ y) }"
  by (induction a) (auto split: bind_splits)

lemma opt_concat_all:
  "list_all2 (\<lambda>a v. a = Some v) as vs \<Longrightarrow> opt_concat as = Some (concat vs)"
  by (induction rule: list_all2_induct) auto

lemma lies_node:
  "lies ns i (layout d i) \<Longrightarrow> \<not> is_chars d \<Longrightarrow> xn_type (ns ! i) \<noteq> DFW_XMLNODETYPE_TEXT"
  "lies ns i (layout (Chars s) i) \<Longrightarrow> ns ! i = xml_node_new DFW_XMLNODETYPE_TEXT s ''#text''"
  "lies ns i (layout (Single n as) i) \<Longrightarrow> ns ! i = (tag_node n as [])\<lparr>xn_close := True\<rparr>"
  by (cases d) (auto simp: lies_Cons tag_node_def xml_node_new_def)

lemma text_lies:
  "lies ns i (layout (Element n as cs) i) \<Longrightarrow> depth (Element n as cs) \<le> f \<Longrightarrow> xml_text f ns i = Some (concat (map doc_text cs))"
proof (induction f arbitrary: n as cs i)
  case (Suc f)
  obtain j where j: "ns ! i = tag_node n as (starts cs (i + 1) @ [j])" "xn_type (ns ! j) = DFW_XMLNODETYPE_CLOSE_TAG"
      "list_all2 (\<lambda>c i. lies ns i (layout c i)) cs (starts cs (i + 1))"
    using lies_element[OF Suc.prems(1)] by blast
  let ?f = "\<lambda>c. if xn_type (ns ! c) = DFW_XMLNODETYPE_TEXT then Some (xn_text (ns ! c))
                else if xn_type (ns ! c) = DFW_XMLNODETYPE_TAG then xml_text f ns c else Some []"
  have "?f k = Some (doc_text c)" if "c \<in> set cs" "lies ns k (layout c k)" for c k
  proof (cases c)
    case (Element n' as' cs')
    have "depth c \<le> f" using depth_child[OF that(1), of n as] Suc.prems(2) by simp
    moreover have "xn_type (ns ! k) = DFW_XMLNODETYPE_TAG"
      using that(2) Element by (auto simp: lies_Cons tag_node_def xml_node_new_def)
    ultimately show ?thesis using Suc.IH[of k n' as' cs'] that(2) Element by simp
  next
    case (Single n' as')
    have "0 < f" using depth_child[OF that(1), of n as] Suc.prems(2) by (cases c) auto
    then obtain g where "f = Suc g" by (cases f) auto
    with lies_node(3) that(2) Single show ?thesis by (simp add: tag_node_def xml_node_new_def)
  qed (use that(2) in \<open>auto simp: lies_Cons xml_node_new_def\<close>)
  with j(3) have "list_all2 (\<lambda>a v. a = Some v) (map ?f (starts cs (i + 1))) (map doc_text cs)"
    by (auto simp: list_all2_conv_all_nth)
  from opt_concat_all[OF this] have "opt_concat (map ?f (starts cs (i + 1))) = Some (concat (map doc_text cs))" .
  then show ?case using j(1,2) by (simp add: opt_concat_append tag_node_def)
qed simp

text \<open>C18. The text of an element of a parsed document is its character data in the order of the text, at every depth, without
  comments, instructions and tags.\<close>

theorem xml_text_is_character_data:
  assumes "list_all doc_wf ds" "apart ds" "k < length ds" "ds ! k = Element n as cs"
  shows "\<exists>x. parseBuffer_more (print_docs ds) xml_parser_new = Some (DFW_XML_OK, xml_parser_new\<lparr>xp_result := Some x\<rparr>) \<and>
    xml_text (length (x_nodes x)) (x_nodes x) (x_roots x ! k) = Some (concat (map doc_text cs))"
proof -
  have ne: "ds \<noteq> []" using assms(3) by auto
  have "lies (x_nodes (doc_of ds)) (x_roots (doc_of ds) ! k) (layout (ds ! k) (x_roots (doc_of ds) ! k))"
    using roots_lie[of ds] assms(3) by (simp add: list_all2_conv_all_nth)
  moreover have "depth (ds ! k) \<le> length (x_nodes (doc_of ds))" using depth_member assms(3) by simp
  ultimately show ?thesis
    using text_lies parse_printed_docs[OF assms(1,2) ne] unfolding assms(4) by blast
qed

section \<open>Search\<close>

text \<open>The elements with a name that are not inside another one of that name.\<close>

fun outermost :: "string \<Rightarrow> doc \<Rightarrow> doc list" where
  "outermost m (Element n as cs) = (if text_equals n m then [Element n as cs] else concat (map (outermost m) cs))"
| "outermost m (Single n as) = (if text_equals n m then [Single n as] else [])"
| "outermost m d = []"

lemma query_name: "name_wf m \<Longrightarrow> query_matches n m \<longleftrightarrow> text_equals (xn_name n) m"
proof -
  assume m: "name_wf m"
  have "\<not> name_char CHR ''[''" "\<not> name_char CHR ''#''" "\<not> name_char CHR ''.''"
    by (auto simp: name_char_def c_isupper_def c_islower_def c_isdigit_def uchar_def)
  with m have l: "CHR ''['' \<notin> set m" "CHR ''#'' \<notin> set m" "CHR ''.'' \<notin> set m" using name_lacks by blast+
  have "takeWhile (\<lambda>c. c \<noteq> CHR ''['') (cstr m) = m"
    using l(1) name_no_nul[OF m] by (auto simp: cstr_no_nul takeWhile_eq_all_conv)
  moreover have "m \<noteq> []" "hd m \<noteq> CHR ''#''" "hd m \<noteq> CHR ''.''"
    using m l by (cases m; auto simp: name_wf_def)+
  ultimately show ?thesis by (simp add: query_matches_def)
qed

definition is_tag :: "doc \<Rightarrow> bool" where
  "is_tag d \<longleftrightarrow> (\<exists>n as cs. d = Element n as cs) \<or> (\<exists>n as. d = Single n as)"

lemma lies_tag: "lies ns i (layout d i) \<Longrightarrow> xn_type (ns ! i) = DFW_XMLNODETYPE_TAG \<longleftrightarrow> is_tag d"
  by (cases d) (auto simp: lies_Cons tag_node_def xml_node_new_def is_tag_def)

lemma search_lies:
  assumes "name_wf m"
  shows "lies ns i (layout d i) \<Longrightarrow> is_tag d \<Longrightarrow> depth d \<le> f \<Longrightarrow>
    \<exists>is. xml_search f ns [m] 0 i = Some is \<and> list_all2 (\<lambda>d i. lies ns i (layout d i)) (outermost m d) is"
proof (induction f arbitrary: d i)
  case (Suc f)
  show ?case
  proof (cases d)
    case (Element n as cs)
    obtain j where j: "ns ! i = tag_node n as (starts cs (i + 1) @ [j])" "xn_type (ns ! j) = DFW_XMLNODETYPE_CLOSE_TAG"
        "list_all2 (\<lambda>c i. lies ns i (layout c i)) cs (starts cs (i + 1))"
      using lies_element Suc.prems(1) Element by blast
    let ?tags = "filter (\<lambda>c. xn_type (ns ! c) = DFW_XMLNODETYPE_TAG)"
    have "\<forall>c\<in>set cs. depth c \<le> f" using depth_child[of _ cs n as] Suc.prems(3) Element by fastforce
    with j(3) have "\<exists>is. opt_concat (map (xml_search f ns [m] 0) (?tags (starts cs (i + 1)))) = Some is \<and>
        list_all2 (\<lambda>d i. lies ns i (layout d i)) (concat (map (outermost m) cs)) is"
    proof (induction rule: list_all2_induct)
      case (Cons c cs k ks)
      then obtain rs where rs: "opt_concat (map (xml_search f ns [m] 0) (?tags ks)) = Some rs"
          "list_all2 (\<lambda>d i. lies ns i (layout d i)) (concat (map (outermost m) cs)) rs" by auto
      show ?case
      proof (cases "is_tag c")
        case True
        with Suc.IH[OF Cons.hyps(1)] Cons.prems obtain qs where
          "xml_search f ns [m] 0 k = Some qs" "list_all2 (\<lambda>d i. lies ns i (layout d i)) (outermost m c) qs" by auto
        with rs lies_tag[OF Cons.hyps(1)] True show ?thesis by (auto intro: list_all2_appendI)
      next
        case False
        then have "outermost m c = []" by (cases c) (auto simp: is_tag_def)
        with rs lies_tag[OF Cons.hyps(1)] False show ?thesis by simp
      qed
    qed simp
    with j(1,2) Suc.prems(1) Element show ?thesis
      using query_name[OF assms] by (auto simp: tag_node_def xml_node_new_def)
  next
    case (Single n as)
    with lies_node(3) Suc.prems(1) show ?thesis
      using query_name[OF assms] by (auto simp: tag_node_def xml_node_new_def)
  qed (use Suc.prems(2) in \<open>auto simp: is_tag_def\<close>)
qed (auto simp: is_tag_def)

lemma outermost_depth: "e \<in> set (outermost m d) \<Longrightarrow> depth e \<le> depth d"
proof (induction d)
  case (Element n as cs)
  show ?case
  proof (cases "text_equals n m")
    case False
    with Element.prems obtain c where "c \<in> set cs" "e \<in> set (outermost m c)" by auto
    with Element.IH depth_child[of c cs n as] show ?thesis by fastforce
  qed (use Element.prems in simp)
qed (auto split: if_splits)

lemma split_one:
  assumes "name_wf m" "al_out al \<noteq> AllocFails"
  shows "\<exists>a. string_array_split al (Some (m @ [NUL])) (Some ('' '' @ [NUL])) arr_init = Some (None, a) \<and> a_size a \<noteq> 0 \<and> elems a = [m]"
proof -
  have m: "SPC \<notin> set m" "NUL \<notin> set m" "m \<noteq> []"
    using assms(1) name_lacks name_no_nul by (auto simp: name_wf_def)
  obtain a where a: "split_loop al [SPC] m arr_init = Some (None, a)" "arr_ok a" "elems a = [m]"
    using split_loop_fields[OF assms(2), of arr_init SPC m] m(1,3) by (auto simp: fields_notin)
  have "cstr (m @ [NUL]) = m" "cstr ('' '' @ [NUL]) = [SPC]" using cstr_append_nul[of m] cstr_append_nul[of "[SPC]"] m(2) by simp_all
  with a show ?thesis using length_elems[OF a(2)] by (intro exI[of _ a]) (simp add: string_array_split_def)
qed

text \<open>C17. A query of one name finds the elements of that name in the order of the text, at any depth and without regard to case, but not
  those inside another one that it has found.\<close>

theorem xml_search_finds_outermost:
  assumes "list_all doc_wf ds" "apart ds" "k < length ds" "is_tag (ds ! k)" "name_wf m" "al_out al \<noteq> AllocFails"
  shows "\<exists>x is. parseBuffer_more (print_docs ds) xml_parser_new = Some (DFW_XML_OK, xml_parser_new\<lparr>xp_result := Some x\<rparr>) \<and>
    search_query al (length (x_nodes x)) (x_nodes x) (x_roots x ! k) (Some (m @ [NUL])) = Some is \<and>
    those (map (read_doc (length (x_nodes x)) (x_nodes x)) is) = Some (outermost m (ds ! k))"
proof -
  let ?x = "doc_of ds"
  have ne: "ds \<noteq> []" using assms(3) by auto
  have l: "lies (x_nodes ?x) (x_roots ?x ! k) (layout (ds ! k) (x_roots ?x ! k))"
    using roots_lie[of ds] assms(3) by (simp add: list_all2_conv_all_nth)
  have d: "depth (ds ! k) \<le> length (x_nodes ?x)" using depth_member assms(3) by simp
  obtain "is" where res: "xml_search (length (x_nodes ?x)) (x_nodes ?x) [m] 0 (x_roots ?x ! k) = Some is"
      "list_all2 (\<lambda>d i. lies (x_nodes ?x) i (layout d i)) (outermost m (ds ! k)) is"
    using search_lies[OF assms(5) l assms(4) d] by blast
  obtain a where a: "string_array_split al (Some (m @ [NUL])) (Some ('' '' @ [NUL])) arr_init = Some (None, a)" "a_size a \<noteq> 0" "elems a = [m]"
    using split_one[OF assms(5,6)] by blast
  have "search_query al (length (x_nodes ?x)) (x_nodes ?x) (x_roots ?x ! k) (Some (m @ [NUL])) = Some is"
    unfolding search_query_def a(1) using a(2,3) res(1) by simp
  moreover have "those (map (read_doc (length (x_nodes ?x)) (x_nodes ?x)) is) = Some (outermost m (ds ! k))"
    using outermost_depth d by (intro read_list[OF res(2)]) (meson le_trans)
  ultimately show ?thesis using parse_printed_docs[OF assms(1,2) ne] by blast
qed

section \<open>Texts that are cut, and declarations of a type\<close>

lemma tag_cut:
  assumes "name_wf n" "list_all attr_wf as" "1 < length n"
  shows "parse_node (''<'' @ n @ print_attrs as) = Some (DFW_XML_NEED_BUFFER, None, 0)"
proof -
  let ?t = "print_attrs as" and ?ss = "1 + length n"
  let ?buf = "''<'' @ n @ ?t"
  have n: "n \<noteq> []" "list_all name_char n" using assms(1) by (simp_all add: name_wf_def)
  have "NUL \<notin> set ?buf" using name_no_nul[OF assms(1)] print_attrs_no_nul[OF assms(2)] by auto
  then have cs: "cstr ?buf = ?buf" by (rule cstr_id)
  have tw: "takeWhile name_char (n @ ?t) = n"
  proof (cases as)
    case (Cons a as')
    then obtain r where "?t = SPC # r" by (simp add: print_attr_def)
    with takeWhile_name[OF n(2), of SPC r] show ?thesis by simp
  qed (use n(2) in \<open>simp add: list_all_iff takeWhile_eq_all_conv\<close>)
  have re: "re_tag ''<'' (cstr ?buf) = Some n" unfolding cs re_tag_def using n tw by simp
  have "\<not> prefix ''<?'' ?buf" using n by (cases n) auto
  moreover have "parseUnknownAttributes ?t (length ?t) = Some None"
    using attr_loop_print[OF assms(2), of "[]" 0] by (simp add: parseUnknownAttributes_def stops_def)
  moreover have "getMatch ?buf 1 n = Some n" using assms(3) by (simp add: getMatch_def)
  ultimately have "parseTag ?buf = Some (DFW_XML_NEED_BUFFER, None, 0)" "parseDeclaration ?buf = Some NOT_HERE"
    unfolding parseTag_def parse_tag_def Let_def re using cs text_set_all[of n "[]"] by simp_all
  then show ?thesis by (simp add: parse_node_def)
qed

lemma letter_cut:
  assumes "name_char c"
  shows "parse_node [CHR ''<'', c] = None"
proof -
  note f = name_char_facts[OF assms]
  have cs: "cstr [CHR ''<'', c] = [CHR ''<'', c]" using f(1) by (simp add: cstr_def)
  have "re_tag ''<'' [CHR ''<'', c] = Some [c]" using assms by (simp add: re_tag_def)
  then have "parseTag [CHR ''<'', c] = None"
    by (simp add: parseTag_def parse_tag_def Let_def cs getMatch_def text_set_n_def ptr_read_def)
  moreover have "parseDeclaration [CHR ''<'', c] = Some NOT_HERE" using f(7) cs by simp
  ultimately show ?thesis by (simp add: parse_node_def or_else_def)
qed

lemma attribute_cut:
  assumes "name_wf n" "name_char c"
  shows "parse_node (''<'' @ n @ [SPC, c]) = None"
proof -
  note f = name_char_facts[OF assms(2)]
  let ?buf = "''<'' @ n @ [SPC, c]"
  have n: "n \<noteq> []" "list_all name_char n" using assms(1) by (simp_all add: name_wf_def)
  have "NUL \<notin> set ?buf" using name_no_nul[OF assms(1)] f(1) by auto
  then have cs: "cstr ?buf = ?buf" by (rule cstr_id)
  have re: "re_tag ''<'' (cstr ?buf) = Some n" unfolding cs re_tag_def using n takeWhile_name[OF n(2), of SPC "[c]"] by simp
  have "c_isspace SPC" by (simp add: c_isspace_def uchar_def)
  then have "parseAttributes_real [SPC, c] 2 = None"
    using f assms(2)
    by (simp add: parseAttributes_real_def cstr_def re_attr_def re_name_def getMatch_def text_set_n_def ptr_read_def Let_def)
  then have "attr_loop [SPC, c] 2 = None" by (subst attr_loop.simps) simp
  then have "parseUnknownAttributes [SPC, c] 2 = None" by (simp add: parseUnknownAttributes_def)
  moreover have "getMatch ?buf 1 n = Some n" using n(1) by (cases n) (auto simp: getMatch_def)
  ultimately have "parseTag ?buf = None"
    unfolding parseTag_def parse_tag_def Let_def re using cs text_set_all[of n "[]"] by simp
  moreover have "\<not> prefix ''<?'' (cstr ?buf)" unfolding cs using n by (cases n) auto
  then have "parseDeclaration ?buf = Some NOT_HERE" by (rule no_declaration)
  ultimately show ?thesis by (simp add: parse_node_def or_else_def)
qed

text \<open>C19. A text that is cut inside a tag, behind its name or an attribute, waits for more and keeps what it has, so the parser goes on where
  it stopped; cut elsewhere it does not: behind \<open><\<close> the parser reports an error of syntax, and behind the first letter of a
  name it copies from the NULL that \<open>Regexp::getMatch\<close> returns for a text of at most two characters.\<close>

theorem xml_cut_text:
  assumes "name_wf n" "1 < length n" "list_all attr_wf as" "name_char c"
  shows "parse_loop (''<'' @ n @ print_attrs as) x = Some (DFW_XML_NEED_BUFFER, ''<'' @ n @ print_attrs as, x) \<and>
    parse_loop ''<'' x = Some (DFW_XML_ESYNTAX, ''<'', x) \<and>
    parse_loop [CHR ''<'', c] x = None \<and> parse_loop (''<'' @ n @ [SPC, c]) x = None"
proof (intro conjI)
  show "parse_loop (''<'' @ n @ print_attrs as) x = Some (DFW_XML_NEED_BUFFER, ''<'' @ n @ print_attrs as, x)"
    using tag_cut[OF assms(1,3,2)] by (subst parse_loop.simps) simp
  have "parse_node ''<'' = Some NOT_HERE" by code_simp
  then show "parse_loop ''<'' x = Some (DFW_XML_ESYNTAX, ''<'', x)" by (subst parse_loop.simps) simp
  show "parse_loop [CHR ''<'', c] x = None" using letter_cut[OF assms(4)] by (subst parse_loop.simps) simp
  show "parse_loop (''<'' @ n @ [SPC, c]) x = None" using attribute_cut[OF assms(1,4)] by (subst parse_loop.simps) simp
qed

text \<open>C21. No text with a declaration of its type, \<open><!DOCTYPE \<dots>>\<close>, is parsed: the node is made and not handed out, so the parser stops
  in front of it with an error, and stops there again when it is called again.\<close>

theorem doctype_is_an_error:
  assumes "list_all none_char n" "n \<noteq> []" "hd n \<noteq> CHR ''-''" "CHR ''>'' \<notin> set t" "NUL \<notin> set t"
  shows "parse_loop (''<!'' @ n @ SPC # t @ ''>'' @ rest) x = Some (DFW_XML_ERROR, ''<!'' @ n @ SPC # t @ ''>'' @ rest, x)"
proof -
  let ?buf = "''<!'' @ n @ SPC # t @ ''>'' @ rest" and ?r = "SPC # t @ CHR ''>'' # cstr rest"
  have sp: "\<not> none_char SPC" "\<not> none_char NUL" by (simp_all add: none_char_def)
  have "NUL \<notin> set (''<!'' @ n @ SPC # t @ ''>'')" using assms(1,5) sp(2) by (auto simp: list_all_iff)
  from cstr_append[OF this, of rest] have cs: "cstr ?buf = ''<!'' @ n @ ?r" by simp
  have tw: "takeWhile none_char (n @ ?r) = n" "dropWhile none_char (n @ ?r) = ?r"
    using assms(1) sp(1) by (induction n) auto
  have st: "strstr ?r ''>'' = Some (length t + 1)" using strstr_char[of "CHR ''>''" "SPC # t" "cstr rest"] assms(4) by simp
  have len: "4 < length (cstr ?buf)" unfolding cs using assms(2) by (cases n) auto
  have "parseNoneTag ?buf = Some (DFW_XML_FINDNODE, None, 2 + length n + (length t + 1) + 1)"
    unfolding parseNoneTag_def Let_def using len st tw cs text_set_all[of n "[]"] text_set_all[of "SPC # t" "CHR ''>'' # cstr rest"]
    by (simp add: getMatch_def)
  moreover have "\<not> prefix ''<?'' (cstr ?buf)" "re_tag ''<'' (cstr ?buf) = None" "re_tag ''</'' (cstr ?buf) = None"
      "\<not> prefix ''<!--'' (cstr ?buf)"
    unfolding cs using assms(2,3) by (cases n; auto simp: re_tag_def)+
  ultimately have "parse_node ?buf = Some (DFW_XML_FINDNODE, None, 2 + length n + (length t + 1) + 1)"
    unfolding parse_node_def parseTag_def parseCloseTag_def by (simp add: no_tag parseCommentTag_def Let_def)
  then show ?thesis by (subst parse_loop.simps) simp
qed

section \<open>A document\<close>

definition demo_docs :: "doc list" where
  "demo_docs = [Instr ''xml'' [(''version'', ''1.0'')],
     Element ''r'' [(''k'', ''a>b'')] [Chars ''x '', Element ''i'' [] [Chars ''y'', Element ''i'' [] []], Single ''I'' [], Remark ''z'', Chars ''w'']]"

lemma demo_docs_wf: "list_all doc_wf demo_docs" "apart demo_docs"
  by code_simp+

theorem xml_round_trip_witness:
  "\<exists>x. parseBuffer_more (print_docs demo_docs) xml_parser_new = Some (DFW_XML_OK, xml_parser_new\<lparr>xp_result := Some x\<rparr>) \<and>
    x_open x = [] \<and> those (map (read_doc (length (x_nodes x)) (x_nodes x)) (x_roots x)) = Some demo_docs"
  by (rule xml_round_trip[OF demo_docs_wf]) (simp add: demo_docs_def)

theorem xml_text_is_character_data_witness:
  "\<exists>x. parseBuffer_more (print_docs demo_docs) xml_parser_new = Some (DFW_XML_OK, xml_parser_new\<lparr>xp_result := Some x\<rparr>) \<and>
    xml_text (length (x_nodes x)) (x_nodes x) (x_roots x ! 1) = Some ''x yw''"
  using xml_text_is_character_data[OF demo_docs_wf, of 1] by (simp add: demo_docs_def)

theorem xml_search_finds_outermost_witness:
  "\<exists>x is. parseBuffer_more (print_docs demo_docs) xml_parser_new = Some (DFW_XML_OK, xml_parser_new\<lparr>xp_result := Some x\<rparr>) \<and>
    search_query \<lparr>al_out = AllocOk, al_fill = NUL\<rparr> (length (x_nodes x)) (x_nodes x) (x_roots x ! 1) (Some (''i'' @ [NUL])) = Some is \<and>
    those (map (read_doc (length (x_nodes x)) (x_nodes x)) is) = Some [Element ''i'' [] [Chars ''y'', Element ''i'' [] []], Single ''I'' []]"
proof -
  have "outermost ''i'' (demo_docs ! 1) = [Element ''i'' [] [Chars ''y'', Element ''i'' [] []], Single ''I'' []]"
    by code_simp
  moreover have "is_tag (demo_docs ! 1)" "1 < length demo_docs" by (simp_all add: demo_docs_def is_tag_def)
  moreover have "name_wf ''i''" by code_simp
  ultimately show ?thesis using xml_search_finds_outermost[OF demo_docs_wf, of 1 "''i''" "\<lparr>al_out = AllocOk, al_fill = NUL\<rparr>"] by simp
qed

theorem xml_cut_text_witness:
  "parse_loop (''<ab'' @ print_attrs [(''k'', ''v'')]) xml_new = Some (DFW_XML_NEED_BUFFER, ''<ab'' @ print_attrs [(''k'', ''v'')], xml_new) \<and>
   parse_loop ''<a'' xml_new = None"
proof -
  have "name_wf ''ab''" "1 < length ''ab''" "list_all attr_wf [(''k'', ''v'')]" "name_char CHR ''a''" by code_simp+
  from xml_cut_text[OF this, of xml_new] show ?thesis by simp
qed

theorem doctype_is_an_error_witness:
  "parse_loop (''<!DOCTYPE html><html/>'') xml_new = Some (DFW_XML_ERROR, ''<!DOCTYPE html><html/>'', xml_new)"
proof -
  have "list_all none_char ''DOCTYPE''" by code_simp
  from doctype_is_an_error[OF this, of "''html''" "''<html/>''" xml_new] show ?thesis by simp
qed

text \<open>A backslash at the end of a value, an ordinary character in XML, hides the closing quote: this complete text is
  never read, the parser waits for more.\<close>

lemma trailing_backslash_waits:
  "map_option (\<lambda>(s, _). s) (parse_loop (''<a k='' @ [DQUOTE, BACKSLASH, DQUOTE] @ ''>x</a>'') xml_new) = Some DFW_XML_NEED_BUFFER"
  by code_simp

end
