(* ===== verification/Spec2Isabelle.thy ===== *)
theory Spec2Isabelle
  imports Dfw_Array_Spec Dfw_Queue Dfw_Sp Dfw_Base64 Dfw_MD5 Dfw_Uri_Spec Dfw_Time_Spec
    Dfw_HttpRange_Spec Dfw_HttpChunked_Spec Dfw_HttpQuery_Spec Dfw_Poll_Spec Dfw_Xml_Spec
begin

text \<open>
  A verification library of the \<open>dframework\<close> C++ library: \<open>src/include/dframework\<close> (the headers)
  and \<open>src/lib\<close> (the sources).  Everything under \<open>src/packages\<close> is third-party code and enters,
  where it is used at all, as a parameter.

  \<^bold>\<open>The program.\<close>  The base is reference counting (\<open>Object\<close>, \<open>sp\<close>), result codes (\<open>Retval\<close>) and
  the owning \<open>String\<close>.  Containers (\<open>ArrayBase\<close>, \<open>Array\<close>, \<open>ArraySorted\<close>, \<open>ArraySelfSorted\<close>,
  \<open>ArrayLinked\<close>, \<open>Queue\<close>) hold smart pointers and compare by the six operators that the macros
  of \<open>D_Sorted.h\<close> declare.  On them rest encodings (\<open>Base64\<close>, \<open>MD5\<close>), \<open>URI\<close>, calendar time,
  and the HTTP layer: header lists (\<open>HttpHeader\<close>), the server's request parser (\<open>HttpRequest\<close>,
  \<open>HttpdUtil\<close>), its answers (\<open>HttpResponse\<close>, \<open>HttpdClient\<close> over \<open>Socket\<close> and \<open>File\<close>), its table of waiting
  clients (\<open>Poll\<close>, \<open>HttpdWorker\<close>), the client's requests (\<open>HttpQuery\<close>, \<open>HttpMakeClientBuffer\<close>) with
  authentication (\<open>HttpAuth\<close>, \<open>HttpBasic\<close>, \<open>HttpDigest\<close>), and its reading of responses (\<open>HttpRound\<close>,
  \<open>HttpConnection\<close>, \<open>IHttpReader\<close>, \<open>HttpChunked\<close>).  \<open>XmlParser\<close> reads documents.  They call each other only through these
  interfaces; the objects are shared by counted pointers.

  \<^bold>\<open>Conventions.\<close>  A result \<open>None\<close> is undefined behaviour in C++ (NULL dereferenced, an access outside
  an allocation) or, for a \<open>partial_function\<close>, a loop that does not end.  Errors that the code reports are values: \<open>rv\<close> is
  what a caller sees of a \<open>sp<Retval>\<close> (\<open>None\<close> for NULL, else code and errno).  C strings are lists of
  characters, cut at the first NUL by \<open>cstr\<close>; machine integers are words, or integers reduced where
  the code's type ends (\<open>to_int32\<close>, \<open>clamp64\<close>, \<open>mod 2 ^ 64\<close>).  The allocator's outcome is a parameter
  of the operations that allocate.  Plain \<open>char\<close> is signed.

  \<^bold>\<open>Bounds.\<close>  Where the code keeps a length or an offset in an \<open>int\<close>, the model converts as the code does and
  the properties state the sizes up to which the conversion changes nothing: \<open>2 ^ 31\<close> characters for the offsets of
  \<open>String::indexOf\<close>, \<open>lastIndexOf\<close> and \<open>replace\<close>, and so for URIs (\<open>uri_wf\<close>); \<open>2 ^ 31 - 3\<close> for \<open>urldecode\<close> (and so in
  \<open>line_wf\<close>, \<open>client_wf\<close>) and for the arithmetic of \<open>Base64::decodeLen\<close>; \<open>2 ^ 29\<close> bytes for \<open>Base64::encode\<close>, beyond
  which it always overruns its buffer (\<open>base64_encode_overflows\<close>).  \<open>File::seek\<close> cuts the position to 32 bits, so offsets
  congruent to \<open>2 ^ 32 - 1\<close> fail (\<open>seek_lost\<close>, \<open>seekable\<close>).  The lines of a received head come through a reading
  buffer of 51200 bytes, and the sizes of containers through one allocation per element: there the model uses natural numbers.

  \<^bold>\<open>The theories.\<close>
  \<^item> \<open>Dfw_Prelude\<close>: characters, C string functions, numbers, list lemmas.
  \<^item> \<open>Dfw_Order\<close>: the operator macros as the record \<open>cmp_ops\<close> and the contract \<open>dfw_order\<close> (locale), with
    interpretations for \<open>int\<close> here, for \<open>String\<close> in \<open>Dfw_String_Spec\<close> and for named values in
    \<open>Dfw_HttpHeader\<close>.
  \<^item> \<open>Dfw_String\<close>, \<open>Dfw_String_Spec\<close>: buffer, length and capacity, every operation with its memory accesses;
    the operations refine list operations; searching, comparing and replacing against references.
    \<open>Dfw_Text\<close>: the same operations on contents, for the components above.
  \<^item> \<open>Dfw_Retval\<close>: the codes, the stack of frames, the tables of errno and WSA codes.
  \<^item> \<open>Dfw_Array\<close>, \<open>Dfw_Array_Spec\<close>: growing storage, both bisections with the interval's length as fuel (it
    shrinks in each round), insertion and removal; order, multiset and bounds.
  \<^item> \<open>Dfw_Queue\<close>: \<open>Queue\<close> and \<open>ArrayLinked\<close> over a heap of nodes; the locale \<open>fifo\<close> and its interpretation.
  \<^item> \<open>Dfw_Sp\<close>: counts and handles; legal histories keep every count equal to the number of owners.
  \<^item> \<open>Dfw_Base64\<close>, \<open>Dfw_MD5\<close>: codecs and digest, round trip, bounds, streaming against one-shot.
  \<^item> \<open>Dfw_Uri\<close>, \<open>Dfw_Uri_Spec\<close>: \<open>PathInfo\<close>, \<open>FileInfo\<close>, parsing and printing of URIs, default ports, operators.
    The two regular expressions are written out as scanners.
  \<^item> \<open>Dfw_Time\<close>, \<open>Dfw_Time_Spec\<close>: \<open>Time\<close>'s members and printer, the masks and formats of the date parser, the
    seconds in 32 bits; against a calendar that counts the days year by year and month by month.
  \<^item> \<open>Dfw_HttpHeader\<close>: named values, header lists, contexts; the locale \<open>keyed_store\<close> and its interpretation
    (100 names, the first capacity of the array, is where removal starts to read behind it).
  \<^item> \<open>Dfw_HttpUtil\<close>: \<open>urldecode\<close> and \<open>checkRangeBytes\<close>.
  \<^item> \<open>Dfw_HttpRequest\<close>, \<open>Dfw_HttpRequest_Spec\<close>: the request state machine; reading back printed requests; the
    NULL dereferences a client can provoke.  The loop over header lines ends because each line
    shortens the buffer.
  \<^item> \<open>Dfw_HttpBody\<close>, \<open>Dfw_HttpBody_Spec\<close>: regrouping into blocks, the chunked coding; the callback and the
    socket are parameters.  The locale \<open>block_log\<close> is what the readers need of a callback that keeps the blocks.
  \<^item> \<open>Dfw_Net\<close>: the waiting, sending and receiving loops of \<open>Socket\<close> over the operating system's answers, one
    list for each kind of call; the locale \<open>byte_sink\<close> and its interpretation.  Each round of a loop takes
    an answer, so the loops end; when a list is used up the system reports an error.
  \<^item> \<open>Dfw_File\<close>: \<open>File\<close> with its remembered offset over a descriptor with the system's position; \<open>save\<close>
    and \<open>contents\<close>.
  \<^item> \<open>Dfw_HttpResponse\<close>: the members and the text of a response, error pages, and \<open>HttpdClient\<close>'s choice of
    an answer (not found, directory, not modified, the file).
  \<^item> \<open>Dfw_HttpSend\<close>: the state machine that sends a file: 0 prepare, 1 head, 2 contents, 3 wait for the
    acknowledgements; the loops of \<open>sendResponse\<close>; the poll thread's step.  The file system's answers
    and the modules are the record \<open>env\<close>, the clock is a list of readings.
    \<open>Dfw_HttpSend_Spec\<close> proves the invariant \<open>transfer_inv\<close> of every step: what the client holds is a
    prefix of the head and the range.  \<open>Dfw_HttpServe_Spec\<close> has the result (\<open>response_is_head_and_range\<close>) and the
    termination (\<open>transfer_completes\<close>): as many answers as head and range have bytes are enough.
    \<open>Dfw_HttpRange_Spec\<close>: the ranges a request selects, those refused, and the poll thread.
  \<^item> \<open>Dfw_HttpClient\<close>: the client's side of a response: status line and header lines, the line reader over
    its buffer of 51200 bytes, the readers of contents with their stack buffers, the choice between them.
    Every wait takes one of the system's answers to \<open>poll\<close>, so their number is the fuel of every loop.
    \<open>Dfw_HttpClient_Spec\<close>: a socket that delivers a given text in pieces of any lengths (\<open>sock_queue\<close>,
    \<open>calm\<close>); what is read back of a printed response; lines longer than the buffer; a line without a name.
    \<open>Dfw_HttpChunked_Spec\<close>: the same for chunked contents however they are cut, and the chunk line whose
    remainder does not fit behind what is already buffered.
  \<^item> \<open>Dfw_HttpAuth\<close>: the parameters of a challenge, the digest, the answers of both schemes.
    \<open>Dfw_HttpAuth_Spec\<close>: the locale \<open>param_names\<close> (which names of parameters a loop recognises) with its
    interpretations for the three tables of names; the digest against RFC 2617; challenges that lack a
    parameter.
  \<^item> \<open>Dfw_HttpQuery\<close>: form data, the text of a request with its contents.  \<open>Dfw_HttpQuery_Spec\<close> composes it with
    the server's parser, with \<open>Dfw_HttpAuth\<close> and with \<open>Dfw_Base64\<close>.
  \<^item> \<open>Dfw_Split\<close>: \<open>StringArray::split\<close> against the list of fields.
  \<^item> \<open>Dfw_Xml\<close>, \<open>Dfw_Xml_Spec\<close>: \<open>XmlParser\<close> and the document it builds, a list of nodes that refer to their children
    by number; parsing a printed tree and reading it back, the text of elements, the search (whose depth, at most the
    number of nodes, is its fuel), texts that are cut.
  \<^item> \<open>Dfw_Poll\<close>, \<open>Dfw_Poll_Spec\<close>: the table of descriptors over the counts of \<open>Dfw_Sp\<close>, refining a list of entries whose
    references it holds; the round of the server's worker over it.

  \<^bold>\<open>Not modelled.\<close>  System calls and what only wraps them (sockets, polling, threads, files, signals,
  logging, monitoring of \<open>/proc\<close>), calls into the vendored packages (OpenSSL, libssh2, sqlite3, pcre2),
  the C library's formatting and date functions (\<open>strftime\<close>, \<open>sscanf\<close>, \<open>mktime\<close>, \<open>localtime_r\<close>, the
  last one a parameter), dead code (\<open>Tree.h\<close>, unused parsers of \<open>URI\<close>).  Still open: the
  client's redirects and retries, the caches of host names, the server's tables of hosts
  and origins, the dynamic loader of the Windows port.  Concurrency is not modelled: the locks of \<open>Object\<close> are taken to exclude each other.
\<close>

end
